(* ===== verification/Prelude.thy ===== *)
theory Prelude
  imports Main "HOL-Library.List_Lexorder" "HOL-Library.Char_ord" "HOL-Library.Product_Lexorder"
begin

text \<open>
  Shared vocabulary of the development: Python exceptions as values, SQLite transactions as
  functions on a state, SQLite tables as lists of rows in insertion order with the statements
  the code issues (UPDATE .. WHERE, INSERT OR IGNORE, SELECT .. fetchone, LIMIT), the retry
  schedule of the operation state store, and the two interfaces the components rely on: a table
  with a primary key, and a queue whose rows are claimed under a lease.
\<close>

named_theorems row_intros \<open>row-wise preservation facts\<close>

section \<open>Python values\<close>

text \<open>
  The exceptions the modelled code raises, with their message (\<open>OverflowError\<close> is that of \<open>int\<close>). \<open>BindingError\<close> is what \<open>sqlite3\<close> raises for
  a value it cannot bind to a statement, \<open>DecimalOverflow\<close> is \<open>decimal.Overflow\<close>.
\<close>

datatype py_exn =
    ValueError string
  | KeyError string
  | RuntimeError string
  | TypeError string
  | IndexError string
  | IntegrityError string
  | PermissionError string
  | BindingError string
  | OverflowError string
  | DecimalOverflow

text \<open>\<open>str(exc)\<close>: a \<open>KeyError\<close> shows the \<open>repr\<close> of its key.\<close>

definition exn_text :: "py_exn \<Rightarrow> string" where
  "exn_text e = (case e of ValueError t \<Rightarrow> t | KeyError t \<Rightarrow> [CHR 0x27] @ t @ [CHR 0x27]
     | RuntimeError t \<Rightarrow> t | TypeError t \<Rightarrow> t | IndexError t \<Rightarrow> t | IntegrityError t \<Rightarrow> t
     | PermissionError t \<Rightarrow> t | BindingError t \<Rightarrow> t | OverflowError t \<Rightarrow> t
     | DecimalOverflow \<Rightarrow> ''[<class '' @ [CHR 0x27] @ ''decimal.Overflow'' @ [CHR 0x27] @ ''>]'')"

text \<open>
  Naive Beijing wall-clock times are counted in microseconds; the code stores their ISO text,
  whose lexicographic order is the order of the times.
\<close>

type_synonym instant = int

definition seconds :: "int \<Rightarrow> int" where
  "seconds n = n * 1000000"

definition minutes :: "int \<Rightarrow> int" where
  "minutes n = seconds (n * 60)"

definition py_space :: "char \<Rightarrow> bool" where
  "py_space c \<longleftrightarrow> c \<in> set (map char_of [9, 10, 11, 12, 13, 28, 29, 30, 31, 32 :: nat])"

text \<open>\<open>str.strip()\<close>, on the whitespace of the ASCII range.\<close>

definition py_strip :: "string \<Rightarrow> string" where
  "py_strip s = rev (dropWhile py_space (rev (dropWhile py_space s)))"

definition chars_between :: "char \<Rightarrow> char \<Rightarrow> char \<Rightarrow> bool" where
  "chars_between a b c \<longleftrightarrow> a \<le> c \<and> c \<le> b"

text \<open>\<open>lower()\<close> and \<open>upper()\<close>, on the ASCII letters.\<close>

definition lower_char :: "char \<Rightarrow> char" where
  "lower_char c = (if chars_between (CHR ''A'') (CHR ''Z'') c then char_of (of_char c + 32 :: nat) else c)"

definition upper_char :: "char \<Rightarrow> char" where
  "upper_char c = (if chars_between (CHR ''a'') (CHR ''z'') c then char_of (of_char c - 32 :: nat) else c)"

definition py_lower :: "string \<Rightarrow> string" where
  "py_lower t = map lower_char t"

definition py_upper :: "string \<Rightarrow> string" where
  "py_upper t = map upper_char t"

text \<open>\<open>re.fullmatch(r'[0-9a-f]{n}', s)\<close>.\<close>

definition hex_text :: "nat \<Rightarrow> string \<Rightarrow> bool" where
  "hex_text n s \<longleftrightarrow> length s = n \<and>
     list_all (\<lambda>c. chars_between (CHR ''0'') (CHR ''9'') c \<or> chars_between (CHR ''a'') (CHR ''f'') c) s"

text \<open>A Python sequence index: negative indices count from the end, others raise.\<close>

definition py_nth :: "'a list \<Rightarrow> int \<Rightarrow> py_exn + 'a" where
  "py_nth xs i =
     (if i \<ge> int (length xs) \<or> i < - int (length xs) then Inl (IndexError ''tuple index out of range'')
      else if i \<ge> 0 then Inr (xs ! nat i)
      else Inr (rev xs ! nat (- i - 1)))"

definition first_nonempty :: "string option \<Rightarrow> string \<Rightarrow> string" where
  "first_nonempty x d = (case x of None \<Rightarrow> d | Some s \<Rightarrow> if s = [] then d else s)"

section \<open>Results and transactions\<close>

definition bind_result :: "'e + 'a \<Rightarrow> ('a \<Rightarrow> 'e + 'b) \<Rightarrow> 'e + 'b" where
  "bind_result r f = (case r of Inl e \<Rightarrow> Inl e | Inr a \<Rightarrow> f a)"

lemma bind_result_simps [simp]:
  "bind_result (Inl e) f = Inl e"
  "bind_result (Inr a) f = f a"
  by (simp_all add: bind_result_def)

lemma bind_result_Inr:
  "bind_result r f = Inr b \<longleftrightarrow> (\<exists>a. r = Inr a \<and> f a = Inr b)"
  by (cases r) auto

text \<open>A loop that raises: the first failing iteration ends it.\<close>

fun each_tx :: "('x \<Rightarrow> 's \<Rightarrow> 'e + 's) \<Rightarrow> 'x list \<Rightarrow> 's \<Rightarrow> 'e + 's" where
  "each_tx f [] s = Inr s"
| "each_tx f (x # xs) s = bind_result (f x s) (each_tx f xs)"

lemma each_tx_preserves:
  assumes "each_tx f xs s = Inr s'" and "P s"
    and "\<And>x s t. x \<in> set xs \<Longrightarrow> P s \<Longrightarrow> f x s = Inr t \<Longrightarrow> P t"
  shows "P s'"
  using assms
proof (induction xs arbitrary: s)
  case (Cons x xs)
  from Cons.prems(1) obtain t where t: "f x s = Inr t" "each_tx f xs t = Inr s'"
    by (auto simp: bind_result_Inr)
  have "P t" using Cons.prems(2,3) t(1) by auto
  with t(2) Cons.prems(3) show ?case by (intro Cons.IH) auto
qed auto

text \<open>A comprehension over a function that raises.\<close>

fun map_result :: "('a \<Rightarrow> 'e + 'b) \<Rightarrow> 'a list \<Rightarrow> 'e + 'b list" where
  "map_result f [] = Inr []"
| "map_result f (x # xs) = bind_result (f x) (\<lambda>y. bind_result (map_result f xs) (\<lambda>ys. Inr (y # ys)))"

lemma map_result_Inr: "map_result f xs = Inr ys \<longleftrightarrow> list_all2 (\<lambda>x y. f x = Inr y) xs ys"
  by (induction xs arbitrary: ys) (auto simp: bind_result_Inr list_all2_Cons1)

lemma map_result_each: "map_result f xs = Inr ys \<Longrightarrow> x \<in> set xs \<Longrightarrow> \<exists>y \<in> set ys. f x = Inr y"
  by (induction xs arbitrary: ys) (auto simp: bind_result_Inr)

lemma map_result_map: "(\<And>x. x \<in> set xs \<Longrightarrow> f x = Inr (g x)) \<Longrightarrow> map_result f xs = Inr (map g xs)"
  by (induction xs) simp_all

text \<open>\<open>with conn:\<close> commits when the body returns and rolls everything back when it raises.\<close>

definition commit :: "('s \<Rightarrow> 'e + 'a \<times> 's) \<Rightarrow> 's \<Rightarrow> ('e + 'a) \<times> 's" where
  "commit body s = (case body s of Inl e \<Rightarrow> (Inl e, s) | Inr (a, s') \<Rightarrow> (Inr a, s'))"

lemma commit_Inl: "commit body s = (Inl e, s') \<longleftrightarrow> body s = Inl e \<and> s' = s"
  by (auto simp: commit_def split: sum.splits prod.splits)

lemma commit_Inr: "commit body s = (Inr a, s') \<longleftrightarrow> body s = Inr (a, s')"
  by (auto simp: commit_def split: sum.splits prod.splits)

lemma commit_preserves:
  assumes "P s" and "\<And>a t. body s = Inr (a, t) \<Longrightarrow> P t"
  shows "P (snd (commit body s))"
  using assms by (auto simp: commit_def split: sum.splits prod.splits)

section \<open>SQLite tables\<close>

definition sql_update :: "('r \<Rightarrow> bool) \<Rightarrow> ('r \<Rightarrow> 'r) \<Rightarrow> 'r list \<Rightarrow> 'r list" where
  "sql_update p f t = map (\<lambda>r. if p r then f r else r) t"

definition rowcount :: "('r \<Rightarrow> bool) \<Rightarrow> 'r list \<Rightarrow> nat" where
  "rowcount p t = length (filter p t)"

definition fetchone :: "('r \<Rightarrow> bool) \<Rightarrow> 'r list \<Rightarrow> 'r option" where
  "fetchone p t = find p t"

definition insert_ignore :: "('r \<Rightarrow> 'k) \<Rightarrow> 'r \<Rightarrow> 'r list \<Rightarrow> 'r list \<times> nat" where
  "insert_ignore key row t = (if key row \<in> key ` set t then (t, 0) else (t @ [row], 1))"

text \<open>SQLite reads a negative LIMIT as no limit.\<close>

definition sql_limit :: "int \<Rightarrow> 'r list \<Rightarrow> 'r list" where
  "sql_limit n rows = (if n < 0 then rows else take (nat n) rows)"

lemma set_sql_limit: "set (sql_limit n rows) \<subseteq> set rows"
  by (auto simp: sql_limit_def dest: in_set_takeD)

lemma distinct_sql_limit: "distinct (map f rows) \<Longrightarrow> distinct (map f (sql_limit n rows))"
  by (simp add: sql_limit_def) (metis distinct_take take_map)

lemma length_sql_limit: "0 \<le> n \<Longrightarrow> length (sql_limit n rows) \<le> nat n"
  by (simp add: sql_limit_def)

lemma fetchone_Some: "fetchone p t = Some r \<Longrightarrow> r \<in> set t \<and> p r"
  by (auto simp: fetchone_def find_Some_iff)

lemma fetchone_None: "fetchone p t = None \<longleftrightarrow> (\<forall>r \<in> set t. \<not> p r)"
  by (auto simp: fetchone_def find_None_iff)

lemma rowcount_0: "rowcount p t = 0 \<longleftrightarrow> (\<forall>r \<in> set t. \<not> p r)"
  by (auto simp: rowcount_def filter_empty_conv)

lemma in_sql_update:
  "r' \<in> set (sql_update p f t) \<longleftrightarrow> (\<exists>r \<in> set t. r' = (if p r then f r else r))"
  by (auto simp: sql_update_def)

lemma sql_update_none: "(\<And>r. r \<in> set t \<Longrightarrow> \<not> p r) \<Longrightarrow> sql_update p f t = t"
  by (simp add: sql_update_def map_idI)

lemma sql_update_Nil [simp]: "sql_update p f [] = []"
  by (simp add: sql_update_def)

lemma length_sql_update [simp]: "length (sql_update p f t) = length t"
  by (simp add: sql_update_def)

lemma sql_update_all:
  assumes "\<And>r. r \<in> set t \<Longrightarrow> P r" and "\<And>r. P r \<Longrightarrow> p r \<Longrightarrow> P (f r)"
    and "r \<in> set (sql_update p f t)"
  shows "P r"
  using assms by (auto simp: in_sql_update)

section \<open>Tables with a primary key\<close>

definition unique_keys :: "('r \<Rightarrow> 'k) \<Rightarrow> 'r list \<Rightarrow> bool" where
  "unique_keys key t \<longleftrightarrow> distinct (map key t)"

definition row_of :: "('r \<Rightarrow> 'k) \<Rightarrow> 'k \<Rightarrow> 'r list \<Rightarrow> 'r option" where
  "row_of key k t = fetchone (\<lambda>r. key r = k) t"

lemma unique_keys_Nil [simp]: "unique_keys key []"
  by (simp add: unique_keys_def)

lemma unique_keys_eq:
  "unique_keys key t \<Longrightarrow> r \<in> set t \<Longrightarrow> r' \<in> set t \<Longrightarrow> key r = key r' \<Longrightarrow> r = r'"
  by (auto simp: unique_keys_def distinct_map inj_on_def)

lemma map_key_sql_update:
  "(\<And>r. r \<in> set t \<Longrightarrow> p r \<Longrightarrow> key (f r) = key r) \<Longrightarrow> map key (sql_update p f t) = map key t"
  by (simp add: sql_update_def)

lemma keys_sql_update:
  assumes "\<And>r. key (f r) = key r"
  shows "key ` set (sql_update p f t) = key ` set t"
  using map_key_sql_update [of t p key f] assms by (metis list.set_map)

lemma unique_keys_sql_update [row_intros]:
  "(\<And>r. r \<in> set t \<Longrightarrow> p r \<Longrightarrow> key (f r) = key r) \<Longrightarrow> unique_keys key t \<Longrightarrow>
   unique_keys key (sql_update p f t)"
  by (simp add: unique_keys_def map_key_sql_update)

lemma unique_keys_insert_ignore [row_intros]:
  "unique_keys key t \<Longrightarrow> unique_keys key (fst (insert_ignore key row t))"
  by (auto simp: unique_keys_def insert_ignore_def)

lemma unique_keys_snoc:
  "unique_keys key (t @ [row]) \<longleftrightarrow> unique_keys key t \<and> key row \<notin> key ` set t"
  by (auto simp: unique_keys_def)

lemma row_of_Some: "row_of key k t = Some r \<Longrightarrow> r \<in> set t \<and> key r = k"
  by (auto simp: row_of_def dest: fetchone_Some)

lemma row_of_None: "row_of key k t = None \<longleftrightarrow> k \<notin> key ` set t"
  by (auto simp: row_of_def fetchone_None)

lemma row_of_key: "row_of key k t = Some r \<Longrightarrow> k \<in> key ` set t"
  by (auto dest: row_of_Some)

lemma row_of_unique:
  assumes "unique_keys key t" and "r \<in> set t"
  shows "row_of key (key r) t = Some r"
proof (cases "row_of key (key r) t")
  case None
  with assms(2) show ?thesis by (auto simp: row_of_None)
next
  case (Some r')
  then have "r' \<in> set t" "key r' = key r" by (auto dest: row_of_Some)
  with assms have "r' = r" by (auto dest: unique_keys_eq)
  with Some show ?thesis by simp
qed

lemma row_of_Nil [simp]: "row_of key k [] = None"
  by (simp add: row_of_def fetchone_def)

lemma row_of_Cons:
  "row_of key k (r # t) = (if key r = k then Some r else row_of key k t)"
  by (simp add: row_of_def fetchone_def)

lemma row_of_sql_update:
  assumes "\<And>r. r \<in> set t \<Longrightarrow> p r \<Longrightarrow> key (f r) = key r"
  shows "row_of key k (sql_update p f t) = map_option (\<lambda>r. if p r then f r else r) (row_of key k t)"
  using assms by (induction t) (auto simp: sql_update_def row_of_Cons)

lemma row_of_append:
  "row_of key k (t @ [row]) =
     (case row_of key k t of Some r \<Rightarrow> Some r | None \<Rightarrow> if key row = k then Some row else None)"
  by (induction t) (auto simp: row_of_Cons)

lemma row_of_insert_ignore:
  "row_of key k (fst (insert_ignore key row t)) =
     (case row_of key k t of Some r \<Rightarrow> Some r | None \<Rightarrow> if key row = k then Some row else None)"
  by (auto simp: insert_ignore_def row_of_append row_of_None split: option.splits)

lemma insert_ignore_count:
  "snd (insert_ignore key row t) = (if key row \<in> key ` set t then 0 else 1)"
  by (simp add: insert_ignore_def)

lemma insert_ignore_set:
  "set (fst (insert_ignore key row t)) \<subseteq> insert row (set t)"
  by (auto simp: insert_ignore_def)

lemma rowcount_key_le:
  assumes "unique_keys key t" and "\<And>r. p r \<Longrightarrow> key r = k"
  shows "rowcount p t \<le> 1"
  using assms
proof (induction t)
  case Nil
  then show ?case by (simp add: rowcount_def)
next
  case (Cons r t)
  then have u: "unique_keys key t" "key r \<notin> key ` set t" by (auto simp: unique_keys_def)
  show ?case
  proof (cases "p r")
    case True
    with Cons.prems(2) u(2) have "\<forall>x \<in> set t. \<not> p x" by auto
    with True show ?thesis by (simp add: rowcount_def filter_empty_conv)
  next
    case False
    with Cons.IH [OF u(1) Cons.prems(2)] show ?thesis by (simp add: rowcount_def)
  qed
qed

lemma rowcount_key_1:
  assumes "unique_keys key t" and "\<And>r. p r \<Longrightarrow> key r = k"
  shows "rowcount p t = 1 \<longleftrightarrow> (\<exists>r \<in> set t. p r)"
proof -
  have "rowcount p t \<le> 1" using assms by (rule rowcount_key_le)
  moreover have "rowcount p t = 0 \<longleftrightarrow> \<not> (\<exists>r \<in> set t. p r)" by (auto simp: rowcount_0)
  ultimately show ?thesis by auto
qed

section \<open>The retry schedule\<close>

text \<open>\<open>_RETRY_MINUTES\<close> and \<open>_CLAIM_LEASE_MINUTES\<close> of the operation state store.\<close>

definition retry_minutes :: "int list" where
  "retry_minutes = [1, 5, 15, 60]"

definition claim_lease_minutes :: int where
  "claim_lease_minutes = 5"

text \<open>\<open>now + timedelta(minutes=_RETRY_MINUTES[min(attempt - 1, 3)])\<close>, for \<open>attempt\<close> at least one.\<close>

definition retry_delay :: "nat \<Rightarrow> int" where
  "retry_delay attempt = minutes (retry_minutes ! min (attempt - 1) (length retry_minutes - 1))"

lemma retry_delay_bounds: "minutes 1 \<le> retry_delay n \<and> retry_delay n \<le> minutes 60"
  by (simp add: retry_delay_def retry_minutes_def minutes_def seconds_def nth_Cons')

lemma retry_delay_mono: "m \<le> n \<Longrightarrow> retry_delay m \<le> retry_delay n"
  by (auto simp: retry_delay_def retry_minutes_def minutes_def seconds_def nth_Cons')

section \<open>Queues claimed under a lease\<close>

text \<open>
  The selection of a claim: the waiting rows that are due, oldest first, at most \<open>limit\<close>.
  Rows created at the same instant keep their insertion order.
\<close>

definition select_due ::
    "('r \<Rightarrow> bool) \<Rightarrow> ('r \<Rightarrow> instant) \<Rightarrow> int \<Rightarrow> 'r list \<Rightarrow> 'r list" where
  "select_due due created limit t = sql_limit limit (sort_key created (filter due t))"

text \<open>
  The claim loop: one guarded UPDATE per selected row, which counts as claimed when exactly one
  row was updated.
\<close>

fun claim_loop ::
    "('r \<Rightarrow> 'k) \<Rightarrow> ('r \<Rightarrow> bool) \<Rightarrow> ('r \<Rightarrow> 'r) \<Rightarrow> 'r list \<Rightarrow> 'r list \<Rightarrow> 'r list \<times> 'r list" where
  "claim_loop key guard take_row [] t = ([], t)"
| "claim_loop key guard take_row (row # rows) t =
     (let hit = (\<lambda>r. key r = key row \<and> guard r);
          (claimed, t') = claim_loop key guard take_row rows (sql_update hit take_row t)
      in (if rowcount hit t = 1 then row # claimed else claimed, t'))"

lemma row_at:
  assumes "unique_keys key t" and "r \<in> set t" and "key r = k"
  shows "row_of key k t = Some r"
  using row_of_unique [OF assms(1,2)] assms(3) by simp

lemma select_due_props:
  assumes "rows = select_due due created limit t"
  shows "set rows \<subseteq> {r \<in> set t. due r}"
    and "sorted (map created rows)"
    and "0 \<le> limit \<Longrightarrow> length rows \<le> nat limit"
proof -
  show "set rows \<subseteq> {r \<in> set t. due r}"
    using set_sql_limit [of limit "sort_key created (filter due t)"]
    by (auto simp: assms select_due_def)
  show "sorted (map created rows)"
    by (simp add: assms select_due_def sql_limit_def) (metis sorted_sort_key sorted_wrt_take take_map)
  show "0 \<le> limit \<Longrightarrow> length rows \<le> nat limit"
    by (simp add: assms select_due_def length_sql_limit)
qed

text \<open>
  The contract of such a queue: every row of a table may be waiting, or taken by a holder;
  sweeping expired leases and taking a row keep its key, and a taken row waits no more.
\<close>

locale lease_queue =
  fixes key :: "'r \<Rightarrow> 'k"
    and waiting :: "'r \<Rightarrow> bool"
    and holder :: "'r \<Rightarrow> string option"
    and sweep :: "instant \<Rightarrow> 'r \<Rightarrow> 'r"
    and take_row :: "string \<Rightarrow> instant \<Rightarrow> 'r \<Rightarrow> 'r"
  assumes sweep_key: "key (sweep now r) = key r"
    and take_key: "key (take_row c now r) = key r"
    and take_not_waiting: "\<not> waiting (take_row c now r)"
    and take_holder: "holder (take_row c now r) = Some c"
    and sweep_waiting: "waiting r \<Longrightarrow> sweep now r = r"
begin

lemma claim_loop_eq:
  assumes "unique_keys key t" and "set rows \<subseteq> set t" and "distinct rows"
    and "\<And>r. r \<in> set rows \<Longrightarrow> guard r"
  shows "claim_loop key guard (take_row c now) rows t =
           (rows, sql_update (\<lambda>r. key r \<in> key ` set rows) (take_row c now) t)"
  using assms
proof (induction rows arbitrary: t)
  case Nil
  show ?case by (simp add: sql_update_none)
next
  case (Cons row rows)
  define hit where "hit = (\<lambda>r. key r = key row \<and> guard r)"
  define t1 where "t1 = sql_update hit (take_row c now) t"
  have uniq: "\<And>r. r \<in> set t \<Longrightarrow> key r = key row \<Longrightarrow> r = row"
    using Cons.prems(1,2) by (auto dest: unique_keys_eq)
  have one: "rowcount hit t = 1"
    using Cons.prems by (subst rowcount_key_1 [where key = key and k = "key row"]) (auto simp: hit_def)
  have u1: "unique_keys key t1"
    unfolding t1_def using Cons.prems(1) by (intro row_intros) (auto simp: take_key)
  have other: "key r \<noteq> key row" if "r \<in> set rows" for r
    using Cons.prems(2,3) that uniq by auto
  have sub: "set rows \<subseteq> set t1"
  proof
    fix r assume "r \<in> set rows"
    with other Cons.prems(2) show "r \<in> set t1"
      by (auto simp: t1_def in_sql_update hit_def intro!: bexI [of _ r])
  qed
  have IH: "claim_loop key guard (take_row c now) rows t1 =
      (rows, sql_update (\<lambda>r. key r \<in> key ` set rows) (take_row c now) t1)"
    using u1 sub Cons.prems(3,4) by (intro Cons.IH) auto
  have merge: "sql_update (\<lambda>r. key r \<in> key ` set rows) (take_row c now) t1 =
      sql_update (\<lambda>r. key r \<in> key ` set (row # rows)) (take_row c now) t"
  proof -
    have "(if key (if hit r then take_row c now r else r) \<in> key ` set rows
            then take_row c now (if hit r then take_row c now r else r)
            else (if hit r then take_row c now r else r)) =
          (if key r \<in> key ` set (row # rows) then take_row c now r else r)"
      if r: "r \<in> set t" for r
    proof (cases "key r = key row")
      case True
      with r uniq have "r = row" by blast
      moreover have "hit row" using Cons.prems(4) by (simp add: hit_def)
      moreover have "key row \<notin> key ` set rows" using other by force
      ultimately show ?thesis by (simp add: take_key)
    next
      case False
      then show ?thesis by (auto simp: hit_def)
    qed
    then show ?thesis by (simp add: t1_def sql_update_def)
  qed
  have "claim_loop key guard (take_row c now) (row # rows) t =
      (let (claimed, t') = claim_loop key guard (take_row c now) rows t1
       in (if rowcount hit t = 1 then row # claimed else claimed, t'))"
    by (simp add: hit_def t1_def Let_def)
  also have "\<dots> = (row # rows, sql_update (\<lambda>r. key r \<in> key ` set rows) (take_row c now) t1)"
    by (simp add: IH one)
  finally show ?case by (simp only: merge)
qed

lemma claim_eq:
  fixes created :: "'r \<Rightarrow> instant" and limit :: int and now :: instant and c :: string
  assumes "unique_keys key t" and "\<And>r. due r \<Longrightarrow> guard r"
    and rows_def: "rows = select_due due created limit t"
  shows "claim_loop key guard (take_row c now) rows t =
           (rows, sql_update (\<lambda>r. key r \<in> key ` set rows) (take_row c now) t)"
proof (rule claim_loop_eq)
  have sub: "set rows \<subseteq> set (filter due t)"
    unfolding rows_def select_due_def using set_sql_limit by force
  show "set rows \<subseteq> set t" using sub by auto
  show "guard r" if "r \<in> set rows" for r using that sub assms(2) by auto
  have "distinct (map id (sort_key created (filter due t)))"
    using assms(1) by (auto simp: unique_keys_def distinct_map)
  then show "distinct rows"
    unfolding rows_def select_due_def by (metis distinct_sql_limit list.map_id)
qed (rule assms(1))

text \<open>After a claim, the claimed rows are held by the claimer and every other row is unchanged.\<close>

lemma claim_rows:
  assumes "unique_keys key t" and "\<And>r. due r \<Longrightarrow> guard r"
    and "claim_loop key guard (take_row c now) (select_due due created limit t) t = (rows, t')"
  shows "rows = select_due due created limit t"
    and "r \<in> set rows \<Longrightarrow> row_of key (key r) t' = Some (take_row c now r)"
    and "k \<notin> key ` set rows \<Longrightarrow> row_of key k t' = row_of key k t"
    and "unique_keys key t'"
proof -
  note eq = claim_eq [OF assms(1,2) refl, where c = c and now = now and created = created and limit = limit]
  from eq assms(3) show rows: "rows = select_due due created limit t" by simp
  from eq assms(3) rows
  have t': "t' = sql_update (\<lambda>r. key r \<in> key ` set rows) (take_row c now) t" by simp
  show "unique_keys key t'"
    unfolding t' using assms(1) by (intro row_intros) (auto simp: take_key)
  have upd: "row_of key k t' =
      map_option (\<lambda>r. if key r \<in> key ` set rows then take_row c now r else r) (row_of key k t)" for k
    unfolding t' by (rule row_of_sql_update) (simp add: take_key)
  show "row_of key k t' = row_of key k t" if "k \<notin> key ` set rows"
    using that upd [of k] by (cases "row_of key k t") (auto dest: row_of_Some)
  show "row_of key (key r) t' = Some (take_row c now r)" if "r \<in> set rows"
  proof -
    have "r \<in> set t"
      using that rows unfolding select_due_def using set_sql_limit [of limit "sort_key created (filter due t)"] by auto
    then have "row_of key (key r) t = Some r" using assms(1) by (intro row_of_unique)
    with upd that show ?thesis by simp
  qed
qed

lemma sweep_table:
  assumes "unique_keys key t"
  shows "unique_keys key (map (sweep now) t)"
  using assms by (simp add: unique_keys_def sweep_key comp_def)

text \<open>A claim that first sweeps the expired leases of the whole table.\<close>

lemma swept_row: "row_of key k (map (sweep now) t) = map_option (sweep now) (row_of key k t)"
  by (induction t) (auto simp: row_of_Cons sweep_key)

lemma swept_claim_eq:
  assumes "unique_keys key t" and "\<And>r. due r \<Longrightarrow> guard r"
    and "rows = select_due due created limit (map (sweep now) t)"
  shows "claim_loop key guard (take_row c now) rows (map (sweep now) t) =
    (rows, sql_update (\<lambda>r. key r \<in> key ` set rows) (take_row c now) (map (sweep now) t))"
  by (rule claim_eq [OF sweep_table [OF assms(1)] assms(2,3)])

lemma swept_claim_due:
  assumes "unique_keys key t" and "rows = select_due due created limit (map (sweep now) t)"
    and "row_of key k t = Some r" and "k \<in> key ` set rows"
  shows "due (sweep now r)"
proof -
  from assms(4) obtain q where q: "q \<in> set rows" "key q = k" by force
  with select_due_props(1) [OF assms(2)] have "q \<in> set (map (sweep now) t)" "due q" by auto
  with row_at [OF sweep_table [OF assms(1)] _ q(2)] swept_row [of k now t] assms(3) show ?thesis
    by simp
qed

lemma swept_claim_row:
  assumes "unique_keys key t"
  shows "row_of key k (sql_update (\<lambda>r. key r \<in> key ` set rows) (take_row c now) (map (sweep now) t)) =
    (if k \<in> key ` set rows then map_option (\<lambda>r. take_row c now (sweep now r)) (row_of key k t)
     else map_option (sweep now) (row_of key k t))"
  by (subst row_of_sql_update)
    (auto simp: take_key swept_row sweep_key option.map_comp comp_def dest: row_of_Some
       split: option.splits intro!: option.map_cong0)

lemma swept_claim_unique:
  assumes "unique_keys key t"
  shows "unique_keys key (sql_update p (take_row c now) (map (sweep now) t))"
  using sweep_table [OF assms] by (intro row_intros) (auto simp: take_key)

text \<open>Without a limit, or with a large enough one, every row that is due after the sweep is claimed.\<close>

lemma swept_claim_all:
  assumes "limit < 0 \<or> length t \<le> nat limit"
    and "rows = select_due due created limit (map (sweep now) t)"
    and "row_of key k t = Some r" and "due (sweep now r)"
  shows "k \<in> key ` set rows"
proof -
  from assms(3) have "r \<in> set t" "key r = k" by (auto dest: row_of_Some)
  moreover define sorted_due where "sorted_due = sort_key created (filter due (map (sweep now) t))"
  moreover have "length sorted_due \<le> length t"
    using length_filter_le [of due "map (sweep now) t"] by (simp add: sorted_due_def)
  then have "sql_limit limit sorted_due = sorted_due"
    using assms(1) by (auto simp: sql_limit_def)
  ultimately have "sweep now r \<in> set rows"
    using assms(2,4) by (simp add: select_due_def)
  then show ?thesis using \<open>key r = k\<close> sweep_key by (metis imageI)
qed

end

end
