(* ===== verification/Json.thy ===== *)
theory Json
  imports Prelude "HOL-Library.AList"
begin

text \<open>
  JSON values as Python's \<open>json\<close> module sees them, and the canonical form behind
  \<open>canonical_json\<close> (\<open>app/_json.py\<close>): objects with their keys sorted, recursively. A TEXT
  column that holds canonical JSON is modelled by the canonical value itself: two such texts are
  equal exactly when the canonical values are, and \<open>json.loads\<close> of such a text gives that value
  back. A float is kept by the text of its \<open>repr\<close>, which is all the serialiser reads of it.
\<close>

datatype json =
    JNull
  | JBool bool
  | JInt int
  | JFloat string
  | JStr string
  | JArr "json list"
  | JObj "(string \<times> json) list"

type_synonym dict = "(string \<times> json) list"

fun canonical_json :: "json \<Rightarrow> json" where
  "canonical_json (JArr xs) = JArr (map canonical_json xs)"
| "canonical_json (JObj kvs) =
     JObj (sort_key fst (map (\<lambda>kv. (fst kv, canonical_json (snd kv))) kvs))"
| "canonical_json j = j"

text \<open>Dictionaries: lookup, assignment (in place, or appended), merging \<open>{**d, **e}\<close>.\<close>

definition dict_get :: "string \<Rightarrow> dict \<Rightarrow> json option" where
  "dict_get k d = map_of d k"

definition dict_set :: "string \<Rightarrow> json \<Rightarrow> dict \<Rightarrow> dict" where
  "dict_set k v d = AList.update k v d"

definition dict_setdefault :: "string \<Rightarrow> json \<Rightarrow> dict \<Rightarrow> dict" where
  "dict_setdefault k v d = (if map_of d k = None then dict_set k v d else d)"

definition dict_merge :: "dict \<Rightarrow> dict \<Rightarrow> dict" where
  "dict_merge d e = foldl (\<lambda>acc kv. dict_set (fst kv) (snd kv) acc) d e"

text \<open>Python truth of \<open>d.get(k)\<close>: missing, null, false, zero and empty values are false.\<close>

definition falsy :: "json option \<Rightarrow> bool" where
  "falsy v \<longleftrightarrow> v \<in> set [None, Some JNull, Some (JBool False), Some (JInt 0), Some (JFloat ''0.0''), Some (JFloat ''-0.0''),
     Some (JStr []), Some (JArr []), Some (JObj [])]"

definition as_dict :: "json \<Rightarrow> dict" where
  "as_dict j = (case j of JObj d \<Rightarrow> d | _ \<Rightarrow> [])"

definition jopt :: "string option \<Rightarrow> json" where
  "jopt x = (case x of None \<Rightarrow> JNull | Some s \<Rightarrow> JStr s)"

lemma dict_get_set: "dict_get k (dict_set k' v d) = (if k = k' then Some v else dict_get k d)"
  by (simp add: dict_get_def dict_set_def update_conv)

lemma dict_get_setdefault:
  "dict_get k (dict_setdefault k' v d) =
     (if k = k' \<and> dict_get k' d = None then Some v else dict_get k d)"
  by (simp add: dict_setdefault_def dict_get_def dict_set_def update_conv)

lemma dict_get_merge:
  "distinct (map fst e) \<Longrightarrow>
   dict_get k (dict_merge d e) = (case dict_get k e of Some v \<Rightarrow> Some v | None \<Rightarrow> dict_get k d)"
proof (induction e arbitrary: d)
  case (Cons kv e)
  have merge: "dict_merge d (kv # e) = dict_merge (dict_set (fst kv) (snd kv) d) e"
    by (simp add: dict_merge_def)
  from Cons.prems have "map_of e (fst kv) = None" by (simp add: map_of_eq_None_iff)
  with Cons show ?case
    by (auto simp: merge dict_get_set) (auto simp: dict_get_def dict_set_def update_conv split: option.splits)
qed (simp add: dict_merge_def dict_get_def)

text \<open>Serialising a value that is already canonical changes nothing.\<close>

lemma sort_key_of_sorted: "sorted (map f xs) \<Longrightarrow> sort_key f xs = xs"
  by (rule sort_key_id_if_sorted)

lemma canonical_json_idem: "canonical_json (canonical_json j) = canonical_json j"
proof (induction j rule: canonical_json.induct)
  case (2 kvs)
  define c where "c = (\<lambda>kv. (fst kv :: string, canonical_json (snd kv)))"
  have cc: "map c (map c kvs) = map c kvs"
    using 2 by (auto simp: c_def)
  have "map c (sort_key fst (map c kvs)) = sort_key fst (map c (map c kvs))"
  proof -
    have fst_c: "fst (c kv) = fst kv" for kv by (simp add: c_def)
    have ins: "map c (insort_key fst kv xs) = insort_key fst (c kv) (map c xs)" for kv xs
      by (induction xs) (auto simp: fst_c)
    show ?thesis
      by (induction "map c kvs" arbitrary: kvs) (auto simp: ins sort_key_def)
  qed
  then have "map c (sort_key fst (map c kvs)) = sort_key fst (map c kvs)"
    by (simp only: cc)
  then show ?case
    by (simp add: c_def [symmetric] sort_key_of_sorted)
qed (auto simp: comp_def)

text \<open>Reading a canonical object back finds the canonical value of every key.\<close>

lemma map_of_sort_key:
  assumes "distinct (map fst kvs)"
  shows "map_of (sort_key fst kvs) = map_of kvs"
proof -
  have "distinct (map fst (sort_key fst kvs))"
    using assms by (simp add: distinct_map)
  with assms show ?thesis by (simp add: map_of_inject_set)
qed

section \<open>The text of a canonical value\<close>

definition hex_digit :: "nat \<Rightarrow> char" where
  "hex_digit n = (''0123456789abcdef'' ! n)"

fun nat_text :: "nat \<Rightarrow> string" where
  "nat_text n = (if n < 10 then [hex_digit n] else nat_text (n div 10) @ [hex_digit (n mod 10)])"

declare nat_text.simps [simp del]

definition int_text :: "int \<Rightarrow> string" where
  "int_text i = (if i < 0 then ''-'' @ nat_text (nat (- i)) else nat_text (nat i))"

definition char_text :: "char \<Rightarrow> string" where
  "char_text c =
     (let n = of_char c :: nat in
      if n = 34 then [CHR 0x5C, CHR 0x22]
      else if n = 92 then [CHR 0x5C, CHR 0x5C]
      else if n = 10 then [CHR 0x5C, CHR ''n'']
      else if n = 13 then [CHR 0x5C, CHR ''r'']
      else if n = 9 then [CHR 0x5C, CHR ''t'']
      else if n = 12 then [CHR 0x5C, CHR ''f'']
      else if n = 8 then [CHR 0x5C, CHR ''b'']
      else if n < 32 then CHR 0x5C # ''u00'' @ [hex_digit (n div 16), hex_digit (n mod 16)]
      else [c])"

definition str_text :: "string \<Rightarrow> string" where
  "str_text s = CHR 0x22 # concat (map char_text s) @ [CHR 0x22]"

fun sep_by :: "string list \<Rightarrow> string" where
  "sep_by [] = []"
| "sep_by [x] = x"
| "sep_by (x # y # xs) = x @ '','' @ sep_by (y # xs)"

fun json_text :: "json \<Rightarrow> string" where
  "json_text JNull = ''null''"
| "json_text (JBool b) = (if b then ''true'' else ''false'')"
| "json_text (JInt i) = int_text i"
| "json_text (JFloat t) = t"
| "json_text (JStr s) = str_text s"
| "json_text (JArr xs) = ''['' @ sep_by (map json_text xs) @ '']''"
| "json_text (JObj kvs) =
     [CHR ''{''] @ sep_by (map (\<lambda>kv. str_text (fst kv) @ '':'' @ json_text (snd kv)) kvs) @ [CHR ''}'']"

definition canonical_text :: "json \<Rightarrow> string" where
  "canonical_text j = json_text (canonical_json j)"

text \<open>
  \<open>str\<close> of a JSON value. A list or an object, which no caller passes in the places that use it, is
  written as its JSON text.
\<close>

definition py_str :: "json \<Rightarrow> string" where
  "py_str j = (case j of
      JNull \<Rightarrow> ''None''
    | JBool b \<Rightarrow> (if b then ''True'' else ''False'')
    | JInt i \<Rightarrow> int_text i
    | JFloat t \<Rightarrow> t
    | JStr t \<Rightarrow> t
    | _ \<Rightarrow> json_text j)"

text \<open>\<open>str(d.get(k) or "")\<close>.\<close>

definition text_or_empty :: "json option \<Rightarrow> string" where
  "text_or_empty v = (if falsy v then [] else py_str (the v))"

text \<open>The object a canonical text is read back as holds the canonical value of every key.\<close>

definition read_back :: "dict \<Rightarrow> dict" where
  "read_back d = as_dict (canonical_json (JObj d))"

lemma dict_get_read_back:
  assumes "distinct (map fst d)"
  shows "dict_get k (read_back d) = map_option canonical_json (dict_get k d)"
proof -
  let ?c = "map (\<lambda>kv. (fst kv, canonical_json (snd kv))) d"
  have "distinct (map fst ?c)" using assms by (simp add: comp_def)
  then have "map_of (sort_key fst ?c) = map_of ?c" by (rule map_of_sort_key)
  moreover have "map_of ?c k = map_option canonical_json (map_of d k)" by (induction d) auto
  ultimately show ?thesis by (simp add: read_back_def as_dict_def dict_get_def)
qed

lemma distinct_dict_set: "distinct (map fst d) \<Longrightarrow> distinct (map fst (dict_set k v d))"
  by (simp add: dict_set_def distinct_update)

lemma distinct_dict_merge: "distinct (map fst d) \<Longrightarrow> distinct (map fst (dict_merge d e))"
proof -
  assume "distinct (map fst d)"
  then have "distinct (map fst (foldl (\<lambda>acc kv. dict_set (fst kv) (snd kv) acc) d e))"
    by (induction e arbitrary: d) (auto simp: distinct_dict_set)
  then show ?thesis by (simp add: dict_merge_def)
qed

definition dict_del :: "string \<Rightarrow> dict \<Rightarrow> dict" where
  "dict_del k d = filter (\<lambda>kv. fst kv \<noteq> k) d"

lemma dict_get_del: "dict_get k (dict_del x d) = (if k = x then None else dict_get k d)"
  by (induction d) (auto simp: dict_get_def dict_del_def)

end
