(* ===== verification/Op_Schema.thy ===== *)
theory Op_Schema
  imports Json
begin

text \<open>
  The tables of the operation state database (\<open>app/operation_state/_schema.py\<close> and the monitor
  tables of \<open>_holding_monitor_mixin.py\<close>): one record per row type, with the columns of the DDL,
  and the store that holds every table. Status columns whose values are fixed by the code's own
  SQL literals are datatypes; the case state is supplied by callers, so it keeps a constructor
  for any other text.
\<close>

datatype futu_state = FutuPending | FutuRunning | FutuCompleted

record futu_refresh =
  fr_account :: string
  fr_request_id :: string
  fr_state :: futu_state
  fr_attempt_count :: int
  fr_next_attempt_at :: instant
  fr_result_json :: "json option"
  fr_last_error :: "string option"
  fr_created_at :: instant
  fr_updated_at :: instant

datatype agent_state =
  AgentPreviewed | AgentExecuting | AgentSucceeded | AgentNoop | AgentRejected | AgentUnknown

record agent_operation =
  ao_preview_id :: string
  ao_principal_id :: string
  ao_record_id :: string
  ao_grant_digest :: string
  ao_state :: agent_state
  ao_expires_at :: instant
  ao_snapshot_json :: json
  ao_result_json :: "json option"

record fx_confirmation =
  fx_confirmation_id :: string
  fx_record_id :: string
  fx_source_hash :: string
  fx_exchange_rate :: string
  fx_exchange_rate_date :: string
  fx_exchange_rate_source :: string
  fx_evidence_type :: string
  fx_cny_amount :: string
  fx_confirmation_json :: json
  fx_confirmed_at :: instant

datatype nav_status = NavPending | NavSending | NavSent | NavFailed

record nav_receipt =
  nr_receipt_key :: string
  nr_payload_json :: json
  nr_status :: nav_status
  nr_attempt_count :: nat
  nr_next_attempt_at :: instant
  nr_claim_id :: "string option"
  nr_claimed_at :: "instant option"
  nr_message_id :: "string option"
  nr_last_error :: "string option"
  nr_created_at :: instant
  nr_updated_at :: instant

datatype case_state =
    PendingApply
  | PendingConfirmation
  | PendingManualEdit
  | Applying
  | FailedRetryable
  | ApplyOutcomeUnknown
  | ResolvedAccept
  | ResolvedKeep
  | ResolvedExternal
  | Superseded
  | OtherState string

record holding_case =
  hc_case_key :: string
  hc_record_id :: string
  hc_account :: "string option"
  hc_identity_json :: json
  hc_field :: string
  hc_kind :: string
  hc_blocks_official_nav :: bool
  hc_policy_version :: string
  hc_authority_id :: "string option"
  hc_current_json :: json
  hc_proposed_json :: json
  hc_record_digest :: string
  hc_precondition_digest :: string
  hc_evidence_instance_id :: "string option"
  hc_evidence_json :: json
  hc_state :: case_state
  hc_resolution_json :: "json option"
  hc_target_json :: "json option"
  hc_before_json :: "json option"
  hc_apply_attempt_id :: "string option"
  hc_remote_attempt_started_at :: "instant option"
  hc_last_error :: "string option"
  hc_created_at :: instant
  hc_updated_at :: instant

record case_event =
  ce_event_seq :: nat
  ce_case_key :: string
  ce_event_type :: string
  ce_payload_json :: json
  ce_created_at :: instant

datatype inbox_state = InboxPending | InboxClaimed | InboxFailedRetryable | InboxProcessed

text \<open>\<open>holding_event_inbox\<close> and \<open>cash_flow_event_inbox\<close> have the same columns.\<close>

record inbox_event =
  ie_event_id :: string
  ie_event_type :: string
  ie_file_token :: string
  ie_table_id :: string
  ie_revision :: "string option"
  ie_action_list_json :: json
  ie_payload_digest :: string
  ie_state :: inbox_state
  ie_attempt_count :: nat
  ie_next_attempt_at :: instant
  ie_claim_id :: "string option"
  ie_claimed_at :: "instant option"
  ie_outcome_json :: "json option"
  ie_last_error :: "string option"
  ie_received_at :: instant
  ie_updated_at :: instant

datatype receipt_status = RcPending | RcClaimed | RcSending | RcSent | RcFailed | RcUnknown

record op_receipt =
  rc_receipt_key :: string
  rc_receipt_type :: string
  rc_payload_json :: json
  rc_status :: receipt_status
  rc_attempt_count :: nat
  rc_next_attempt_at :: instant
  rc_claim_id :: "string option"
  rc_claimed_at :: "instant option"
  rc_send_started_at :: "instant option"
  rc_message_id :: "string option"
  rc_last_error :: "string option"
  rc_created_at :: instant
  rc_updated_at :: instant

record holding_monitor =
  hm_scope_key :: string
  hm_file_token :: string
  hm_table_id :: string
  hm_settings_json :: json
  hm_epoch :: string
  hm_enabled :: bool
  hm_ready :: bool
  hm_rows_json :: json
  hm_requested :: nat
  hm_completed :: nat
  hm_observation_seq :: nat
  hm_next_due :: "instant option"
  hm_failure_count :: nat
  hm_manual_attempt_at :: "instant option"
  hm_manual_success_at :: "instant option"
  hm_manual_error :: "string option"
  hm_background_attempt_at :: "instant option"
  hm_background_success_at :: "instant option"
  hm_background_error :: "string option"

record holding_observation =
  hv_scope_key :: string
  hv_epoch :: string
  hv_observation_seq :: nat
  hv_mode :: string
  hv_observed_at :: instant
  hv_changes_json :: json

record op_store =
  futu_refresh_inbox :: "futu_refresh list"
  agent_name_operations :: "agent_operation list"
  fx_confirmations :: "fx_confirmation list"
  nav_receipt_outbox :: "nav_receipt list"
  holding_cases :: "holding_case list"
  holding_case_events :: "case_event list"
  holding_event_inbox :: "inbox_event list"
  cash_flow_event_inbox :: "inbox_event list"
  operation_receipt_outbox :: "op_receipt list"
  holding_change_monitor :: "holding_monitor list"
  holding_change_observations :: "holding_observation list"

definition empty_store :: op_store where
  "empty_store = \<lparr>futu_refresh_inbox = [], agent_name_operations = [], fx_confirmations = [],
     nav_receipt_outbox = [], holding_cases = [], holding_case_events = [],
     holding_event_inbox = [], cash_flow_event_inbox = [], operation_receipt_outbox = [],
     holding_change_monitor = [], holding_change_observations = []\<rparr>"

text \<open>The primary keys the DDL declares, as one well-formedness predicate of the store.\<close>

definition case_event_fk :: "op_store \<Rightarrow> bool" where
  "case_event_fk s \<longleftrightarrow>
     (\<forall>e \<in> set (holding_case_events s). ce_case_key e \<in> hc_case_key ` set (holding_cases s))"

definition keys_ok :: "op_store \<Rightarrow> bool" where
  "keys_ok s \<longleftrightarrow>
     unique_keys (\<lambda>r. (fr_account r, fr_request_id r)) (futu_refresh_inbox s) \<and>
     unique_keys ao_preview_id (agent_name_operations s) \<and>
     unique_keys fx_confirmation_id (fx_confirmations s) \<and>
     unique_keys nr_receipt_key (nav_receipt_outbox s) \<and>
     unique_keys hc_case_key (holding_cases s) \<and>
     unique_keys ie_event_id (holding_event_inbox s) \<and>
     unique_keys ie_event_id (cash_flow_event_inbox s) \<and>
     unique_keys rc_receipt_key (operation_receipt_outbox s) \<and>
     unique_keys hm_scope_key (holding_change_monitor s)"

lemma keys_ok_empty [simp]: "keys_ok empty_store"
  by (simp add: keys_ok_def empty_store_def)

lemma keys_okD:
  assumes "keys_ok s"
  shows "unique_keys (\<lambda>r. (fr_account r, fr_request_id r)) (futu_refresh_inbox s)"
    and "unique_keys ao_preview_id (agent_name_operations s)"
    and "unique_keys fx_confirmation_id (fx_confirmations s)"
    and "unique_keys nr_receipt_key (nav_receipt_outbox s)"
    and "unique_keys hc_case_key (holding_cases s)"
    and "unique_keys ie_event_id (holding_event_inbox s)"
    and "unique_keys ie_event_id (cash_flow_event_inbox s)"
    and "unique_keys rc_receipt_key (operation_receipt_outbox s)"
    and "unique_keys hm_scope_key (holding_change_monitor s)"
  using assms by (auto simp: keys_ok_def)

end
