(* ===== verification/Op_Receipts.thy ===== *)
theory Op_Receipts
  imports Op_Schema
begin

text \<open>
  The typed receipt outbox: \<open>app/operation_state/_receipt_tx.py\<close> and
  \<open>_operation_receipt_mixin.py\<close>. A receipt is enqueued once, claimed under a lease, announced as
  being sent, and marked; a send whose lease expires becomes \<open>unknown\<close> and is never picked up
  again without an operator's decision.
\<close>

section \<open>Operations\<close>

definition supported_receipt_types :: "string list" where
  "supported_receipt_types =
     [''futu_refresh_quantity_changed'', ''non_futu_holdings_changed'',
      ''cash_flow_reconcile_attention_required'', ''holding_case_discovered'',
      ''holding_case_closed'', ''holding_case_attention_required'']"

definition new_receipt :: "string \<Rightarrow> string \<Rightarrow> json \<Rightarrow> instant \<Rightarrow> op_receipt" where
  "new_receipt receipt_key receipt_type payload_json now =
     \<lparr>rc_receipt_key = receipt_key, rc_receipt_type = receipt_type, rc_payload_json = payload_json,
      rc_status = RcPending, rc_attempt_count = 0, rc_next_attempt_at = now, rc_claim_id = None,
      rc_claimed_at = None, rc_send_started_at = None, rc_message_id = None, rc_last_error = None,
      rc_created_at = now, rc_updated_at = now\<rparr>"

definition insert_operation_receipt_tx ::
    "string \<Rightarrow> string \<Rightarrow> json \<Rightarrow> instant \<Rightarrow> op_store \<Rightarrow> py_exn + bool \<times> op_store" where
  "insert_operation_receipt_tx receipt_key receipt_type payload now s =
     (if receipt_type \<notin> set supported_receipt_types then
        Inl (ValueError (''unsupported operation receipt type: '' @ receipt_type))
      else
        let payload_json = canonical_json payload;
            (t, n) = insert_ignore rc_receipt_key
                       (new_receipt receipt_key receipt_type payload_json now)
                       (operation_receipt_outbox s)
        in if n = 0 then
             (case row_of rc_receipt_key receipt_key t of
                None \<Rightarrow> Inl (ValueError
                  (''operation receipt key collision with different payload: '' @ receipt_key))
              | Some existing \<Rightarrow>
                  if rc_receipt_type existing \<noteq> receipt_type \<or>
                     rc_payload_json existing \<noteq> payload_json
                  then Inl (ValueError
                    (''operation receipt key collision with different payload: '' @ receipt_key))
                  else Inr (False, s\<lparr>operation_receipt_outbox := t\<rparr>))
           else Inr (True, s\<lparr>operation_receipt_outbox := t\<rparr>))"

definition insert_repeatable_closure_receipt_tx ::
    "string \<Rightarrow> json \<Rightarrow> instant \<Rightarrow> op_store \<Rightarrow> py_exn + bool \<times> op_store" where
  "insert_repeatable_closure_receipt_tx receipt_key payload now s =
     (case row_of rc_receipt_key receipt_key (operation_receipt_outbox s) of
        Some existing \<Rightarrow>
          if rc_receipt_type existing \<noteq> ''holding_case_closed''
          then Inl (ValueError
            (''operation receipt key collision with different type: '' @ receipt_key))
          else Inr (False, s)
      | None \<Rightarrow>
          insert_operation_receipt_tx receipt_key ''holding_case_closed'' payload now s)"

text \<open>A receipt as its callers supply it, with the case it is about where there is one.\<close>

record receipt_spec =
  rs_case_key :: string
  rs_receipt_key :: string
  rs_receipt_type :: string
  rs_payload :: json

text \<open>The receipt loop of a settlement: it returns the keys that were really inserted.\<close>

fun insert_receipts_tx ::
    "receipt_spec list \<Rightarrow> instant \<Rightarrow> op_store \<Rightarrow> py_exn + string list \<times> op_store" where
  "insert_receipts_tx [] now s = Inr ([], s)"
| "insert_receipts_tx (r # rs) now s =
     bind_result (insert_operation_receipt_tx (rs_receipt_key r) (rs_receipt_type r) (rs_payload r) now s)
       (\<lambda>(inserted, s1). bind_result (insert_receipts_tx rs now s1)
         (\<lambda>(keys, s2). Inr (if inserted then rs_receipt_key r # keys else keys, s2)))"

definition enqueue_operation_receipt ::
    "instant \<Rightarrow> string \<Rightarrow> string \<Rightarrow> json \<Rightarrow> op_store \<Rightarrow> (py_exn + bool) \<times> op_store" where
  "enqueue_operation_receipt now receipt_key receipt_type payload =
     commit (insert_operation_receipt_tx receipt_key receipt_type payload now)"

lemma new_receipt_key [simp]: "rc_receipt_key (new_receipt k ty p now) = k"
  by (simp add: new_receipt_def)

text \<open>
  The two lease sweeps of a claim: an expired claim fails and is due again at once, an expired
  send becomes unknown.
\<close>

definition expire_claimed :: "instant \<Rightarrow> op_receipt list \<Rightarrow> op_receipt list" where
  "expire_claimed now =
     sql_update
       (\<lambda>r. rc_status r = RcClaimed \<and>
            (case rc_claimed_at r of None \<Rightarrow> False
             | Some t \<Rightarrow> t \<le> now - minutes claim_lease_minutes))
       (\<lambda>r. r\<lparr>rc_status := RcFailed, rc_claim_id := None, rc_claimed_at := None,
              rc_last_error := (case rc_last_error r of
                 None \<Rightarrow> Some ''dispatcher claim expired'' | Some e \<Rightarrow> Some e),
              rc_next_attempt_at := now, rc_updated_at := now\<rparr>)"

definition expire_sending :: "instant \<Rightarrow> op_receipt list \<Rightarrow> op_receipt list" where
  "expire_sending now =
     sql_update
       (\<lambda>r. rc_status r = RcSending \<and>
            (case rc_send_started_at r of None \<Rightarrow> False
             | Some t \<Rightarrow> t \<le> now - minutes claim_lease_minutes))
       (\<lambda>r. r\<lparr>rc_status := RcUnknown, rc_claim_id := None,
              rc_last_error := (case rc_last_error r of
                 None \<Rightarrow> Some ''sending lease expired'' | Some e \<Rightarrow> Some e),
              rc_updated_at := now\<rparr>)"

definition receipt_waiting :: "op_receipt \<Rightarrow> bool" where
  "receipt_waiting r \<longleftrightarrow> rc_status r = RcPending \<or> rc_status r = RcFailed"

definition take_receipt :: "string \<Rightarrow> instant \<Rightarrow> op_receipt \<Rightarrow> op_receipt" where
  "take_receipt claim now r =
     r\<lparr>rc_status := RcClaimed, rc_claim_id := Some claim, rc_claimed_at := Some now,
       rc_updated_at := now\<rparr>"

text \<open>
  \<open>claim_due_operation_receipts\<close>: \<open>fresh\<close> is the \<open>uuid4().hex\<close> drawn when the caller gives no
  claim id. The result repeats the selected row with its new status, claim and claim time.
\<close>

definition claim_due_operation_receipts ::
    "instant \<Rightarrow> string \<Rightarrow> int \<Rightarrow> string option \<Rightarrow> string option \<Rightarrow> op_store \<Rightarrow>
     op_receipt list \<times> op_store" where
  "claim_due_operation_receipts now fresh limit receipt_key claim_id s =
     (let claim = first_nonempty claim_id fresh;
          t = expire_sending now (expire_claimed now (operation_receipt_outbox s));
          due = (\<lambda>r. receipt_waiting r \<and> rc_next_attempt_at r \<le> now \<and>
                     (first_nonempty receipt_key [] = [] \<or>
                      rc_receipt_key r = first_nonempty receipt_key []));
          rows = select_due due rc_created_at limit t;
          (claimed, t') = claim_loop rc_receipt_key
                            (\<lambda>r. receipt_waiting r \<and> rc_next_attempt_at r \<le> now)
                            (take_receipt claim now) rows t
      in (map (\<lambda>r. r\<lparr>rc_status := RcClaimed, rc_claim_id := Some claim,
                       rc_claimed_at := Some now\<rparr>) claimed,
          s\<lparr>operation_receipt_outbox := t'\<rparr>))"

definition sending_row :: "instant \<Rightarrow> op_receipt \<Rightarrow> op_receipt" where
  "sending_row now r =
     r\<lparr>rc_status := RcSending, rc_send_started_at := Some now, rc_updated_at := now\<rparr>"

definition start_send_tx :: "instant \<Rightarrow> string \<Rightarrow> string \<Rightarrow> op_store \<Rightarrow> py_exn + unit \<times> op_store" where
  "start_send_tx now receipt_key claim_id s =
     (let hit = (\<lambda>r. rc_receipt_key r = receipt_key \<and> rc_status r = RcClaimed \<and>
                     rc_claim_id r = Some claim_id);
          t = operation_receipt_outbox s
      in if rowcount hit t \<noteq> 1 then
           Inl (KeyError (''operation receipt claim not found: '' @ receipt_key @
                          '' claim_id='' @ claim_id))
         else Inr ((), s\<lparr>operation_receipt_outbox :=
                sql_update hit (sending_row now) t\<rparr>))"

definition start_operation_receipt_send ::
    "instant \<Rightarrow> string \<Rightarrow> string \<Rightarrow> op_store \<Rightarrow> (py_exn + unit) \<times> op_store" where
  "start_operation_receipt_send now receipt_key claim_id =
     commit (start_send_tx now receipt_key claim_id)"

definition parse_outcome :: "string \<Rightarrow> receipt_status option" where
  "parse_outcome outcome =
     (if outcome = ''sent'' then Some RcSent
      else if outcome = ''failed'' then Some RcFailed
      else if outcome = ''unknown'' then Some RcUnknown else None)"

definition marked_row ::
    "instant \<Rightarrow> receipt_status \<Rightarrow> nat \<Rightarrow> string option \<Rightarrow> string option \<Rightarrow> op_receipt \<Rightarrow> op_receipt"
  where
  "marked_row now outcome attempt message_id err r =
     r\<lparr>rc_status := outcome, rc_attempt_count := attempt,
       rc_next_attempt_at := now + retry_delay attempt, rc_claim_id := None,
       rc_claimed_at := None, rc_message_id := message_id, rc_last_error := err,
       rc_updated_at := now\<rparr>"

definition mark_receipt_tx ::
    "instant \<Rightarrow> string \<Rightarrow> string \<Rightarrow> receipt_status \<Rightarrow> string option \<Rightarrow> string option \<Rightarrow> op_store \<Rightarrow>
     py_exn + unit \<times> op_store" where
  "mark_receipt_tx now receipt_key claim_id outcome message_id err s =
     (let hit = (\<lambda>r. rc_receipt_key r = receipt_key \<and> rc_status r = RcSending \<and>
                     rc_claim_id r = Some claim_id);
          t = operation_receipt_outbox s
      in (case fetchone hit t of
            None \<Rightarrow> Inl (KeyError (''operation receipt send not found: '' @ receipt_key @
                                    '' claim_id='' @ claim_id))
          | Some row \<Rightarrow>
              let attempt = rc_attempt_count row + 1
              in Inr ((), s\<lparr>operation_receipt_outbox :=
                   sql_update hit (marked_row now outcome attempt message_id err) t\<rparr>)))"

definition mark_operation_receipt ::
    "instant \<Rightarrow> string \<Rightarrow> string \<Rightarrow> string \<Rightarrow> string option \<Rightarrow> string option \<Rightarrow> op_store \<Rightarrow>
     (py_exn + unit) \<times> op_store" where
  "mark_operation_receipt now receipt_key claim_id outcome message_id err s =
     (case parse_outcome outcome of
        None \<Rightarrow> (Inl (ValueError (''unsupported receipt outcome: '' @ outcome)), s)
      | Some status \<Rightarrow>
          commit (mark_receipt_tx now receipt_key claim_id status message_id err) s)"

text \<open>
  The operator's decision on an unknown receipt; \<open>last_error\<close> receives the serialised decision
  and context as its audit text.
\<close>

fun receipt_status_text :: "receipt_status \<Rightarrow> string" where
  "receipt_status_text RcPending = ''pending''"
| "receipt_status_text RcClaimed = ''claimed''"
| "receipt_status_text RcSending = ''sending''"
| "receipt_status_text RcSent = ''sent''"
| "receipt_status_text RcFailed = ''failed''"
| "receipt_status_text RcUnknown = ''unknown''"

definition resolved_row :: "instant \<Rightarrow> string \<Rightarrow> dict \<Rightarrow> op_receipt \<Rightarrow> op_receipt" where
  "resolved_row now decision operator_context r =
     r\<lparr>rc_status := (if decision = ''retry'' then RcFailed else RcSent),
       rc_next_attempt_at := now,
       rc_last_error := Some (canonical_text (JObj
         [(''decision'', JStr decision), (''operator_context'', JObj operator_context)])),
       rc_updated_at := now\<rparr>"

definition resolve_receipt_tx ::
    "instant \<Rightarrow> string \<Rightarrow> string \<Rightarrow> dict \<Rightarrow> op_store \<Rightarrow> py_exn + unit \<times> op_store" where
  "resolve_receipt_tx now receipt_key decision operator_context s =
     (case row_of rc_receipt_key receipt_key (operation_receipt_outbox s) of
        None \<Rightarrow> Inl (KeyError (''operation receipt not found: '' @ receipt_key))
      | Some row \<Rightarrow>
          if rc_status row \<noteq> RcUnknown then
            Inl (ValueError (''operation receipt is not unknown: '' @ receipt_key @ '': '' @
                             receipt_status_text (rc_status row)))
          else Inr ((), s\<lparr>operation_receipt_outbox :=
                 sql_update (\<lambda>r. rc_receipt_key r = receipt_key \<and> rc_status r = RcUnknown)
                   (resolved_row now decision operator_context)
                   (operation_receipt_outbox s)\<rparr>))"

definition resolve_operation_receipt ::
    "instant \<Rightarrow> string \<Rightarrow> string \<Rightarrow> dict \<Rightarrow> op_store \<Rightarrow> (py_exn + unit) \<times> op_store" where
  "resolve_operation_receipt now receipt_key decision operator_context s =
     (if decision \<noteq> ''retry'' \<and> decision \<noteq> ''mark-sent''
      then (Inl (ValueError (''unsupported receipt resolution: '' @ decision)), s)
      else commit (resolve_receipt_tx now receipt_key decision operator_context) s)"

definition get_operation_receipt :: "string \<Rightarrow> op_store \<Rightarrow> op_receipt option" where
  "get_operation_receipt receipt_key s =
     row_of rc_receipt_key receipt_key (operation_receipt_outbox s)"

section \<open>The outbox as a lease queue\<close>

definition lease_over :: "instant \<Rightarrow> instant option \<Rightarrow> bool" where
  "lease_over now at = (case at of None \<Rightarrow> False | Some t \<Rightarrow> t \<le> now - minutes claim_lease_minutes)"

definition sweep_receipt :: "instant \<Rightarrow> op_receipt \<Rightarrow> op_receipt" where
  "sweep_receipt now r =
     (if rc_status r = RcClaimed \<and> lease_over now (rc_claimed_at r)
      then r\<lparr>rc_status := RcFailed, rc_claim_id := None, rc_claimed_at := None,
             rc_last_error := (case rc_last_error r of
                None \<Rightarrow> Some ''dispatcher claim expired'' | Some e \<Rightarrow> Some e),
             rc_next_attempt_at := now, rc_updated_at := now\<rparr>
      else if rc_status r = RcSending \<and> lease_over now (rc_send_started_at r)
      then r\<lparr>rc_status := RcUnknown, rc_claim_id := None,
             rc_last_error := (case rc_last_error r of
                None \<Rightarrow> Some ''sending lease expired'' | Some e \<Rightarrow> Some e),
             rc_updated_at := now\<rparr>
      else r)"

lemma sweep_table_eq: "expire_sending now (expire_claimed now t) = map (sweep_receipt now) t"
  unfolding expire_sending_def expire_claimed_def sql_update_def map_map
  by (rule map_cong) (simp_all add: sweep_receipt_def lease_over_def)

interpretation rcq: lease_queue rc_receipt_key receipt_waiting rc_claim_id sweep_receipt take_receipt
  by unfold_locales
    (auto simp: sweep_receipt_def receipt_waiting_def take_receipt_def)

section \<open>How a receipt may evolve\<close>

text \<open>The moves one store operation can make on the status of a receipt.\<close>

fun receipt_move :: "receipt_status \<Rightarrow> receipt_status \<Rightarrow> bool" where
  "receipt_move RcPending t \<longleftrightarrow> t = RcPending \<or> t = RcClaimed"
| "receipt_move RcFailed t \<longleftrightarrow> t = RcFailed \<or> t = RcClaimed"
| "receipt_move RcClaimed t \<longleftrightarrow> t = RcClaimed \<or> t = RcSending \<or> t = RcFailed"
| "receipt_move RcSending t \<longleftrightarrow> t = RcSending \<or> t = RcSent \<or> t = RcFailed \<or> t = RcUnknown"
| "receipt_move RcUnknown t \<longleftrightarrow> t = RcUnknown \<or> t = RcFailed \<or> t = RcSent"
| "receipt_move RcSent t \<longleftrightarrow> t = RcSent"

definition receipt_evolves :: "op_receipt \<Rightarrow> op_receipt \<Rightarrow> bool" where
  "receipt_evolves r r' \<longleftrightarrow>
     rc_receipt_key r' = rc_receipt_key r \<and> rc_receipt_type r' = rc_receipt_type r \<and>
     rc_payload_json r' = rc_payload_json r \<and> rc_created_at r' = rc_created_at r \<and>
     rc_attempt_count r \<le> rc_attempt_count r' \<and> receipt_move (rc_status r) (rc_status r') \<and>
     (rc_status r = RcSent \<longrightarrow> r' = r)"

definition outbox_evolves :: "op_receipt list \<Rightarrow> op_receipt list \<Rightarrow> bool" where
  "outbox_evolves t t' \<longleftrightarrow> unique_keys rc_receipt_key t' \<and>
     (\<forall>k r. row_of rc_receipt_key k t = Some r \<longrightarrow>
        (\<exists>r'. row_of rc_receipt_key k t' = Some r' \<and> receipt_evolves r r'))"

lemma receipt_move_refl [simp]: "receipt_move st st"
  by (cases st) auto

lemma receipt_evolves_refl [simp]: "receipt_evolves r r"
  by (simp add: receipt_evolves_def)

lemma outbox_evolves_refl [simp]: "unique_keys rc_receipt_key t \<Longrightarrow> outbox_evolves t t"
  by (auto simp: outbox_evolves_def)

lemma outbox_evolves_update:
  assumes "unique_keys rc_receipt_key t"
    and "\<And>r. r \<in> set t \<Longrightarrow> p r \<Longrightarrow> receipt_evolves r (f r)"
  shows "outbox_evolves t (sql_update p f t)"
proof -
  have key: "\<And>r. r \<in> set t \<Longrightarrow> p r \<Longrightarrow> rc_receipt_key (f r) = rc_receipt_key r"
    using assms(2) by (auto simp: receipt_evolves_def)
  show ?thesis
    unfolding outbox_evolves_def
    using assms key
    by (auto simp: row_of_sql_update [where key = rc_receipt_key and t = t and p = p and f = f, OF key] dest!: row_of_Some intro!: row_intros)
qed

lemma outbox_evolves_insert:
  "unique_keys rc_receipt_key t \<Longrightarrow>
   outbox_evolves t (fst (insert_ignore rc_receipt_key row t))"
  by (auto simp: outbox_evolves_def row_of_insert_ignore intro!: row_intros)

section \<open>Inserting\<close>

lemma insert_receipt_cases:
  assumes "insert_operation_receipt_tx k ty payload now s = Inr (b, s')"
  shows "s' = s\<lparr>operation_receipt_outbox :=
           fst (insert_ignore rc_receipt_key (new_receipt k ty (canonical_json payload) now)
                  (operation_receipt_outbox s))\<rparr>"
    and "b \<longleftrightarrow> k \<notin> rc_receipt_key ` set (operation_receipt_outbox s)"
    and "ty \<in> set supported_receipt_types"
proof -
  have k: "rc_receipt_key (new_receipt k ty (canonical_json payload) now) = k"
    by (simp add: new_receipt_def)
  show "s' = s\<lparr>operation_receipt_outbox :=
           fst (insert_ignore rc_receipt_key (new_receipt k ty (canonical_json payload) now)
                  (operation_receipt_outbox s))\<rparr>"
    and "b \<longleftrightarrow> k \<notin> rc_receipt_key ` set (operation_receipt_outbox s)"
    and "ty \<in> set supported_receipt_types"
    using assms k unfolding insert_operation_receipt_tx_def Let_def insert_ignore_def
    by (auto split: if_splits option.splits)
qed

lemma insert_receipt_frame:
  assumes "insert_operation_receipt_tx k ty payload now s = Inr (b, s')"
  shows "\<exists>t. s' = s\<lparr>operation_receipt_outbox := t\<rparr>"
  using insert_receipt_cases(1) [OF assms] by blast

lemma insert_receipt_evolves:
  assumes "insert_operation_receipt_tx k ty payload now s = Inr (b, s')"
    and "unique_keys rc_receipt_key (operation_receipt_outbox s)"
  shows "outbox_evolves (operation_receipt_outbox s) (operation_receipt_outbox s')"
  using insert_receipt_cases(1) [OF assms(1)] outbox_evolves_insert [OF assms(2)] by simp

lemma insert_receipt_keeps:
  assumes "insert_operation_receipt_tx k ty payload now s = Inr (b, s')"
    and "row_of rc_receipt_key k' (operation_receipt_outbox s) = Some r"
  shows "row_of rc_receipt_key k' (operation_receipt_outbox s') = Some r"
  using insert_receipt_cases(1) [OF assms(1)] assms(2) by (simp add: row_of_insert_ignore)

text \<open>After a successful insert the outbox holds the receipt with exactly this type and payload.\<close>

lemma insert_receipt_present:
  assumes "insert_operation_receipt_tx k ty payload now s = Inr (b, s')"
  shows "\<exists>r. row_of rc_receipt_key k (operation_receipt_outbox s') = Some r \<and>
             rc_receipt_type r = ty \<and> rc_payload_json r = canonical_json payload"
proof (cases "row_of rc_receipt_key k (operation_receipt_outbox s)")
  case None
  then show ?thesis
    using insert_receipt_cases(1) [OF assms]
    by (simp add: row_of_insert_ignore new_receipt_def)
next
  case (Some r)
  with assms show ?thesis
    unfolding insert_operation_receipt_tx_def Let_def insert_ignore_def
    by (auto split: if_splits option.splits dest: row_of_key simp: row_of_append)
qed

lemma closure_receipt_frame:
  assumes "insert_repeatable_closure_receipt_tx k payload now s = Inr (b, s')"
  shows "\<exists>t. s' = s\<lparr>operation_receipt_outbox := t\<rparr>"
  using assms unfolding insert_repeatable_closure_receipt_tx_def
  by (auto split: option.splits if_splits dest: insert_receipt_frame)
    (metis op_store.surjective op_store.update_convs(9))

lemma closure_receipt_evolves:
  assumes "insert_repeatable_closure_receipt_tx k payload now s = Inr (b, s')"
    and "unique_keys rc_receipt_key (operation_receipt_outbox s)"
  shows "outbox_evolves (operation_receipt_outbox s) (operation_receipt_outbox s')"
  using assms unfolding insert_repeatable_closure_receipt_tx_def
  by (auto split: option.splits if_splits dest: insert_receipt_evolves)

lemma insert_receipts_frame:
  assumes "insert_receipts_tx rs now s = Inr (keys, s')"
  shows "\<exists>t. s' = s\<lparr>operation_receipt_outbox := t\<rparr>"
  using assms
proof (induction rs arbitrary: s keys s')
  case (Cons r rs)
  then obtain b s1 keys2 where
    i: "insert_operation_receipt_tx (rs_receipt_key r) (rs_receipt_type r) (rs_payload r) now s = Inr (b, s1)"
    and r: "insert_receipts_tx rs now s1 = Inr (keys2, s')"
    by (auto simp: bind_result_Inr)
  from insert_receipt_frame [OF i] Cons.IH [OF r] show ?case by auto
qed (metis insert_receipts_tx.simps(1) op_store.surjective op_store.update_convs(9) prod.inject sum.inject(2))

lemma insert_receipts_keeps:
  assumes "insert_receipts_tx rs now s = Inr (keys, s')"
    and "row_of rc_receipt_key k (operation_receipt_outbox s) = Some r"
  shows "row_of rc_receipt_key k (operation_receipt_outbox s') = Some r"
  using assms
proof (induction rs arbitrary: s keys)
  case (Cons x rs)
  then obtain b s1 keys2 where
    i: "insert_operation_receipt_tx (rs_receipt_key x) (rs_receipt_type x) (rs_payload x) now s = Inr (b, s1)"
    and r: "insert_receipts_tx rs now s1 = Inr (keys2, s')"
    by (auto simp: bind_result_Inr)
  from Cons.IH [OF r insert_receipt_keeps [OF i Cons.prems(2)]] show ?case .
qed auto

lemma insert_receipts_present:
  assumes "insert_receipts_tx rs now s = Inr (keys, s')" and "x \<in> set rs"
  shows "\<exists>r. row_of rc_receipt_key (rs_receipt_key x) (operation_receipt_outbox s') = Some r \<and>
     rc_receipt_type r = rs_receipt_type x \<and> rc_payload_json r = canonical_json (rs_payload x)"
  using assms
proof (induction rs arbitrary: s keys)
  case (Cons y rs)
  then obtain b s1 keys2 where
    i: "insert_operation_receipt_tx (rs_receipt_key y) (rs_receipt_type y) (rs_payload y) now s = Inr (b, s1)"
    and r: "insert_receipts_tx rs now s1 = Inr (keys2, s')"
    by (auto simp: bind_result_Inr)
  show ?case
  proof (cases "x \<in> set rs")
    case True
    with Cons.IH [OF r] show ?thesis by blast
  next
    case False
    with Cons.prems(2) have "x = y" by simp
    with insert_receipt_present [OF i] insert_receipts_keeps [OF r] show ?thesis by blast
  qed
qed auto

section \<open>Every operation lets the receipts evolve\<close>

lemma enqueue_receipt_evolves:
  assumes "unique_keys rc_receipt_key (operation_receipt_outbox s)"
  shows "outbox_evolves (operation_receipt_outbox s)
           (operation_receipt_outbox (snd (enqueue_operation_receipt now k ty payload s)))"
  unfolding enqueue_operation_receipt_def
  by (rule commit_preserves) (use assms in \<open>auto dest: insert_receipt_evolves\<close>)

lemma claim_receipt_rows:
  assumes "unique_keys rc_receipt_key (operation_receipt_outbox s)"
    and "claim_due_operation_receipts now fresh limit key cid s = (claimed, s')"
  defines "t \<equiv> map (sweep_receipt now) (operation_receipt_outbox s)"
    and "claim \<equiv> first_nonempty cid fresh"
  shows "\<exists>rows. rows = select_due
             (\<lambda>r. receipt_waiting r \<and> rc_next_attempt_at r \<le> now \<and>
                  (first_nonempty key [] = [] \<or> rc_receipt_key r = first_nonempty key []))
             rc_created_at limit t \<and>
           claimed = map (\<lambda>r. r\<lparr>rc_status := RcClaimed, rc_claim_id := Some claim,
                                 rc_claimed_at := Some now\<rparr>) rows \<and>
           s' = s\<lparr>operation_receipt_outbox := sql_update
                  (\<lambda>r. rc_receipt_key r \<in> rc_receipt_key ` set rows) (take_receipt claim now) t\<rparr>"
proof -
  have u: "unique_keys rc_receipt_key t"
    unfolding t_def by (rule rcq.sweep_table [OF assms(1)])
  define due where "due = (\<lambda>r. receipt_waiting r \<and> rc_next_attempt_at r \<le> now \<and>
      (first_nonempty key [] = [] \<or> rc_receipt_key r = first_nonempty key []))"
  have eq: "claim_loop rc_receipt_key (\<lambda>r. receipt_waiting r \<and> rc_next_attempt_at r \<le> now)
      (take_receipt claim now) (select_due due rc_created_at limit t) t =
    (select_due due rc_created_at limit t,
     sql_update (\<lambda>r. rc_receipt_key r \<in> rc_receipt_key ` set (select_due due rc_created_at limit t))
       (take_receipt claim now) t)"
    by (rule rcq.claim_eq [OF u _ refl]) (simp add: due_def)
  show ?thesis
    using assms(2) eq
    by (simp add: claim_due_operation_receipts_def sweep_table_eq Let_def t_def [symmetric]
        claim_def [symmetric] due_def [symmetric])
qed

lemma sweep_receipt_evolves: "receipt_evolves r (sweep_receipt now r)"
  by (simp add: sweep_receipt_def receipt_evolves_def)

lemma take_sweep_evolves:
  assumes "receipt_waiting (sweep_receipt now r)"
  shows "receipt_evolves r (take_receipt claim now (sweep_receipt now r))"
  using assms
  by (cases "rc_status r")
    (auto simp: sweep_receipt_def receipt_evolves_def take_receipt_def receipt_waiting_def
       split: if_splits)

text \<open>What one claim does to the receipt of a key: swept, and taken only if it then waits.\<close>

lemma claim_receipt_row:
  assumes "unique_keys rc_receipt_key (operation_receipt_outbox s)"
    and "row_of rc_receipt_key k (operation_receipt_outbox s) = Some r"
    and "s' = snd (claim_due_operation_receipts now fresh limit key cid s)"
  shows "\<exists>r'. row_of rc_receipt_key k (operation_receipt_outbox s') = Some r' \<and>
           (r' = sweep_receipt now r \<or>
            receipt_waiting (sweep_receipt now r) \<and>
              r' = take_receipt (first_nonempty cid fresh) now (sweep_receipt now r))"
proof -
  define t where "t = map (sweep_receipt now) (operation_receipt_outbox s)"
  define claim where "claim = first_nonempty cid fresh"
  define due where "due = (\<lambda>r. receipt_waiting r \<and> rc_next_attempt_at r \<le> now \<and>
      (first_nonempty key [] = [] \<or> rc_receipt_key r = first_nonempty key []))"
  define rows where "rows = select_due due rc_created_at limit t"
  have u: "unique_keys rc_receipt_key t"
    unfolding t_def by (rule rcq.sweep_table [OF assms(1)])
  obtain claimed where "claim_due_operation_receipts now fresh limit key cid s = (claimed, s')"
    using assms(3) by (metis prod.collapse)
  from claim_receipt_rows [OF assms(1) this]
  have s': "operation_receipt_outbox s' =
      sql_update (\<lambda>r. rc_receipt_key r \<in> rc_receipt_key ` set rows) (take_receipt claim now) t"
    by (simp add: rows_def due_def t_def claim_def)
  have k: "rc_receipt_key r = k" and r: "r \<in> set (operation_receipt_outbox s)"
    using assms(2) by (auto dest: row_of_Some)
  have rt: "row_of rc_receipt_key k t = Some (sweep_receipt now r)"
    using r k by (intro row_at [OF u]) (auto simp: t_def rcq.sweep_key)
  have upd: "row_of rc_receipt_key k (operation_receipt_outbox s') =
      Some (if k \<in> rc_receipt_key ` set rows then take_receipt claim now (sweep_receipt now r)
            else sweep_receipt now r)"
    unfolding s' by (subst row_of_sql_update) (auto simp: rcq.take_key rt rcq.sweep_key k)
  have "receipt_waiting (sweep_receipt now r)" if "k \<in> rc_receipt_key ` set rows"
  proof -
    from that obtain r' where r': "r' \<in> set rows" "rc_receipt_key r' = k" by force
    then have "r' \<in> set t" "due r'" using select_due_props(1) [OF rows_def] by auto
    with row_at [OF u _ r'(2)] rt show ?thesis by (simp add: due_def)
  qed
  with upd show ?thesis by (auto simp: claim_def)
qed

lemma claim_receipt_evolves:
  assumes "unique_keys rc_receipt_key (operation_receipt_outbox s)"
  shows "outbox_evolves (operation_receipt_outbox s)
           (operation_receipt_outbox (snd (claim_due_operation_receipts now fresh limit key cid s)))"
  unfolding outbox_evolves_def
proof (intro conjI allI impI)
  let ?s' = "snd (claim_due_operation_receipts now fresh limit key cid s)"
  obtain claimed where c: "claim_due_operation_receipts now fresh limit key cid s = (claimed, ?s')"
    by (metis prod.collapse)
  from claim_receipt_rows [OF assms c] rcq.sweep_table [OF assms]
  show "unique_keys rc_receipt_key (operation_receipt_outbox ?s')"
    by (auto simp: rcq.take_key intro!: row_intros)
next
  fix k r assume "row_of rc_receipt_key k (operation_receipt_outbox s) = Some r"
  from claim_receipt_row [OF assms this refl, of now fresh limit key cid]
  show "\<exists>r'. row_of rc_receipt_key k (operation_receipt_outbox
        (snd (claim_due_operation_receipts now fresh limit key cid s))) = Some r' \<and> receipt_evolves r r'"
    by (auto intro: sweep_receipt_evolves take_sweep_evolves)
qed

lemma start_send_cases:
  assumes "start_send_tx now k c s = Inr (u, s')"
  shows "s' = s\<lparr>operation_receipt_outbox :=
      sql_update (\<lambda>r. rc_receipt_key r = k \<and> rc_status r = RcClaimed \<and> rc_claim_id r = Some c)
        (sending_row now)
        (operation_receipt_outbox s)\<rparr>"
  using assms by (simp add: start_send_tx_def Let_def split: if_splits)

lemma start_send_evolves:
  assumes "unique_keys rc_receipt_key (operation_receipt_outbox s)"
  shows "outbox_evolves (operation_receipt_outbox s)
           (operation_receipt_outbox (snd (start_operation_receipt_send now k c s)))"
  unfolding start_operation_receipt_send_def
  by (rule commit_preserves)
    (use assms in \<open>auto dest!: start_send_cases simp: receipt_evolves_def sending_row_def intro!: outbox_evolves_update\<close>)

lemma mark_cases:
  assumes "mark_receipt_tx now k c st mid err s = Inr (u, s')"
  shows "\<exists>row. fetchone (\<lambda>r. rc_receipt_key r = k \<and> rc_status r = RcSending \<and> rc_claim_id r = Some c)
             (operation_receipt_outbox s) = Some row \<and>
           s' = s\<lparr>operation_receipt_outbox :=
             sql_update (\<lambda>r. rc_receipt_key r = k \<and> rc_status r = RcSending \<and> rc_claim_id r = Some c)
               (marked_row now st (rc_attempt_count row + 1) mid err) (operation_receipt_outbox s)\<rparr>"
  using assms by (simp add: mark_receipt_tx_def Let_def split: option.splits)

lemma mark_tx_evolves:
  assumes "unique_keys rc_receipt_key (operation_receipt_outbox s)"
    and "mark_receipt_tx now k c st mid err s = Inr (u, s')" and "receipt_move RcSending st"
  shows "outbox_evolves (operation_receipt_outbox s) (operation_receipt_outbox s')"
proof -
  from mark_cases [OF assms(2)] obtain row where
    row: "row \<in> set (operation_receipt_outbox s)" "rc_receipt_key row = k"
    and s': "s' = s\<lparr>operation_receipt_outbox :=
             sql_update (\<lambda>r. rc_receipt_key r = k \<and> rc_status r = RcSending \<and> rc_claim_id r = Some c)
               (marked_row now st (rc_attempt_count row + 1) mid err) (operation_receipt_outbox s)\<rparr>"
    by (auto dest!: fetchone_Some)
  have same: "r = row" if "r \<in> set (operation_receipt_outbox s)" "rc_receipt_key r = k" for r
    using that row by (intro unique_keys_eq [OF assms(1)]) auto
  show ?thesis
    unfolding s' using assms(1,3)
    by (auto simp: receipt_evolves_def marked_row_def dest: same intro!: outbox_evolves_update)
qed

lemma mark_evolves:
  assumes "unique_keys rc_receipt_key (operation_receipt_outbox s)"
  shows "outbox_evolves (operation_receipt_outbox s)
           (operation_receipt_outbox (snd (mark_operation_receipt now k c outcome mid err s)))"
proof (cases "parse_outcome outcome")
  case None
  with assms show ?thesis by (simp add: mark_operation_receipt_def)
next
  case (Some st)
  then have "receipt_move RcSending st" by (auto simp: parse_outcome_def split: if_splits)
  then have "outbox_evolves (operation_receipt_outbox s)
      (operation_receipt_outbox (snd (commit (mark_receipt_tx now k c st mid err) s)))"
    by (intro commit_preserves [where P = "\<lambda>x. outbox_evolves (operation_receipt_outbox s)
          (operation_receipt_outbox x)"] mark_tx_evolves [OF assms] outbox_evolves_refl [OF assms])
  with Some show ?thesis by (simp add: mark_operation_receipt_def)
qed

lemma resolve_cases:
  assumes "resolve_receipt_tx now k decision ctx s = Inr (u, s')"
  shows "s' = s\<lparr>operation_receipt_outbox :=
      sql_update (\<lambda>r. rc_receipt_key r = k \<and> rc_status r = RcUnknown)
        (resolved_row now decision ctx) (operation_receipt_outbox s)\<rparr>"
  using assms by (auto simp: resolve_receipt_tx_def split: option.splits if_splits)

lemma resolve_evolves:
  assumes "unique_keys rc_receipt_key (operation_receipt_outbox s)"
  shows "outbox_evolves (operation_receipt_outbox s)
           (operation_receipt_outbox (snd (resolve_operation_receipt now k decision ctx s)))"
proof -
  have "outbox_evolves (operation_receipt_outbox s) (operation_receipt_outbox s')"
    if "resolve_receipt_tx now k decision ctx s = Inr (u, s')" for u s'
    using resolve_cases [OF that] assms
    by (auto simp: receipt_evolves_def resolved_row_def intro!: outbox_evolves_update)
  then have "outbox_evolves (operation_receipt_outbox s)
      (operation_receipt_outbox (snd (commit (resolve_receipt_tx now k decision ctx) s)))"
    by (intro commit_preserves [where P = "\<lambda>x. outbox_evolves (operation_receipt_outbox s)
          (operation_receipt_outbox x)"] outbox_evolves_refl [OF assms])
  with assms show ?thesis by (simp add: resolve_operation_receipt_def)
qed

section \<open>Runs of the outbox\<close>

datatype receipt_op =
    Enqueue instant string string json
  | ClaimDue instant string int "string option" "string option"
  | StartSend instant string string
  | MarkSend instant string string string "string option" "string option"
  | ResolveUnknown instant string string dict

fun receipt_step :: "receipt_op \<Rightarrow> op_store \<Rightarrow> op_store" where
  "receipt_step (Enqueue now k ty payload) s = snd (enqueue_operation_receipt now k ty payload s)"
| "receipt_step (ClaimDue now fresh limit k c) s =
     snd (claim_due_operation_receipts now fresh limit k c s)"
| "receipt_step (StartSend now k c) s = snd (start_operation_receipt_send now k c s)"
| "receipt_step (MarkSend now k c outcome mid err) s =
     snd (mark_operation_receipt now k c outcome mid err s)"
| "receipt_step (ResolveUnknown now k decision ctx) s =
     snd (resolve_operation_receipt now k decision ctx s)"

definition receipt_run :: "receipt_op list \<Rightarrow> op_store \<Rightarrow> op_store" where
  "receipt_run ops s = fold receipt_step ops s"

lemma receipt_step_evolves:
  assumes "unique_keys rc_receipt_key (operation_receipt_outbox s)"
  shows "outbox_evolves (operation_receipt_outbox s) (operation_receipt_outbox (receipt_step x s))"
  by (cases x)
    (simp_all add: assms enqueue_receipt_evolves claim_receipt_evolves start_send_evolves
       mark_evolves resolve_evolves)

text \<open>The two operations that allow a receipt to be sent once more.\<close>

fun reopens :: "string \<Rightarrow> receipt_op \<Rightarrow> bool" where
  "reopens k (MarkSend now k' c outcome mid err) \<longleftrightarrow> k' = k \<and> outcome = ''failed''"
| "reopens k (ResolveUnknown now k' decision ctx) \<longleftrightarrow> k' = k \<and> decision = ''retry''"
| "reopens k x \<longleftrightarrow> False"

definition in_flight :: "string \<Rightarrow> op_store \<Rightarrow> bool" where
  "in_flight k s \<longleftrightarrow>
     (\<exists>r. row_of rc_receipt_key k (operation_receipt_outbox s) = Some r \<and>
          rc_status r \<in> {RcSending, RcUnknown, RcSent})"

lemma in_flight_update:
  assumes "in_flight k s" and "s' = s\<lparr>operation_receipt_outbox := sql_update p f (operation_receipt_outbox s)\<rparr>"
    and "\<And>r. r \<in> set (operation_receipt_outbox s) \<Longrightarrow> p r \<Longrightarrow> rc_receipt_key (f r) = rc_receipt_key r"
    and "\<And>r. p r \<Longrightarrow> rc_receipt_key r = k \<Longrightarrow> rc_status r \<in> {RcSending, RcUnknown, RcSent} \<Longrightarrow>
           rc_status (f r) \<in> {RcSending, RcUnknown, RcSent}"
  shows "in_flight k s'"
proof -
  from assms(1) obtain r where r: "row_of rc_receipt_key k (operation_receipt_outbox s) = Some r"
    "rc_status r \<in> {RcSending, RcUnknown, RcSent}"
    by (auto simp: in_flight_def)
  have "row_of rc_receipt_key k (operation_receipt_outbox s') = Some (if p r then f r else r)"
    by (simp add: assms(2) row_of_sql_update [where key = rc_receipt_key and p = p and f = f and t = "operation_receipt_outbox s", OF assms(3)] r(1))
  moreover have "rc_status (if p r then f r else r) \<in> {RcSending, RcUnknown, RcSent}"
    using assms(4) [of r] r by (auto dest: row_of_Some)
  ultimately show ?thesis by (auto simp: in_flight_def)
qed

lemma in_flight_claim:
  assumes "unique_keys rc_receipt_key (operation_receipt_outbox s)" and "in_flight k s"
  shows "in_flight k (snd (claim_due_operation_receipts now fresh limit key cid s))"
proof -
  from assms(2) obtain r where r: "row_of rc_receipt_key k (operation_receipt_outbox s) = Some r"
    "rc_status r \<in> {RcSending, RcUnknown, RcSent}"
    by (auto simp: in_flight_def)
  then have "rc_status (sweep_receipt now r) \<in> {RcSending, RcUnknown, RcSent}"
    by (auto simp: sweep_receipt_def)
  with claim_receipt_row [OF assms(1) r(1) refl, of now fresh limit key cid] show ?thesis
    by (auto simp: in_flight_def receipt_waiting_def)
qed

lemma in_flight_step:
  assumes "unique_keys rc_receipt_key (operation_receipt_outbox s)" and "in_flight k s"
    and "\<not> reopens k x"
  shows "in_flight k (receipt_step x s)"
proof (cases x)
  case (Enqueue now k' ty payload)
  have "in_flight k s'" if "insert_operation_receipt_tx k' ty payload now s = Inr (b, s')" for b s'
    using insert_receipt_keeps [OF that] assms(2) by (auto simp: in_flight_def)
  then have "in_flight k (snd (commit (insert_operation_receipt_tx k' ty payload now) s))"
    by (intro commit_preserves [where P = "in_flight k"] assms(2))
  then show ?thesis by (simp add: Enqueue enqueue_operation_receipt_def)
next
  case (ClaimDue now fresh limit key cid)
  with assms in_flight_claim show ?thesis by simp
next
  case (StartSend now k' c)
  have "in_flight k s'" if "start_send_tx now k' c s = Inr (u, s')" for u s'
    by (rule in_flight_update [OF assms(2) start_send_cases [OF that]]) (auto simp: sending_row_def)
  then have "in_flight k (snd (commit (start_send_tx now k' c) s))"
    by (intro commit_preserves [where P = "in_flight k"] assms(2))
  then show ?thesis by (simp add: StartSend start_operation_receipt_send_def)
next
  case (MarkSend now k' c outcome mid err)
  have "in_flight k s'" if "parse_outcome outcome = Some st" "mark_receipt_tx now k' c st mid err s = Inr (u, s')"
    for st u s'
  proof -
    from mark_cases [OF that(2)] obtain row :: op_receipt where s': "s' = s\<lparr>operation_receipt_outbox :=
             sql_update (\<lambda>r. rc_receipt_key r = k' \<and> rc_status r = RcSending \<and> rc_claim_id r = Some c)
               (marked_row now st (rc_attempt_count row + 1) mid err) (operation_receipt_outbox s)\<rparr>"
      by auto
    from that(1) assms(3) MarkSend have "k' = k \<Longrightarrow> st \<in> {RcSending, RcUnknown, RcSent}"
      by (auto simp: parse_outcome_def split: if_splits)
    then show ?thesis by (intro in_flight_update [OF assms(2) s']) (auto simp: marked_row_def)
  qed
  then have "in_flight k (snd (commit (mark_receipt_tx now k' c st mid err) s))"
    if "parse_outcome outcome = Some st" for st
    using that by (intro commit_preserves [where P = "in_flight k"] assms(2))
  then show ?thesis
    using assms(2) by (simp add: MarkSend mark_operation_receipt_def split: option.splits)
next
  case (ResolveUnknown now k' decision ctx)
  have "in_flight k s'" if "resolve_receipt_tx now k' decision ctx s = Inr (u, s')" for u s'
  proof -
    note s' = resolve_cases [OF that]
    show ?thesis
      using assms(3) by (intro in_flight_update [OF assms(2) s']) (auto simp: ResolveUnknown resolved_row_def)
  qed
  then have "in_flight k (snd (commit (resolve_receipt_tx now k' decision ctx) s))"
    by (intro commit_preserves [where P = "in_flight k"] assms(2))
  then show ?thesis using assms(2) by (simp add: ResolveUnknown resolve_operation_receipt_def)
qed

lemma receipt_run_in_flight:
  assumes "unique_keys rc_receipt_key (operation_receipt_outbox s)" and "in_flight k s"
    and "\<forall>x \<in> set ops. \<not> reopens k x"
  shows "unique_keys rc_receipt_key (operation_receipt_outbox (receipt_run ops s)) \<and>
         in_flight k (receipt_run ops s)"
  using assms
proof (induction ops arbitrary: s)
  case (Cons x ops)
  have "unique_keys rc_receipt_key (operation_receipt_outbox (receipt_step x s))"
    using receipt_step_evolves [OF Cons.prems(1)] by (simp add: outbox_evolves_def)
  moreover have "in_flight k (receipt_step x s)"
    using Cons.prems by (intro in_flight_step) auto
  ultimately show ?case
    using Cons.IH [of "receipt_step x s"] Cons.prems(3) by (simp add: receipt_run_def)
qed (simp add: receipt_run_def)

lemma start_send_blocked:
  assumes "in_flight k s" and "unique_keys rc_receipt_key (operation_receipt_outbox s)"
  shows "start_operation_receipt_send now k c s =
    (Inl (KeyError (''operation receipt claim not found: '' @ k @ '' claim_id='' @ c)), s)"
proof -
  have "\<not> (rc_receipt_key r = k \<and> rc_status r = RcClaimed \<and> rc_claim_id r = Some c)"
    if "r \<in> set (operation_receipt_outbox s)" for r
    using assms that row_at [OF assms(2) that] by (auto simp: in_flight_def)
  then have "rowcount (\<lambda>r. rc_receipt_key r = k \<and> rc_status r = RcClaimed \<and> rc_claim_id r = Some c)
      (operation_receipt_outbox s) = 0"
    by (simp add: rowcount_0)
  then show ?thesis
    by (simp add: start_operation_receipt_send_def start_send_tx_def commit_def)
qed

lemma mark_receipt_exact:
  assumes "unique_keys rc_receipt_key (operation_receipt_outbox s)"
    and "row_of rc_receipt_key k (operation_receipt_outbox s) = Some r"
  shows "mark_operation_receipt now k c outcome mid err s =
    (case parse_outcome outcome of
       None \<Rightarrow> (Inl (ValueError (''unsupported receipt outcome: '' @ outcome)), s)
     | Some st \<Rightarrow>
         if rc_status r = RcSending \<and> rc_claim_id r = Some c
         then (Inr (), s\<lparr>operation_receipt_outbox :=
                 sql_update (\<lambda>q. rc_receipt_key q = k)
                   (marked_row now st (rc_attempt_count r + 1) mid err) (operation_receipt_outbox s)\<rparr>)
         else (Inl (KeyError (''operation receipt send not found: '' @ k @ '' claim_id='' @ c)), s))"
proof -
  define hit where "hit = (\<lambda>q :: op_receipt. rc_receipt_key q = k \<and> rc_status q = RcSending \<and> rc_claim_id q = Some c)"
  have r: "r \<in> set (operation_receipt_outbox s)" "rc_receipt_key r = k"
    using assms(2) by (auto dest: row_of_Some)
  have only: "q = r" if "q \<in> set (operation_receipt_outbox s)" "rc_receipt_key q = k" for q
    using that r by (intro unique_keys_eq [OF assms(1)]) auto
  have one: "fetchone hit (operation_receipt_outbox s) = (if hit r then Some r else None)"
  proof (cases "fetchone hit (operation_receipt_outbox s)")
    case None
    with r show ?thesis by (auto simp: fetchone_None)
  next
    case (Some q)
    then have "q \<in> set (operation_receipt_outbox s)" "hit q" by (auto dest: fetchone_Some)
    with only [of q] Some show ?thesis by (auto simp: hit_def)
  qed
  have upd: "sql_update hit f (operation_receipt_outbox s) =
      sql_update (\<lambda>q. rc_receipt_key q = k) f (operation_receipt_outbox s)" if "hit r" for f
    unfolding sql_update_def using that only by (intro map_cong) (auto simp: hit_def)
  show ?thesis
  proof (cases "parse_outcome outcome")
    case (Some st)
    have "mark_receipt_tx now k c st mid err s =
      (case fetchone hit (operation_receipt_outbox s) of
         None \<Rightarrow> Inl (KeyError (''operation receipt send not found: '' @ k @ '' claim_id='' @ c))
       | Some row \<Rightarrow> Inr ((), s\<lparr>operation_receipt_outbox := sql_update hit
             (marked_row now st (rc_attempt_count row + 1) mid err) (operation_receipt_outbox s)\<rparr>))"
      unfolding mark_receipt_tx_def hit_def Let_def by (rule refl)
    then have tx: "mark_receipt_tx now k c st mid err s =
      (if hit r then Inr ((), s\<lparr>operation_receipt_outbox := sql_update (\<lambda>q. rc_receipt_key q = k)
             (marked_row now st (rc_attempt_count r + 1) mid err) (operation_receipt_outbox s)\<rparr>)
       else Inl (KeyError (''operation receipt send not found: '' @ k @ '' claim_id='' @ c)))"
      by (simp add: one upd)
    have "hit r \<longleftrightarrow> rc_status r = RcSending \<and> rc_claim_id r = Some c"
      using r(2) by (simp add: hit_def)
    with Some show ?thesis by (simp add: mark_operation_receipt_def commit_def tx)
  qed (simp add: mark_operation_receipt_def)
qed

section \<open>Properties\<close>

text \<open>
  C1. A receipt whose send was announced is never sent again on its own: once receipt \<open>k\<close> is
  being sent, unknown or sent, then after any run of enqueues, claims, sends, marks and operator
  decisions in which it is neither marked failed nor released for retry by an operator, starting
  another send of it fails and changes nothing.
\<close>
theorem no_second_send:
  assumes "unique_keys rc_receipt_key (operation_receipt_outbox s)" and "in_flight k s"
    and "\<forall>x \<in> set ops. \<not> reopens k x"
  shows "start_operation_receipt_send now k c (receipt_run ops s) =
    (Inl (KeyError (''operation receipt claim not found: '' @ k @ '' claim_id='' @ c)),
     receipt_run ops s)"
  using receipt_run_in_flight [OF assms] by (simp add: start_send_blocked)

definition demo_sending :: op_store where
  "demo_sending = empty_store\<lparr>operation_receipt_outbox :=
     [(new_receipt ''k'' ''holding_case_closed'' JNull 0)
        \<lparr>rc_status := RcSending, rc_claim_id := Some ''w1'', rc_send_started_at := Some 0\<rparr>]\<rparr>"

definition demo_ops :: "receipt_op list" where
  "demo_ops = [ClaimDue (minutes 10) ''w2'' 100 None None, StartSend (minutes 10) ''k'' ''w2'',
               ResolveUnknown (minutes 11) ''k'' ''mark-sent'' []]"

lemma no_second_send_witness:
  "start_operation_receipt_send (minutes 20) ''k'' ''w2'' (receipt_run demo_ops demo_sending) =
    (Inl (KeyError (''operation receipt claim not found: '' @ ''k'' @ '' claim_id='' @ ''w2'')),
     receipt_run demo_ops demo_sending)"
  by (rule no_second_send)
    (simp_all add: demo_sending_def demo_ops_def in_flight_def unique_keys_def row_of_Cons new_receipt_def)

text \<open>
  C22. The life cycle of a receipt: under every outbox operation each stored receipt survives with
  its key, type, payload and creation time, its attempt count never decreases, its status makes
  only the moves of the delivery automaton (in particular an unknown outcome never returns to the
  queue except as failed or sent by decision, a sending one is never claimed), and a sent receipt
  never changes at all; receipt keys stay unique.
\<close>
theorem receipt_lifecycle:
  assumes "unique_keys rc_receipt_key (operation_receipt_outbox s)"
  shows "outbox_evolves (operation_receipt_outbox s) (operation_receipt_outbox (receipt_step x s))"
  using assms by (rule receipt_step_evolves)

lemma receipt_lifecycle_witness:
  "outbox_evolves (operation_receipt_outbox demo_sending)
     (operation_receipt_outbox (receipt_step (ClaimDue (minutes 10) ''w2'' 100 None None) demo_sending))"
  by (rule receipt_lifecycle) (simp add: demo_sending_def unique_keys_def)

text \<open>
  C22. What a claim does: expired claims fail and expired sends become unknown, then the waiting
  receipts that are due (and match the requested key) are taken oldest first, at most \<open>limit\<close> of
  them; each is stored as claimed by the caller at this instant, and every other receipt is left
  as the sweep left it.
\<close>
theorem claim_takes_due:
  assumes "unique_keys rc_receipt_key (operation_receipt_outbox s)"
    and "claim_due_operation_receipts now fresh limit key cid s = (claimed, s')"
  shows "sorted (map rc_created_at claimed) \<and> (0 \<le> limit \<longrightarrow> length claimed \<le> nat limit) \<and>
    (\<forall>k. row_of rc_receipt_key k (operation_receipt_outbox s') =
       (if k \<in> rc_receipt_key ` set claimed
        then map_option (\<lambda>r. take_receipt (first_nonempty cid fresh) now (sweep_receipt now r))
               (row_of rc_receipt_key k (operation_receipt_outbox s))
        else map_option (sweep_receipt now) (row_of rc_receipt_key k (operation_receipt_outbox s)))) \<and>
    (\<forall>r \<in> set claimed. \<exists>q \<in> set (operation_receipt_outbox s).
       rc_receipt_key q = rc_receipt_key r \<and> receipt_waiting (sweep_receipt now q) \<and>
       rc_next_attempt_at (sweep_receipt now q) \<le> now)"
proof -
  define claim where "claim = first_nonempty cid fresh"
  define t where "t = map (sweep_receipt now) (operation_receipt_outbox s)"
  define due where "due = (\<lambda>r. receipt_waiting r \<and> rc_next_attempt_at r \<le> now \<and>
      (first_nonempty key [] = [] \<or> rc_receipt_key r = first_nonempty key []))"
  define rows where "rows = select_due due rc_created_at limit t"
  from claim_receipt_rows [OF assms] have
    c: "claimed = map (\<lambda>r. r\<lparr>rc_status := RcClaimed, rc_claim_id := Some claim,
                             rc_claimed_at := Some now\<rparr>) rows"
    and s': "operation_receipt_outbox s' =
      sql_update (\<lambda>r. rc_receipt_key r \<in> rc_receipt_key ` set rows) (take_receipt claim now) t"
    by (auto simp: rows_def due_def t_def claim_def)
  note props = select_due_props [OF rows_def]
  have keys: "rc_receipt_key ` set claimed = rc_receipt_key ` set rows"
    by (simp add: c image_image)
  have swept: "row_of rc_receipt_key k t =
      map_option (sweep_receipt now) (row_of rc_receipt_key k (operation_receipt_outbox s))" for k
    using row_of_sql_update [where p = "\<lambda>_. True" and key = rc_receipt_key and k = k
        and f = "sweep_receipt now" and t = "operation_receipt_outbox s"]
    by (simp add: t_def sql_update_def rcq.sweep_key)
  have stored: "row_of rc_receipt_key k (operation_receipt_outbox s') =
       (if k \<in> rc_receipt_key ` set claimed
        then map_option (\<lambda>r. take_receipt claim now (sweep_receipt now r))
               (row_of rc_receipt_key k (operation_receipt_outbox s))
        else map_option (sweep_receipt now) (row_of rc_receipt_key k (operation_receipt_outbox s)))" for k
    unfolding s' keys
    by (subst row_of_sql_update)
      (auto simp: rcq.take_key swept rcq.sweep_key option.map_comp comp_def dest: row_of_Some
         split: option.splits intro!: option.map_cong0)
  have due: "\<exists>q \<in> set (operation_receipt_outbox s). rc_receipt_key q = rc_receipt_key r \<and>
      receipt_waiting (sweep_receipt now q) \<and> rc_next_attempt_at (sweep_receipt now q) \<le> now"
    if r: "r \<in> set claimed" for r
  proof -
    from r obtain q where "q \<in> set rows" "rc_receipt_key q = rc_receipt_key r" by (auto simp: c)
    moreover from this(1) props(1) have "q \<in> sweep_receipt now ` set (operation_receipt_outbox s) \<and> due q"
      by (auto simp: t_def)
    ultimately show ?thesis by (auto simp: due_def rcq.sweep_key)
  qed
  show ?thesis
    using props(2,3) stored due by (auto simp: c comp_def claim_def [symmetric])
qed

definition demo_pending :: op_store where
  "demo_pending = empty_store\<lparr>operation_receipt_outbox :=
     [new_receipt ''k2'' ''holding_case_closed'' JNull 3,
      new_receipt ''k1'' ''holding_case_closed'' JNull 1]\<rparr>"

lemma claim_takes_due_witness:
  "sorted (map rc_created_at (fst (claim_due_operation_receipts 5 ''w'' 10 None None demo_pending))) \<and>
   length (fst (claim_due_operation_receipts 5 ''w'' 10 None None demo_pending)) \<le> 10"
proof -
  have "unique_keys rc_receipt_key (operation_receipt_outbox demo_pending)"
    by (simp add: demo_pending_def unique_keys_def)
  from claim_takes_due [OF this prod.collapse [symmetric], of 5 "''w''" 10 None None]
  show ?thesis by simp
qed

text \<open>
  Reporting an outcome, on every branch: only the holder of the send may mark it; then the
  attempt is counted, the claim released and the next attempt set between one minute and one hour
  ahead. Anyone else, an unsupported outcome included, gets an error and the store is unchanged.
\<close>
theorem mark_by_holder_only:
  assumes "unique_keys rc_receipt_key (operation_receipt_outbox s)"
    and "row_of rc_receipt_key k (operation_receipt_outbox s) = Some r"
  shows "mark_operation_receipt now k c outcome mid err s =
    (case parse_outcome outcome of
       None \<Rightarrow> (Inl (ValueError (''unsupported receipt outcome: '' @ outcome)), s)
     | Some st \<Rightarrow>
         if rc_status r = RcSending \<and> rc_claim_id r = Some c
         then (Inr (), s\<lparr>operation_receipt_outbox :=
                 sql_update (\<lambda>q. rc_receipt_key q = k)
                   (marked_row now st (rc_attempt_count r + 1) mid err) (operation_receipt_outbox s)\<rparr>)
         else (Inl (KeyError (''operation receipt send not found: '' @ k @ '' claim_id='' @ c)), s)) \<and>
    (\<forall>st q. now + minutes 1 \<le> rc_next_attempt_at (marked_row now st (rc_attempt_count r + 1) mid err q) \<and>
       rc_next_attempt_at (marked_row now st (rc_attempt_count r + 1) mid err q) \<le> now + minutes 60)"
  using mark_receipt_exact [OF assms] retry_delay_bounds by (simp add: marked_row_def)

lemma mark_by_holder_only_witness:
  "fst (mark_operation_receipt 7 ''k'' ''w1'' ''sent'' None None demo_sending) = Inr () \<and>
   mark_operation_receipt 7 ''k'' ''w2'' ''sent'' None None demo_sending =
     (Inl (KeyError (''operation receipt send not found: '' @ ''k'' @ '' claim_id='' @ ''w2'')), demo_sending)"
proof -
  have u: "unique_keys rc_receipt_key (operation_receipt_outbox demo_sending)"
    and r: "row_of rc_receipt_key ''k'' (operation_receipt_outbox demo_sending) =
       Some ((new_receipt ''k'' ''holding_case_closed'' JNull 0)
        \<lparr>rc_status := RcSending, rc_claim_id := Some ''w1'', rc_send_started_at := Some 0\<rparr>)"
    by (simp_all add: demo_sending_def unique_keys_def row_of_Cons new_receipt_def)
  show ?thesis
    using mark_by_holder_only [OF u r, of 7 "''w1''" "''sent''" None None]
      mark_by_holder_only [OF u r, of 7 "''w2''" "''sent''" None None]
    by (simp add: parse_outcome_def)
qed

text \<open>
  Enqueueing is idempotent and collision-safe: after a receipt was accepted, enqueueing it
  again reports that nothing was inserted and changes nothing, and reusing its key for a different
  type or payload raises and changes nothing.
\<close>
theorem enqueue_idempotent:
  assumes "enqueue_operation_receipt now k ty p s = (Inr b, s')"
  shows "enqueue_operation_receipt now' k ty p s' = (Inr False, s') \<and>
    (ty' \<in> set supported_receipt_types \<and> (ty' \<noteq> ty \<or> canonical_json p' \<noteq> canonical_json p) \<longrightarrow>
     enqueue_operation_receipt now' k ty' p' s' =
       (Inl (ValueError (''operation receipt key collision with different payload: '' @ k)), s'))"
proof -
  from assms have ins: "insert_operation_receipt_tx k ty p now s = Inr (b, s')"
    by (simp add: enqueue_operation_receipt_def commit_Inr)
  from insert_receipt_present [OF ins] obtain r where
    r: "row_of rc_receipt_key k (operation_receipt_outbox s') = Some r"
      "rc_receipt_type r = ty" "rc_payload_json r = canonical_json p" by blast
  have dup: "insert_ignore rc_receipt_key (new_receipt k q j now') (operation_receipt_outbox s') =
      (operation_receipt_outbox s', 0)" for q j
    using row_of_key [OF r(1)] by (simp add: insert_ignore_def)
  show ?thesis
    using r insert_receipt_cases(3) [OF ins]
    by (auto simp: enqueue_operation_receipt_def insert_operation_receipt_tx_def dup commit_def)
qed

lemma enqueue_idempotent_witness:
  "enqueue_operation_receipt 9 ''k'' ''holding_case_closed'' JNull
     (snd (enqueue_operation_receipt 1 ''k'' ''holding_case_closed'' JNull empty_store)) =
   (Inr False, snd (enqueue_operation_receipt 1 ''k'' ''holding_case_closed'' JNull empty_store))"
proof -
  have "enqueue_operation_receipt 1 ''k'' ''holding_case_closed'' JNull empty_store =
     (Inr True, snd (enqueue_operation_receipt 1 ''k'' ''holding_case_closed'' JNull empty_store))"
    by (simp add: enqueue_operation_receipt_def commit_def insert_operation_receipt_tx_def
      supported_receipt_types_def empty_store_def insert_ignore_def)
  from enqueue_idempotent [OF this, of 9] show ?thesis by blast
qed

end
