(* ===== verification/Nav_Receipts.thy ===== *)
theory Nav_Receipts
  imports Op_Schema
begin

text \<open>
  The NAV receipt outbox, \<open>app/operation_state/_nav_receipt_mixin.py\<close>. Here a claim is itself the
  announcement of the send, and an expired claim fails and is offered again, so a receipt is
  delivered at least once.
\<close>

section \<open>Operations\<close>

definition new_nav_receipt :: "string \<Rightarrow> json \<Rightarrow> instant \<Rightarrow> nav_receipt" where
  "new_nav_receipt receipt_key payload_json now =
     \<lparr>nr_receipt_key = receipt_key, nr_payload_json = payload_json, nr_status = NavPending,
      nr_attempt_count = 0, nr_next_attempt_at = now, nr_claim_id = None, nr_claimed_at = None,
      nr_message_id = None, nr_last_error = None, nr_created_at = now, nr_updated_at = now\<rparr>"

lemma new_nav_receipt_key [simp]: "nr_receipt_key (new_nav_receipt k p now) = k"
  by (simp add: new_nav_receipt_def)

definition enqueue_nav_tx :: "instant \<Rightarrow> string \<Rightarrow> json \<Rightarrow> op_store \<Rightarrow> py_exn + bool \<times> op_store" where
  "enqueue_nav_tx now receipt_key payload s =
     (let payload_json = canonical_json payload;
          (t, n) = insert_ignore nr_receipt_key (new_nav_receipt receipt_key payload_json now)
                     (nav_receipt_outbox s)
      in if n = 0 then
           (case row_of nr_receipt_key receipt_key t of
              None \<Rightarrow> Inl (ValueError
                (''NAV receipt key collision with different payload: '' @ receipt_key))
            | Some existing \<Rightarrow>
                if nr_payload_json existing \<noteq> payload_json
                then Inl (ValueError
                  (''NAV receipt key collision with different payload: '' @ receipt_key))
                else Inr (False, s\<lparr>nav_receipt_outbox := t\<rparr>))
         else Inr (True, s\<lparr>nav_receipt_outbox := t\<rparr>))"

definition enqueue_nav_receipt ::
    "instant \<Rightarrow> string \<Rightarrow> json \<Rightarrow> op_store \<Rightarrow> (py_exn + bool) \<times> op_store" where
  "enqueue_nav_receipt now receipt_key payload = commit (enqueue_nav_tx now receipt_key payload)"

definition nav_waiting :: "nav_receipt \<Rightarrow> bool" where
  "nav_waiting r \<longleftrightarrow> nr_status r = NavPending \<or> nr_status r = NavFailed"

definition nav_due :: "instant \<Rightarrow> string option \<Rightarrow> nav_receipt \<Rightarrow> bool" where
  "nav_due now receipt_key r \<longleftrightarrow>
     nav_waiting r \<and> nr_next_attempt_at r \<le> now \<and>
     (first_nonempty receipt_key [] = [] \<or> nr_receipt_key r = first_nonempty receipt_key [])"

definition nav_lease_over :: "instant \<Rightarrow> nav_receipt \<Rightarrow> bool" where
  "nav_lease_over now r \<longleftrightarrow> nr_status r = NavSending \<and>
     (case nr_claimed_at r of None \<Rightarrow> False | Some t \<Rightarrow> t \<le> now - minutes claim_lease_minutes)"

definition nav_expire_row :: "instant \<Rightarrow> nav_receipt \<Rightarrow> nav_receipt" where
  "nav_expire_row now r =
     r\<lparr>nr_status := NavFailed, nr_claim_id := None, nr_claimed_at := None,
       nr_last_error := (case nr_last_error r of
         None \<Rightarrow> Some ''dispatcher claim expired'' | Some e \<Rightarrow> Some e),
       nr_updated_at := now\<rparr>"

definition take_nav :: "string \<Rightarrow> instant \<Rightarrow> nav_receipt \<Rightarrow> nav_receipt" where
  "take_nav claim now r =
     r\<lparr>nr_status := NavSending, nr_claim_id := Some claim, nr_claimed_at := Some now,
       nr_updated_at := now\<rparr>"

definition claim_due_nav_receipts ::
    "instant \<Rightarrow> string \<Rightarrow> int \<Rightarrow> string option \<Rightarrow> string option \<Rightarrow> op_store \<Rightarrow>
     nav_receipt list \<times> op_store" where
  "claim_due_nav_receipts now fresh limit receipt_key claim_id s =
     (let claim = first_nonempty claim_id fresh;
          t = sql_update (nav_lease_over now) (nav_expire_row now) (nav_receipt_outbox s);
          rows = select_due (nav_due now receipt_key) nr_created_at limit t;
          (claimed, t') = claim_loop nr_receipt_key
                            (\<lambda>r. nav_waiting r \<and> nr_next_attempt_at r \<le> now)
                            (take_nav claim now) rows t
      in (map (\<lambda>r. r\<lparr>nr_claim_id := Some claim, nr_status := NavSending,
                       nr_claimed_at := Some now\<rparr>) claimed,
          s\<lparr>nav_receipt_outbox := t'\<rparr>))"

definition list_due_nav_receipts ::
    "instant \<Rightarrow> int \<Rightarrow> string option \<Rightarrow> op_store \<Rightarrow> nav_receipt list" where
  "list_due_nav_receipts now limit receipt_key s =
     select_due (nav_due now receipt_key) nr_created_at limit (nav_receipt_outbox s)"

definition nav_marked_row ::
    "instant \<Rightarrow> bool \<Rightarrow> nat \<Rightarrow> string option \<Rightarrow> string option \<Rightarrow> nav_receipt \<Rightarrow> nav_receipt" where
  "nav_marked_row now success attempt_count message_id err r =
     r\<lparr>nr_status := (if success then NavSent else NavFailed), nr_attempt_count := attempt_count,
       nr_next_attempt_at := now + retry_delay attempt_count, nr_claim_id := None,
       nr_claimed_at := None, nr_message_id := message_id, nr_last_error := err,
       nr_updated_at := now\<rparr>"

definition mark_nav_tx ::
    "instant \<Rightarrow> string \<Rightarrow> string \<Rightarrow> bool \<Rightarrow> string option \<Rightarrow> string option \<Rightarrow> op_store \<Rightarrow>
     py_exn + unit \<times> op_store" where
  "mark_nav_tx now receipt_key claim_id success message_id err s =
     (let hit = (\<lambda>r. nr_receipt_key r = receipt_key \<and> nr_status r = NavSending \<and>
                     nr_claim_id r = Some claim_id)
      in (case fetchone hit (nav_receipt_outbox s) of
            None \<Rightarrow> Inl (KeyError (''nav receipt claim not found: '' @ receipt_key @
                                    '' claim_id='' @ claim_id))
          | Some row \<Rightarrow>
              Inr ((), s\<lparr>nav_receipt_outbox :=
                sql_update hit
                  (nav_marked_row now success (nr_attempt_count row + 1) message_id err)
                  (nav_receipt_outbox s)\<rparr>)))"

definition mark_nav_receipt ::
    "instant \<Rightarrow> string \<Rightarrow> string \<Rightarrow> bool \<Rightarrow> string option \<Rightarrow> string option \<Rightarrow> op_store \<Rightarrow>
     (py_exn + unit) \<times> op_store" where
  "mark_nav_receipt now receipt_key claim_id success message_id err =
     commit (mark_nav_tx now receipt_key claim_id success message_id err)"

definition get_nav_receipt :: "string \<Rightarrow> op_store \<Rightarrow> nav_receipt option" where
  "get_nav_receipt receipt_key s = row_of nr_receipt_key receipt_key (nav_receipt_outbox s)"

section \<open>The outbox as a lease queue\<close>

definition sweep_nav :: "instant \<Rightarrow> nav_receipt \<Rightarrow> nav_receipt" where
  "sweep_nav now r = (if nav_lease_over now r then nav_expire_row now r else r)"

interpretation navq: lease_queue nr_receipt_key nav_waiting nr_claim_id sweep_nav take_nav
  by unfold_locales
    (auto simp: sweep_nav_def nav_expire_row_def nav_lease_over_def nav_waiting_def take_nav_def)

lemma nav_sweep_eq: "sql_update (nav_lease_over now) (nav_expire_row now) t = map (sweep_nav now) t"
  by (simp add: sql_update_def sweep_nav_def)

lemma claim_nav_eq:
  assumes "unique_keys nr_receipt_key (nav_receipt_outbox s)"
    and "rows = select_due (nav_due now key) nr_created_at limit (map (sweep_nav now) (nav_receipt_outbox s))"
  shows "claim_due_nav_receipts now fresh limit key cid s =
    (map (\<lambda>r. r\<lparr>nr_claim_id := Some (first_nonempty cid fresh), nr_status := NavSending,
                nr_claimed_at := Some now\<rparr>) rows,
     s\<lparr>nav_receipt_outbox := sql_update (\<lambda>r. nr_receipt_key r \<in> nr_receipt_key ` set rows)
         (take_nav (first_nonempty cid fresh) now) (map (sweep_nav now) (nav_receipt_outbox s))\<rparr>)"
proof -
  have "claim_loop nr_receipt_key (\<lambda>r. nav_waiting r \<and> nr_next_attempt_at r \<le> now)
      (take_nav (first_nonempty cid fresh) now) rows (map (sweep_nav now) (nav_receipt_outbox s)) =
    (rows, sql_update (\<lambda>r. nr_receipt_key r \<in> nr_receipt_key ` set rows)
         (take_nav (first_nonempty cid fresh) now) (map (sweep_nav now) (nav_receipt_outbox s)))"
    by (rule navq.swept_claim_eq [OF assms(1) _ assms(2)]) (simp add: nav_due_def)
  then show ?thesis
    by (simp add: claim_due_nav_receipts_def nav_sweep_eq assms(2) [symmetric] Let_def)
qed

section \<open>How a NAV receipt may evolve\<close>

fun nav_move :: "nav_status \<Rightarrow> nav_status \<Rightarrow> bool" where
  "nav_move NavPending t \<longleftrightarrow> t = NavPending \<or> t = NavSending"
| "nav_move NavFailed t \<longleftrightarrow> t = NavFailed \<or> t = NavSending"
| "nav_move NavSending t \<longleftrightarrow> t = NavSending \<or> t = NavFailed \<or> t = NavSent"
| "nav_move NavSent t \<longleftrightarrow> t = NavSent"

definition nav_evolves :: "nav_receipt \<Rightarrow> nav_receipt \<Rightarrow> bool" where
  "nav_evolves r r' \<longleftrightarrow>
     nr_receipt_key r' = nr_receipt_key r \<and> nr_payload_json r' = nr_payload_json r \<and>
     nr_created_at r' = nr_created_at r \<and> nr_attempt_count r \<le> nr_attempt_count r' \<and>
     nav_move (nr_status r) (nr_status r') \<and> (nr_status r = NavSent \<longrightarrow> r' = r)"

definition nav_outbox_evolves :: "nav_receipt list \<Rightarrow> nav_receipt list \<Rightarrow> bool" where
  "nav_outbox_evolves t t' \<longleftrightarrow> unique_keys nr_receipt_key t' \<and>
     (\<forall>k r. row_of nr_receipt_key k t = Some r \<longrightarrow>
        (\<exists>r'. row_of nr_receipt_key k t' = Some r' \<and> nav_evolves r r'))"

lemma nav_move_refl [simp]: "nav_move st st"
  by (cases st) auto

lemma nav_evolves_refl [simp]: "nav_evolves r r"
  by (simp add: nav_evolves_def)

lemma sweep_nav_evolves: "nav_evolves r (sweep_nav now r)"
  by (auto simp: sweep_nav_def nav_expire_row_def nav_evolves_def nav_lease_over_def)

lemma take_sweep_nav_evolves:
  "nav_waiting (sweep_nav now r) \<Longrightarrow> nav_evolves r (take_nav c now (sweep_nav now r))"
  by (cases "nr_status r")
    (auto simp: sweep_nav_def nav_expire_row_def nav_evolves_def nav_lease_over_def
       take_nav_def nav_waiting_def split: if_splits)

datatype nav_op =
    NavEnqueue instant string json
  | NavClaim instant string int "string option" "string option"
  | NavMark instant string string bool "string option" "string option"

fun nav_step :: "nav_op \<Rightarrow> op_store \<Rightarrow> op_store" where
  "nav_step (NavEnqueue now k payload) s = snd (enqueue_nav_receipt now k payload s)"
| "nav_step (NavClaim now fresh limit k c) s = snd (claim_due_nav_receipts now fresh limit k c s)"
| "nav_step (NavMark now k c success mid err) s = snd (mark_nav_receipt now k c success mid err s)"

lemma enqueue_nav_cases:
  assumes "enqueue_nav_tx now k payload s = Inr (b, s')"
  shows "nav_receipt_outbox s' = fst (insert_ignore nr_receipt_key
           (new_nav_receipt k (canonical_json payload) now) (nav_receipt_outbox s))"
  using assms unfolding enqueue_nav_tx_def Let_def insert_ignore_def
  by (auto split: if_splits option.splits)

lemma mark_nav_cases:
  assumes "mark_nav_tx now k c success mid err s = Inr (u, s')"
  obtains row :: nav_receipt where "row \<in> set (nav_receipt_outbox s)" and "nr_receipt_key row = k"
    and "nr_status row = NavSending" and "nr_claim_id row = Some c"
    and "s' = s\<lparr>nav_receipt_outbox :=
      sql_update (\<lambda>r. nr_receipt_key r = k \<and> nr_status r = NavSending \<and> nr_claim_id r = Some c)
        (nav_marked_row now success (nr_attempt_count row + 1) mid err) (nav_receipt_outbox s)\<rparr>"
  using assms by (auto simp: mark_nav_tx_def Let_def dest!: fetchone_Some split: option.splits)

lemma nav_evolves_update:
  assumes "unique_keys nr_receipt_key t" and "\<And>r. r \<in> set t \<Longrightarrow> p r \<Longrightarrow> nav_evolves r (f r)"
  shows "nav_outbox_evolves t (sql_update p f t)"
proof -
  have key: "\<And>r. r \<in> set t \<Longrightarrow> p r \<Longrightarrow> nr_receipt_key (f r) = nr_receipt_key r"
    using assms(2) by (auto simp: nav_evolves_def)
  show ?thesis
    unfolding nav_outbox_evolves_def using assms key
    by (auto simp: row_of_sql_update [where key = nr_receipt_key and t = t and p = p and f = f, OF key]
        dest!: row_of_Some intro!: row_intros)
qed

lemma nav_mark_evolves:
  assumes "unique_keys nr_receipt_key (nav_receipt_outbox s)"
    and "mark_nav_tx now k c success mid err s = Inr (u, s')"
  shows "nav_outbox_evolves (nav_receipt_outbox s) (nav_receipt_outbox s')"
  using assms(2)
proof (rule mark_nav_cases)
  fix row :: nav_receipt
  assume row: "row \<in> set (nav_receipt_outbox s)" "nr_receipt_key row = k"
    and s': "s' = s\<lparr>nav_receipt_outbox :=
      sql_update (\<lambda>r. nr_receipt_key r = k \<and> nr_status r = NavSending \<and> nr_claim_id r = Some c)
        (nav_marked_row now success (nr_attempt_count row + 1) mid err) (nav_receipt_outbox s)\<rparr>"
  have same: "r = row" if "r \<in> set (nav_receipt_outbox s)" "nr_receipt_key r = k" for r
    using that row by (intro unique_keys_eq [OF assms(1)]) auto
  show ?thesis
    unfolding s' using assms(1)
    by (auto simp: nav_evolves_def nav_marked_row_def dest: same intro!: nav_evolves_update)
qed

lemma nav_claim_evolves:
  assumes "unique_keys nr_receipt_key (nav_receipt_outbox s)"
  shows "nav_outbox_evolves (nav_receipt_outbox s)
           (nav_receipt_outbox (snd (claim_due_nav_receipts now fresh limit k c s)))"
proof -
  define rows where
    "rows = select_due (nav_due now k) nr_created_at limit (map (sweep_nav now) (nav_receipt_outbox s))"
  have "nav_waiting (sweep_nav now r)"
    if "row_of nr_receipt_key key (nav_receipt_outbox s) = Some r" "key \<in> nr_receipt_key ` set rows" for key r
    using navq.swept_claim_due [OF assms rows_def that] by (simp add: nav_due_def)
  then show ?thesis
    using assms
    by (auto simp: claim_nav_eq [OF assms rows_def] nav_outbox_evolves_def navq.swept_claim_row
        navq.swept_claim_unique sweep_nav_evolves take_sweep_nav_evolves)
qed

lemma nav_step_evolves:
  assumes "unique_keys nr_receipt_key (nav_receipt_outbox s)"
  shows "nav_outbox_evolves (nav_receipt_outbox s) (nav_receipt_outbox (nav_step x s))"
proof (cases x)
  case (NavEnqueue now k payload)
  have "nav_outbox_evolves (nav_receipt_outbox s) (nav_receipt_outbox s')"
    if "enqueue_nav_tx now k payload s = Inr (b, s')" for b s'
    using assms
    by (auto simp: enqueue_nav_cases [OF that] nav_outbox_evolves_def row_of_insert_ignore
        intro!: row_intros)
  then have "nav_outbox_evolves (nav_receipt_outbox s)
      (nav_receipt_outbox (snd (commit (enqueue_nav_tx now k payload) s)))"
    using assms by (intro commit_preserves [where P = "\<lambda>x. nav_outbox_evolves (nav_receipt_outbox s)
      (nav_receipt_outbox x)"]) (auto simp: nav_outbox_evolves_def)
  then show ?thesis by (simp add: NavEnqueue enqueue_nav_receipt_def)
next
  case (NavClaim now fresh limit k c)
  with nav_claim_evolves [OF assms] show ?thesis by simp
next
  case (NavMark now k c success mid err)
  have "nav_outbox_evolves (nav_receipt_outbox s)
      (nav_receipt_outbox (snd (commit (mark_nav_tx now k c success mid err) s)))"
    using assms nav_mark_evolves [OF assms]
    by (intro commit_preserves [where P = "\<lambda>x. nav_outbox_evolves (nav_receipt_outbox s)
      (nav_receipt_outbox x)"]) (auto simp: nav_outbox_evolves_def)
  then show ?thesis by (simp add: NavMark mark_nav_receipt_def)
qed

section \<open>Properties\<close>

text \<open>
  The life cycle of a NAV receipt: under every operation of the outbox each receipt keeps its
  key, payload and creation time, its attempt count never decreases, its status moves only from
  waiting to sending and from sending to sent or failed, and a sent receipt never changes.
\<close>
theorem nav_receipt_lifecycle:
  assumes "unique_keys nr_receipt_key (nav_receipt_outbox s)"
  shows "nav_outbox_evolves (nav_receipt_outbox s) (nav_receipt_outbox (nav_step x s))"
  using assms by (rule nav_step_evolves)

definition demo_nav :: op_store where
  "demo_nav = empty_store\<lparr>nav_receipt_outbox :=
     [(new_nav_receipt ''n'' JNull 0)
        \<lparr>nr_status := NavSending, nr_claim_id := Some ''w1'', nr_claimed_at := Some 0\<rparr>]\<rparr>"

lemma demo_nav_facts:
  "unique_keys nr_receipt_key (nav_receipt_outbox demo_nav)"
  "row_of nr_receipt_key ''n'' (nav_receipt_outbox demo_nav) = Some ((new_nav_receipt ''n'' JNull 0)
     \<lparr>nr_status := NavSending, nr_claim_id := Some ''w1'', nr_claimed_at := Some 0\<rparr>)"
  by (simp_all add: demo_nav_def unique_keys_def row_of_Cons)

lemma nav_receipt_lifecycle_witness:
  "nav_outbox_evolves (nav_receipt_outbox demo_nav)
     (nav_receipt_outbox (nav_step (NavMark 3 ''n'' ''w1'' True None None) demo_nav))"
  by (rule nav_receipt_lifecycle) (rule demo_nav_facts)

text \<open>
  No NAV receipt is lost: a receipt that is not sent, whose next attempt is due and whose
  claim, if it has one, is older than the lease, is handed out by the next claim (with no limit,
  or a limit that the table does not reach), and stored as held by the claimer.
\<close>
theorem nav_unsent_offered_again:
  assumes "unique_keys nr_receipt_key (nav_receipt_outbox s)"
    and "row_of nr_receipt_key k (nav_receipt_outbox s) = Some r"
    and "nr_status r \<noteq> NavSent" and "nr_next_attempt_at r \<le> now"
    and "nr_status r = NavSending \<Longrightarrow> \<exists>t. nr_claimed_at r = Some t \<and> t + minutes claim_lease_minutes \<le> now"
    and "limit < 0 \<or> length (nav_receipt_outbox s) \<le> nat limit"
    and "claim_due_nav_receipts now fresh limit None cid s = (claimed, s')"
  shows "(\<exists>q \<in> set claimed. nr_receipt_key q = k \<and> nr_payload_json q = nr_payload_json r) \<and>
    row_of nr_receipt_key k (nav_receipt_outbox s') =
      Some (take_nav (first_nonempty cid fresh) now (sweep_nav now r))"
proof -
  define rows where
    "rows = select_due (nav_due now None) nr_created_at limit (map (sweep_nav now) (nav_receipt_outbox s))"
  have key: "nr_receipt_key r = k" using assms(2) by (auto dest: row_of_Some)
  have "nav_due now None (sweep_nav now r)"
    using assms(3-5)
    by (cases "nr_status r")
      (auto simp: nav_due_def nav_waiting_def sweep_nav_def nav_expire_row_def nav_lease_over_def
        first_nonempty_def split: option.splits)
  then have k: "k \<in> nr_receipt_key ` set rows"
    by (rule navq.swept_claim_all [OF assms(6) rows_def assms(2)])
  then obtain q where q: "q \<in> set rows" "nr_receipt_key q = k" by auto
  have "q \<in> set (map (sweep_nav now) (nav_receipt_outbox s))"
    using q(1) select_due_props(1) [OF rows_def] by auto
  then have "row_of nr_receipt_key k (map (sweep_nav now) (nav_receipt_outbox s)) = Some q"
    using q(2) by (intro row_at navq.sweep_table assms(1))
  then have "q = sweep_nav now r" using assms(2) by (simp add: navq.swept_row)
  then have "nr_payload_json q = nr_payload_json r" by (simp add: sweep_nav_def nav_expire_row_def)
  with q k show ?thesis
    using assms(2,7) by (auto simp: claim_nav_eq [OF assms(1) rows_def] navq.swept_claim_row [OF assms(1)])
qed

lemma nav_unsent_offered_again_witness:
  "row_of nr_receipt_key ''n'' (nav_receipt_outbox
     (snd (claim_due_nav_receipts (minutes 6) ''w2'' (-1) None None demo_nav))) =
   Some (take_nav (first_nonempty None ''w2'') (minutes 6) (sweep_nav (minutes 6)
     ((new_nav_receipt ''n'' JNull 0)
        \<lparr>nr_status := NavSending, nr_claim_id := Some ''w1'', nr_claimed_at := Some 0\<rparr>)))"
  using nav_unsent_offered_again [OF demo_nav_facts, of "minutes 6" "-1" "''w2''" None
      "fst (claim_due_nav_receipts (minutes 6) ''w2'' (-1) None None demo_nav)"
      "snd (claim_due_nav_receipts (minutes 6) ''w2'' (-1) None None demo_nav)"]
  by (simp add: new_nav_receipt_def minutes_def seconds_def claim_lease_minutes_def)

text \<open>
  A dispatcher that lost its claim cannot report a result: once another claimer took the
  receipt over, marking it under any other claim id raises and changes nothing.
\<close>
theorem nav_stale_claim_rejected:
  assumes "unique_keys nr_receipt_key (nav_receipt_outbox s)"
    and "claim_due_nav_receipts now fresh limit key cid s = (claimed, s')"
    and "k \<in> nr_receipt_key ` set claimed" and "c \<noteq> first_nonempty cid fresh"
  shows "mark_nav_receipt later k c success mid err s' =
    (Inl (KeyError (''nav receipt claim not found: '' @ k @ '' claim_id='' @ c)), s')"
proof -
  define rows where
    "rows = select_due (nav_due now key) nr_created_at limit (map (sweep_nav now) (nav_receipt_outbox s))"
  note eq = claim_nav_eq [OF assms(1) rows_def, of fresh cid]
  have k: "k \<in> nr_receipt_key ` set rows"
    using assms(2,3) by (auto simp: eq)
  have u: "unique_keys nr_receipt_key (nav_receipt_outbox s')"
    using assms(2) navq.swept_claim_unique [OF assms(1)] by (auto simp: eq)
  have held: "nr_claim_id r = Some (first_nonempty cid fresh)"
    if "row_of nr_receipt_key k (nav_receipt_outbox s') = Some r" for r
    using that k assms(2) by (auto simp: eq navq.swept_claim_row [OF assms(1)] take_nav_def)
  have "fetchone (\<lambda>r. nr_receipt_key r = k \<and> nr_status r = NavSending \<and> nr_claim_id r = Some c)
      (nav_receipt_outbox s') = None"
    using assms(4) held row_at [OF u] by (auto simp: fetchone_None)
  then show ?thesis by (simp add: mark_nav_receipt_def mark_nav_tx_def commit_def)
qed

lemma nav_stale_claim_rejected_witness:
  "mark_nav_receipt (minutes 7) ''n'' ''w1'' True None None
     (snd (claim_due_nav_receipts (minutes 6) ''w2'' (-1) None None demo_nav)) =
   (Inl (KeyError (''nav receipt claim not found: '' @ ''n'' @ '' claim_id='' @ ''w1'')),
    snd (claim_due_nav_receipts (minutes 6) ''w2'' (-1) None None demo_nav))"
proof (rule nav_stale_claim_rejected [OF demo_nav_facts(1) prod.collapse [symmetric]])
  show "''n'' \<in> nr_receipt_key ` set (fst (claim_due_nav_receipts (minutes 6) ''w2'' (-1) None None demo_nav))"
    by code_simp
qed (simp add: first_nonempty_def)

end
