(* ===== verification/Futu_Inbox.thy ===== *)
theory Futu_Inbox
  imports Op_Receipts
begin

text \<open>
  The durable Futu refresh inbox, \<open>app/operation_state/_futu_refresh_mixin.py\<close>: a request is
  accepted once, claimed by the exclusive worker, and settled together with its optional
  quantity-change receipt; an unsuccessful sync goes back to the queue with a delay.
\<close>

section \<open>Operations\<close>

abbreviation futu_key :: "futu_refresh \<Rightarrow> string \<times> string" where
  "futu_key r \<equiv> (fr_account r, fr_request_id r)"

definition accept_futu_refresh :: "instant \<Rightarrow> string \<Rightarrow> string \<Rightarrow> op_store \<Rightarrow> op_store" where
  "accept_futu_refresh now account request_id s =
     s\<lparr>futu_refresh_inbox := fst (insert_ignore futu_key
        \<lparr>fr_account = account, fr_request_id = request_id, fr_state = FutuPending,
         fr_attempt_count = 0, fr_next_attempt_at = now, fr_result_json = None,
         fr_last_error = None, fr_created_at = now, fr_updated_at = now\<rparr>
        (futu_refresh_inbox s))\<rparr>"

definition recover_futu_refreshes :: "instant \<Rightarrow> op_store \<Rightarrow> op_store" where
  "recover_futu_refreshes now s =
     s\<lparr>futu_refresh_inbox := sql_update (\<lambda>r. fr_state r = FutuRunning)
        (\<lambda>r. r\<lparr>fr_state := FutuPending, fr_next_attempt_at := now, fr_updated_at := now\<rparr>)
        (futu_refresh_inbox s)\<rparr>"

text \<open>The claim returns the row as it was selected, before the update.\<close>

definition claim_futu_refresh :: "instant \<Rightarrow> op_store \<Rightarrow> futu_refresh option \<times> op_store" where
  "claim_futu_refresh now s =
     (case sort_key (\<lambda>r. (fr_next_attempt_at r, fr_account r, fr_request_id r))
             (filter (\<lambda>r. fr_state r = FutuPending \<and> fr_next_attempt_at r \<le> now)
                (futu_refresh_inbox s)) of
        [] \<Rightarrow> (None, s)
      | row # _ \<Rightarrow>
          (Some row, s\<lparr>futu_refresh_inbox :=
             sql_update (\<lambda>r. futu_key r = futu_key row \<and> fr_state r = FutuPending)
               (\<lambda>r. r\<lparr>fr_state := FutuRunning, fr_attempt_count := fr_attempt_count r + 1,
                      fr_updated_at := now\<rparr>) (futu_refresh_inbox s)\<rparr>))"

text \<open>\<open>str(x or default)\<close> of a result field; the results carry texts here.\<close>

definition text_or :: "json option \<Rightarrow> string \<Rightarrow> string" where
  "text_or v d =
     (if falsy v then d
      else (case v of
          Some (JStr t) \<Rightarrow> t
        | Some (JBool b) \<Rightarrow> ''True''
        | Some j \<Rightarrow> json_text j
        | None \<Rightarrow> d))"

definition settle_receipt_tx ::
    "instant \<Rightarrow> string \<Rightarrow> string \<Rightarrow> dict option \<Rightarrow> op_store \<Rightarrow> py_exn + op_store" where
  "settle_receipt_tx now account request_id payload s =
     (case payload of
        None \<Rightarrow> Inr s
      | Some p \<Rightarrow>
          (case dict_get ''account'' p of
             None \<Rightarrow> Inl (KeyError ''account'')
           | Some a \<Rightarrow>
               if a \<noteq> JStr account
               then Inl (ValueError ''Futu receipt account does not match refresh'')
               else bind_result
                 (insert_operation_receipt_tx
                    (''futu-refresh-quantity:'' @ account @ '':'' @ request_id)
                    ''futu_refresh_quantity_changed'' (JObj p) now s)
                 (\<lambda>(_, s'). Inr s')))"

definition settled_futu_row ::
    "instant \<Rightarrow> bool \<Rightarrow> dict \<Rightarrow> int \<Rightarrow> futu_refresh \<Rightarrow> futu_refresh" where
  "settled_futu_row now success result delay r =
     r\<lparr>fr_state := (if success then FutuCompleted else FutuPending),
       fr_result_json := Some (canonical_json (JObj result)),
       fr_last_error := (if success then None
                         else Some (text_or (dict_get ''error'' result) ''sync unsuccessful'')),
       fr_next_attempt_at := now + minutes delay, fr_updated_at := now\<rparr>"

definition settle_futu_tx ::
    "instant \<Rightarrow> string \<Rightarrow> string \<Rightarrow> dict \<Rightarrow> dict option \<Rightarrow> op_store \<Rightarrow> py_exn + unit \<times> op_store" where
  "settle_futu_tx now account request_id result payload s =
     (let success = (dict_get ''success'' result = Some (JBool True)) in
      (case row_of futu_key (account, request_id) (futu_refresh_inbox s) of
         None \<Rightarrow> Inl (KeyError (''running Futu refresh not found: '' @ account @ ''/'' @ request_id))
       | Some row \<Rightarrow>
           if fr_state row = FutuCompleted then
             (if fr_result_json row = Some (canonical_json (JObj result)) then Inr ((), s)
              else Inl (ValueError ''completed Futu refresh has a different result''))
           else if fr_state row \<noteq> FutuRunning then
             Inl (KeyError (''running Futu refresh not found: '' @ account @ ''/'' @ request_id))
           else
             bind_result
               (if success then settle_receipt_tx now account request_id payload s else Inr s)
               (\<lambda>s1. bind_result (py_nth retry_minutes (min (fr_attempt_count row - 1) 3))
                 (\<lambda>delay. Inr ((), s1\<lparr>futu_refresh_inbox :=
                    sql_update (\<lambda>r. futu_key r = (account, request_id) \<and> fr_state r = FutuRunning)
                      (settled_futu_row now success result delay) (futu_refresh_inbox s1)\<rparr>)))))"

definition settle_futu_refresh ::
    "instant \<Rightarrow> string \<Rightarrow> string \<Rightarrow> dict \<Rightarrow> dict option \<Rightarrow> op_store \<Rightarrow>
     (py_exn + unit) \<times> op_store" where
  "settle_futu_refresh now account request_id result payload =
     commit (settle_futu_tx now account request_id result payload)"

definition get_futu_refresh :: "string \<Rightarrow> string \<Rightarrow> op_store \<Rightarrow> futu_refresh option" where
  "get_futu_refresh account request_id s =
     row_of futu_key (account, request_id) (futu_refresh_inbox s)"

section \<open>Invariant and evolution\<close>

datatype futu_op =
    FutuAccept instant string string
  | FutuRecover instant
  | FutuClaim instant
  | FutuSettle instant string string dict "dict option"

fun futu_step :: "futu_op \<Rightarrow> op_store \<Rightarrow> op_store" where
  "futu_step (FutuAccept now a q) s = accept_futu_refresh now a q s"
| "futu_step (FutuRecover now) s = recover_futu_refreshes now s"
| "futu_step (FutuClaim now) s = snd (claim_futu_refresh now s)"
| "futu_step (FutuSettle now a q result payload) s =
     snd (settle_futu_refresh now a q result payload s)"

text \<open>Keys are unique, counts start at zero, and a running request was claimed at least once.\<close>

definition futu_row_ok :: "futu_refresh \<Rightarrow> bool" where
  "futu_row_ok r \<longleftrightarrow> 0 \<le> fr_attempt_count r \<and> (fr_state r = FutuRunning \<longrightarrow> 1 \<le> fr_attempt_count r)"

definition futu_inv :: "op_store \<Rightarrow> bool" where
  "futu_inv s \<longleftrightarrow> unique_keys futu_key (futu_refresh_inbox s) \<and>
     (\<forall>r \<in> set (futu_refresh_inbox s). futu_row_ok r)"

definition futu_final :: "op_store \<Rightarrow> op_store \<Rightarrow> bool" where
  "futu_final s s' \<longleftrightarrow>
     (\<forall>k r. row_of futu_key k (futu_refresh_inbox s) = Some r \<longrightarrow> fr_state r = FutuCompleted \<longrightarrow>
        row_of futu_key k (futu_refresh_inbox s') = Some r)"

lemma settle_receipt_frame:
  assumes "settle_receipt_tx now a q payload s = Inr s'"
  shows "futu_refresh_inbox s' = futu_refresh_inbox s"
  using assms unfolding settle_receipt_tx_def
  by (auto simp: bind_result_Inr split: option.splits if_splits dest!: insert_receipt_frame)

lemma settle_futu_cases:
  assumes "settle_futu_tx now a q result payload s = Inr (u, s')"
  shows "(s' = s \<and> (\<exists>row. row_of futu_key (a, q) (futu_refresh_inbox s) = Some row \<and>
             fr_state row = FutuCompleted \<and> fr_result_json row = Some (canonical_json (JObj result)))) \<or>
         (\<exists>row s1 delay. row_of futu_key (a, q) (futu_refresh_inbox s) = Some row \<and>
            fr_state row = FutuRunning \<and>
            (if dict_get ''success'' result = Some (JBool True)
             then settle_receipt_tx now a q payload s else Inr s) = Inr s1 \<and>
            py_nth retry_minutes (min (fr_attempt_count row - 1) 3) = Inr delay \<and>
            s' = s1\<lparr>futu_refresh_inbox :=
              sql_update (\<lambda>r. futu_key r = (a, q) \<and> fr_state r = FutuRunning)
                (settled_futu_row now (dict_get ''success'' result = Some (JBool True)) result delay)
                (futu_refresh_inbox s)\<rparr>)"
proof (cases "row_of futu_key (a, q) (futu_refresh_inbox s)")
  case None
  with assms show ?thesis by (simp add: settle_futu_tx_def Let_def)
next
  case (Some row)
  show ?thesis
  proof (cases "fr_state row")
    case FutuRunning
    with assms Some obtain s1 delay where
      "(if dict_get ''success'' result = Some (JBool True)
        then settle_receipt_tx now a q payload s else Inr s) = Inr s1"
      "py_nth retry_minutes (min (fr_attempt_count row - 1) 3) = Inr delay"
      "s' = s1\<lparr>futu_refresh_inbox :=
              sql_update (\<lambda>r. futu_key r = (a, q) \<and> fr_state r = FutuRunning)
                (settled_futu_row now (dict_get ''success'' result = Some (JBool True)) result delay)
                (futu_refresh_inbox s1)\<rparr>"
      by (auto simp: settle_futu_tx_def Let_def bind_result_Inr)
    moreover from this(1) have "futu_refresh_inbox s1 = futu_refresh_inbox s"
      by (auto split: if_splits dest: settle_receipt_frame)
    ultimately show ?thesis using Some FutuRunning by auto
  qed (use assms Some in \<open>auto simp: settle_futu_tx_def Let_def split: if_splits\<close>)
qed

lemma futu_update_inv:
  assumes "futu_inv s" and "\<And>r. p r \<Longrightarrow> futu_key (f r) = futu_key r"
    and "\<And>r. p r \<Longrightarrow> futu_row_ok r \<Longrightarrow> futu_row_ok (f r)"
    and "\<And>r. p r \<Longrightarrow> fr_state r \<noteq> FutuCompleted"
    and "futu_refresh_inbox s' = sql_update p f (futu_refresh_inbox s)"
  shows "futu_inv s' \<and> futu_final s s'"
proof -
  have "unique_keys futu_key (futu_refresh_inbox s')"
    unfolding assms(5) using assms(1,2) by (intro row_intros) (auto simp: futu_inv_def)
  moreover have "futu_row_ok r" if "r \<in> set (futu_refresh_inbox s')" for r
    using that assms(1,3) by (auto simp: futu_inv_def assms(5) in_sql_update)
  moreover have "row_of futu_key k (futu_refresh_inbox s') = Some r"
    if "row_of futu_key k (futu_refresh_inbox s) = Some r" "fr_state r = FutuCompleted" for k r
    unfolding assms(5) using that assms(2,4)
    by (subst row_of_sql_update) auto
  ultimately show ?thesis by (auto simp: futu_inv_def futu_final_def)
qed

lemma futu_same_inv:
  "futu_inv s \<Longrightarrow> futu_refresh_inbox s' = futu_refresh_inbox s \<Longrightarrow> futu_inv s' \<and> futu_final s s'"
  by (simp add: futu_inv_def futu_final_def)

lemma futu_step_inv:
  assumes "futu_inv s"
  shows "futu_inv (futu_step x s) \<and> futu_final s (futu_step x s)"
proof (cases x)
  case (FutuAccept now a q)
  then show ?thesis
    using assms
    by (auto simp: futu_inv_def futu_final_def accept_futu_refresh_def row_of_insert_ignore
        futu_row_ok_def dest: subsetD [OF insert_ignore_set] intro!: row_intros)
next
  case (FutuRecover now)
  show ?thesis
    by (rule futu_update_inv [OF assms]) (auto simp: FutuRecover recover_futu_refreshes_def futu_row_ok_def)
next
  case (FutuClaim now)
  show ?thesis
  proof (cases "sort_key (\<lambda>r. (fr_next_attempt_at r, fr_account r, fr_request_id r))
             (filter (\<lambda>r. fr_state r = FutuPending \<and> fr_next_attempt_at r \<le> now) (futu_refresh_inbox s))")
    case Nil
    then show ?thesis
      using assms by (simp add: FutuClaim claim_futu_refresh_def futu_final_def)
  next
    case (Cons row rest)
    then have "futu_refresh_inbox (futu_step x s) =
      sql_update (\<lambda>r. futu_key r = futu_key row \<and> fr_state r = FutuPending)
               (\<lambda>r. r\<lparr>fr_state := FutuRunning, fr_attempt_count := fr_attempt_count r + 1,
                      fr_updated_at := now\<rparr>) (futu_refresh_inbox s)"
      by (simp add: FutuClaim claim_futu_refresh_def)
    then show ?thesis by (intro futu_update_inv [OF assms]) (auto simp: futu_row_ok_def)
  qed
next
  case (FutuSettle now a q result payload)
  have "futu_inv s' \<and> futu_final s s'" if "settle_futu_tx now a q result payload s = Inr (u, s')" for u s'
    using settle_futu_cases [OF that]
  proof (elim disjE exE conjE)
    fix row s1 delay
    assume "s' = s1\<lparr>futu_refresh_inbox :=
              sql_update (\<lambda>r. futu_key r = (a, q) \<and> fr_state r = FutuRunning)
                (settled_futu_row now (dict_get ''success'' result = Some (JBool True)) result delay)
                (futu_refresh_inbox s)\<rparr>"
    then show ?thesis
      by (intro futu_update_inv [OF assms]) (auto simp: settled_futu_row_def futu_row_ok_def)
  qed (use assms in \<open>simp_all add: futu_final_def\<close>)
  then show ?thesis
    using assms unfolding FutuSettle futu_step.simps settle_futu_refresh_def
    by (intro commit_preserves [where P = "\<lambda>x. futu_inv x \<and> futu_final s x"]) (auto simp: futu_final_def)
qed

definition futu_run :: "futu_op list \<Rightarrow> op_store \<Rightarrow> op_store" where
  "futu_run ops s = fold futu_step ops s"

lemma futu_run_inv:
  "futu_inv s \<Longrightarrow> futu_inv (futu_run ops s) \<and> futu_final s (futu_run ops s)"
proof (induction ops arbitrary: s)
  case (Cons x ops)
  from futu_step_inv [OF Cons.prems] Cons.IH [of "futu_step x s"] show ?case
    by (auto simp: futu_run_def futu_final_def)
qed (simp add: futu_run_def futu_final_def)

lemma futu_inv_empty [simp]: "futu_inv empty_store"
  by (simp add: futu_inv_def empty_store_def)

section \<open>Properties\<close>

text \<open>
  A completed Futu refresh is final: from any store that satisfies the inbox invariant, after
  any sequence of accepts, recoveries, claims and settlements the completed request still has
  exactly the row it had, so its result is never overwritten and it is never run again; the
  invariant (unique requests, a running request was claimed at least once) holds throughout.
\<close>
theorem futu_completed_final:
  assumes "futu_inv s" and "row_of futu_key (a, q) (futu_refresh_inbox s) = Some r"
    and "fr_state r = FutuCompleted"
  shows "row_of futu_key (a, q) (futu_refresh_inbox (futu_run ops s)) = Some r \<and>
    futu_inv (futu_run ops s)"
  using futu_run_inv [OF assms(1), of ops] assms(2,3) by (auto simp: futu_final_def)

definition demo_futu_ok :: dict where
  "demo_futu_ok = [(''success'', JBool True)]"

definition demo_futu_done :: op_store where
  "demo_futu_done = futu_run
     [FutuAccept 0 ''lx'' ''r1'', FutuClaim 1, FutuSettle 2 ''lx'' ''r1'' demo_futu_ok None] empty_store"

lemma demo_futu_done_row:
  "row_of futu_key (''lx'', ''r1'') (futu_refresh_inbox demo_futu_done) =
     Some \<lparr>fr_account = ''lx'', fr_request_id = ''r1'', fr_state = FutuCompleted, fr_attempt_count = 1,
       fr_next_attempt_at = 60000002, fr_result_json = Some (JObj demo_futu_ok),
       fr_last_error = None, fr_created_at = 0, fr_updated_at = 2\<rparr>"
  by code_simp

lemma futu_completed_final_witness:
  "\<exists>r. fr_state r = FutuCompleted \<and>
     row_of futu_key (''lx'', ''r1'') (futu_refresh_inbox
       (futu_run [FutuAccept 5 ''lx'' ''r1'', FutuRecover 6, FutuClaim 7] demo_futu_done)) = Some r"
proof -
  have "futu_inv demo_futu_done" unfolding demo_futu_done_def by (simp add: futu_run_inv)
  from futu_completed_final [OF this demo_futu_done_row] show ?thesis by fastforce
qed

text \<open>
  Settling is total and exact in every state the inbox can reach: for a running request
  without a receipt it succeeds and writes the state, the canonical result and a next attempt
  between one minute and one hour ahead; a second acknowledgement of the same successful result
  succeeds without any change, and a different result raises without any change.
\<close>
theorem futu_settle_exact:
  assumes "futu_inv s" and "row_of futu_key (a, q) (futu_refresh_inbox s) = Some r"
    and "fr_state r = FutuRunning"
    and "settle_futu_refresh now a q result None s = (res, s')"
    and "ok = (dict_get ''success'' result = Some (JBool True))"
  shows "res = Inr () \<and>
    (\<exists>delay. 1 \<le> delay \<and> delay \<le> 60 \<and>
       row_of futu_key (a, q) (futu_refresh_inbox s') = Some (settled_futu_row now ok result delay r)) \<and>
    (ok \<longrightarrow> settle_futu_refresh later a q result None s' = (Inr (), s')) \<and>
    (ok \<and> canonical_json (JObj result') \<noteq> canonical_json (JObj result) \<longrightarrow>
       settle_futu_refresh later a q result' None s' =
         (Inl (ValueError ''completed Futu refresh has a different result''), s'))"
proof -
  have "1 \<le> fr_attempt_count r"
    using assms(1-3) by (auto simp: futu_inv_def futu_row_ok_def dest: row_of_Some)
  then have "\<exists>delay. 1 \<le> delay \<and> delay \<le> 60 \<and>
      py_nth retry_minutes (min (fr_attempt_count r - 1) 3) = Inr delay"
    by (auto simp: py_nth_def retry_minutes_def Let_def nth_Cons')
  then obtain delay where d: "1 \<le> delay" "delay \<le> 60"
    "py_nth retry_minutes (min (fr_attempt_count r - 1) 3) = Inr delay" by blast
  have tx: "settle_futu_tx now a q result None s = Inr ((), s\<lparr>futu_refresh_inbox :=
        sql_update (\<lambda>x. futu_key x = (a, q) \<and> fr_state x = FutuRunning)
          (settled_futu_row now ok result delay) (futu_refresh_inbox s)\<rparr>)"
    using assms(2,3,5) d(3) by (simp add: settle_futu_tx_def settle_receipt_tx_def Let_def)
  then have s': "res = Inr ()" "futu_refresh_inbox s' = sql_update
      (\<lambda>x. futu_key x = (a, q) \<and> fr_state x = FutuRunning)
      (settled_futu_row now ok result delay) (futu_refresh_inbox s)"
    using assms(4) by (auto simp: settle_futu_refresh_def commit_def)
  have row: "row_of futu_key (a, q) (futu_refresh_inbox s') = Some (settled_futu_row now ok result delay r)"
    unfolding s'(2) using assms(2,3)
    by (subst row_of_sql_update) (auto simp: settled_futu_row_def dest: row_of_Some)
  then show ?thesis
    using s'(1) d(1,2)
    by (auto simp: settle_futu_refresh_def settle_futu_tx_def commit_def settled_futu_row_def Let_def)
qed

definition demo_futu_running :: op_store where
  "demo_futu_running = futu_run [FutuAccept 0 ''lx'' ''r1'', FutuClaim 1] empty_store"

lemma futu_settle_exact_witness:
  "fst (settle_futu_refresh 2 ''lx'' ''r1'' demo_futu_ok None demo_futu_running) = Inr ()"
proof -
  have inv: "futu_inv demo_futu_running" unfolding demo_futu_running_def by (simp add: futu_run_inv)
  have row: "row_of futu_key (''lx'', ''r1'') (futu_refresh_inbox demo_futu_running) =
     Some \<lparr>fr_account = ''lx'', fr_request_id = ''r1'', fr_state = FutuRunning, fr_attempt_count = 1,
       fr_next_attempt_at = 0, fr_result_json = None,
       fr_last_error = None, fr_created_at = 0, fr_updated_at = 1\<rparr>"
    by code_simp
  from futu_settle_exact [OF inv row _ prod.collapse [symmetric] refl] show ?thesis by simp
qed

text \<open>
  C25. Completion and its receipt commit together: when settling a running request succeeds with a
  successful result and a receipt payload, the request is completed and the outbox holds the
  quantity-change receipt with that payload under the request's key; when it raises, nothing at
  all has changed.
\<close>
theorem futu_receipt_atomic:
  assumes "unique_keys futu_key (futu_refresh_inbox s)"
    and "row_of futu_key (a, q) (futu_refresh_inbox s) = Some r" and "fr_state r = FutuRunning"
    and "dict_get ''success'' result = Some (JBool True)"
    and "settle_futu_refresh now a q result (Some p) s = (res, s')"
  shows "(case res of
     Inl e \<Rightarrow> s' = s
   | Inr _ \<Rightarrow>
       (\<exists>r'. row_of futu_key (a, q) (futu_refresh_inbox s') = Some r' \<and> fr_state r' = FutuCompleted) \<and>
       dict_get ''account'' p = Some (JStr a) \<and>
       (\<exists>rc. row_of rc_receipt_key (''futu-refresh-quantity:'' @ a @ '':'' @ q)
               (operation_receipt_outbox s') = Some rc \<and>
             rc_receipt_type rc = ''futu_refresh_quantity_changed'' \<and>
             rc_payload_json rc = canonical_json (JObj p)))"
proof (cases res)
  case (Inl e)
  with assms(5) show ?thesis by (simp add: settle_futu_refresh_def commit_Inl)
next
  case (Inr u)
  with assms(5) have "settle_futu_tx now a q result (Some p) s = Inr (u, s')"
    by (simp add: settle_futu_refresh_def commit_Inr)
  from settle_futu_cases [OF this] assms(2-4) obtain s1 delay where
    s1: "settle_receipt_tx now a q (Some p) s = Inr s1" and
    s': "s' = s1\<lparr>futu_refresh_inbox :=
              sql_update (\<lambda>r. futu_key r = (a, q) \<and> fr_state r = FutuRunning)
                (settled_futu_row now True result delay) (futu_refresh_inbox s)\<rparr>"
    by auto
  have row: "row_of futu_key (a, q) (futu_refresh_inbox s') = Some (settled_futu_row now True result delay r)"
    using assms(2,3) unfolding s'
    by (simp, subst row_of_sql_update) (auto simp: settled_futu_row_def dest: row_of_Some)
  from s1 obtain b where b: "dict_get ''account'' p = Some (JStr a)"
    "insert_operation_receipt_tx (''futu-refresh-quantity:'' @ a @ '':'' @ q)
       ''futu_refresh_quantity_changed'' (JObj p) now s = Inr (b, s1)"
    unfolding settle_receipt_tx_def by (auto simp: bind_result_Inr split: option.splits if_splits)
  from insert_receipt_present [OF b(2)] b(1) row Inr show ?thesis
    by (auto simp: s' settled_futu_row_def)
qed

lemma futu_receipt_atomic_witness:
  "row_of futu_key (''lx'', ''r1'') (futu_refresh_inbox (snd (settle_futu_refresh 2 ''lx'' ''r1''
     demo_futu_ok (Some [(''account'', JStr ''lx'')]) demo_futu_running))) \<noteq> None"
proof -
  have inv: "unique_keys futu_key (futu_refresh_inbox demo_futu_running)" by code_simp
  have row: "row_of futu_key (''lx'', ''r1'') (futu_refresh_inbox demo_futu_running) =
     Some \<lparr>fr_account = ''lx'', fr_request_id = ''r1'', fr_state = FutuRunning, fr_attempt_count = 1,
       fr_next_attempt_at = 0, fr_result_json = None,
       fr_last_error = None, fr_created_at = 0, fr_updated_at = 1\<rparr>"
    by code_simp
  have ok: "dict_get ''success'' demo_futu_ok = Some (JBool True)" by code_simp
  have res: "fst (settle_futu_refresh 2 ''lx'' ''r1'' demo_futu_ok
     (Some [(''account'', JStr ''lx'')]) demo_futu_running) = Inr ()" by code_simp
  from futu_receipt_atomic [OF inv row _ ok prod.collapse [symmetric], of 2 "[(''account'', JStr ''lx'')]"]
  show ?thesis by (auto simp: res)
qed

end
