(* ===== verification/Event_Inbox.thy ===== *)
theory Event_Inbox
  imports Op_Receipts
begin

text \<open>
  The two Bitable event inboxes: \<open>app/operation_state/_cash_flow_event_mixin.py\<close> and the
  table-local operations of \<open>_holding_event_mixin.py\<close>. Their tables have the same columns and
  their statements differ only in the table name and the error text, so the row algebra is shared
  and each method is a thin function on its own table.
\<close>

section \<open>Rows\<close>

record bitable_event =
  be_event_id :: string
  be_event_type :: string
  be_file_token :: string
  be_table_id :: string
  be_revision :: "string option"
  be_action_list :: json
  be_payload_digest :: string

definition new_inbox_event :: "instant \<Rightarrow> bitable_event \<Rightarrow> inbox_event" where
  "new_inbox_event now e =
     \<lparr>ie_event_id = be_event_id e, ie_event_type = be_event_type e,
      ie_file_token = be_file_token e, ie_table_id = be_table_id e, ie_revision = be_revision e,
      ie_action_list_json = canonical_json (be_action_list e),
      ie_payload_digest = be_payload_digest e, ie_state = InboxPending, ie_attempt_count = 0,
      ie_next_attempt_at = now, ie_claim_id = None, ie_claimed_at = None,
      ie_outcome_json = None, ie_last_error = None, ie_received_at = now, ie_updated_at = now\<rparr>"

lemma new_inbox_event_id [simp]: "ie_event_id (new_inbox_event now e) = be_event_id e"
  by (simp add: new_inbox_event_def)

text \<open>The columns an accepted event is compared on.\<close>

definition same_delivery :: "inbox_event \<Rightarrow> bitable_event \<Rightarrow> bool" where
  "same_delivery r e \<longleftrightarrow>
     ie_event_type r = be_event_type e \<and> ie_file_token r = be_file_token e \<and>
     ie_table_id r = be_table_id e \<and> ie_revision r = be_revision e \<and>
     ie_action_list_json r = canonical_json (be_action_list e) \<and>
     ie_payload_digest r = be_payload_digest e"

definition accept_rows ::
    "string \<Rightarrow> instant \<Rightarrow> bitable_event \<Rightarrow> inbox_event list \<Rightarrow> py_exn + bool \<times> inbox_event list" where
  "accept_rows label now e t =
     (let (t', n) = insert_ignore ie_event_id (new_inbox_event now e) t in
      (case row_of ie_event_id (be_event_id e) t' of
         None \<Rightarrow> Inl (ValueError (label @ '' event id collision with different payload: '' @ be_event_id e))
       | Some existing \<Rightarrow>
           if \<not> same_delivery existing e
           then Inl (ValueError (label @ '' event id collision with different payload: '' @ be_event_id e))
           else Inr (n = 1, t')))"

definition inbox_waiting :: "inbox_event \<Rightarrow> bool" where
  "inbox_waiting r \<longleftrightarrow> ie_state r = InboxPending \<or> ie_state r = InboxFailedRetryable"

definition inbox_lease_over :: "instant \<Rightarrow> inbox_event \<Rightarrow> bool" where
  "inbox_lease_over now r \<longleftrightarrow> ie_state r = InboxClaimed \<and>
     (case ie_claimed_at r of None \<Rightarrow> False | Some t \<Rightarrow> t \<le> now - minutes claim_lease_minutes)"

definition inbox_expire_row :: "instant \<Rightarrow> inbox_event \<Rightarrow> inbox_event" where
  "inbox_expire_row now r =
     r\<lparr>ie_state := InboxFailedRetryable, ie_claim_id := None, ie_claimed_at := None,
       ie_last_error := (case ie_last_error r of
         None \<Rightarrow> Some ''worker claim expired'' | Some e \<Rightarrow> Some e),
       ie_next_attempt_at := now, ie_updated_at := now\<rparr>"

definition take_event :: "string \<Rightarrow> instant \<Rightarrow> inbox_event \<Rightarrow> inbox_event" where
  "take_event claim now r =
     r\<lparr>ie_state := InboxClaimed, ie_claim_id := Some claim, ie_claimed_at := Some now,
       ie_updated_at := now\<rparr>"

definition claim_event_rows ::
    "instant \<Rightarrow> string \<Rightarrow> int \<Rightarrow> inbox_event list \<Rightarrow> inbox_event list \<times> inbox_event list" where
  "claim_event_rows now claim limit t0 =
     (let t = sql_update (inbox_lease_over now) (inbox_expire_row now) t0;
          rows = select_due (\<lambda>r. inbox_waiting r \<and> ie_next_attempt_at r \<le> now) ie_received_at limit t;
          (claimed, t') = claim_loop ie_event_id inbox_waiting (take_event claim now) rows t
      in (map (\<lambda>r. r\<lparr>ie_state := InboxClaimed, ie_claim_id := Some claim,
                       ie_claimed_at := Some now\<rparr>) claimed, t'))"

definition claimed_by :: "string \<Rightarrow> string \<Rightarrow> inbox_event \<Rightarrow> bool" where
  "claimed_by event_id claim_id r \<longleftrightarrow>
     ie_event_id r = event_id \<and> ie_state r = InboxClaimed \<and> ie_claim_id r = Some claim_id"

definition processed_row :: "instant \<Rightarrow> json \<Rightarrow> inbox_event \<Rightarrow> inbox_event" where
  "processed_row now outcome r =
     r\<lparr>ie_state := InboxProcessed, ie_outcome_json := Some (canonical_json outcome),
       ie_claim_id := None, ie_claimed_at := None, ie_last_error := None, ie_updated_at := now\<rparr>"

definition failed_event_row :: "instant \<Rightarrow> nat \<Rightarrow> string \<Rightarrow> inbox_event \<Rightarrow> inbox_event" where
  "failed_event_row now attempt err r =
     r\<lparr>ie_state := InboxFailedRetryable, ie_attempt_count := attempt,
       ie_next_attempt_at := now + retry_delay attempt, ie_claim_id := None,
       ie_claimed_at := None, ie_last_error := Some err, ie_updated_at := now\<rparr>"

definition terminal_event_row ::
    "instant \<Rightarrow> nat \<Rightarrow> json \<Rightarrow> string \<Rightarrow> inbox_event \<Rightarrow> inbox_event" where
  "terminal_event_row now attempt outcome err r =
     r\<lparr>ie_state := InboxProcessed, ie_attempt_count := attempt,
       ie_outcome_json := Some (canonical_json outcome), ie_claim_id := None,
       ie_claimed_at := None, ie_last_error := Some err, ie_updated_at := now\<rparr>"

section \<open>Cash-flow events\<close>

definition jstrs :: "string list \<Rightarrow> json" where
  "jstrs xs = JArr (map JStr xs)"

definition with_receipt_keys :: "dict \<Rightarrow> receipt_spec list \<Rightarrow> string list \<Rightarrow> dict" where
  "with_receipt_keys outcome receipts enqueued =
     dict_set ''enqueued_receipt_keys'' (jstrs enqueued)
       (dict_set ''receipt_keys'' (jstrs (map rs_receipt_key receipts)) outcome)"

definition event_claim_missing :: "string \<Rightarrow> string \<Rightarrow> py_exn" where
  "event_claim_missing label event_id = KeyError (label @ '' event claim not found: '' @ event_id)"

definition complete_cash_flow_tx ::
    "instant \<Rightarrow> string \<Rightarrow> string \<Rightarrow> dict \<Rightarrow> receipt_spec list \<Rightarrow> op_store \<Rightarrow>
     py_exn + dict \<times> op_store" where
  "complete_cash_flow_tx now event_id claim_id outcome receipts s =
     (if fetchone (claimed_by event_id claim_id) (cash_flow_event_inbox s) = None
      then Inl (event_claim_missing ''cash flow'' event_id)
      else bind_result (insert_receipts_tx receipts now s) (\<lambda>(enqueued, s1).
        let persisted = with_receipt_keys outcome receipts enqueued in
        if rowcount (claimed_by event_id claim_id) (cash_flow_event_inbox s1) \<noteq> 1
        then Inl (event_claim_missing ''cash flow'' event_id)
        else Inr (persisted, s1\<lparr>cash_flow_event_inbox :=
               sql_update (claimed_by event_id claim_id) (processed_row now (JObj persisted))
                 (cash_flow_event_inbox s1)\<rparr>)))"

definition complete_cash_flow_event ::
    "instant \<Rightarrow> string \<Rightarrow> string \<Rightarrow> dict \<Rightarrow> receipt_spec list \<Rightarrow> op_store \<Rightarrow>
     (py_exn + dict) \<times> op_store" where
  "complete_cash_flow_event now event_id claim_id outcome receipts =
     commit (complete_cash_flow_tx now event_id claim_id outcome receipts)"

definition accept_cash_flow_event ::
    "instant \<Rightarrow> bitable_event \<Rightarrow> op_store \<Rightarrow> (py_exn + bool) \<times> op_store" where
  "accept_cash_flow_event now e = commit (\<lambda>s.
     bind_result (accept_rows ''cash flow'' now e (cash_flow_event_inbox s))
       (\<lambda>(inserted, t). Inr (inserted, s\<lparr>cash_flow_event_inbox := t\<rparr>)))"

definition claim_cash_flow_events ::
    "instant \<Rightarrow> string \<Rightarrow> int \<Rightarrow> string option \<Rightarrow> op_store \<Rightarrow> inbox_event list \<times> op_store" where
  "claim_cash_flow_events now fresh limit claim_id s =
     (let (claimed, t) = claim_event_rows now (first_nonempty claim_id fresh) limit
                           (cash_flow_event_inbox s)
      in (claimed, s\<lparr>cash_flow_event_inbox := t\<rparr>))"

text \<open>
  A failed attempt: with a positive \<open>max_attempts\<close> the last one ends the event with an attention
  receipt (mandatory), otherwise it is retried later. The result is the dictionary the call returns:
  the new state and count, with the stored outcome or the time of the next attempt.
\<close>

record event_failure =
  xf_state :: inbox_state
  xf_attempt_count :: nat
  xf_outcome :: "dict option"
  xf_next_attempt_at :: "instant option"

definition fail_cash_flow_tx ::
    "instant \<Rightarrow> string \<Rightarrow> string \<Rightarrow> string \<Rightarrow> int \<Rightarrow> dict \<Rightarrow> receipt_spec list \<Rightarrow> op_store \<Rightarrow>
     py_exn + event_failure \<times> op_store" where
  "fail_cash_flow_tx now event_id claim_id err max_attempts outcome receipts s =
     (case fetchone (claimed_by event_id claim_id) (cash_flow_event_inbox s) of
        None \<Rightarrow> Inl (event_claim_missing ''cash flow'' event_id)
      | Some row \<Rightarrow>
          let attempt = ie_attempt_count row + 1 in
          if max_attempts \<noteq> 0 \<and> int attempt \<ge> max_attempts then
            (if receipts = [] then
               Inl (ValueError ''terminal cash flow event failure requires an attention receipt'')
             else bind_result (insert_receipts_tx receipts now s) (\<lambda>(enqueued, s1).
               let persisted = with_receipt_keys
                     (dict_set ''attempt_count'' (JInt (int attempt))
                        (dict_setdefault ''status'' (JStr ''attention_required'') outcome))
                     receipts enqueued in
               if rowcount (claimed_by event_id claim_id) (cash_flow_event_inbox s1) \<noteq> 1
               then Inl (event_claim_missing ''cash flow'' event_id)
               else Inr (\<lparr>xf_state = InboxProcessed, xf_attempt_count = attempt, xf_outcome = Some persisted,
                   xf_next_attempt_at = None\<rparr>, s1\<lparr>cash_flow_event_inbox :=
                      sql_update (claimed_by event_id claim_id)
                        (terminal_event_row now attempt (JObj persisted) err)
                        (cash_flow_event_inbox s1)\<rparr>)))
          else Inr (\<lparr>xf_state = InboxFailedRetryable, xf_attempt_count = attempt, xf_outcome = None,
                 xf_next_attempt_at = Some (now + retry_delay attempt)\<rparr>, s\<lparr>cash_flow_event_inbox :=
                 sql_update (claimed_by event_id claim_id) (failed_event_row now attempt err)
                   (cash_flow_event_inbox s)\<rparr>))"

definition mark_cash_flow_event_failed ::
    "instant \<Rightarrow> string \<Rightarrow> string \<Rightarrow> string \<Rightarrow> int \<Rightarrow> dict \<Rightarrow> receipt_spec list \<Rightarrow> op_store \<Rightarrow>
     (py_exn + event_failure) \<times> op_store" where
  "mark_cash_flow_event_failed now event_id claim_id err max_attempts outcome receipts =
     commit (fail_cash_flow_tx now event_id claim_id err max_attempts outcome receipts)"

definition get_cash_flow_event :: "string \<Rightarrow> op_store \<Rightarrow> inbox_event option" where
  "get_cash_flow_event event_id s = row_of ie_event_id event_id (cash_flow_event_inbox s)"

definition inbox_counts :: "inbox_event list \<Rightarrow> inbox_state \<Rightarrow> nat" where
  "inbox_counts t st = rowcount (\<lambda>r. ie_state r = st) t"

definition inbox_latest :: "inbox_event list \<Rightarrow> inbox_event option" where
  "inbox_latest t = (case sort_key (\<lambda>r. - ie_received_at r) t of [] \<Rightarrow> None | r # _ \<Rightarrow> Some r)"

definition cash_flow_event_status :: "op_store \<Rightarrow> (inbox_state \<Rightarrow> nat) \<times> inbox_event option" where
  "cash_flow_event_status s = (inbox_counts (cash_flow_event_inbox s), inbox_latest (cash_flow_event_inbox s))"

section \<open>Holding events\<close>

text \<open>
  Accepting a holding event also asks the change monitor of its table for an observation, when
  the monitor is enabled in the configuration. \<open>coalesce\<close> is the configured number of
  microseconds, if it is a number; the clock is read a second time for the due time.
\<close>

definition monitor_request_row :: "instant \<Rightarrow> holding_monitor \<Rightarrow> holding_monitor" where
  "monitor_request_row due m =
     m\<lparr>hm_requested := hm_requested m + 1,
       hm_next_due := (if hm_failure_count m > 0 then hm_next_due m
         else (case hm_next_due m of
                 None \<Rightarrow> Some due
               | Some d \<Rightarrow> if d > due then Some due else Some d))\<rparr>"

definition accept_holding_event ::
    "instant \<Rightarrow> instant \<Rightarrow> bool \<Rightarrow> int option \<Rightarrow> bitable_event \<Rightarrow> op_store \<Rightarrow>
     (py_exn + bool) \<times> op_store" where
  "accept_holding_event now now2 enabled coalesce e = commit (\<lambda>s.
     bind_result (accept_rows ''holding'' now e (holding_event_inbox s))
       (\<lambda>(inserted, t).
          let s1 = s\<lparr>holding_event_inbox := t\<rparr>;
              delay = (case coalesce of None \<Rightarrow> seconds 2
                       | Some c \<Rightarrow> if c \<le> 0 then seconds 2 else c)
          in Inr (inserted,
               if inserted \<and> enabled
               then s1\<lparr>holding_change_monitor := sql_update
                      (\<lambda>m. hm_file_token m = be_file_token e \<and> hm_table_id m = be_table_id e \<and>
                           hm_ready m \<and> hm_enabled m)
                      (monitor_request_row (now2 + delay)) (holding_change_monitor s1)\<rparr>
               else s1)))"

definition claim_holding_events ::
    "instant \<Rightarrow> string \<Rightarrow> int \<Rightarrow> string option \<Rightarrow> op_store \<Rightarrow> inbox_event list \<times> op_store" where
  "claim_holding_events now fresh limit claim_id s =
     (let (claimed, t) = claim_event_rows now (first_nonempty claim_id fresh) limit
                           (holding_event_inbox s)
      in (claimed, s\<lparr>holding_event_inbox := t\<rparr>))"

definition mark_holding_event_processed ::
    "instant \<Rightarrow> string \<Rightarrow> string \<Rightarrow> dict \<Rightarrow> op_store \<Rightarrow> (py_exn + unit) \<times> op_store" where
  "mark_holding_event_processed now event_id claim_id outcome = commit (\<lambda>s.
     if rowcount (claimed_by event_id claim_id) (holding_event_inbox s) \<noteq> 1
     then Inl (event_claim_missing ''holding'' event_id)
     else Inr ((), s\<lparr>holding_event_inbox :=
            sql_update (claimed_by event_id claim_id) (processed_row now (JObj outcome))
              (holding_event_inbox s)\<rparr>))"

definition mark_holding_event_failed ::
    "instant \<Rightarrow> string \<Rightarrow> string \<Rightarrow> string \<Rightarrow> op_store \<Rightarrow> (py_exn + unit) \<times> op_store" where
  "mark_holding_event_failed now event_id claim_id err = commit (\<lambda>s.
     (case fetchone (claimed_by event_id claim_id) (holding_event_inbox s) of
        None \<Rightarrow> Inl (event_claim_missing ''holding'' event_id)
      | Some row \<Rightarrow> Inr ((), s\<lparr>holding_event_inbox :=
            sql_update (claimed_by event_id claim_id)
              (failed_event_row now (ie_attempt_count row + 1) err) (holding_event_inbox s)\<rparr>)))"

definition get_holding_event :: "string \<Rightarrow> op_store \<Rightarrow> inbox_event option" where
  "get_holding_event event_id s = row_of ie_event_id event_id (holding_event_inbox s)"

definition holding_event_status :: "op_store \<Rightarrow> (inbox_state \<Rightarrow> nat) \<times> inbox_event option" where
  "holding_event_status s = (inbox_counts (holding_event_inbox s), inbox_latest (holding_event_inbox s))"

section \<open>The inboxes as lease queues\<close>

definition sweep_event :: "instant \<Rightarrow> inbox_event \<Rightarrow> inbox_event" where
  "sweep_event now r = (if inbox_lease_over now r then inbox_expire_row now r else r)"

interpretation evq: lease_queue ie_event_id inbox_waiting ie_claim_id sweep_event take_event
  by unfold_locales
    (auto simp: sweep_event_def inbox_expire_row_def inbox_lease_over_def inbox_waiting_def take_event_def)

definition event_due :: "instant \<Rightarrow> inbox_event \<Rightarrow> bool" where
  "event_due now r \<longleftrightarrow> inbox_waiting r \<and> ie_next_attempt_at r \<le> now"

lemma claim_event_rows_eq:
  assumes "unique_keys ie_event_id t"
    and "rows = select_due (event_due now) ie_received_at limit (map (sweep_event now) t)"
  shows "claim_event_rows now claim limit t =
    (map (\<lambda>r. r\<lparr>ie_state := InboxClaimed, ie_claim_id := Some claim, ie_claimed_at := Some now\<rparr>) rows,
     sql_update (\<lambda>r. ie_event_id r \<in> ie_event_id ` set rows) (take_event claim now)
       (map (sweep_event now) t))"
proof -
  have "claim_loop ie_event_id inbox_waiting (take_event claim now) rows (map (sweep_event now) t) =
    (rows, sql_update (\<lambda>r. ie_event_id r \<in> ie_event_id ` set rows) (take_event claim now)
       (map (sweep_event now) t))"
    by (rule evq.swept_claim_eq [OF assms(1) _ assms(2)]) (simp add: event_due_def)
  moreover have "sql_update (inbox_lease_over now) (inbox_expire_row now) t = map (sweep_event now) t"
    by (simp add: sql_update_def sweep_event_def)
  moreover have "(\<lambda>r. inbox_waiting r \<and> ie_next_attempt_at r \<le> now) = event_due now"
    by (simp add: event_due_def fun_eq_iff)
  ultimately show ?thesis by (simp add: claim_event_rows_def assms(2) [symmetric] Let_def)
qed

section \<open>How an event may evolve\<close>

fun inbox_move :: "inbox_state \<Rightarrow> inbox_state \<Rightarrow> bool" where
  "inbox_move InboxPending t \<longleftrightarrow> t = InboxPending \<or> t = InboxClaimed"
| "inbox_move InboxFailedRetryable t \<longleftrightarrow> t = InboxFailedRetryable \<or> t = InboxClaimed"
| "inbox_move InboxClaimed t \<longleftrightarrow> t \<noteq> InboxPending"
| "inbox_move InboxProcessed t \<longleftrightarrow> t = InboxProcessed"

definition event_evolves :: "inbox_event \<Rightarrow> inbox_event \<Rightarrow> bool" where
  "event_evolves r r' \<longleftrightarrow>
     ie_event_id r' = ie_event_id r \<and> (\<forall>e. same_delivery r' e \<longleftrightarrow> same_delivery r e) \<and>
     ie_received_at r' = ie_received_at r \<and> ie_attempt_count r \<le> ie_attempt_count r' \<and>
     inbox_move (ie_state r) (ie_state r') \<and> (ie_state r = InboxProcessed \<longrightarrow> r' = r)"

definition inbox_evolves :: "inbox_event list \<Rightarrow> inbox_event list \<Rightarrow> bool" where
  "inbox_evolves t t' \<longleftrightarrow> unique_keys ie_event_id t' \<and>
     (\<forall>k r. row_of ie_event_id k t = Some r \<longrightarrow>
        (\<exists>r'. row_of ie_event_id k t' = Some r' \<and> event_evolves r r'))"

lemma inbox_move_refl [simp]: "inbox_move st st"
  by (cases st) auto

lemma event_evolves_refl [simp]: "event_evolves r r"
  by (simp add: event_evolves_def)

lemma inbox_evolves_refl [simp]: "unique_keys ie_event_id t \<Longrightarrow> inbox_evolves t t"
  by (auto simp: inbox_evolves_def)

lemma inbox_evolves_update:
  assumes "unique_keys ie_event_id t" and "\<And>r. r \<in> set t \<Longrightarrow> p r \<Longrightarrow> event_evolves r (f r)"
  shows "inbox_evolves t (sql_update p f t)"
proof -
  have key: "\<And>r. r \<in> set t \<Longrightarrow> p r \<Longrightarrow> ie_event_id (f r) = ie_event_id r"
    using assms(2) by (auto simp: event_evolves_def)
  show ?thesis
    unfolding inbox_evolves_def using assms key
    by (auto simp: row_of_sql_update [where key = ie_event_id and t = t and p = p and f = f, OF key]
        dest!: row_of_Some intro!: row_intros)
qed

lemma accept_rows_cases:
  assumes "accept_rows label now e t = Inr (b, t')"
  shows "t' = fst (insert_ignore ie_event_id (new_inbox_event now e) t)"
    and "b \<longleftrightarrow> be_event_id e \<notin> ie_event_id ` set t"
    and "\<exists>r. row_of ie_event_id (be_event_id e) t' = Some r \<and> same_delivery r e"
  using assms unfolding accept_rows_def Let_def insert_ignore_def
  by (auto split: if_splits option.splits)

lemma accept_rows_evolves:
  assumes "unique_keys ie_event_id t" and "accept_rows label now e t = Inr (b, t')"
  shows "inbox_evolves t t'"
  using assms(1) by (auto simp: accept_rows_cases(1) [OF assms(2)] inbox_evolves_def
      row_of_insert_ignore intro!: row_intros)

lemma sweep_event_evolves: "event_evolves r (sweep_event now r)"
  by (auto simp: sweep_event_def inbox_expire_row_def event_evolves_def inbox_lease_over_def same_delivery_def)

lemma take_sweep_event_evolves:
  "inbox_waiting (sweep_event now r) \<Longrightarrow> event_evolves r (take_event c now (sweep_event now r))"
  by (cases "ie_state r")
    (auto simp: sweep_event_def inbox_expire_row_def event_evolves_def inbox_lease_over_def
       take_event_def inbox_waiting_def same_delivery_def split: if_splits)

lemma claim_event_rows_evolves:
  assumes "unique_keys ie_event_id t"
  shows "inbox_evolves t (snd (claim_event_rows now claim limit t))"
proof -
  define rows where "rows = select_due (event_due now) ie_received_at limit (map (sweep_event now) t)"
  have "inbox_waiting (sweep_event now r)"
    if "row_of ie_event_id k t = Some r" "k \<in> ie_event_id ` set rows" for k r
    using evq.swept_claim_due [OF assms rows_def that] by (simp add: event_due_def)
  then show ?thesis
    using assms
    by (auto simp: claim_event_rows_eq [OF assms rows_def] inbox_evolves_def evq.swept_claim_row
        evq.swept_claim_unique sweep_event_evolves take_sweep_event_evolves)
qed

lemma same_row:
  assumes "unique_keys ie_event_id t" and "fetchone (claimed_by k c) t = Some row"
  shows "row \<in> set t" and "claimed_by k c row"
    and "r \<in> set t \<Longrightarrow> claimed_by k c r \<Longrightarrow> r = row"
  using assms unique_keys_eq [OF assms(1)]
  by (auto dest!: fetchone_Some simp: claimed_by_def)

lemma processed_evolves:
  assumes "unique_keys ie_event_id t"
  shows "inbox_evolves t (sql_update (claimed_by k c) (processed_row now j) t)"
  using assms
  by (intro inbox_evolves_update)
    (auto simp: claimed_by_def processed_row_def event_evolves_def same_delivery_def)

lemma failed_evolves:
  assumes "unique_keys ie_event_id t" and "fetchone (claimed_by k c) t = Some row"
  shows "inbox_evolves t (sql_update (claimed_by k c) (failed_event_row now (ie_attempt_count row + 1) err) t)"
proof (rule inbox_evolves_update [OF assms(1)])
  fix r assume "r \<in> set t" "claimed_by k c r"
  with same_row(3) [OF assms] have "r = row" "ie_state r = InboxClaimed" by (auto simp: claimed_by_def)
  then show "event_evolves r (failed_event_row now (ie_attempt_count row + 1) err r)"
    by (simp add: failed_event_row_def event_evolves_def same_delivery_def)
qed

lemma terminal_evolves:
  assumes "unique_keys ie_event_id t" and "fetchone (claimed_by k c) t = Some row"
  shows "inbox_evolves t (sql_update (claimed_by k c)
           (terminal_event_row now (ie_attempt_count row + 1) j err) t)"
proof (rule inbox_evolves_update [OF assms(1)])
  fix r assume "r \<in> set t" "claimed_by k c r"
  with same_row(3) [OF assms] have "r = row" "ie_state r = InboxClaimed" by (auto simp: claimed_by_def)
  then show "event_evolves r (terminal_event_row now (ie_attempt_count row + 1) j err r)"
    by (simp add: terminal_event_row_def event_evolves_def same_delivery_def)
qed

section \<open>Runs of the two inboxes\<close>

datatype inbox_op =
    CashAccept instant bitable_event
  | CashClaim instant string int "string option"
  | CashComplete instant string string dict "receipt_spec list"
  | CashFail instant string string string int dict "receipt_spec list"
  | HoldingAccept instant instant bool "int option" bitable_event
  | HoldingClaim instant string int "string option"
  | HoldingProcessed instant string string dict
  | HoldingFail instant string string string

fun inbox_step :: "inbox_op \<Rightarrow> op_store \<Rightarrow> op_store" where
  "inbox_step (CashAccept now e) s = snd (accept_cash_flow_event now e s)"
| "inbox_step (CashClaim now fresh limit c) s = snd (claim_cash_flow_events now fresh limit c s)"
| "inbox_step (CashComplete now k c out rs) s = snd (complete_cash_flow_event now k c out rs s)"
| "inbox_step (CashFail now k c err m out rs) s =
     snd (mark_cash_flow_event_failed now k c err m out rs s)"
| "inbox_step (HoldingAccept now now2 enabled coalesce e) s =
     snd (accept_holding_event now now2 enabled coalesce e s)"
| "inbox_step (HoldingClaim now fresh limit c) s = snd (claim_holding_events now fresh limit c s)"
| "inbox_step (HoldingProcessed now k c out) s = snd (mark_holding_event_processed now k c out s)"
| "inbox_step (HoldingFail now k c err) s = snd (mark_holding_event_failed now k c err s)"

definition both_evolve :: "op_store \<Rightarrow> op_store \<Rightarrow> bool" where
  "both_evolve s s' \<longleftrightarrow>
     inbox_evolves (cash_flow_event_inbox s) (cash_flow_event_inbox s') \<and>
     inbox_evolves (holding_event_inbox s) (holding_event_inbox s')"

definition inbox_keys :: "op_store \<Rightarrow> bool" where
  "inbox_keys s \<longleftrightarrow> unique_keys ie_event_id (cash_flow_event_inbox s) \<and>
     unique_keys ie_event_id (holding_event_inbox s)"

lemma both_evolve_refl: "inbox_keys s \<Longrightarrow> both_evolve s s"
  by (simp add: both_evolve_def inbox_keys_def)

lemma complete_cash_cases:
  assumes "complete_cash_flow_tx now k c out rs s = Inr (persisted, s')"
  shows "\<exists>keys s1. insert_receipts_tx rs now s = Inr (keys, s1) \<and>
     persisted = with_receipt_keys out rs keys \<and>
     rowcount (claimed_by k c) (cash_flow_event_inbox s) = 1 \<and>
     s' = s1\<lparr>cash_flow_event_inbox := sql_update (claimed_by k c) (processed_row now (JObj persisted))
            (cash_flow_event_inbox s)\<rparr>"
  using assms unfolding complete_cash_flow_tx_def
  by (auto simp: bind_result_Inr Let_def split: if_splits dest!: insert_receipts_frame)

lemma fail_cash_cases:
  assumes "fail_cash_flow_tx now k c err m out rs s = Inr (res, s')"
  obtains (terminal) row keys s1 persisted where
      "fetchone (claimed_by k c) (cash_flow_event_inbox s) = Some row" and "rs \<noteq> []"
      and "m \<noteq> 0" and "int (ie_attempt_count row + 1) \<ge> m"
      and "insert_receipts_tx rs now s = Inr (keys, s1)"
      and "res = \<lparr>xf_state = InboxProcessed, xf_attempt_count = ie_attempt_count row + 1, xf_outcome = Some persisted,
             xf_next_attempt_at = None\<rparr>"
      and "s' = s1\<lparr>cash_flow_event_inbox := sql_update (claimed_by k c)
             (terminal_event_row now (ie_attempt_count row + 1) (JObj persisted) err)
             (cash_flow_event_inbox s)\<rparr>"
    | (retry) row where
      "fetchone (claimed_by k c) (cash_flow_event_inbox s) = Some row"
      and "\<not> (m \<noteq> 0 \<and> int (ie_attempt_count row + 1) \<ge> m)"
      and "res = \<lparr>xf_state = InboxFailedRetryable, xf_attempt_count = ie_attempt_count row + 1, xf_outcome = None,
             xf_next_attempt_at = Some (now + retry_delay (ie_attempt_count row + 1))\<rparr>"
      and "s' = s\<lparr>cash_flow_event_inbox := sql_update (claimed_by k c)
             (failed_event_row now (ie_attempt_count row + 1) err) (cash_flow_event_inbox s)\<rparr>"
proof (cases "fetchone (claimed_by k c) (cash_flow_event_inbox s)")
  case None
  with assms show ?thesis by (simp add: fail_cash_flow_tx_def)
next
  case (Some row)
  show ?thesis
  proof (cases "m \<noteq> 0 \<and> int (ie_attempt_count row + 1) \<ge> m")
    case True
    with Some assms obtain keys s1 persisted where
      "rs \<noteq> []" "insert_receipts_tx rs now s = Inr (keys, s1)"
      "res = \<lparr>xf_state = InboxProcessed, xf_attempt_count = ie_attempt_count row + 1, xf_outcome = Some persisted,
             xf_next_attempt_at = None\<rparr>"
      "s' = s1\<lparr>cash_flow_event_inbox := sql_update (claimed_by k c)
             (terminal_event_row now (ie_attempt_count row + 1) (JObj persisted) err)
             (cash_flow_event_inbox s1)\<rparr>"
      unfolding fail_cash_flow_tx_def
      by (auto simp: bind_result_Inr Let_def split: if_splits)
    moreover from insert_receipts_frame [OF this(2)]
    have "cash_flow_event_inbox s1 = cash_flow_event_inbox s" by auto
    ultimately show ?thesis using True Some by (intro terminal) auto
  next
    case False
    with Some assms show ?thesis
      unfolding fail_cash_flow_tx_def by (intro retry) (auto simp: Let_def)
  qed
qed

lemma fail_cash_evolves:
  assumes "inbox_keys s" and "fail_cash_flow_tx now k c err m out rs s = Inr (res, s')"
  shows "both_evolve s s'"
  using assms(2)
proof (cases rule: fail_cash_cases)
  case (terminal row keys s1 persisted)
  with insert_receipts_frame [OF terminal(5)] assms(1)
    terminal_evolves [of "cash_flow_event_inbox s" k c row now "JObj persisted" err]
  show ?thesis by (auto simp: both_evolve_def inbox_keys_def)
next
  case (retry row)
  then show ?thesis
    using assms(1) by (auto simp: both_evolve_def inbox_keys_def intro!: failed_evolves [simplified])
qed

lemma complete_cash_evolves:
  assumes "inbox_keys s" and "complete_cash_flow_tx now k c out rs s = Inr (d, s')"
  shows "both_evolve s s'"
  using complete_cash_cases [OF assms(2)] assms(1)
  by (auto simp: both_evolve_def inbox_keys_def intro!: processed_evolves dest!: insert_receipts_frame)

lemma inbox_step_evolves:
  assumes "inbox_keys s"
  shows "both_evolve s (inbox_step x s)"
proof (cases x)
  case (CashAccept now e)
  then show ?thesis
    unfolding CashAccept inbox_step.simps accept_cash_flow_event_def using assms
    by (intro commit_preserves [where P = "both_evolve s"] both_evolve_refl)
      (auto simp: bind_result_Inr both_evolve_def inbox_keys_def intro: accept_rows_evolves)
next
  case (CashClaim now fresh limit c)
  then show ?thesis
    using assms claim_event_rows_evolves [of "cash_flow_event_inbox s" now "first_nonempty c fresh" limit]
    by (auto simp: claim_cash_flow_events_def both_evolve_def inbox_keys_def split: prod.splits)
next
  case (CashComplete now k c out rs)
  show ?thesis
    unfolding CashComplete inbox_step.simps complete_cash_flow_event_def
    by (intro commit_preserves [where P = "both_evolve s"] both_evolve_refl assms
        complete_cash_evolves [OF assms])
next
  case (CashFail now k c err m out rs)
  show ?thesis
    unfolding CashFail inbox_step.simps mark_cash_flow_event_failed_def
    by (intro commit_preserves [where P = "both_evolve s"] both_evolve_refl assms
        fail_cash_evolves [OF assms])
next
  case (HoldingAccept now now2 enabled coalesce e)
  then show ?thesis
    unfolding HoldingAccept inbox_step.simps accept_holding_event_def using assms
    by (intro commit_preserves [where P = "both_evolve s"] both_evolve_refl)
      (auto simp: bind_result_Inr both_evolve_def inbox_keys_def Let_def intro: accept_rows_evolves)
next
  case (HoldingClaim now fresh limit c)
  then show ?thesis
    using assms claim_event_rows_evolves [of "holding_event_inbox s" now "first_nonempty c fresh" limit]
    by (auto simp: claim_holding_events_def both_evolve_def inbox_keys_def split: prod.splits)
next
  case (HoldingProcessed now k c out)
  show ?thesis
    unfolding HoldingProcessed inbox_step.simps mark_holding_event_processed_def using assms
    by (intro commit_preserves [where P = "both_evolve s"] both_evolve_refl)
      (auto simp: both_evolve_def inbox_keys_def split: if_splits intro!: processed_evolves)
next
  case (HoldingFail now k c err)
  show ?thesis
    unfolding HoldingFail inbox_step.simps mark_holding_event_failed_def using assms
    by (intro commit_preserves [where P = "both_evolve s"] both_evolve_refl)
      (auto simp: both_evolve_def inbox_keys_def split: option.splits intro!: failed_evolves [simplified])
qed

section \<open>Properties\<close>

text \<open>
  C23. The life cycle of an inbox event, for both inboxes and under each of their eight operations:
  event ids stay unique, an accepted event keeps its id, its delivered content and its reception
  time, its attempt count never decreases, a claimed event never becomes pending again, and a
  processed event never changes at all.
\<close>
theorem inbox_event_lifecycle:
  assumes "unique_keys ie_event_id (cash_flow_event_inbox s)"
    and "unique_keys ie_event_id (holding_event_inbox s)"
  shows "inbox_evolves (cash_flow_event_inbox s) (cash_flow_event_inbox (inbox_step x s)) \<and>
    inbox_evolves (holding_event_inbox s) (holding_event_inbox (inbox_step x s))"
  using inbox_step_evolves [of s x] assms by (simp add: both_evolve_def inbox_keys_def)

definition demo_event :: bitable_event where
  "demo_event = \<lparr>be_event_id = ''e1'', be_event_type = ''changed'', be_file_token = ''f'',
     be_table_id = ''t'', be_revision = None, be_action_list = JArr [], be_payload_digest = ''d''\<rparr>"

definition demo_inbox :: op_store where
  "demo_inbox = snd (claim_cash_flow_events 1 ''w1'' 10 None (inbox_step (CashAccept 0 demo_event) empty_store))"

lemma demo_inbox_keys: "unique_keys ie_event_id (cash_flow_event_inbox demo_inbox)"
    "unique_keys ie_event_id (holding_event_inbox demo_inbox)"
  by code_simp+

lemma inbox_event_lifecycle_witness:
  "inbox_evolves (cash_flow_event_inbox demo_inbox)
     (cash_flow_event_inbox (inbox_step (CashFail 2 ''e1'' ''w1'' ''boom'' 0 [] []) demo_inbox))"
  using inbox_event_lifecycle [OF demo_inbox_keys] by blast

text \<open>
  Accepting is idempotent: redelivering an event that was accepted reports that nothing was
  inserted and leaves the whole store as it is (the change monitor is not asked again), and a
  different payload under a known event id raises and leaves the store as it is.
\<close>
theorem accept_holding_idempotent:
  assumes "accept_holding_event now now2 enabled coalesce e s = (Inr b, s')"
  shows "accept_holding_event later later2 enabled' coalesce' e s' = (Inr False, s') \<and>
    (be_event_id e' = be_event_id e \<and>
     (be_event_type e' \<noteq> be_event_type e \<or> be_payload_digest e' \<noteq> be_payload_digest e \<or>
      be_revision e' \<noteq> be_revision e \<or> be_table_id e' \<noteq> be_table_id e) \<longrightarrow>
     accept_holding_event later later2 enabled' coalesce' e' s' =
       (Inl (ValueError (''holding'' @ '' event id collision with different payload: '' @ be_event_id e)), s'))"
proof -
  from assms obtain t where t: "accept_rows ''holding'' now e (holding_event_inbox s) = Inr (b, t)"
    and s': "holding_event_inbox s' = t"
    by (auto simp: accept_holding_event_def commit_Inr bind_result_Inr Let_def split: if_splits)
  from accept_rows_cases(3) [OF t] obtain r where
    r: "row_of ie_event_id (be_event_id e) t = Some r" "same_delivery r e" by blast
  have dup: "insert_ignore ie_event_id (new_inbox_event later x) t = (t, 0)"
    if "be_event_id x = be_event_id e" for x
    using that row_of_key [OF r(1)] by (simp add: insert_ignore_def)
  show ?thesis
    using r
    by (auto simp: accept_holding_event_def accept_rows_def s' dup commit_def same_delivery_def Let_def)
qed

lemma accept_holding_idempotent_witness:
  "accept_holding_event 9 9 True None demo_event (snd (accept_holding_event 0 0 True None demo_event empty_store)) =
     (Inr False, snd (accept_holding_event 0 0 True None demo_event empty_store))"
proof -
  have "fst (accept_holding_event 0 0 True None demo_event empty_store) = Inr True" by code_simp
  then have "accept_holding_event 0 0 True None demo_event empty_store =
      (Inr True, snd (accept_holding_event 0 0 True None demo_event empty_store))"
    by (metis prod.collapse)
  from accept_holding_idempotent [OF this, of 9 9 True None] show ?thesis by blast
qed

text \<open>
  A poison cash-flow event ends with an attention receipt and never silently: when a failed
  attempt reaches the configured maximum, the call either raises and changes nothing (no receipt
  supplied, a receipt collision) or marks the event processed with its attempt counted and leaves
  every supplied receipt in the outbox; below the maximum the event is queued again with a delay
  of at least one minute and at most one hour. The answer names the stored outcome or that time.
\<close>
theorem cash_flow_failure_exact:
  assumes "unique_keys ie_event_id (cash_flow_event_inbox s)"
    and "row_of ie_event_id k (cash_flow_event_inbox s) = Some r" and "claimed_by k c r"
    and "mark_cash_flow_event_failed now k c err m out rs s = (res, s')"
    and "n = ie_attempt_count r + 1"
  shows "(case res of
      Inl e \<Rightarrow> s' = s \<and> m \<noteq> 0 \<and> int n \<ge> m
    | Inr a \<Rightarrow> xf_attempt_count a = n \<and>
        (\<exists>r'. row_of ie_event_id k (cash_flow_event_inbox s') = Some r' \<and> ie_state r' = xf_state a \<and>
           ie_attempt_count r' = n \<and> ie_last_error r' = Some err \<and> ie_claim_id r' = None \<and>
           (if m \<noteq> 0 \<and> int n \<ge> m
            then xf_state a = InboxProcessed \<and> rs \<noteq> [] \<and>
              ie_outcome_json r' = map_option (\<lambda>x. canonical_json (JObj x)) (xf_outcome a) \<and>
              (\<forall>x \<in> set rs. \<exists>q. row_of rc_receipt_key (rs_receipt_key x) (operation_receipt_outbox s') = Some q
                 \<and> rc_payload_json q = canonical_json (rs_payload x))
            else xf_state a = InboxFailedRetryable \<and> xf_next_attempt_at a = Some (ie_next_attempt_at r') \<and> now + minutes 1 \<le> ie_next_attempt_at r' \<and>
              ie_next_attempt_at r' \<le> now + minutes 60)))"
proof -
  have one: "fetchone (claimed_by k c) (cash_flow_event_inbox s) = Some r"
  proof (cases "fetchone (claimed_by k c) (cash_flow_event_inbox s)")
    case None
    with assms(2,3) show ?thesis by (auto simp: fetchone_None dest: row_of_Some)
  next
    case (Some q)
    with same_row(3) [OF assms(1) Some, of r] assms(2,3) show ?thesis by (auto dest: row_of_Some)
  qed
  have upd: "row_of ie_event_id k (sql_update (claimed_by k c) f (cash_flow_event_inbox s)) = Some (f r)"
    if "\<And>q. ie_event_id (f q) = ie_event_id q" for f
    using assms(2,3) that by (subst row_of_sql_update) auto
  show ?thesis
  proof (cases res)
    case (Inl e)
    with assms(4) have "fail_cash_flow_tx now k c err m out rs s = Inl e" "s' = s"
      by (auto simp: mark_cash_flow_event_failed_def commit_Inl)
    with one assms(5) Inl show ?thesis
      by (auto simp: fail_cash_flow_tx_def Let_def split: if_splits)
  next
    case (Inr v)
    with assms(4) have "fail_cash_flow_tx now k c err m out rs s = Inr (v, s')"
      by (simp add: mark_cash_flow_event_failed_def commit_Inr)
    then show ?thesis
    proof (cases rule: fail_cash_cases)
      case (terminal row keys s1 persisted)
      then have "row = r" using one by simp
      have out: "operation_receipt_outbox s' = operation_receipt_outbox s1" by (simp add: terminal(7))
      have "row_of ie_event_id k (cash_flow_event_inbox s') =
          Some (terminal_event_row now (ie_attempt_count r + 1) (JObj persisted) err r)"
        unfolding terminal(7) by (simp add: \<open>row = r\<close>, rule upd) (simp add: terminal_event_row_def)
      with terminal insert_receipts_present [OF terminal(5)] \<open>row = r\<close> Inr assms(5) out show ?thesis
        by (fastforce simp: terminal_event_row_def)
    next
      case (retry row)
      then have "row = r" using one by simp
      have "row_of ie_event_id k (cash_flow_event_inbox s') =
          Some (failed_event_row now (ie_attempt_count r + 1) err r)"
        unfolding retry(4) by (simp add: \<open>row = r\<close>, rule upd) (simp add: failed_event_row_def)
      with retry \<open>row = r\<close> Inr assms(5) retry_delay_bounds show ?thesis
        by (auto simp: failed_event_row_def)
    qed
  qed
qed

lemma cash_flow_failure_exact_witness:
  "\<exists>a. fst (mark_cash_flow_event_failed 5 ''e1'' ''w1'' ''boom'' 3 [] [] demo_inbox) = Inr a \<and> xf_attempt_count a = 1"
proof -
  obtain r where r: "row_of ie_event_id ''e1'' (cash_flow_event_inbox demo_inbox) = Some r"
      "claimed_by ''e1'' ''w1'' r" "ie_attempt_count r = 0"
  proof -
    have "(case row_of ie_event_id ''e1'' (cash_flow_event_inbox demo_inbox) of None \<Rightarrow> False
       | Some r \<Rightarrow> claimed_by ''e1'' ''w1'' r \<and> ie_attempt_count r = 0)" by code_simp
    then show ?thesis using that by (auto split: option.splits)
  qed
  show ?thesis
    using cash_flow_failure_exact [OF demo_inbox_keys(1) r(1,2) prod.collapse [symmetric] refl,
        of 5 "''boom''" 3 "[]" "[]"] r(3)
    by (auto split: sum.splits prod.splits)
qed

text \<open>
  No accepted holding event is lost: an event that is not processed, whose next attempt is due
  and whose claim, if it has one, has outlived the lease, is handed out by the next unlimited claim
  and stored as claimed by that worker.
\<close>
theorem holding_event_offered_again:
  assumes "unique_keys ie_event_id (holding_event_inbox s)"
    and "row_of ie_event_id k (holding_event_inbox s) = Some r" and "ie_state r \<noteq> InboxProcessed"
    and "ie_state r = InboxClaimed \<or> ie_next_attempt_at r \<le> now"
    and "ie_state r = InboxClaimed \<Longrightarrow> \<exists>t. ie_claimed_at r = Some t \<and> t + minutes claim_lease_minutes \<le> now"
    and "limit < 0 \<or> length (holding_event_inbox s) \<le> nat limit"
    and "claim_holding_events now fresh limit cid s = (claimed, s')"
  shows "k \<in> ie_event_id ` set claimed \<and>
    row_of ie_event_id k (holding_event_inbox s') =
      Some (take_event (first_nonempty cid fresh) now (sweep_event now r))"
proof -
  define rows where
    "rows = select_due (event_due now) ie_received_at limit (map (sweep_event now) (holding_event_inbox s))"
  have "event_due now (sweep_event now r)"
    using assms(3-5)
    by (cases "ie_state r")
      (auto simp: event_due_def inbox_waiting_def sweep_event_def inbox_expire_row_def
        inbox_lease_over_def split: option.splits)
  then have k: "k \<in> ie_event_id ` set rows"
    by (rule evq.swept_claim_all [OF assms(6) rows_def assms(2)])
  then show ?thesis
    using assms(2,7) unfolding claim_holding_events_def claim_event_rows_eq [OF assms(1) rows_def]
    by (auto simp: evq.swept_claim_row [OF assms(1)] image_image)
qed

lemma holding_event_offered_again_witness:
  "''e1'' \<in> ie_event_id ` set (fst (claim_holding_events (minutes 9) ''w2'' (-1) None
     (snd (accept_holding_event 0 0 False None demo_event empty_store))))"
proof -
  let ?s = "snd (accept_holding_event 0 0 False None demo_event empty_store)"
  have u: "unique_keys ie_event_id (holding_event_inbox ?s)" by code_simp
  have r: "row_of ie_event_id ''e1'' (holding_event_inbox ?s) = Some (new_inbox_event 0 demo_event)"
    by code_simp
  show ?thesis
    using holding_event_offered_again [OF u r _ _ _ _ prod.collapse [symmetric], of "minutes 9" "-1" "''w2''" None]
    by (simp add: new_inbox_event_def minutes_def seconds_def)
qed

end
