(* ===== verification/Case_Contract.thy ===== *)
theory Case_Contract
  imports Op_Schema
begin

text \<open>
  The identity contract of a durable reconciliation case (\<open>app/holding_case_contract.py\<close>): the
  field-specific precondition digest, the scope a "keep" decision was confirmed for, and the
  classification of a stored case against a fresh candidate with the same key. SHA-256 is a
  parameter \<open>sha\<close> from the hashed text to the hexadecimal digest.
\<close>

section \<open>Candidates\<close>

text \<open>
  A candidate case as it is observed. Text fields keep the text the caller gave (the empty text
  where the key is missing): the code strips them in some places and not in others.
\<close>

record case_input =
  ci_case_key :: string
  ci_record_id :: string
  ci_field :: string
  ci_kind :: string
  ci_state :: string
  ci_policy_version :: string
  ci_precondition :: string
  ci_legacy_precondition :: string
  ci_record_digest :: string
  ci_account :: "string option"
  ci_identity :: json
  ci_current :: json
  ci_proposed :: json
  ci_authority_id :: "string option"
  ci_blocks :: bool
  ci_evidence_instance_id :: "string option"
  ci_evidence :: json

definition or_obj :: "json \<Rightarrow> json" where
  "or_obj j = (if falsy (Some j) then JObj [] else j)"

definition get_or_null :: "string \<Rightarrow> dict \<Rightarrow> json" where
  "get_or_null k d = (case dict_get k d of Some v \<Rightarrow> v | None \<Rightarrow> JNull)"

fun case_state_text :: "case_state \<Rightarrow> string" where
  "case_state_text PendingApply = ''pending_apply''"
| "case_state_text PendingConfirmation = ''pending_confirmation''"
| "case_state_text PendingManualEdit = ''pending_manual_edit''"
| "case_state_text Applying = ''applying''"
| "case_state_text FailedRetryable = ''failed_retryable''"
| "case_state_text ApplyOutcomeUnknown = ''apply_outcome_unknown''"
| "case_state_text ResolvedAccept = ''resolved_accept''"
| "case_state_text ResolvedKeep = ''resolved_keep''"
| "case_state_text ResolvedExternal = ''resolved_external''"
| "case_state_text Superseded = ''superseded''"
| "case_state_text (OtherState t) = t"

definition known_states :: "case_state list" where
  "known_states = [PendingApply, PendingConfirmation, PendingManualEdit, Applying, FailedRetryable,
     ApplyOutcomeUnknown, ResolvedAccept, ResolvedKeep, ResolvedExternal, Superseded]"

definition parse_case_state :: "string \<Rightarrow> case_state" where
  "parse_case_state t = (case find (\<lambda>st. case_state_text st = t) known_states of
      Some st \<Rightarrow> st | None \<Rightarrow> OtherState t)"

lemma parse_case_state_text: "case_state_text (parse_case_state t) = t"
  by (auto simp: parse_case_state_def find_Some_iff split: option.splits)

section \<open>Digests\<close>

definition contract_v1 :: string where
  "contract_v1 = ''holdings-precondition.v1''"

definition contract_v2 :: string where
  "contract_v2 = ''holdings-precondition.v2''"

definition v2_prefix :: string where
  "v2_prefix = contract_v2 @ '':''"

definition digest_json :: "(string \<Rightarrow> string) \<Rightarrow> json \<Rightarrow> string" where
  "digest_json sha v = sha (canonical_text v)"

definition asset_type_dependent :: "string \<Rightarrow> bool" where
  "asset_type_dependent field \<longleftrightarrow> field \<in> set [''currency'', ''asset_class'']"

definition precondition_payload ::
    "string \<Rightarrow> dict \<Rightarrow> string \<Rightarrow> json \<Rightarrow> dict \<Rightarrow> json" where
  "precondition_payload record_id identity field current canonical_record =
     JObj [(''record_id'', JStr record_id), (''identity'', JObj identity), (''field'', JStr field),
       (''current'', current),
       (''authority_inputs'', JObj (if asset_type_dependent field
          then [(''asset_type'', get_or_null ''asset_type'' canonical_record)] else []))]"

definition legacy_payload ::
    "string \<Rightarrow> dict \<Rightarrow> string \<Rightarrow> json \<Rightarrow> dict \<Rightarrow> json" where
  "legacy_payload record_id identity field current canonical_record =
     JObj [(''record_id'', JStr record_id), (''identity'', JObj identity), (''field'', JStr field),
       (''current'', current),
       (''authority_inputs'', JObj (map (\<lambda>k. (k, get_or_null k canonical_record))
          [''asset_id'', ''asset_type'', ''account'', ''broker'']))]"

text \<open>The v2 digest and the v1 comparator of the same record.\<close>

definition build_case_precondition ::
    "(string \<Rightarrow> string) \<Rightarrow> string \<Rightarrow> dict \<Rightarrow> string \<Rightarrow> json \<Rightarrow> dict \<Rightarrow> string \<times> string" where
  "build_case_precondition sha record_id identity field current canonical_record =
     (v2_prefix @ digest_json sha (precondition_payload record_id identity field current canonical_record),
      digest_json sha (legacy_payload record_id identity field current canonical_record))"

definition confirmation_scope ::
    "(string \<Rightarrow> string) \<Rightarrow> string \<Rightarrow> string \<Rightarrow> string option \<Rightarrow> string \<Rightarrow> string" where
  "confirmation_scope sha case_key precondition authority_id policy_version =
     digest_json sha (JObj [(''case_key'', JStr case_key),
       (''case_precondition_digest'', JStr precondition), (''authority_id'', jopt authority_id),
       (''policy_version'', JStr policy_version)])"

definition stored_scope :: "(string \<Rightarrow> string) \<Rightarrow> holding_case \<Rightarrow> string" where
  "stored_scope sha r = confirmation_scope sha (hc_case_key r) (hc_precondition_digest r)
     (hc_authority_id r) (hc_policy_version r)"

definition candidate_scope :: "(string \<Rightarrow> string) \<Rightarrow> case_input \<Rightarrow> string" where
  "candidate_scope sha c = confirmation_scope sha (ci_case_key c) (ci_precondition c)
     (ci_authority_id c) (ci_policy_version c)"

definition precondition_contract :: "string \<Rightarrow> string option" where
  "precondition_contract digest = (let t = py_strip digest; n = length v2_prefix in
     if take n t = v2_prefix \<and> hex_text 64 (drop n t) then Some contract_v2
     else if hex_text 64 t then Some contract_v1 else None)"

section \<open>Transitions\<close>

datatype transition = TransitionExact | LegacyMigratable | TransitionReject

definition legacy_migratable_states :: "case_state list" where
  "legacy_migratable_states = [PendingApply, PendingConfirmation, PendingManualEdit, ResolvedKeep,
     ResolvedAccept, ResolvedExternal, Superseded]"

definition same_semantics :: "holding_case \<Rightarrow> case_input \<Rightarrow> bool" where
  "same_semantics r c \<longleftrightarrow> hc_case_key r = ci_case_key c \<and> hc_record_id r = ci_record_id c \<and>
     canonical_json (hc_identity_json r) = canonical_json (ci_identity c) \<and>
     hc_field r = ci_field c \<and> hc_kind r = ci_kind c \<and>
     canonical_json (hc_current_json r) = canonical_json (ci_current c) \<and>
     canonical_json (hc_proposed_json r) = canonical_json (ci_proposed c) \<and>
     hc_authority_id r = ci_authority_id c \<and> hc_policy_version r = ci_policy_version c"

text \<open>A resolution column is null or an object.\<close>

definition resolution_dict :: "holding_case \<Rightarrow> dict" where
  "resolution_dict r = (case hc_resolution_json r of Some j \<Rightarrow> as_dict j | None \<Rightarrow> [])"

definition classify_precondition_transition ::
    "(string \<Rightarrow> string) \<Rightarrow> holding_case \<Rightarrow> case_input \<Rightarrow> transition" where
  "classify_precondition_transition sha r c =
     (let stored_digest = py_strip (hc_precondition_digest r);
          candidate_digest = py_strip (ci_precondition c)
      in if stored_digest = candidate_digest then TransitionExact
         else if precondition_contract stored_digest \<noteq> Some contract_v1 \<or>
                 precondition_contract candidate_digest \<noteq> Some contract_v2 \<or>
                 hc_state r \<notin> set legacy_migratable_states
         then TransitionReject
         else if \<not> same_semantics r c then TransitionReject
         else if asset_type_dependent (ci_field c) \<and> stored_digest \<noteq> ci_legacy_precondition c
         then TransitionReject
         else if hc_state r = ResolvedKeep \<and>
                 dict_get ''confirmation_scope'' (resolution_dict r) \<noteq> Some (JStr (stored_scope sha r))
         then TransitionReject
         else LegacyMigratable)"

lemma classify_LegacyMigratable:
  "classify_precondition_transition sha r c = LegacyMigratable \<longleftrightarrow>
     py_strip (hc_precondition_digest r) \<noteq> py_strip (ci_precondition c) \<and>
     precondition_contract (py_strip (hc_precondition_digest r)) = Some contract_v1 \<and>
     precondition_contract (py_strip (ci_precondition c)) = Some contract_v2 \<and>
     hc_state r \<in> set legacy_migratable_states \<and> same_semantics r c \<and>
     (asset_type_dependent (ci_field c) \<longrightarrow>
        py_strip (hc_precondition_digest r) = ci_legacy_precondition c) \<and>
     (hc_state r = ResolvedKeep \<longrightarrow>
        dict_get ''confirmation_scope'' (resolution_dict r) = Some (JStr (stored_scope sha r)))"
  unfolding classify_precondition_transition_def Let_def by (auto split: if_splits)

lemma classify_Exact:
  "classify_precondition_transition sha r c = TransitionExact \<longleftrightarrow>
     py_strip (hc_precondition_digest r) = py_strip (ci_precondition c)"
  unfolding classify_precondition_transition_def Let_def by simp

section \<open>The shape of a digest\<close>

lemma dropWhile_none: "xs \<noteq> [] \<Longrightarrow> \<not> p (hd xs) \<Longrightarrow> dropWhile p xs = xs"
  by (cases xs) auto

lemma py_strip_id:
  assumes "s \<noteq> []" and "\<not> py_space (hd s)" and "\<not> py_space (last s)"
  shows "py_strip s = s"
proof -
  have "dropWhile py_space s = s" using assms(1,2) by (rule dropWhile_none)
  moreover have "dropWhile py_space (rev s) = rev s"
    using assms(1,3) by (intro dropWhile_none) (auto simp: hd_rev)
  ultimately show ?thesis by (simp add: py_strip_def)
qed

lemma hex_not_space: "chars_between (CHR ''0'') (CHR ''9'') c \<or> chars_between (CHR ''a'') (CHR ''f'') c \<Longrightarrow> \<not> py_space c"
  by (auto simp: chars_between_def py_space_def less_eq_char_def)

lemma hex_ends:
  assumes "hex_text n s" and "0 < n"
  shows "s \<noteq> []" "\<not> py_space (hd s)" "\<not> py_space (last s)"
proof -
  from assms show ne: "s \<noteq> []" by (auto simp: hex_text_def)
  have "\<not> py_space c" if "c \<in> set s" for c
    using assms(1) that hex_not_space [of c] by (auto simp: hex_text_def list_all_iff)
  with ne show "\<not> py_space (hd s)" "\<not> py_space (last s)" by auto
qed

lemma hex_strip [simp]: "hex_text 64 s \<Longrightarrow> py_strip s = s"
  using hex_ends [of 64 s] by (simp add: py_strip_id)

lemma v2_strip [simp]:
  assumes "hex_text 64 s"
  shows "py_strip (v2_prefix @ s) = v2_prefix @ s"
proof -
  have "\<not> py_space (hd v2_prefix)" "v2_prefix \<noteq> []" by code_simp+
  with hex_ends [OF assms] show ?thesis by (simp add: py_strip_id)
qed

lemma hex_not_v2: "hex_text 64 s \<Longrightarrow> take (length v2_prefix) s \<noteq> v2_prefix"
proof
  assume a: "hex_text 64 s" "take (length v2_prefix) s = v2_prefix"
  then have "CHR ''h'' \<in> set s"
    by (metis (no_types, lifting) contract_v2_def in_set_takeD list.set_intros(1) v2_prefix_def append_Cons)
  moreover have "\<not> (chars_between (CHR ''0'') (CHR ''9'') (CHR ''h'') \<or>
      chars_between (CHR ''a'') (CHR ''f'') (CHR ''h''))" by code_simp
  ultimately show False using a(1) by (auto simp: hex_text_def list_all_iff)
qed

lemma precondition_contract_v1 [simp]: "hex_text 64 s \<Longrightarrow> precondition_contract s = Some contract_v1"
  by (simp add: precondition_contract_def Let_def hex_not_v2)

lemma precondition_contract_v2 [simp]:
  "hex_text 64 s \<Longrightarrow> precondition_contract (v2_prefix @ s) = Some contract_v2"
  by (simp add: precondition_contract_def Let_def)

end
