(* ===== verification/Holding_Cases.thy ===== *)
theory Holding_Cases
  imports Case_Contract Op_Receipts
begin

text \<open>
  The durable reconciliation cases (\<open>app/operation_state/_holding_case_mixin.py\<close>): observing
  candidates, closing cases a fresh scan no longer reports, preparing a remote write, announcing
  it, and recording its outcome. Every operation appends to the case history and queues its
  receipts in the same transaction.
\<close>

section \<open>States and history\<close>

definition open_case_states :: "case_state list" where
  "open_case_states = [PendingApply, PendingConfirmation, PendingManualEdit, Applying,
     FailedRetryable, ApplyOutcomeUnknown]"

definition supersedeable_states :: "case_state list" where
  "supersedeable_states = open_case_states @ [ResolvedKeep]"

definition reopenable_states :: "case_state list" where
  "reopenable_states = [ResolvedAccept, ResolvedExternal, Superseded]"

definition insert_case_event_tx :: "string \<Rightarrow> string \<Rightarrow> dict \<Rightarrow> instant \<Rightarrow> op_store \<Rightarrow> op_store" where
  "insert_case_event_tx case_key event_type payload now s =
     s\<lparr>holding_case_events := holding_case_events s @
       [\<lparr>ce_event_seq = Suc (length (holding_case_events s)), ce_case_key = case_key,
         ce_event_type = event_type, ce_payload_json = canonical_json (JObj payload),
         ce_created_at = now\<rparr>]\<rparr>"

definition update_cases :: "(holding_case \<Rightarrow> bool) \<Rightarrow> (holding_case \<Rightarrow> holding_case) \<Rightarrow> op_store \<Rightarrow> op_store" where
  "update_cases p f s = s\<lparr>holding_cases := sql_update p f (holding_cases s)\<rparr>"

definition closure_receipt_tx ::
    "bool \<Rightarrow> string \<Rightarrow> dict \<Rightarrow> instant \<Rightarrow> op_store \<Rightarrow> py_exn + string list \<times> op_store" where
  "closure_receipt_tx enqueue receipt_key payload now s =
     (if enqueue
      then bind_result (insert_repeatable_closure_receipt_tx receipt_key (JObj payload) now s)
        (\<lambda>(inserted, s1). Inr (if inserted then [receipt_key] else [], s1))
      else Inr ([], s))"

definition semantics_collision :: "string \<Rightarrow> py_exn" where
  "semantics_collision case_key =
     ValueError (''holding case key collision with different semantics: '' @ case_key)"

section \<open>Migrating a precondition\<close>

definition migrated_resolution :: "(string \<Rightarrow> string) \<Rightarrow> case_input \<Rightarrow> holding_case \<Rightarrow> json option" where
  "migrated_resolution sha c stored =
     (if hc_state stored = ResolvedKeep
      then Some (canonical_json (JObj (dict_set ''confirmation_scope'' (JStr (candidate_scope sha c))
             (resolution_dict stored))))
      else hc_resolution_json stored)"

definition migrated_row ::
    "(string \<Rightarrow> string) \<Rightarrow> case_input \<Rightarrow> instant \<Rightarrow> holding_case \<Rightarrow> holding_case \<Rightarrow> holding_case" where
  "migrated_row sha c now stored r =
     r\<lparr>hc_precondition_digest := ci_precondition c,
       hc_resolution_json := migrated_resolution sha c stored, hc_updated_at := now\<rparr>"

definition migrate_case_precondition_tx ::
    "(string \<Rightarrow> string) \<Rightarrow> holding_case \<Rightarrow> case_input \<Rightarrow> dict \<Rightarrow> instant \<Rightarrow> op_store \<Rightarrow>
     py_exn + bool \<times> op_store" where
  "migrate_case_precondition_tx sha existing c trigger now s =
     (case classify_precondition_transition sha existing c of
        TransitionExact \<Rightarrow> Inr (False, s)
      | TransitionReject \<Rightarrow> Inl (semantics_collision (ci_case_key c))
      | LegacyMigratable \<Rightarrow>
          let hit = (\<lambda>r. hc_case_key r = ci_case_key c \<and>
                hc_precondition_digest r = hc_precondition_digest existing)
          in if rowcount hit (holding_cases s) \<noteq> 1
             then Inl (ValueError (''holding case precondition changed during migration: '' @ ci_case_key c))
             else Inr (True, insert_case_event_tx (ci_case_key c) ''precondition_contract_migrated''
                 [(''from_contract'', JStr contract_v1), (''to_contract'', JStr contract_v2),
                  (''from_digest'', JStr (hc_precondition_digest existing)),
                  (''to_digest'', JStr (ci_precondition c)),
                  (''state'', JStr (case_state_text (hc_state existing))), (''trigger'', JObj trigger)] now
                 (update_cases hit (migrated_row sha c now existing) s)))"

section \<open>Materializing observed cases\<close>

record case_changes =
  cc_created :: "string list"
  cc_refreshed :: "string list"
  cc_reopened :: "string list"
  cc_closed :: "string list"
  cc_superseded :: "string list"
  cc_receipts :: "string list"

definition no_changes :: case_changes where
  "no_changes = \<lparr>cc_created = [], cc_refreshed = [], cc_reopened = [], cc_closed = [],
     cc_superseded = [], cc_receipts = []\<rparr>"

definition add_changes :: "case_changes \<Rightarrow> case_changes \<Rightarrow> case_changes" where
  "add_changes a b = \<lparr>cc_created = cc_created a @ cc_created b,
     cc_refreshed = cc_refreshed a @ cc_refreshed b, cc_reopened = cc_reopened a @ cc_reopened b,
     cc_closed = cc_closed a @ cc_closed b, cc_superseded = cc_superseded a @ cc_superseded b,
     cc_receipts = cc_receipts a @ cc_receipts b\<rparr>"

text \<open>A write by automatic policy whose result is not known yet.\<close>

definition operator_method :: "holding_case \<Rightarrow> json option" where
  "operator_method r =
     (let res = resolution_dict r;
          apply_context = dict_get ''apply_operator_context'' res;
          context = (if falsy apply_context then dict_get ''operator_context'' res else apply_context)
      in dict_get ''method'' (case context of Some j \<Rightarrow> as_dict j | None \<Rightarrow> []))"

definition automatic_in_flight :: "holding_case \<Rightarrow> bool" where
  "automatic_in_flight r \<longleftrightarrow> (hc_state r = Applying \<or> hc_state r = ApplyOutcomeUnknown) \<and>
     operator_method r = Some (JStr ''automatic_policy'')"

definition previous_resolution :: "holding_case \<Rightarrow> dict \<Rightarrow> dict" where
  "previous_resolution r resolution = (case hc_resolution_json r of
      Some j \<Rightarrow> dict_set ''previous_resolution'' j resolution
    | None \<Rightarrow> resolution)"

definition superseded_row :: "dict \<Rightarrow> instant \<Rightarrow> holding_case \<Rightarrow> holding_case" where
  "superseded_row resolution now r =
     r\<lparr>hc_state := Superseded, hc_resolution_json := Some (canonical_json (JObj resolution)),
       hc_updated_at := now\<rparr>"

definition supersede_case_tx ::
    "string \<Rightarrow> string \<Rightarrow> dict \<Rightarrow> instant \<Rightarrow> bool \<Rightarrow> holding_case \<Rightarrow> op_store \<Rightarrow>
     py_exn + string list \<times> op_store" where
  "supersede_case_tx case_key record_digest trigger now enqueue old s =
     (let resolution = previous_resolution old
            [(''reason'', JStr ''semantic_case_changed''), (''replacement_case_key'', JStr case_key),
             (''trigger'', JObj trigger)];
          s1 = update_cases (\<lambda>r. hc_case_key r = hc_case_key old \<and> hc_state r \<in> set supersedeable_states)
            (superseded_row resolution now) s;
          s2 = insert_case_event_tx (hc_case_key old) ''superseded'' resolution now s1
      in closure_receipt_tx enqueue
           (''holdings:case:closed:'' @ hc_case_key old @ '':superseded:'' @ record_digest)
           (dict_merge [(''case_key'', JStr (hc_case_key old)), (''record_id'', JStr (hc_record_id old)),
              (''field'', JStr (hc_field old)), (''terminal_state'', JStr ''superseded'')] resolution)
           now s2)"

fun supersede_loop ::
    "string \<Rightarrow> string \<Rightarrow> dict \<Rightarrow> instant \<Rightarrow> bool \<Rightarrow> holding_case list \<Rightarrow> op_store \<Rightarrow>
     py_exn + string list \<times> op_store" where
  "supersede_loop case_key record_digest trigger now enqueue [] s = Inr ([], s)"
| "supersede_loop case_key record_digest trigger now enqueue (old # olds) s =
     bind_result (supersede_case_tx case_key record_digest trigger now enqueue old s)
       (\<lambda>(ks, s1). bind_result (supersede_loop case_key record_digest trigger now enqueue olds s1)
         (\<lambda>(ks', s2). Inr (ks @ ks', s2)))"

definition same_immutables :: "case_input \<Rightarrow> holding_case \<Rightarrow> bool" where
  "same_immutables c r \<longleftrightarrow> hc_record_id r = py_strip (ci_record_id c) \<and>
     hc_field r = py_strip (ci_field c) \<and> hc_kind r = py_strip (ci_kind c) \<and>
     hc_policy_version r = py_strip (ci_policy_version c) \<and> hc_authority_id r = ci_authority_id c \<and>
     hc_current_json r = canonical_json (ci_current c) \<and>
     hc_proposed_json r = canonical_json (ci_proposed c) \<and>
     hc_precondition_digest r = py_strip (ci_precondition c)"

definition reopened_row :: "case_input \<Rightarrow> instant \<Rightarrow> holding_case \<Rightarrow> holding_case" where
  "reopened_row c now r =
     r\<lparr>hc_state := parse_case_state (py_strip (ci_state c)),
       hc_identity_json := canonical_json (or_obj (ci_identity c)),
       hc_evidence_instance_id := ci_evidence_instance_id c,
       hc_evidence_json := canonical_json (or_obj (ci_evidence c)),
       hc_record_digest := py_strip (ci_record_digest c), hc_resolution_json := None,
       hc_target_json := None, hc_before_json := None, hc_apply_attempt_id := None,
       hc_remote_attempt_started_at := None, hc_last_error := None, hc_updated_at := now\<rparr>"

definition refreshed_row :: "case_input \<Rightarrow> instant \<Rightarrow> holding_case \<Rightarrow> holding_case" where
  "refreshed_row c now r =
     r\<lparr>hc_evidence_instance_id := ci_evidence_instance_id c,
       hc_evidence_json := canonical_json (or_obj (ci_evidence c)),
       hc_record_digest := py_strip (ci_record_digest c), hc_updated_at := now\<rparr>"

text \<open>The tail of the known-key branch, once identity and precondition agree.\<close>

definition observe_existing_tx ::
    "case_input \<Rightarrow> dict \<Rightarrow> instant \<Rightarrow> string \<Rightarrow> holding_case \<Rightarrow> op_store \<Rightarrow>
     py_exn + case_changes \<times> op_store" where
  "observe_existing_tx c trigger now case_key existing s =
     (let evidence_changed = (hc_evidence_instance_id existing \<noteq> ci_evidence_instance_id c \<or>
            hc_evidence_json existing \<noteq> canonical_json (or_obj (ci_evidence c)));
          digest = py_strip (ci_record_digest c)
      in if \<not> same_immutables c existing then Inl (semantics_collision case_key)
         else if hc_state existing \<in> set reopenable_states
         then Inr (no_changes\<lparr>cc_reopened := [case_key]\<rparr>,
             insert_case_event_tx case_key ''reopened''
               [(''from_state'', JStr (case_state_text (hc_state existing))),
                (''to_state'', JStr (py_strip (ci_state c))), (''record_digest'', JStr digest),
                (''trigger'', JObj trigger)] now
               (update_cases (\<lambda>r. hc_case_key r = case_key) (reopened_row c now) s))
         else if evidence_changed \<or> hc_record_digest existing \<noteq> digest
         then Inr (no_changes\<lparr>cc_refreshed := [case_key]\<rparr>,
             insert_case_event_tx case_key
               (if evidence_changed then ''evidence_refreshed'' else ''record_refreshed'')
               [(''evidence_instance_id'', jopt (ci_evidence_instance_id c)),
                (''record_digest'', JStr digest), (''trigger'', JObj trigger)] now
               (update_cases (\<lambda>r. hc_case_key r = case_key) (refreshed_row c now) s))
         else Inr (no_changes, s))"

definition materialize_existing_tx ::
    "(string \<Rightarrow> string) \<Rightarrow> case_input \<Rightarrow> dict \<Rightarrow> instant \<Rightarrow> string \<Rightarrow> holding_case \<Rightarrow> op_store \<Rightarrow>
     py_exn + case_changes \<times> op_store" where
  "materialize_existing_tx sha c trigger now case_key existing s =
     (let identity = canonical_json (or_obj (ci_identity c));
          lookup = (\<lambda>s. row_of hc_case_key case_key (holding_cases s));
          filled = update_cases (\<lambda>r. hc_case_key r = case_key)
            (\<lambda>r. r\<lparr>hc_identity_json := identity, hc_updated_at := now\<rparr>) s;
          s1 = (if hc_identity_json existing = JObj [] then filled else s)
      in if hc_identity_json existing \<noteq> JObj [] \<and> hc_identity_json existing \<noteq> identity
         then Inl (ValueError (''holding case key collision with different identity: '' @ case_key))
         else (case lookup s1 of
             None \<Rightarrow> Inl (TypeError case_key)
           | Some row1 \<Rightarrow> bind_result (migrate_case_precondition_tx sha row1 c trigger now s1)
               (\<lambda>(_, s2). case lookup s2 of
                   None \<Rightarrow> Inl (TypeError case_key)
                 | Some row2 \<Rightarrow> observe_existing_tx c trigger now case_key row2 s2)))"

definition new_case_row :: "case_input \<Rightarrow> instant \<Rightarrow> holding_case" where
  "new_case_row c now =
     \<lparr>hc_case_key = py_strip (ci_case_key c), hc_record_id = py_strip (ci_record_id c),
      hc_account = ci_account c, hc_identity_json = canonical_json (or_obj (ci_identity c)),
      hc_field = py_strip (ci_field c), hc_kind = py_strip (ci_kind c),
      hc_blocks_official_nav = ci_blocks c, hc_policy_version = py_strip (ci_policy_version c),
      hc_authority_id = ci_authority_id c, hc_current_json = canonical_json (ci_current c),
      hc_proposed_json = canonical_json (ci_proposed c),
      hc_record_digest = py_strip (ci_record_digest c),
      hc_precondition_digest = py_strip (ci_precondition c),
      hc_evidence_instance_id = ci_evidence_instance_id c,
      hc_evidence_json = canonical_json (or_obj (ci_evidence c)),
      hc_state = parse_case_state (py_strip (ci_state c)), hc_resolution_json = None,
      hc_target_json = None, hc_before_json = None, hc_apply_attempt_id = None,
      hc_remote_attempt_started_at = None, hc_last_error = None, hc_created_at = now,
      hc_updated_at = now\<rparr>"

text \<open>\<open>receipt_by_case\<close>: a later receipt of a case replaces an earlier one.\<close>

definition receipt_by_case :: "receipt_spec list \<Rightarrow> string \<Rightarrow> receipt_spec option" where
  "receipt_by_case receipts case_key = find (\<lambda>x. rs_case_key x = case_key) (rev receipts)"

definition materialize_new_tx ::
    "case_input \<Rightarrow> receipt_spec list \<Rightarrow> dict \<Rightarrow> instant \<Rightarrow> bool \<Rightarrow> op_store \<Rightarrow>
     py_exn + case_changes \<times> op_store" where
  "materialize_new_tx c receipts trigger now enqueue s =
     (let case_key = py_strip (ci_case_key c);
          s1 = s\<lparr>holding_cases := holding_cases s @ [new_case_row c now]\<rparr>;
          s2 = insert_case_event_tx case_key ''discovered''
            [(''state'', JStr (py_strip (ci_state c))),
             (''record_digest'', JStr (py_strip (ci_record_digest c))), (''trigger'', JObj trigger)] now s1
      in case receipt_by_case receipts case_key of
          None \<Rightarrow> Inl (ValueError (''new holding case lacks discovery receipt: '' @ case_key))
        | Some x \<Rightarrow>
            if enqueue
            then bind_result (insert_operation_receipt_tx (rs_receipt_key x) (rs_receipt_type x)
                (rs_payload x) now s2)
              (\<lambda>(inserted, s3). Inr (no_changes\<lparr>cc_created := [case_key],
                  cc_receipts := (if inserted then [rs_receipt_key x] else [])\<rparr>, s3))
            else Inr (no_changes\<lparr>cc_created := [case_key]\<rparr>, s2))"

definition rival_rows :: "string \<Rightarrow> string \<Rightarrow> string \<Rightarrow> op_store \<Rightarrow> holding_case list" where
  "rival_rows record_id field case_key s =
     filter (\<lambda>r. hc_record_id r = record_id \<and> hc_field r = field \<and> hc_case_key r \<noteq> case_key \<and>
       hc_state r \<in> set supersedeable_states) (holding_cases s)"

definition materialize_case_tx ::
    "(string \<Rightarrow> string) \<Rightarrow> receipt_spec list \<Rightarrow> dict \<Rightarrow> instant \<Rightarrow> bool \<Rightarrow> case_input \<Rightarrow> op_store \<Rightarrow>
     py_exn + case_changes \<times> op_store" where
  "materialize_case_tx sha receipts trigger now enqueue c s =
     (let case_key = py_strip (ci_case_key c); record_id = py_strip (ci_record_id c);
          field = py_strip (ci_field c); record_digest = py_strip (ci_record_digest c);
          olds = rival_rows record_id field case_key s
      in if [] \<in> set [case_key, record_id, field, py_strip (ci_kind c), py_strip (ci_state c),
             py_strip (ci_policy_version c), py_strip (ci_precondition c), record_digest]
         then Inl (ValueError ''holding case is missing a required identity field'')
         else if list_ex automatic_in_flight olds then Inr (no_changes, s)
         else bind_result (supersede_loop case_key record_digest trigger now enqueue olds s)
           (\<lambda>(ks, s1). bind_result
             (case row_of hc_case_key case_key (holding_cases s1) of
                Some existing \<Rightarrow> materialize_existing_tx sha c trigger now case_key existing s1
              | None \<Rightarrow> materialize_new_tx c receipts trigger now enqueue s1)
             (\<lambda>(d, s2). Inr (add_changes
                (no_changes\<lparr>cc_superseded := map hc_case_key olds, cc_receipts := ks\<rparr>) d, s2))))"

fun materialize_cases_tx ::
    "(string \<Rightarrow> string) \<Rightarrow> receipt_spec list \<Rightarrow> dict \<Rightarrow> instant \<Rightarrow> bool \<Rightarrow> case_input list \<Rightarrow> op_store \<Rightarrow>
     py_exn + case_changes \<times> op_store" where
  "materialize_cases_tx sha receipts trigger now enqueue [] s = Inr (no_changes, s)"
| "materialize_cases_tx sha receipts trigger now enqueue (c # cs) s =
     bind_result (materialize_case_tx sha receipts trigger now enqueue c s)
       (\<lambda>(d, s1). bind_result (materialize_cases_tx sha receipts trigger now enqueue cs s1)
         (\<lambda>(e, s2). Inr (add_changes d e, s2)))"

definition materialize_holding_cases ::
    "(string \<Rightarrow> string) \<Rightarrow> instant \<Rightarrow> case_input list \<Rightarrow> receipt_spec list \<Rightarrow> dict \<Rightarrow> bool \<Rightarrow>
     op_store \<Rightarrow> (py_exn + case_changes) \<times> op_store" where
  "materialize_holding_cases sha now cases receipts trigger enqueue =
     commit (materialize_cases_tx sha receipts trigger now enqueue cases)"

section \<open>Queries\<close>

definition get_holding_case :: "string \<Rightarrow> op_store \<Rightarrow> holding_case option" where
  "get_holding_case case_key s = row_of hc_case_key case_key (holding_cases s)"

definition matches :: "'a option \<Rightarrow> 'a \<Rightarrow> bool" where
  "matches wanted x \<longleftrightarrow> (case wanted of None \<Rightarrow> True | Some y \<Rightarrow> x = y)"

text \<open>\<open>ORDER BY created_at DESC, case_key\<close>, then an optional \<open>LIMIT\<close>.\<close>

definition list_holding_cases ::
    "string option \<Rightarrow> string option \<Rightarrow> string option \<Rightarrow> int option \<Rightarrow> op_store \<Rightarrow> holding_case list" where
  "list_holding_cases account state record_id limit s =
     (let rows = sort_key (\<lambda>r. (- hc_created_at r, hc_case_key r))
            (filter (\<lambda>r. (account = None \<or> hc_account r = account) \<and>
               matches state (case_state_text (hc_state r)) \<and> matches record_id (hc_record_id r))
              (holding_cases s))
      in case limit of None \<Rightarrow> rows | Some n \<Rightarrow> sql_limit n rows)"

definition list_holding_case_events :: "string \<Rightarrow> op_store \<Rightarrow> case_event list" where
  "list_holding_case_events case_key s =
     sort_key ce_event_seq (filter (\<lambda>e. ce_case_key e = case_key) (holding_case_events s))"

text \<open>The read-only lookup of several cases: blank keys are dropped, and each key is asked once.\<close>

definition get_holding_cases_read_only :: "string list \<Rightarrow> op_store \<Rightarrow> (string \<times> holding_case) list" where
  "get_holding_cases_read_only case_keys s =
     (let keys = filter (\<lambda>k. py_strip k \<noteq> []) case_keys
      in map (\<lambda>r. (hc_case_key r, r)) (filter (\<lambda>r. hc_case_key r \<in> set keys) (holding_cases s)))"

section \<open>Closing cases a fresh scan no longer reports\<close>

definition absent_eligible_states :: "case_state list" where
  "absent_eligible_states = [PendingApply, PendingConfirmation, PendingManualEdit, FailedRetryable]"

definition closed_row :: "case_state \<Rightarrow> dict \<Rightarrow> instant \<Rightarrow> holding_case \<Rightarrow> holding_case" where
  "closed_row terminal resolution now r =
     r\<lparr>hc_state := terminal, hc_resolution_json := Some (canonical_json (JObj resolution)),
       hc_last_error := None, hc_updated_at := now\<rparr>"

definition closure_payload :: "holding_case \<Rightarrow> case_state \<Rightarrow> dict \<Rightarrow> dict" where
  "closure_payload r terminal resolution =
     dict_merge [(''case_key'', JStr (hc_case_key r)), (''record_id'', JStr (hc_record_id r)),
       (''account'', jopt (hc_account r)), (''field'', JStr (hc_field r)),
       (''terminal_state'', JStr (case_state_text terminal))] resolution"

definition closure_key :: "string \<Rightarrow> case_state \<Rightarrow> string \<Rightarrow> string" where
  "closure_key case_key terminal digest =
     ''holdings:case:closed:'' @ case_key @ '':'' @ case_state_text terminal @ '':'' @ digest"

definition resolve_row_tx ::
    "string \<Rightarrow> dict \<Rightarrow> dict \<Rightarrow> instant \<Rightarrow> bool \<Rightarrow> holding_case \<Rightarrow> op_store \<Rightarrow>
     py_exn + case_changes \<times> op_store" where
  "resolve_row_tx record_digest current_identity trigger now enqueue r s =
     (if hc_kind r = ''duplicate_identity'' then Inr (no_changes, s)
      else let matching = (hc_identity_json r = canonical_json (JObj current_identity));
          terminal = (if matching then ResolvedExternal else Superseded);
          resolution = [(''decision'', JStr (if matching then ''fresh_scan_proved_repair''
               else ''record_identity_changed'')), (''readback_digest'', JStr record_digest),
             (''expected_identity'', hc_identity_json r), (''observed_identity'', JObj current_identity),
             (''trigger'', JObj trigger)];
          s1 = update_cases (\<lambda>q. hc_case_key q = hc_case_key r \<and> hc_state q \<in> set absent_eligible_states)
            (closed_row terminal resolution now) s;
          s2 = insert_case_event_tx (hc_case_key r) (case_state_text terminal) resolution now s1
      in bind_result (closure_receipt_tx enqueue (closure_key (hc_case_key r) terminal record_digest)
             (closure_payload r terminal resolution) now s2)
           (\<lambda>(ks, s3). Inr (if matching
              then no_changes\<lparr>cc_closed := [hc_case_key r], cc_receipts := ks\<rparr>
              else no_changes\<lparr>cc_superseded := [hc_case_key r], cc_receipts := ks\<rparr>, s3)))"

fun resolve_rows_tx ::
    "string \<Rightarrow> dict \<Rightarrow> dict \<Rightarrow> instant \<Rightarrow> bool \<Rightarrow> holding_case list \<Rightarrow> op_store \<Rightarrow>
     py_exn + case_changes \<times> op_store" where
  "resolve_rows_tx digest identity trigger now enqueue [] s = Inr (no_changes, s)"
| "resolve_rows_tx digest identity trigger now enqueue (r # rs) s =
     bind_result (resolve_row_tx digest identity trigger now enqueue r s)
       (\<lambda>(d, s1). bind_result (resolve_rows_tx digest identity trigger now enqueue rs s1)
         (\<lambda>(e, s2). Inr (add_changes d e, s2)))"

definition resolve_absent_tx ::
    "string \<Rightarrow> string list \<Rightarrow> string \<Rightarrow> dict \<Rightarrow> dict \<Rightarrow> instant \<Rightarrow> bool \<Rightarrow> op_store \<Rightarrow>
     py_exn + case_changes \<times> op_store" where
  "resolve_absent_tx record_id active digest identity trigger now enqueue s =
     resolve_rows_tx digest identity trigger now enqueue
       (filter (\<lambda>r. hc_record_id r = record_id \<and> hc_state r \<in> set absent_eligible_states \<and>
          hc_case_key r \<notin> set active) (holding_cases s)) s"

definition resolve_holding_cases_external ::
    "instant \<Rightarrow> string \<Rightarrow> string list \<Rightarrow> string \<Rightarrow> dict \<Rightarrow> dict \<Rightarrow> bool \<Rightarrow> op_store \<Rightarrow>
     (py_exn + case_changes) \<times> op_store" where
  "resolve_holding_cases_external now record_id active digest identity trigger enqueue =
     commit (resolve_absent_tx record_id active digest identity trigger now enqueue)"

section \<open>Duplicate identities\<close>

text \<open>
  The plan of a duplicate reconciliation. Its proof is kept as the JSON object the caller gives,
  since the object itself is recorded in the resolution of every case it closes; the helpers read
  the sets and facts out of it. The current value of a duplicate case is an object.
\<close>

record duplicate_plan =
  dp_proof :: dict
  dp_cases :: "case_input list"
  dp_receipts :: "receipt_spec list"
  dp_trigger :: dict

definition obj_at :: "string \<Rightarrow> dict \<Rightarrow> dict" where
  "obj_at k d = (case dict_get k d of Some j \<Rightarrow> as_dict j | None \<Rightarrow> [])"

definition items_at :: "string \<Rightarrow> dict \<Rightarrow> json list" where
  "items_at k d = (case dict_get k d of Some (JArr xs) \<Rightarrow> xs | _ \<Rightarrow> [])"

definition proof_facts :: "dict \<Rightarrow> dict" where
  "proof_facts pf = obj_at ''records'' pf"

definition proven_deleted :: "dict \<Rightarrow> string \<Rightarrow> bool" where
  "proven_deleted pf k \<longleftrightarrow> JStr k \<in> set (items_at ''proven_deleted_ids'' pf)"

definition fact_of :: "dict \<Rightarrow> string \<Rightarrow> dict" where
  "fact_of pf k = obj_at k (proof_facts pf)"

definition complete_fact :: "dict \<Rightarrow> bool" where
  "complete_fact seen \<longleftrightarrow> dict_get ''identity_complete'' seen = Some (JBool True) \<and>
     list_all (\<lambda>k. \<not> falsy (dict_get k (obj_at ''identity'' seen))) [''asset_id'', ''account'', ''broker'']"

definition fully_observed :: "dict \<Rightarrow> holding_case \<Rightarrow> bool" where
  "fully_observed pf r \<longleftrightarrow> proven_deleted pf (hc_record_id r) \<or>
     (JStr (hc_record_id r) \<in> set (items_at ''covered_record_ids'' pf) \<and>
      (let named = dict_get ''record_ids'' (as_dict (hc_current_json r));
           members = (if falsy named then [JStr (hc_record_id r)]
             else items_at ''record_ids'' (as_dict (hc_current_json r)))
       in list_all (\<lambda>m. case m of
            JStr k \<Rightarrow> proven_deleted pf k \<or> complete_fact (fact_of pf k)
          | _ \<Rightarrow> m \<in> set (items_at ''proven_deleted_ids'' pf)) members))"

definition open_duplicates :: "op_store \<Rightarrow> holding_case list" where
  "open_duplicates s = filter (\<lambda>r. hc_kind r = ''duplicate_identity'' \<and>
     hc_state r \<in> set open_case_states) (holding_cases s)"

definition safe_duplicate_cases :: "dict \<Rightarrow> holding_case list \<Rightarrow> case_input list \<Rightarrow> case_input list" where
  "safe_duplicate_cases pf old_rows cases =
     filter (\<lambda>c. JStr (ci_record_id c) \<in> set (items_at ''covered_record_ids'' pf) \<and>
       (ci_record_id c \<notin> hc_record_id ` set (filter (\<lambda>r. \<not> fully_observed pf r) old_rows) \<or>
        ci_case_key c \<in> hc_case_key ` set old_rows)) cases"

definition duplicate_row_tx ::
    "dict \<Rightarrow> dict \<Rightarrow> string list \<Rightarrow> instant \<Rightarrow> bool \<Rightarrow> holding_case \<Rightarrow> op_store \<Rightarrow>
     py_exn + case_changes \<times> op_store" where
  "duplicate_row_tx pf trigger active now enqueue r s =
     (let seen = fact_of pf (hc_record_id r); observed = obj_at ''identity'' seen;
          deleted = proven_deleted pf (hc_record_id r);
          same_identity = (\<lambda>v. canonical_json (JObj (obj_at ''identity'' (as_dict v))) = canonical_json (JObj observed));
          changed = (\<not> deleted \<and> hc_identity_json r \<noteq> canonical_json (JObj observed));
          twin = list_ex (\<lambda>(k, v). k \<noteq> hc_record_id r \<and> same_identity v) (proof_facts pf);
          terminal = (if changed then Superseded else ResolvedExternal);
          digest = dict_get ''record_digest'' seen;
          resolution = previous_resolution r
            [(''decision'', JStr (if deleted then ''record_deleted''
                else if changed then ''record_identity_changed'' else ''fresh_scan_proved_repair'')),
             (''readback_digest'', get_or_null ''record_digest'' seen),
             (''expected_identity'', hc_identity_json r), (''observed_identity'', JObj observed),
             (''duplicate_observation'', JObj pf), (''trigger'', JObj trigger)];
          receipt_key = closure_key (hc_case_key r) terminal
            (case digest of Some (JStr t) \<Rightarrow> if t = [] then ''record-deleted'' else t | _ \<Rightarrow> ''record-deleted'')
      in if hc_case_key r \<in> set active \<or> \<not> fully_observed pf r then Inr (no_changes, s)
         else case row_of hc_case_key (hc_case_key r) (holding_cases s) of
             None \<Rightarrow> Inl (TypeError (hc_case_key r))
           | Some fresh \<Rightarrow>
               if hc_state fresh \<notin> set open_case_states then Inr (no_changes, s)
               else if \<not> deleted \<and> \<not> changed \<and> dict_get ''comparable'' seen \<noteq> Some (JBool True)
               then Inr (no_changes, s)
               else if \<not> deleted \<and> twin \<and> \<not> changed then Inr (no_changes, s)
               else bind_result (closure_receipt_tx enqueue receipt_key (closure_payload r terminal resolution) now
                   (insert_case_event_tx (hc_case_key r) (case_state_text terminal) resolution now
                     (update_cases (\<lambda>q. hc_case_key q = hc_case_key r) (closed_row terminal resolution now) s)))
                 (\<lambda>(ks, s1). Inr (if changed
                    then no_changes\<lparr>cc_superseded := [hc_case_key r], cc_receipts := ks\<rparr>
                    else no_changes\<lparr>cc_closed := [hc_case_key r], cc_receipts := ks\<rparr>, s1)))"

fun duplicate_rows_tx ::
    "dict \<Rightarrow> dict \<Rightarrow> string list \<Rightarrow> instant \<Rightarrow> bool \<Rightarrow> holding_case list \<Rightarrow> op_store \<Rightarrow>
     py_exn + case_changes \<times> op_store" where
  "duplicate_rows_tx pf trigger active now enqueue [] s = Inr (no_changes, s)"
| "duplicate_rows_tx pf trigger active now enqueue (r # rs) s =
     bind_result (duplicate_row_tx pf trigger active now enqueue r s)
       (\<lambda>(d, s1). bind_result (duplicate_rows_tx pf trigger active now enqueue rs s1)
         (\<lambda>(e, s2). Inr (add_changes d e, s2)))"

definition reconcile_duplicate_cases_tx ::
    "(string \<Rightarrow> string) \<Rightarrow> duplicate_plan \<Rightarrow> instant \<Rightarrow> bool \<Rightarrow> op_store \<Rightarrow> py_exn + case_changes \<times> op_store" where
  "reconcile_duplicate_cases_tx sha plan now enqueue s =
     (let pf = dp_proof plan; old_rows = open_duplicates s;
          safe = safe_duplicate_cases pf old_rows (dp_cases plan)
      in if dict_get ''complete'' pf \<noteq> Some (JBool True)
         then Inl (ValueError ''duplicate reconciliation requires complete observation proof'')
         else if list_ex (\<lambda>(k, v). proven_deleted pf k) (proof_facts pf)
         then Inl (ValueError ''duplicate deletion proof includes present records'')
         else if list_ex (\<lambda>c. ci_kind c \<noteq> ''duplicate_identity'') (dp_cases plan)
         then Inl (ValueError ''duplicate reconciliation accepts duplicate cases only'')
         else bind_result (materialize_cases_tx sha (dp_receipts plan) (dp_trigger plan) now enqueue safe s)
           (\<lambda>(stored, s1). bind_result
             (duplicate_rows_tx pf (dp_trigger plan) (map ci_case_key safe) now enqueue old_rows s1)
             (\<lambda>(d, s2). Inr (add_changes stored d, s2))))"

section \<open>Preparing, announcing and finishing a remote write\<close>

record apply_input =
  ai_case_key :: string
  ai_allowed_states :: "string list"
  ai_precondition :: string
  ai_decision :: json
  ai_reason :: json
  ai_confirmation_scope :: json
  ai_target :: json
  ai_before :: json

definition apply_resolution :: "apply_input \<Rightarrow> dict \<Rightarrow> dict" where
  "apply_resolution a operator_context =
     [(''operator_context'', JObj operator_context), (''decision'', ai_decision a),
      (''reason'', ai_reason a), (''confirmation_scope'', ai_confirmation_scope a)]"

definition applying_row :: "apply_input \<Rightarrow> string \<Rightarrow> dict \<Rightarrow> instant \<Rightarrow> holding_case \<Rightarrow> holding_case" where
  "applying_row a attempt operator_context now r =
     r\<lparr>hc_state := Applying, hc_target_json := Some (canonical_json (ai_target a)),
       hc_before_json := Some (canonical_json (ai_before a)), hc_apply_attempt_id := Some attempt,
       hc_resolution_json := Some (canonical_json (JObj (apply_resolution a operator_context))),
       hc_remote_attempt_started_at := None, hc_last_error := None, hc_updated_at := now\<rparr>"

definition prepare_case_tx ::
    "string \<Rightarrow> dict \<Rightarrow> instant \<Rightarrow> apply_input \<Rightarrow> op_store \<Rightarrow> py_exn + op_store" where
  "prepare_case_tx attempt operator_context now a s =
     (let key = ai_case_key a in
      case row_of hc_case_key key (holding_cases s) of
        None \<Rightarrow> Inl (ValueError (''holding case is not applicable: '' @ key @ '': missing''))
      | Some r \<Rightarrow>
          if case_state_text (hc_state r) \<notin> set (ai_allowed_states a)
          then Inl (ValueError (''holding case is not applicable: '' @ key @ '': '' @
            case_state_text (hc_state r)))
          else if hc_precondition_digest r \<noteq> ai_precondition a
          then Inl (ValueError (''holding case precondition changed: '' @ key))
          else Inr (insert_case_event_tx key ''apply_prepared''
              (dict_merge [(''apply_attempt_id'', JStr attempt), (''target'', ai_target a),
                 (''before'', ai_before a)] (apply_resolution a operator_context)) now
              (update_cases (\<lambda>q. hc_case_key q = key) (applying_row a attempt operator_context now) s)))"

definition prepare_holding_apply ::
    "instant \<Rightarrow> apply_input list \<Rightarrow> string \<Rightarrow> dict \<Rightarrow> op_store \<Rightarrow> (py_exn + unit) \<times> op_store" where
  "prepare_holding_apply now cases attempt operator_context =
     commit (\<lambda>s. if cases = [] then Inl (ValueError ''holding apply requires at least one case'')
       else bind_result (each_tx (prepare_case_tx attempt operator_context now) cases s) (\<lambda>s1. Inr ((), s1)))"

definition single_scope :: "case_input list \<Rightarrow> bool" where
  "single_scope cases \<longleftrightarrow> length (remdups (map ci_record_id cases)) = 1 \<and>
     length (remdups (map (\<lambda>c. canonical_json (or_obj (ci_identity c))) cases)) = 1 \<and>
     length (remdups (map ci_record_digest cases)) = 1"

definition materialize_and_prepare_tx ::
    "(string \<Rightarrow> string) \<Rightarrow> instant \<Rightarrow> case_input list \<Rightarrow> receipt_spec list \<Rightarrow> apply_input list \<Rightarrow>
     string \<Rightarrow> dict \<Rightarrow> dict \<Rightarrow> bool \<Rightarrow> op_store \<Rightarrow> py_exn + case_changes \<times> op_store" where
  "materialize_and_prepare_tx sha now observed receipts applies attempt operator_context trigger enqueue s =
     (case (applies, observed) of
        ([], _) \<Rightarrow> Inl (ValueError ''holding apply requires at least one case'')
      | (_, []) \<Rightarrow> Inl (ValueError ''holding apply lacks a fresh observed case set'')
      | (_, first # _) \<Rightarrow>
          bind_result (materialize_cases_tx sha receipts trigger now enqueue observed s) (\<lambda>(stored, s1).
          if \<not> single_scope observed
          then Inl (ValueError ''holding apply observed cases span multiple record scopes'')
          else bind_result (resolve_absent_tx (ci_record_id first) (map ci_case_key observed)
              (ci_record_digest first) (as_dict (or_obj (ci_identity first))) trigger now enqueue s1) (\<lambda>(absent, s2).
          bind_result (each_tx (prepare_case_tx attempt operator_context now) applies s2) (\<lambda>s3.
          Inr (add_changes stored absent, s3)))))"

definition materialize_and_prepare_holding_apply ::
    "(string \<Rightarrow> string) \<Rightarrow> instant \<Rightarrow> case_input list \<Rightarrow> receipt_spec list \<Rightarrow> apply_input list \<Rightarrow>
     string \<Rightarrow> dict \<Rightarrow> dict \<Rightarrow> bool \<Rightarrow> op_store \<Rightarrow> (py_exn + case_changes) \<times> op_store" where
  "materialize_and_prepare_holding_apply sha now observed receipts applies attempt operator_context trigger enqueue =
     commit (materialize_and_prepare_tx sha now observed receipts applies attempt operator_context trigger enqueue)"

definition remote_ready :: "string \<Rightarrow> string \<Rightarrow> holding_case \<Rightarrow> bool" where
  "remote_ready key attempt r \<longleftrightarrow> hc_case_key r = key \<and> hc_state r = Applying \<and>
     hc_apply_attempt_id r = Some attempt \<and> hc_remote_attempt_started_at r = None"

definition remote_started_row :: "instant \<Rightarrow> holding_case \<Rightarrow> holding_case" where
  "remote_started_row now r = r\<lparr>hc_remote_attempt_started_at := Some now, hc_updated_at := now\<rparr>"

definition mark_remote_tx :: "string \<Rightarrow> instant \<Rightarrow> string \<Rightarrow> op_store \<Rightarrow> py_exn + op_store" where
  "mark_remote_tx attempt now key s =
     (if rowcount (remote_ready key attempt) (holding_cases s) \<noteq> 1
      then Inl (ValueError (''holding case remote attempt cannot start: '' @ key))
      else Inr (insert_case_event_tx key ''remote_attempt_started'' [(''apply_attempt_id'', JStr attempt)] now
        (update_cases (remote_ready key attempt) (remote_started_row now) s)))"

definition mark_holding_remote_attempt ::
    "instant \<Rightarrow> string list \<Rightarrow> string \<Rightarrow> op_store \<Rightarrow> (py_exn + unit) \<times> op_store" where
  "mark_holding_remote_attempt now keys attempt =
     commit (\<lambda>s. bind_result (each_tx (mark_remote_tx attempt now) keys s) (\<lambda>s1. Inr ((), s1)))"

record case_outcome =
  co_state :: string
  co_case_key :: string
  co_apply_attempt_id :: "string option"
  co_resolution :: dict
  co_last_error :: "string option"
  co_event_type :: string

definition terminal_outcomes :: "case_state list" where
  "terminal_outcomes = [ResolvedAccept, ResolvedKeep, ResolvedExternal, Superseded, FailedRetryable,
     ApplyOutcomeUnknown]"

definition finalized_row :: "case_outcome \<Rightarrow> instant \<Rightarrow> holding_case \<Rightarrow> holding_case" where
  "finalized_row x now r =
     r\<lparr>hc_state := parse_case_state (co_state x),
       hc_resolution_json := Some (canonical_json (JObj (co_resolution x))),
       hc_last_error := co_last_error x, hc_updated_at := now\<rparr>"

definition finalize_case_tx ::
    "receipt_spec list \<Rightarrow> instant \<Rightarrow> case_outcome \<Rightarrow> op_store \<Rightarrow> py_exn + op_store" where
  "finalize_case_tx receipts now x s =
     (if parse_case_state (co_state x) \<notin> set terminal_outcomes
      then Inl (ValueError (''invalid holding case terminal state: '' @ co_state x))
      else case row_of hc_case_key (co_case_key x) (holding_cases s) of
          None \<Rightarrow> Inl (KeyError (''holding case not found: '' @ co_case_key x))
        | Some r \<Rightarrow>
            if co_apply_attempt_id x \<notin> {None, Some []} \<and> hc_apply_attempt_id r \<noteq> co_apply_attempt_id x
            then Inl (ValueError (''holding apply attempt changed: '' @ co_case_key x))
            else (let s1 = update_cases (\<lambda>q. hc_case_key q = co_case_key x) (finalized_row x now) s;
                s2 = insert_case_event_tx (co_case_key x)
                  (if co_event_type x = [] then ''resolved'' else co_event_type x)
                  (dict_merge [(''state'', JStr (co_state x))] (co_resolution x)) now s1
              in case receipt_by_case receipts (co_case_key x) of
                  None \<Rightarrow> Inr s2
                | Some q \<Rightarrow> bind_result (insert_operation_receipt_tx (rs_receipt_key q) (rs_receipt_type q)
                      (rs_payload q) now s2) (\<lambda>(_, s3). Inr s3)))"

definition finalize_holding_cases ::
    "instant \<Rightarrow> case_outcome list \<Rightarrow> receipt_spec list \<Rightarrow> op_store \<Rightarrow> (py_exn + unit) \<times> op_store" where
  "finalize_holding_cases now outcomes receipts =
     commit (\<lambda>s. bind_result (each_tx (finalize_case_tx receipts now) outcomes s) (\<lambda>s1. Inr ((), s1)))"

end
