(* ===== verification/Case_History.thy ===== *)
theory Case_History
  imports Holding_Cases
begin

text \<open>
  What every operation on the reconciliation cases keeps: keys stay unique, the history only
  grows, is numbered without gaps and names existing cases, a case keeps the columns that
  identify it, and no case is created or changes its state without a history entry.
\<close>

section \<open>The history relation\<close>

definition same_case :: "holding_case \<Rightarrow> holding_case \<Rightarrow> bool" where
  "same_case r r' \<longleftrightarrow> hc_case_key r' = hc_case_key r \<and> hc_record_id r' = hc_record_id r \<and>
     hc_account r' = hc_account r \<and> hc_field r' = hc_field r \<and> hc_kind r' = hc_kind r \<and>
     hc_blocks_official_nav r' = hc_blocks_official_nav r \<and>
     hc_policy_version r' = hc_policy_version r \<and> hc_authority_id r' = hc_authority_id r \<and>
     hc_current_json r' = hc_current_json r \<and> hc_proposed_json r' = hc_proposed_json r \<and>
     hc_created_at r' = hc_created_at r"

definition case_store_ok :: "op_store \<Rightarrow> bool" where
  "case_store_ok s \<longleftrightarrow> unique_keys hc_case_key (holding_cases s) \<and>
     unique_keys rc_receipt_key (operation_receipt_outbox s) \<and> case_event_fk s \<and>
     map ce_event_seq (holding_case_events s) = map Suc [0..<length (holding_case_events s)]"

definition same_elsewhere :: "op_store \<Rightarrow> op_store \<Rightarrow> bool" where
  "same_elsewhere s s' \<longleftrightarrow> futu_refresh_inbox s' = futu_refresh_inbox s \<and>
     agent_name_operations s' = agent_name_operations s \<and> fx_confirmations s' = fx_confirmations s \<and>
     nav_receipt_outbox s' = nav_receipt_outbox s \<and> holding_event_inbox s' = holding_event_inbox s \<and>
     cash_flow_event_inbox s' = cash_flow_event_inbox s \<and>
     holding_change_monitor s' = holding_change_monitor s \<and>
     holding_change_observations s' = holding_change_observations s"

definition logged :: "case_event list \<Rightarrow> string \<Rightarrow> bool" where
  "logged ev k \<longleftrightarrow> k \<in> ce_case_key ` set ev"

definition rows_logged :: "case_event list \<Rightarrow> op_store \<Rightarrow> op_store \<Rightarrow> bool" where
  "rows_logged ev s s' \<longleftrightarrow>
     (\<forall>k r. row_of hc_case_key k (holding_cases s) = Some r \<longrightarrow>
        (\<exists>r'. row_of hc_case_key k (holding_cases s') = Some r' \<and> same_case r r' \<and>
           (hc_state r' \<noteq> hc_state r \<longrightarrow> logged ev k))) \<and>
     (\<forall>k. row_of hc_case_key k (holding_cases s) = None \<longrightarrow>
        row_of hc_case_key k (holding_cases s') \<noteq> None \<longrightarrow> logged ev k)"

definition outbox_grows :: "op_receipt list \<Rightarrow> op_receipt list \<Rightarrow> bool" where
  "outbox_grows t t' \<longleftrightarrow> unique_keys rc_receipt_key t' \<and>
     (\<forall>k r. row_of rc_receipt_key k t = Some r \<longrightarrow> row_of rc_receipt_key k t' = Some r)"

definition cases_step :: "op_store \<Rightarrow> op_store \<Rightarrow> bool" where
  "cases_step s s' \<longleftrightarrow> case_store_ok s' \<and> same_elsewhere s s' \<and>
     outbox_grows (operation_receipt_outbox s) (operation_receipt_outbox s') \<and>
     (\<exists>ev. holding_case_events s' = holding_case_events s @ ev \<and> rows_logged ev s s')"

lemma same_case_refl [simp]: "same_case r r"
  by (simp add: same_case_def)

lemma same_case_trans: "same_case r r' \<Longrightarrow> same_case r' r'' \<Longrightarrow> same_case r r''"
  by (simp add: same_case_def)

lemma case_store_okD:
  assumes "case_store_ok s"
  shows "unique_keys hc_case_key (holding_cases s)"
    and "unique_keys rc_receipt_key (operation_receipt_outbox s)" and "case_event_fk s"
  using assms by (simp_all add: case_store_ok_def)

lemma cases_step_refl: "case_store_ok s \<Longrightarrow> cases_step s s"
  by (auto simp: cases_step_def same_elsewhere_def rows_logged_def outbox_grows_def case_store_okD
      intro!: exI [of _ "[]"])

lemma rows_logged_trans:
  assumes "rows_logged ev s s'" and "rows_logged ev' s' s''"
  shows "rows_logged (ev @ ev') s s''"
  unfolding rows_logged_def
proof (intro conjI allI impI)
  fix k r assume r: "row_of hc_case_key k (holding_cases s) = Some r"
  with assms(1) obtain r' where r': "row_of hc_case_key k (holding_cases s') = Some r'" "same_case r r'"
      "hc_state r' \<noteq> hc_state r \<longrightarrow> logged ev k" unfolding rows_logged_def by blast
  with assms(2) obtain r'' where r'': "row_of hc_case_key k (holding_cases s'') = Some r''" "same_case r' r''"
      "hc_state r'' \<noteq> hc_state r' \<longrightarrow> logged ev' k" unfolding rows_logged_def by blast
  with r' show "\<exists>r''. row_of hc_case_key k (holding_cases s'') = Some r'' \<and> same_case r r'' \<and>
      (hc_state r'' \<noteq> hc_state r \<longrightarrow> logged (ev @ ev') k)"
    by (auto simp: logged_def intro: same_case_trans)
next
  fix k assume k: "row_of hc_case_key k (holding_cases s) = None" "row_of hc_case_key k (holding_cases s'') \<noteq> None"
  have "logged ev k \<or> logged ev' k"
    using assms k unfolding rows_logged_def by (cases "row_of hc_case_key k (holding_cases s') = None") blast+
  then show "logged (ev @ ev') k" by (auto simp: logged_def)
qed

lemma cases_step_trans:
  assumes "cases_step s s'" and "cases_step s' s''"
  shows "cases_step s s''"
proof -
  from assms obtain ev ev' where ev: "holding_case_events s' = holding_case_events s @ ev"
      "rows_logged ev s s'" "holding_case_events s'' = holding_case_events s' @ ev'" "rows_logged ev' s' s''"
    by (auto simp: cases_step_def)
  have "outbox_grows (operation_receipt_outbox s) (operation_receipt_outbox s'')"
    using assms by (simp add: cases_step_def outbox_grows_def)
  moreover have "same_elsewhere s s''"
    using assms by (simp add: cases_step_def same_elsewhere_def)
  ultimately show ?thesis
    using assms(2) ev rows_logged_trans [OF ev(2,4)] by (auto simp: cases_step_def)
qed

section \<open>The building blocks\<close>

text \<open>An UPDATE of one case together with its history entry.\<close>

lemma update_row:
  assumes "\<And>r. p r \<Longrightarrow> hc_case_key (f r) = hc_case_key r"
  shows "row_of hc_case_key k (holding_cases (update_cases p f s)) =
    map_option (\<lambda>r. if p r then f r else r) (row_of hc_case_key k (holding_cases s))"
  unfolding update_cases_def using assms by (simp add: row_of_sql_update)

lemma update_keys:
  assumes "\<And>r. p r \<Longrightarrow> hc_case_key (f r) = hc_case_key r"
  shows "hc_case_key ` set (holding_cases (update_cases p f s)) = hc_case_key ` set (holding_cases s)"
  using assms map_key_sql_update [of "holding_cases s" p hc_case_key f]
  by (simp add: update_cases_def) (metis set_map)

lemma event_tables [simp]:
  "holding_cases (insert_case_event_tx k ty pl now s) = holding_cases s"
  "operation_receipt_outbox (insert_case_event_tx k ty pl now s) = operation_receipt_outbox s"
  "operation_receipt_outbox (update_cases p f s) = operation_receipt_outbox s"
  "holding_case_events (update_cases p f s) = holding_case_events s"
  by (simp_all add: insert_case_event_tx_def update_cases_def)

lemma logged_update_step:
  assumes ok: "case_store_ok s" and key: "\<And>r. p r \<Longrightarrow> hc_case_key r = k"
    and same: "\<And>r. p r \<Longrightarrow> same_case r (f r)"
    and k: "k \<in> hc_case_key ` set (holding_cases s)"
  shows "cases_step s (insert_case_event_tx k ty pl now (update_cases p f s))" (is "cases_step s ?t")
proof -
  have fk: "\<And>r. p r \<Longrightarrow> hc_case_key (f r) = hc_case_key r" using same by (simp add: same_case_def)
  note row = update_row [where p = p and f = f, OF fk]
  define e where "e = \<lparr>ce_event_seq = Suc (length (holding_case_events s)), ce_case_key = k,
    ce_event_type = ty, ce_payload_json = canonical_json (JObj pl), ce_created_at = now\<rparr>"
  have ev: "holding_case_events ?t = holding_case_events s @ [e]"
    by (simp add: insert_case_event_tx_def update_cases_def e_def)
  have "unique_keys hc_case_key (holding_cases ?t)"
    using ok fk by (auto simp: update_cases_def case_store_ok_def intro: row_intros)
  moreover have "case_event_fk ?t"
    using ok k by (simp add: case_event_fk_def ev update_keys [OF fk] case_store_ok_def e_def)
  ultimately have "case_store_ok ?t"
    using ok by (simp add: case_store_ok_def ev e_def)
  moreover have "same_elsewhere s ?t"
    by (simp add: same_elsewhere_def insert_case_event_tx_def update_cases_def)
  moreover have "rows_logged [e] s ?t"
    using same key by (auto simp: rows_logged_def logged_def row e_def dest: row_of_Some)
  ultimately show ?thesis
    using ok ev by (auto simp: cases_step_def outbox_grows_def case_store_ok_def)
qed

text \<open>An UPDATE that leaves the state alone needs no entry.\<close>

lemma silent_update_step:
  assumes ok: "case_store_ok s" and same: "\<And>r. p r \<Longrightarrow> same_case r (f r) \<and> hc_state (f r) = hc_state r"
  shows "cases_step s (update_cases p f s)"
proof -
  have fk: "\<And>r. p r \<Longrightarrow> hc_case_key (f r) = hc_case_key r" using same by (simp add: same_case_def)
  have "case_store_ok (update_cases p f s)"
    using ok fk update_keys [where p = p and f = f and s = s, OF fk]
    by (auto simp: case_store_ok_def case_event_fk_def update_cases_def intro: row_intros)
  moreover have "rows_logged [] s (update_cases p f s)"
    using same by (auto simp: rows_logged_def update_row [where p = p and f = f, OF fk])
  ultimately show ?thesis
    using ok by (auto simp: cases_step_def outbox_grows_def case_store_ok_def same_elsewhere_def update_cases_def)
qed

text \<open>A new case together with its history entry.\<close>

lemma insert_case_step:
  assumes ok: "case_store_ok s" and fresh: "row_of hc_case_key (hc_case_key r) (holding_cases s) = None"
    and k: "k = hc_case_key r"
  shows "cases_step s (insert_case_event_tx k ty pl now (s\<lparr>holding_cases := holding_cases s @ [r]\<rparr>))"
    (is "cases_step s ?t")
proof -
  define e where "e = \<lparr>ce_event_seq = Suc (length (holding_case_events s)), ce_case_key = k,
    ce_event_type = ty, ce_payload_json = canonical_json (JObj pl), ce_created_at = now\<rparr>"
  have ev: "holding_case_events ?t = holding_case_events s @ [e]"
    by (simp add: insert_case_event_tx_def e_def)
  have "case_store_ok ?t"
    using ok fresh by (auto simp: case_store_ok_def case_event_fk_def ev [unfolded k] unique_keys_snoc
        row_of_None e_def [unfolded k] k)
  moreover have "rows_logged [e] s ?t"
    using k by (auto simp: rows_logged_def logged_def row_of_append e_def split: if_splits option.splits)
  ultimately show ?thesis
    using ok ev by (auto simp: cases_step_def outbox_grows_def case_store_ok_def same_elsewhere_def
        insert_case_event_tx_def)
qed

lemma receipt_step:
  assumes ok: "case_store_ok s"
    and i: "insert_operation_receipt_tx k ty payload now s = Inr (b, s')"
  shows "cases_step s s' \<and> holding_cases s' = holding_cases s"
proof -
  from insert_receipt_frame [OF i] obtain t where s': "s' = s\<lparr>operation_receipt_outbox := t\<rparr>" by blast
  have "outbox_grows (operation_receipt_outbox s) (operation_receipt_outbox s')"
    using insert_receipt_keeps [OF i] insert_receipt_cases(1) [OF i] ok
    by (auto simp: outbox_grows_def case_store_ok_def intro!: row_intros)
  then show ?thesis
    using ok s' by (auto simp: cases_step_def case_store_ok_def case_event_fk_def outbox_grows_def
        same_elsewhere_def rows_logged_def)
qed

lemma closure_step:
  assumes ok: "case_store_ok s" and i: "closure_receipt_tx en k payload now s = Inr (ks, s')"
  shows "cases_step s s' \<and> holding_cases s' = holding_cases s"
  using i receipt_step [OF ok] cases_step_refl [OF ok]
  by (auto simp: closure_receipt_tx_def bind_result_Inr insert_repeatable_closure_receipt_tx_def
      split: if_splits option.splits)

section \<open>Materializing\<close>

abbreviation case_at :: "string \<Rightarrow> op_store \<Rightarrow> holding_case option" where
  "case_at k s \<equiv> row_of hc_case_key k (holding_cases s)"

lemma case_at_key: "case_at k s = Some r \<Longrightarrow> hc_case_key r = k"
  by (auto dest: row_of_Some)

lemma case_at_keys: "k \<in> hc_case_key ` set (holding_cases s) \<longleftrightarrow> case_at k s \<noteq> None"
  by (simp add: row_of_None)

lemma cases_step_ok: "cases_step s s' \<Longrightarrow> case_store_ok s'"
  by (simp add: cases_step_def)

lemma cases_step_dom: "cases_step s s' \<Longrightarrow> case_at k s \<noteq> None \<Longrightarrow> case_at k s' \<noteq> None"
  unfolding cases_step_def rows_logged_def by blast

lemma superseded_same [simp]: "same_case r (superseded_row res now r)"
  "same_case r (closed_row st res now r)" "same_case r (reopened_row c now r)"
  "same_case r (refreshed_row c now r)" "same_case r (migrated_row sha c now q r)"
  "same_case r (applying_row a att op now r)" "same_case r (remote_started_row now r)"
  "same_case r (finalized_row x now r)"
  by (simp_all add: same_case_def superseded_row_def closed_row_def reopened_row_def refreshed_row_def
      migrated_row_def applying_row_def remote_started_row_def finalized_row_def)

lemmas row_keys = superseded_same [unfolded same_case_def, THEN conjunct1]

text \<open>One case after an UPDATE by key.\<close>

lemma keyed_update:
  assumes "\<And>r. hc_case_key (f r) = hc_case_key r"
  shows "case_at k (update_cases (\<lambda>r. hc_case_key r = k' \<and> g r) f s) =
    (if k = k' then map_option (\<lambda>r. if g r then f r else r) (case_at k s) else case_at k s)"
  using update_row [where p = "\<lambda>r. hc_case_key r = k' \<and> g r" and f = f, OF assms]
  by (cases "case_at k s") (auto dest: row_of_Some)

lemma keyed_update_all:
  assumes "\<And>r. hc_case_key (f r) = hc_case_key r"
  shows "case_at k (update_cases (\<lambda>r. hc_case_key r = k') f s) =
    (if k = k' then map_option f (case_at k s) else case_at k s)"
  using keyed_update [where g = "\<lambda>_. True" and f = f, OF assms] by simp

text \<open>What superseding the rivals of a candidate does to one case.\<close>

definition superseded_from :: "string set \<Rightarrow> holding_case \<Rightarrow> holding_case \<Rightarrow> bool" where
  "superseded_from ks r r' \<longleftrightarrow> same_case r r' \<and>
     (if hc_case_key r \<in> ks \<and> hc_state r \<in> set supersedeable_states then hc_state r' = Superseded else r' = r)"

lemma supersede_case_row:
  assumes ok: "case_store_ok s" and t: "supersede_case_tx key dg tr now en old s = Inr (ks, s')"
    and old: "case_at (hc_case_key old) s \<noteq> None"
  shows "cases_step s s'"
    and "case_at k s = Some r \<Longrightarrow> \<exists>r'. case_at k s' = Some r' \<and> superseded_from {hc_case_key old} r r'"
    and "case_at k s = None \<Longrightarrow> case_at k s' = None"
proof -
  define res where "res = previous_resolution old
    [(''reason'', JStr ''semantic_case_changed''), (''replacement_case_key'', JStr key), (''trigger'', JObj tr)]"
  define s2 where "s2 = insert_case_event_tx (hc_case_key old) ''superseded'' res now
    (update_cases (\<lambda>r. hc_case_key r = hc_case_key old \<and> hc_state r \<in> set supersedeable_states)
      (superseded_row res now) s)"
  from t obtain ckey pl where c: "closure_receipt_tx en ckey pl now s2 = Inr (ks, s')"
    unfolding supersede_case_tx_def Let_def res_def s2_def by blast
  have st2: "cases_step s s2"
    unfolding s2_def using ok old by (intro logged_update_step) (auto simp: row_of_None)
  note st = closure_step [OF cases_step_ok [OF st2] c]
  show "cases_step s s'" using cases_step_trans [OF st2] st by blast
  have row: "case_at k s' = map_option (\<lambda>r. if hc_case_key r = hc_case_key old \<and>
      hc_state r \<in> set supersedeable_states then superseded_row res now r else r) (case_at k s)" for k
    using st by (simp add: s2_def update_row row_keys)
  show "\<exists>r'. case_at k s' = Some r' \<and> superseded_from {hc_case_key old} r r'" if "case_at k s = Some r"
    using that by (simp add: row superseded_from_def superseded_row_def same_case_def)
  show "case_at k s' = None" if "case_at k s = None" using that by (simp add: row)
qed

lemma superseded_from_trans:
  assumes "superseded_from A r r'" and "superseded_from B r' r''"
  shows "superseded_from (A \<union> B) r r''"
  using assms by (auto simp: superseded_from_def same_case_def supersedeable_states_def open_case_states_def
      split: if_splits)

lemma supersede_loop_rows:
  assumes "case_store_ok s" and "supersede_loop key dg tr now en olds s = Inr (ks, s')"
    and "\<And>old. old \<in> set olds \<Longrightarrow> case_at (hc_case_key old) s \<noteq> None"
  shows "cases_step s s' \<and>
    (\<forall>k r. case_at k s = Some r \<longrightarrow> (\<exists>r'. case_at k s' = Some r' \<and> superseded_from (hc_case_key ` set olds) r r')) \<and>
    (\<forall>k. case_at k s = None \<longrightarrow> case_at k s' = None)"
  using assms
proof (induction olds arbitrary: s ks)
  case Nil
  then show ?case by (auto simp: cases_step_refl superseded_from_def)
next
  case (Cons old olds)
  from Cons.prems(2) obtain ks1 s1 ks2 where
    f: "supersede_case_tx key dg tr now en old s = Inr (ks1, s1)"
    and l: "supersede_loop key dg tr now en olds s1 = Inr (ks2, s')"
    by (auto simp: bind_result_Inr)
  have old: "case_at (hc_case_key old) s \<noteq> None" using Cons.prems(3) by simp
  note row = supersede_case_row [OF Cons.prems(1) f old]
  have "case_at (hc_case_key q) s1 \<noteq> None" if "q \<in> set olds" for q
    using cases_step_dom [OF row(1)] Cons.prems(3) that by simp
  from Cons.IH [OF cases_step_ok [OF row(1)] l this] have
    IH: "cases_step s1 s'"
      "\<And>k r. case_at k s1 = Some r \<Longrightarrow> \<exists>r'. case_at k s' = Some r' \<and> superseded_from (hc_case_key ` set olds) r r'"
      "\<And>k. case_at k s1 = None \<Longrightarrow> case_at k s' = None" by blast+
  have "\<exists>r'. case_at k s' = Some r' \<and> superseded_from (hc_case_key ` set (old # olds)) r r'"
    if kr: "case_at k s = Some r" for k r
  proof -
    from row(2) [OF kr] obtain r1 where
      r1: "case_at k s1 = Some r1" "superseded_from {hc_case_key old} r r1" by blast
    from IH(2) [OF r1(1)] obtain r' where
      "case_at k s' = Some r'" "superseded_from (hc_case_key ` set olds) r1 r'" by blast
    with superseded_from_trans [OF r1(2) this(2)] show ?thesis by auto
  qed
  with IH(1,3) row(1,3) cases_step_trans show ?case by blast
qed

text \<open>What observing a known case does to its row, and that it touches no other row.\<close>

definition write_kept :: "holding_case \<Rightarrow> holding_case \<Rightarrow> bool" where
  "write_kept r r' \<longleftrightarrow> hc_state r' = hc_state r \<and> hc_resolution_json r' = hc_resolution_json r \<and>
     hc_target_json r' = hc_target_json r \<and> hc_before_json r' = hc_before_json r \<and>
     hc_apply_attempt_id r' = hc_apply_attempt_id r \<and>
     hc_remote_attempt_started_at r' = hc_remote_attempt_started_at r \<and> hc_last_error r' = hc_last_error r"

definition observed_from :: "holding_case \<Rightarrow> holding_case \<Rightarrow> bool" where
  "observed_from r r' \<longleftrightarrow> same_case r r' \<and>
     (hc_state r \<notin> set reopenable_states \<longrightarrow> hc_state r' = hc_state r) \<and>
     (hc_state r = Applying \<or> hc_state r = ApplyOutcomeUnknown \<longrightarrow> write_kept r r') \<and>
     (hc_apply_attempt_id r' = None \<or> hc_state r' = hc_state r \<and>
        hc_apply_attempt_id r' = hc_apply_attempt_id r \<and>
        hc_remote_attempt_started_at r' = hc_remote_attempt_started_at r)"

lemma observed_from_trans: "observed_from r r' \<Longrightarrow> hc_state r' = hc_state r \<Longrightarrow> observed_from r' r'' \<Longrightarrow> observed_from r r''"
  by (auto simp: observed_from_def same_case_def write_kept_def)

definition only_row :: "string \<Rightarrow> holding_case \<Rightarrow> holding_case \<Rightarrow> op_store \<Rightarrow> op_store \<Rightarrow> bool" where
  "only_row key r r' s s' \<longleftrightarrow> case_at key s = Some r \<and> case_at key s' = Some r' \<and>
     (\<forall>k. k \<noteq> key \<longrightarrow> case_at k s' = case_at k s)"

lemma migrate_row:
  assumes ok: "case_store_ok s" and row: "case_at key s = Some r"
    and m: "migrate_case_precondition_tx sha r c tr now s = Inr (b, s')"
  shows "cases_step s s'"
    and "only_row key r (if b then migrated_row sha c now r r else r) s s'"
    and "b \<Longrightarrow> hc_state r \<in> set legacy_migratable_states"
proof -
  have "cases_step s s' \<and> only_row key r (if b then migrated_row sha c now r r else r) s s' \<and>
      (b \<longrightarrow> hc_state r \<in> set legacy_migratable_states)"
  proof (cases "classify_precondition_transition sha r c")
    case TransitionExact
    with m ok row show ?thesis
      by (auto simp: migrate_case_precondition_tx_def only_row_def intro: cases_step_refl)
  next
    case TransitionReject
    with m show ?thesis by (simp add: migrate_case_precondition_tx_def)
  next
    case LegacyMigratable
    then have sem: "hc_case_key r = ci_case_key c" "hc_state r \<in> set legacy_migratable_states"
      by (simp_all add: classify_LegacyMigratable same_semantics_def)
    with case_at_key [OF row] have key: "ci_case_key c = key" by simp
    define hit where "hit = (\<lambda>q :: holding_case. hc_case_key q = ci_case_key c \<and>
      hc_precondition_digest q = hc_precondition_digest r)"
    from m LegacyMigratable obtain ty pl where
      b: "b" and s': "s' = insert_case_event_tx (ci_case_key c) ty pl now
        (update_cases hit (migrated_row sha c now r) s)"
      by (auto simp: migrate_case_precondition_tx_def Let_def hit_def split: if_splits)
    have same: "same_case q (migrated_row sha c now r q)" for q
      by (simp add: same_case_def migrated_row_def)
    have step: "cases_step s s'"
      unfolding s' using ok same row key
      by (intro logged_update_step) (auto simp: hit_def case_at_keys)
    have "case_at k s' = (if k = key then Some (migrated_row sha c now r r) else case_at k s)" for k
      using keyed_update [of "migrated_row sha c now r" k key
          "\<lambda>q. hc_precondition_digest q = hc_precondition_digest r" s] same row
      by (simp add: s' hit_def key same_case_def)
    with step b row sem(2) show ?thesis by (simp add: only_row_def)
  qed
  then show "cases_step s s'" "only_row key r (if b then migrated_row sha c now r r else r) s s'"
    "b \<Longrightarrow> hc_state r \<in> set legacy_migratable_states" by blast+
qed

lemma observe_existing_row:
  assumes ok: "case_store_ok s" and row: "case_at key s = Some r"
    and m: "observe_existing_tx c tr now key r s = Inr (d, s')"
  shows "cases_step s s' \<and> (\<exists>r'. only_row key r r' s s' \<and> observed_from r r') \<and> same_immutables c r"
proof -
  have k: "key \<in> hc_case_key ` set (holding_cases s)" using row by (auto dest: row_of_Some)
  have st: "cases_step s (insert_case_event_tx key ty pl now (update_cases (\<lambda>r. hc_case_key r = key) f s))"
    if "\<And>r. same_case r (f r)" for ty pl f
    using ok k that by (intro logged_update_step) auto
  have only: "only_row key r (f r) s (insert_case_event_tx key ty pl now (update_cases (\<lambda>r. hc_case_key r = key) f s))"
    if "\<And>r. same_case r (f r)" for ty pl f
    using that row keyed_update_all [of f] by (simp add: only_row_def same_case_def)
  have re: "observed_from r (reopened_row c now r)" if "hc_state r \<in> set reopenable_states"
    using that by (auto simp: observed_from_def reopenable_states_def reopened_row_def same_case_def)
  have rf: "observed_from r (refreshed_row c now r)"
    by (simp add: observed_from_def write_kept_def refreshed_row_def same_case_def)
  have rr: "observed_from r r" by (simp add: observed_from_def write_kept_def)
  have imm: "same_immutables c r" using m by (auto simp: observe_existing_tx_def Let_def split: if_splits)
  let ?upd = "\<lambda>ty pl f. insert_case_event_tx key ty pl now (update_cases (\<lambda>r. hc_case_key r = key) f s)"
  consider "s' = s"
    | (reopen) ty pl where "s' = ?upd ty pl (reopened_row c now)" "hc_state r \<in> set reopenable_states"
    | (refresh) ty pl where "s' = ?upd ty pl (refreshed_row c now)"
    using m unfolding observe_existing_tx_def Let_def by (simp split: if_splits) blast+
  then show ?thesis
  proof cases
    case 1
    with row rr imm cases_step_refl [OF ok] show ?thesis by (auto simp: only_row_def)
  next
    case reopen
    have "only_row key r (reopened_row c now r) s s'" unfolding reopen(1) by (rule only) simp
    moreover have "cases_step s s'" unfolding reopen(1) by (rule st) simp
    ultimately show ?thesis using re [OF reopen(2)] imm by blast
  next
    case refresh
    have "only_row key r (refreshed_row c now r) s s'" unfolding refresh by (rule only) simp
    moreover have "cases_step s s'" unfolding refresh by (rule st) simp
    ultimately show ?thesis using rf imm by blast
  qed
qed

lemma only_row_trans: "only_row key r r' s s' \<Longrightarrow> only_row key r' r'' s' s'' \<Longrightarrow> only_row key r r'' s s''"
  by (simp add: only_row_def)

lemma materialize_existing_row:
  assumes ok: "case_store_ok s" and row: "case_at key s = Some r"
    and m: "materialize_existing_tx sha c tr now key r s = Inr (d, s')"
  shows "cases_step s s'"
    and "\<exists>r'. only_row key r r' s s' \<and> observed_from r r'"
    and "hc_record_id r = py_strip (ci_record_id c) \<and> hc_field r = py_strip (ci_field c)"
proof -
  define ident where "ident = canonical_json (or_obj (ci_identity c))"
  define s1 where "s1 = (if hc_identity_json r = JObj []
    then update_cases (\<lambda>q. hc_case_key q = key) (\<lambda>q. q\<lparr>hc_identity_json := ident, hc_updated_at := now\<rparr>) s
    else s)"
  define r1 where "r1 = (if hc_identity_json r = JObj []
    then r\<lparr>hc_identity_json := ident, hc_updated_at := now\<rparr> else r)"
  have st1: "cases_step s s1"
    unfolding s1_def using ok cases_step_refl [OF ok]
    by (auto intro!: silent_update_step simp: same_case_def)
  have only1: "only_row key r r1 s s1"
    using row by (simp add: only_row_def s1_def r1_def keyed_update_all)
  have obs1: "observed_from r r1" "hc_state r1 = hc_state r"
    by (simp_all add: observed_from_def write_kept_def r1_def same_case_def)
  from m only1 obtain b s2 r2 where
    mig: "migrate_case_precondition_tx sha r1 c tr now s1 = Inr (b, s2)"
    and at2: "case_at key s2 = Some r2"
    and ob: "observe_existing_tx c tr now key r2 s2 = Inr (d, s')"
    unfolding materialize_existing_tx_def Let_def ident_def [symmetric] s1_def [symmetric]
    by (auto simp: bind_result_Inr only_row_def split: if_splits option.splits)
  have at1: "case_at key s1 = Some r1" using only1 by (simp add: only_row_def)
  note mrow = migrate_row [OF cases_step_ok [OF st1] at1 mig]
  have r2: "r2 = (if b then migrated_row sha c now r1 r1 else r1)"
    using mrow(2) at2 by (simp add: only_row_def)
  have obs2: "observed_from r1 r2" "hc_state r2 = hc_state r1"
    using mrow(3) by (auto simp: r2 observed_from_def write_kept_def migrated_row_def legacy_migratable_states_def
        same_case_def)
  from observe_existing_row [OF cases_step_ok [OF mrow(1)] at2 ob] obtain r' where
    r': "cases_step s2 s'" "only_row key r2 r' s2 s'" "observed_from r2 r'" "same_immutables c r2" by blast
  show "hc_record_id r = py_strip (ci_record_id c) \<and> hc_field r = py_strip (ci_field c)"
    using r'(4) obs1 obs2 by (simp add: same_immutables_def observed_from_def same_case_def)
  show "cases_step s s'" using st1 mrow(1) r'(1) cases_step_trans by blast
  have "only_row key r r' s s'"
    using only_row_trans [OF only_row_trans [OF only1 mrow(2) [folded r2]] r'(2)] .
  moreover have "observed_from r r'"
    using observed_from_trans [OF observed_from_trans [OF obs1 obs2(1)] _ r'(3)] obs1(2) obs2(2) by simp
  ultimately show "\<exists>r'. only_row key r r' s s' \<and> observed_from r r'" by blast
qed

lemma new_case_key [simp]: "hc_case_key (new_case_row c now) = py_strip (ci_case_key c)"
  by (simp add: new_case_row_def)

lemma materialize_new_row:
  assumes ok: "case_store_ok s" and key: "key = py_strip (ci_case_key c)" and none: "case_at key s = None"
    and m: "materialize_new_tx c rs tr now en s = Inr (d, s')"
  shows "cases_step s s'"
    and "case_at k s' = (if k = key then Some (new_case_row c now) else case_at k s)"
proof -
  define s2 where "s2 = insert_case_event_tx key ''discovered''
     [(''state'', JStr (py_strip (ci_state c))), (''record_digest'', JStr (py_strip (ci_record_digest c))),
      (''trigger'', JObj tr)] now (s\<lparr>holding_cases := holding_cases s @ [new_case_row c now]\<rparr>)"
  have st2: "cases_step s s2"
    unfolding s2_def using ok none key by (intro insert_case_step) simp_all
  have "s' = s2 \<or> (\<exists>(x :: receipt_spec) b. insert_operation_receipt_tx (rs_receipt_key x) (rs_receipt_type x) (rs_payload x) now s2 = Inr (b, s'))"
    using m unfolding materialize_new_tx_def Let_def key [symmetric] s2_def [symmetric]
    by (auto simp: bind_result_Inr split: option.splits if_splits)
  then have st: "cases_step s2 s' \<and> holding_cases s' = holding_cases s2"
    using receipt_step [OF cases_step_ok [OF st2]] cases_step_refl [OF cases_step_ok [OF st2]] by blast
  show "cases_step s s'" using cases_step_trans [OF st2] st by blast
  show "case_at k s' = (if k = key then Some (new_case_row c now) else case_at k s)"
    using st none by (auto simp: s2_def row_of_append key split: option.splits)
qed

text \<open>The whole step of one candidate, row by row.\<close>

definition rivals_of :: "case_input \<Rightarrow> op_store \<Rightarrow> holding_case list" where
  "rivals_of c s = rival_rows (py_strip (ci_record_id c)) (py_strip (ci_field c)) (py_strip (ci_case_key c)) s"

lemma materialize_case_rows:
  assumes ok: "case_store_ok s" and m: "materialize_case_tx sha rs tr now en c s = Inr (d, s')"
    and key: "key = py_strip (ci_case_key c)"
  obtains (skip) "list_ex automatic_in_flight (rivals_of c s)" and "s' = s"
    | (went) s1 where "\<not> list_ex automatic_in_flight (rivals_of c s)"
        and "cases_step s s1"
        and "\<And>k r. case_at k s = Some r \<Longrightarrow>
          \<exists>r'. case_at k s1 = Some r' \<and> superseded_from (hc_case_key ` set (rivals_of c s)) r r'"
        and "\<And>k. case_at k s = None \<Longrightarrow> case_at k s1 = None"
        and "cases_step s1 s'"
        and "(\<exists>r r'. only_row key r r' s1 s' \<and> observed_from r r' \<and>
            hc_record_id r = py_strip (ci_record_id c) \<and> hc_field r = py_strip (ci_field c)) \<or>
          case_at key s1 = None \<and> (\<forall>k. case_at k s' = (if k = key then Some (new_case_row c now) else case_at k s1))"
proof (cases "list_ex automatic_in_flight (rivals_of c s)")
  case True
  with m have "s' = s"
    by (auto simp: materialize_case_tx_def Let_def rivals_of_def split: if_splits)
  with True show ?thesis by (rule skip)
next
  case False
  with m obtain ks s1 d1 where
    l: "supersede_loop key (py_strip (ci_record_digest c)) tr now en (rivals_of c s) s = Inr (ks, s1)"
    and e: "(case case_at key s1 of Some r \<Rightarrow> materialize_existing_tx sha c tr now key r s1
        | None \<Rightarrow> materialize_new_tx c rs tr now en s1) = Inr (d1, s')"
    unfolding materialize_case_tx_def Let_def rivals_of_def key [symmetric]
    by (auto simp: bind_result_Inr split: if_splits)
  have "case_at (hc_case_key old) s \<noteq> None" if "old \<in> set (rivals_of c s)" for old
    using that by (auto simp: rivals_of_def rival_rows_def row_of_None)
  note loop = supersede_loop_rows [OF ok l this]
  have ok1: "case_store_ok s1" using loop cases_step_ok by blast
  show ?thesis
  proof (cases "case_at key s1")
    case None
    with e have new: "materialize_new_tx c rs tr now en s1 = Inr (d1, s')" by simp
    note new_row = materialize_new_row [OF ok1 key None new]
    show ?thesis using False loop new_row None by (intro went [of s1]) blast+
  next
    case (Some r)
    with e have ex: "materialize_existing_tx sha c tr now key r s1 = Inr (d1, s')" by simp
    note ex_row = materialize_existing_row [OF ok1 Some ex]
    show ?thesis using False loop ex_row by (intro went [of s1]) blast+
  qed
qed

lemma materialize_case_step:
  assumes "case_store_ok s" and "materialize_case_tx sha rs tr now en c s = Inr (d, s')"
  shows "cases_step s s'"
  using materialize_case_rows [OF assms refl] cases_step_refl [OF assms(1)] cases_step_trans by metis

lemma materialize_cases_step:
  assumes "case_store_ok s" and "materialize_cases_tx sha rs tr now en cs s = Inr (d, s')"
  shows "cases_step s s'"
  using assms
proof (induction cs arbitrary: s d)
  case Nil
  then show ?case by (simp add: cases_step_refl)
next
  case (Cons c cs)
  then obtain d1 s1 e where
    "materialize_case_tx sha rs tr now en c s = Inr (d1, s1)"
    "materialize_cases_tx sha rs tr now en cs s1 = Inr (e, s')"
    by (auto simp: bind_result_Inr)
  with Cons.IH Cons.prems(1) materialize_case_step cases_step_ok cases_step_trans show ?case by metis
qed

end
