(* ===== verification/Case_Properties.thy ===== *)
theory Case_Properties
  imports Case_History
begin

text \<open>
  The properties of the reconciliation cases: the audit trail, the protection of automatic writes
  in flight, one live case per field, the closing of absent cases, and the guards around a remote
  write.
\<close>

section \<open>The remaining operations\<close>

text \<open>An UPDATE of one existing case with its entry and its closure receipt.\<close>

lemma closing_step:
  assumes ok: "case_store_ok s" and k: "case_at k s \<noteq> None"
    and same: "\<And>r. same_case r (f r)"
    and c: "closure_receipt_tx en rk pl now (insert_case_event_tx k ty pe now
      (update_cases (\<lambda>q. hc_case_key q = k \<and> g q) f s)) = Inr (ks, s')"
  shows "cases_step s s'"
    and "case_at k' s' = (if k' = k then map_option (\<lambda>r. if g r then f r else r) (case_at k' s) else case_at k' s)"
proof -
  let ?t = "insert_case_event_tx k ty pe now (update_cases (\<lambda>q. hc_case_key q = k \<and> g q) f s)"
  have st: "cases_step s ?t"
    using ok k same by (intro logged_update_step) (auto simp: case_at_keys)
  note cl = closure_step [OF cases_step_ok [OF st] c]
  show "cases_step s s'" using cases_step_trans [OF st] cl by blast
  show "case_at k' s' = (if k' = k then map_option (\<lambda>r. if g r then f r else r) (case_at k' s) else case_at k' s)"
    using cl same keyed_update [of f k' k g s] by (simp add: same_case_def)
qed

text \<open>What closing the absent cases of a record does to a row.\<close>

definition absent_closed :: "dict \<Rightarrow> string set \<Rightarrow> holding_case \<Rightarrow> holding_case \<Rightarrow> bool" where
  "absent_closed identity ks r r' \<longleftrightarrow> same_case r r' \<and> hc_identity_json r' = hc_identity_json r \<and>
     (if hc_case_key r \<in> ks \<and> hc_state r \<in> set absent_eligible_states \<and> hc_kind r \<noteq> ''duplicate_identity''
      then hc_state r' = (if hc_identity_json r = canonical_json (JObj identity) then ResolvedExternal else Superseded)
      else r' = r)"

lemma resolve_row_rows:
  assumes ok: "case_store_ok s" and at: "case_at (hc_case_key q) s \<noteq> None"
    and same: "\<forall>r. case_at (hc_case_key q) s = Some r \<longrightarrow> hc_kind r = hc_kind q \<and> hc_identity_json r = hc_identity_json q"
    and m: "resolve_row_tx dg ident tr now en q s = Inr (d, s')"
  shows "cases_step s s'"
    and "case_at k s = Some r \<Longrightarrow> \<exists>r'. case_at k s' = Some r' \<and> absent_closed ident {hc_case_key q} r r'"
    and "case_at k s = None \<Longrightarrow> case_at k s' = None"
proof -
  have "cases_step s s' \<and> (\<forall>k r. case_at k s = Some r \<longrightarrow>
      (\<exists>r'. case_at k s' = Some r' \<and> absent_closed ident {hc_case_key q} r r')) \<and>
      (\<forall>k. case_at k s = None \<longrightarrow> case_at k s' = None)"
  proof (cases "hc_kind q = ''duplicate_identity''")
    case True
    with m have "s' = s" by (simp add: resolve_row_tx_def)
    moreover have "absent_closed ident {hc_case_key q} r r" if "case_at k s = Some r" for k r
      using that True same case_at_key [OF that] by (auto simp: absent_closed_def)
    ultimately show ?thesis using cases_step_refl [OF ok] by blast
  next
    case False
    define tst where "tst = (if hc_identity_json q = canonical_json (JObj ident) then ResolvedExternal else Superseded)"
    from m False obtain res rk pl ty pe ks where
      c: "closure_receipt_tx en rk pl now (insert_case_event_tx (hc_case_key q) ty pe now
        (update_cases (\<lambda>r. hc_case_key r = hc_case_key q \<and> hc_state r \<in> set absent_eligible_states)
          (closed_row tst res now) s)) = Inr (ks, s')"
      unfolding resolve_row_tx_def Let_def tst_def [symmetric] by (auto simp: bind_result_Inr)
    note cl = closing_step [OF ok at superseded_same(2) c]
    have "\<exists>r'. case_at k s' = Some r' \<and> absent_closed ident {hc_case_key q} r r'" if kr: "case_at k s = Some r" for k r
    proof (cases "k = hc_case_key q")
      case True
      with same kr have "hc_kind r \<noteq> ''duplicate_identity''" "hc_identity_json r = hc_identity_json q"
        using False by simp_all
      with True cl(2) [of k] kr case_at_key [OF kr] show ?thesis
        by (simp add: absent_closed_def closed_row_def same_case_def tst_def)
    next
      case other: False
      with cl(2) [of k] kr case_at_key [OF kr] show ?thesis by (simp add: absent_closed_def)
    qed
    moreover have "case_at k s' = None" if "case_at k s = None" for k
      using cl(2) [of k] that by (cases "k = hc_case_key q") auto
    ultimately show ?thesis using cl(1) by blast
  qed
  then show "cases_step s s'"
    "case_at k s = Some r \<Longrightarrow> \<exists>r'. case_at k s' = Some r' \<and> absent_closed ident {hc_case_key q} r r'"
    "case_at k s = None \<Longrightarrow> case_at k s' = None" by blast+
qed

lemma absent_closed_trans:
  assumes "absent_closed i A r r'" and "absent_closed i B r' r''"
  shows "absent_closed i (A \<union> B) r r''"
proof (cases "hc_case_key r \<in> A \<and> hc_state r \<in> set absent_eligible_states \<and> hc_kind r \<noteq> ''duplicate_identity''")
  case True
  with assms(1) have "hc_state r' \<notin> set absent_eligible_states"
    by (auto simp: absent_closed_def absent_eligible_states_def)
  with assms(2) have "r'' = r'" by (auto simp: absent_closed_def)
  with assms(1) True show ?thesis by (auto simp: absent_closed_def)
next
  case False
  with assms show ?thesis by (auto simp: absent_closed_def)
qed

lemma resolve_rows_rows:
  assumes "case_store_ok s" and "resolve_rows_tx dg ident tr now en qs s = Inr (d, s')"
    and "\<And>q. q \<in> set qs \<Longrightarrow> \<exists>r. case_at (hc_case_key q) s = Some r \<and>
      hc_kind r = hc_kind q \<and> hc_identity_json r = hc_identity_json q"
  shows "cases_step s s' \<and>
    (\<forall>k r. case_at k s = Some r \<longrightarrow>
      (\<exists>r'. case_at k s' = Some r' \<and> absent_closed ident (hc_case_key ` set qs) r r')) \<and>
    (\<forall>k. case_at k s = None \<longrightarrow> case_at k s' = None)"
  using assms
proof (induction qs arbitrary: s d)
  case Nil
  then show ?case by (auto simp: cases_step_refl absent_closed_def)
next
  case (Cons q qs)
  from Cons.prems(2) obtain d1 s1 e where
    f: "resolve_row_tx dg ident tr now en q s = Inr (d1, s1)"
    and l: "resolve_rows_tx dg ident tr now en qs s1 = Inr (e, s')"
    by (auto simp: bind_result_Inr)
  from Cons.prems(3) [of q] obtain r0 where r0: "case_at (hc_case_key q) s = Some r0"
      "hc_kind r0 = hc_kind q" "hc_identity_json r0 = hc_identity_json q" by auto
  have at: "case_at (hc_case_key q) s \<noteq> None" using r0 by simp
  have same: "\<forall>r. case_at (hc_case_key q) s = Some r \<longrightarrow> hc_kind r = hc_kind q \<and> hc_identity_json r = hc_identity_json q"
    using r0 by simp
  note row = resolve_row_rows [OF Cons.prems(1) at same f]
  have "\<exists>r. case_at (hc_case_key p) s1 = Some r \<and> hc_kind r = hc_kind p \<and> hc_identity_json r = hc_identity_json p"
    if "p \<in> set qs" for p
  proof -
    from Cons.prems(3) [of p] that obtain r where r: "case_at (hc_case_key p) s = Some r"
      "hc_kind r = hc_kind p" "hc_identity_json r = hc_identity_json p" by auto
    from row(2) [OF r(1)] r(2,3) show ?thesis by (auto simp: absent_closed_def same_case_def)
  qed
  from Cons.IH [OF cases_step_ok [OF row(1)] l this] have
    IH: "cases_step s1 s'"
      "\<And>k r. case_at k s1 = Some r \<Longrightarrow> \<exists>r'. case_at k s' = Some r' \<and> absent_closed ident (hc_case_key ` set qs) r r'"
      "\<And>k. case_at k s1 = None \<Longrightarrow> case_at k s' = None" by blast+
  have "\<exists>r'. case_at k s' = Some r' \<and> absent_closed ident (hc_case_key ` set (q # qs)) r r'"
    if kr: "case_at k s = Some r" for k r
  proof -
    from row(2) [OF kr] obtain r1 where
      r1: "case_at k s1 = Some r1" "absent_closed ident {hc_case_key q} r r1" by blast
    from IH(2) [OF r1(1)] obtain r' where
      "case_at k s' = Some r'" "absent_closed ident (hc_case_key ` set qs) r1 r'" by blast
    with absent_closed_trans [OF r1(2) this(2)] show ?thesis by auto
  qed
  with IH(1,3) row(1,3) cases_step_trans show ?case by blast
qed

lemma resolve_absent_rows:
  assumes ok: "case_store_ok s" and m: "resolve_absent_tx rid active dg ident tr now en s = Inr (d, s')"
  shows "cases_step s s'"
    and "case_at k s = Some r \<Longrightarrow> \<exists>r'. case_at k s' = Some r' \<and> same_case r r' \<and>
      (if hc_record_id r = rid \<and> hc_state r \<in> set absent_eligible_states \<and> k \<notin> set active \<and>
          hc_kind r \<noteq> ''duplicate_identity''
       then hc_state r' = (if hc_identity_json r = canonical_json (JObj ident) then ResolvedExternal else Superseded)
       else r' = r)"
    and "case_at k s = None \<Longrightarrow> case_at k s' = None"
proof -
  define qs where "qs = filter (\<lambda>r. hc_record_id r = rid \<and> hc_state r \<in> set absent_eligible_states \<and>
          hc_case_key r \<notin> set active) (holding_cases s)"
  have in_qs: "hc_case_key r \<in> hc_case_key ` set qs \<longleftrightarrow> r \<in> set qs" if "case_at k s = Some r" for k r
    using that case_store_okD(1) [OF ok] by (auto simp: qs_def dest: row_of_Some unique_keys_eq)
  have "\<exists>r. case_at (hc_case_key q) s = Some r \<and> hc_kind r = hc_kind q \<and> hc_identity_json r = hc_identity_json q"
    if "q \<in> set qs" for q
    using row_of_unique [OF case_store_okD(1) [OF ok]] that by (auto simp: qs_def)
  note rows = resolve_rows_rows [OF ok m [unfolded resolve_absent_tx_def, folded qs_def] this]
  then show "cases_step s s'" "case_at k s = None \<Longrightarrow> case_at k s' = None" by blast+
  assume r: "case_at k s = Some r"
  with rows obtain r' where "case_at k s' = Some r'" "absent_closed ident (hc_case_key ` set qs) r r'" by blast
  with in_qs [OF r] r show "\<exists>r'. case_at k s' = Some r' \<and> same_case r r' \<and>
      (if hc_record_id r = rid \<and> hc_state r \<in> set absent_eligible_states \<and> k \<notin> set active \<and>
          hc_kind r \<noteq> ''duplicate_identity''
       then hc_state r' = (if hc_identity_json r = canonical_json (JObj ident) then ResolvedExternal else Superseded)
       else r' = r)"
    by (auto simp: absent_closed_def qs_def dest!: row_of_Some split: if_splits)
qed

lemma prepare_case_row:
  assumes ok: "case_store_ok s" and m: "prepare_case_tx att oc now a s = Inr s'"
  shows "cases_step s s'"
    and "\<exists>r. only_row (ai_case_key a) r (applying_row a att oc now r) s s' \<and>
      case_state_text (hc_state r) \<in> set (ai_allowed_states a) \<and> hc_precondition_digest r = ai_precondition a"
proof -
  from m obtain r ty pl where at: "case_at (ai_case_key a) s = Some r"
      and g: "case_state_text (hc_state r) \<in> set (ai_allowed_states a)" "hc_precondition_digest r = ai_precondition a"
      and s': "s' = insert_case_event_tx (ai_case_key a) ty pl now
        (update_cases (\<lambda>q. hc_case_key q = ai_case_key a) (applying_row a att oc now) s)"
    by (auto simp: prepare_case_tx_def Let_def split: option.splits if_splits)
  show "cases_step s s'"
    unfolding s' using ok at by (intro logged_update_step) (auto simp: case_at_keys)
  have "only_row (ai_case_key a) r (applying_row a att oc now r) s s'"
    using at by (simp add: only_row_def s' keyed_update_all row_keys)
  with g show "\<exists>r. only_row (ai_case_key a) r (applying_row a att oc now r) s s' \<and>
      case_state_text (hc_state r) \<in> set (ai_allowed_states a) \<and> hc_precondition_digest r = ai_precondition a"
    by blast
qed

lemma mark_remote_row:
  assumes ok: "case_store_ok s" and m: "mark_remote_tx att now key s = Inr s'"
  shows "cases_step s s'"
    and "\<exists>r. only_row key r (remote_started_row now r) s s' \<and> remote_ready key att r"
proof -
  from m have one: "rowcount (remote_ready key att) (holding_cases s) = 1"
    and s': "s' = insert_case_event_tx key ''remote_attempt_started'' [(''apply_attempt_id'', JStr att)] now
        (update_cases (remote_ready key att) (remote_started_row now) s)"
    by (auto simp: mark_remote_tx_def split: if_splits)
  have rk: "\<And>r :: holding_case. remote_ready key att r \<Longrightarrow> hc_case_key r = key" by (simp add: remote_ready_def)
  from one rowcount_key_1 [OF case_store_okD(1) [OF ok] rk]
  obtain r :: holding_case where r: "r \<in> set (holding_cases s)" "remote_ready key att r" by blast
  have at: "case_at key s = Some r" using row_at [OF case_store_okD(1) [OF ok] r(1) rk [OF r(2)]] .
  show "cases_step s s'"
    unfolding s' using ok at by (intro logged_update_step) (auto simp: case_at_keys remote_ready_def)
  have row: "case_at k s' = map_option (\<lambda>q. if remote_ready key att q then remote_started_row now q else q) (case_at k s)" for k
    unfolding s' by (simp add: update_row row_keys)
  have "case_at k s' = case_at k s" if "k \<noteq> key" for k
    using that row [of k] by (cases "case_at k s") (auto simp: remote_ready_def dest: case_at_key)
  then have "only_row key r (remote_started_row now r) s s'"
    using at r(2) row [of key] by (simp add: only_row_def)
  with r(2) show "\<exists>r. only_row key r (remote_started_row now r) s s' \<and> remote_ready key att r" by blast
qed

lemma finalize_case_row:
  assumes ok: "case_store_ok s" and m: "finalize_case_tx rs now x s = Inr s'"
  shows "cases_step s s'"
    and "\<exists>r. only_row (co_case_key x) r (finalized_row x now r) s s' \<and>
      parse_case_state (co_state x) \<in> set terminal_outcomes \<and>
      (co_apply_attempt_id x \<notin> {None, Some []} \<longrightarrow> hc_apply_attempt_id r = co_apply_attempt_id x)"
proof -
  from m obtain r ty pl where at: "case_at (co_case_key x) s = Some r"
      and g: "parse_case_state (co_state x) \<in> set terminal_outcomes"
        "co_apply_attempt_id x \<notin> {None, Some []} \<longrightarrow> hc_apply_attempt_id r = co_apply_attempt_id x"
      and s': "s' = insert_case_event_tx (co_case_key x) ty pl now
        (update_cases (\<lambda>q. hc_case_key q = co_case_key x) (finalized_row x now) s) \<or>
        (\<exists>(q :: receipt_spec) b. insert_operation_receipt_tx (rs_receipt_key q) (rs_receipt_type q) (rs_payload q) now
           (insert_case_event_tx (co_case_key x) ty pl now
             (update_cases (\<lambda>q. hc_case_key q = co_case_key x) (finalized_row x now) s)) = Inr (b, s'))"
    unfolding finalize_case_tx_def Let_def
    by (auto simp: bind_result_Inr split: option.splits if_splits) blast+
  let ?t = "insert_case_event_tx (co_case_key x) ty pl now
        (update_cases (\<lambda>q. hc_case_key q = co_case_key x) (finalized_row x now) s)"
  have st: "cases_step s ?t"
    using ok at by (intro logged_update_step) (auto simp: case_at_keys)
  have st': "cases_step ?t s' \<and> holding_cases s' = holding_cases ?t"
    using s' receipt_step [OF cases_step_ok [OF st]] cases_step_refl [OF cases_step_ok [OF st]] by blast
  show "cases_step s s'" using cases_step_trans [OF st] st' by blast
  have "only_row (co_case_key x) r (finalized_row x now r) s s'"
    using at st' by (simp add: only_row_def keyed_update_all row_keys)
  with g show "\<exists>r. only_row (co_case_key x) r (finalized_row x now r) s s' \<and>
      parse_case_state (co_state x) \<in> set terminal_outcomes \<and>
      (co_apply_attempt_id x \<notin> {None, Some []} \<longrightarrow> hc_apply_attempt_id r = co_apply_attempt_id x)" by blast
qed

lemma duplicate_row_row:
  assumes ok: "case_store_ok s" and m: "duplicate_row_tx pf tr act now en q s = Inr (d, s')"
  shows "cases_step s s'"
    and "\<forall>k r. case_at k s = Some r \<longrightarrow> (\<exists>r'. case_at k s' = Some r' \<and>
      (r' = r \<or> hc_state r' \<in> {Superseded, ResolvedExternal} \<and> hc_state r \<in> set open_case_states))"
    and "\<forall>k. case_at k s = None \<longrightarrow> case_at k s' = None"
proof -
  consider "s' = s" | (closed) st res rk pl ty pe ks r where
      "closure_receipt_tx en rk pl now (insert_case_event_tx (hc_case_key q) ty pe now
        (update_cases (\<lambda>r. hc_case_key r = hc_case_key q) (closed_row st res now) s)) = Inr (ks, s')"
      "st \<in> {Superseded, ResolvedExternal}" "case_at (hc_case_key q) s = Some r" "hc_state r \<in> set open_case_states"
    using m unfolding duplicate_row_tx_def Let_def
    by (auto simp: bind_result_Inr split: if_splits option.splits)
  then have "cases_step s s' \<and> (\<forall>k r. case_at k s = Some r \<longrightarrow> (\<exists>r'. case_at k s' = Some r' \<and>
      (r' = r \<or> hc_state r' \<in> {Superseded, ResolvedExternal} \<and> hc_state r \<in> set open_case_states))) \<and>
      (\<forall>k. case_at k s = None \<longrightarrow> case_at k s' = None)"
  proof cases
    case 1
    with cases_step_refl [OF ok] show ?thesis by simp
  next
    case closed
    have at: "case_at (hc_case_key q) s \<noteq> None" using closed(3) by simp
    note cl = closing_step [where g = "\<lambda>_. True" and f = "closed_row st res now", simplified,
        OF ok at [simplified] closed(1)]
    show ?thesis using cl closed(2-4) by (auto simp: closed_row_def)
  qed
  then show "cases_step s s'"
    "\<forall>k r. case_at k s = Some r \<longrightarrow> (\<exists>r'. case_at k s' = Some r' \<and>
      (r' = r \<or> hc_state r' \<in> {Superseded, ResolvedExternal} \<and> hc_state r \<in> set open_case_states))"
    "\<forall>k. case_at k s = None \<longrightarrow> case_at k s' = None" by blast+
qed

section \<open>Runs\<close>

datatype case_op =
    ObserveCases instant "case_input list" "receipt_spec list" dict bool
  | CloseAbsent instant string "string list" string dict dict bool
  | ReconcileDuplicates instant duplicate_plan bool
  | PrepareApply instant "apply_input list" string dict
  | ObserveAndPrepare instant "case_input list" "receipt_spec list" "apply_input list" string dict dict bool
  | StartRemote instant "string list" string
  | FinalizeCases instant "case_outcome list" "receipt_spec list"

fun case_step :: "(string \<Rightarrow> string) \<Rightarrow> case_op \<Rightarrow> op_store \<Rightarrow> op_store" where
  "case_step sha (ObserveCases now cs rs tr en) s = snd (materialize_holding_cases sha now cs rs tr en s)"
| "case_step sha (CloseAbsent now rid act dg ident tr en) s =
     snd (resolve_holding_cases_external now rid act dg ident tr en s)"
| "case_step sha (ReconcileDuplicates now plan en) s =
     snd (commit (reconcile_duplicate_cases_tx sha plan now en) s)"
| "case_step sha (PrepareApply now as att oc) s = snd (prepare_holding_apply now as att oc s)"
| "case_step sha (ObserveAndPrepare now cs rs as att oc tr en) s =
     snd (materialize_and_prepare_holding_apply sha now cs rs as att oc tr en s)"
| "case_step sha (StartRemote now ks att) s = snd (mark_holding_remote_attempt now ks att s)"
| "case_step sha (FinalizeCases now xs rs) s = snd (finalize_holding_cases now xs rs s)"

lemma each_step:
  assumes "case_store_ok s" and "each_tx f xs s = Inr s'"
    and "\<And>x s t. case_store_ok s \<Longrightarrow> f x s = Inr t \<Longrightarrow> cases_step s t"
  shows "cases_step s s'"
  by (rule each_tx_preserves [where P = "cases_step s", OF assms(2) cases_step_refl [OF assms(1)]])
    (use assms(3) cases_step_ok cases_step_trans in blast)

lemma duplicate_rows_step:
  assumes "case_store_ok s" and "duplicate_rows_tx pf tr act now en qs s = Inr (d, s')"
  shows "cases_step s s'"
  using assms
proof (induction qs arbitrary: s d)
  case Nil
  then show ?case by (simp add: cases_step_refl)
next
  case (Cons q qs)
  then obtain d1 s1 e where
    "duplicate_row_tx pf tr act now en q s = Inr (d1, s1)"
    "duplicate_rows_tx pf tr act now en qs s1 = Inr (e, s')"
    by (auto simp: bind_result_Inr)
  with Cons.IH Cons.prems(1) duplicate_row_row(1) cases_step_ok cases_step_trans show ?case by metis
qed

lemma reconcile_duplicates_step:
  assumes ok: "case_store_ok s" and m: "reconcile_duplicate_cases_tx sha plan now en s = Inr (d, s')"
  shows "cases_step s s'"
proof -
  from m obtain cs rs tr d1 s1 pf act qs e where
    a: "materialize_cases_tx sha rs tr now en cs s = Inr (d1, s1)"
    and b: "duplicate_rows_tx pf tr act now en qs s1 = Inr (e, s')"
    unfolding reconcile_duplicate_cases_tx_def Let_def by (auto simp: bind_result_Inr split: if_splits)
  from materialize_cases_step [OF ok a] duplicate_rows_step [OF cases_step_ok b] cases_step_trans
  show ?thesis by blast
qed

lemma observe_and_prepare_parts:
  assumes "materialize_and_prepare_tx sha now cs rs as att oc tr en s = Inr (d, s')"
  obtains d1 s1 rid act dg ident d2 s2 where
    "materialize_cases_tx sha rs tr now en cs s = Inr (d1, s1)"
    "resolve_absent_tx rid act dg ident tr now en s1 = Inr (d2, s2)"
    "each_tx (prepare_case_tx att oc now) as s2 = Inr s'" "as \<noteq> []"
  using assms unfolding materialize_and_prepare_tx_def
  by (auto simp: bind_result_Inr split: list.splits if_splits)

lemma observe_and_prepare_step:
  assumes ok: "case_store_ok s" and m: "materialize_and_prepare_tx sha now cs rs as att oc tr en s = Inr (d, s')"
  shows "cases_step s s'"
proof -
  from m obtain d1 s1 rid act dg ident d2 s2 where
    a: "materialize_cases_tx sha rs tr now en cs s = Inr (d1, s1)"
    and b: "resolve_absent_tx rid act dg ident tr now en s1 = Inr (d2, s2)"
    and c: "each_tx (prepare_case_tx att oc now) as s2 = Inr s'"
    by (rule observe_and_prepare_parts)
  have 1: "cases_step s s1" by (rule materialize_cases_step [OF ok a])
  have 2: "cases_step s1 s2" by (rule resolve_absent_rows(1) [OF cases_step_ok [OF 1] b])
  have 3: "cases_step s2 s'" by (rule each_step [OF cases_step_ok [OF 2] c prepare_case_row(1)])
  from 1 2 3 cases_step_trans show ?thesis by blast
qed

lemma case_step_cases:
  assumes ok: "case_store_ok s"
  shows "cases_step s (case_step sha x s)"
proof (cases x)
  case (ObserveCases now cs rs tr en)
  show ?thesis
    unfolding ObserveCases case_step.simps materialize_holding_cases_def
    by (intro commit_preserves [where P = "cases_step s"] cases_step_refl ok materialize_cases_step [OF ok])
next
  case (CloseAbsent now rid act dg ident tr en)
  show ?thesis
    unfolding CloseAbsent case_step.simps resolve_holding_cases_external_def
    by (intro commit_preserves [where P = "cases_step s"] cases_step_refl ok resolve_absent_rows(1) [OF ok])
next
  case (ReconcileDuplicates now plan en)
  show ?thesis
    unfolding ReconcileDuplicates case_step.simps
    by (intro commit_preserves [where P = "cases_step s"] cases_step_refl ok reconcile_duplicates_step [OF ok])
next
  case (PrepareApply now as att oc)
  have "cases_step s t" if "each_tx (prepare_case_tx att oc now) as s = Inr t" for t
    by (rule each_step [OF ok that prepare_case_row(1)])
  then show ?thesis
    unfolding PrepareApply case_step.simps prepare_holding_apply_def
    by (intro commit_preserves [where P = "cases_step s"] cases_step_refl ok)
      (auto simp: bind_result_Inr split: if_splits)
next
  case (ObserveAndPrepare now cs rs as att oc tr en)
  show ?thesis
    unfolding ObserveAndPrepare case_step.simps materialize_and_prepare_holding_apply_def
    by (intro commit_preserves [where P = "cases_step s"] cases_step_refl ok observe_and_prepare_step [OF ok])
next
  case (StartRemote now ks att)
  have "cases_step s t" if "each_tx (mark_remote_tx att now) ks s = Inr t" for t
    by (rule each_step [OF ok that mark_remote_row(1)])
  then show ?thesis
    unfolding StartRemote case_step.simps mark_holding_remote_attempt_def
    by (intro commit_preserves [where P = "cases_step s"] cases_step_refl ok) (auto simp: bind_result_Inr)
next
  case (FinalizeCases now xs rs)
  have "cases_step s t" if "each_tx (finalize_case_tx rs now) xs s = Inr t" for t
    by (rule each_step [OF ok that finalize_case_row(1)])
  then show ?thesis
    unfolding FinalizeCases case_step.simps finalize_holding_cases_def
    by (intro commit_preserves [where P = "cases_step s"] cases_step_refl ok) (auto simp: bind_result_Inr)
qed

section \<open>A remote write that may still be announced\<close>

definition remote_open :: "string \<Rightarrow> op_store \<Rightarrow> bool" where
  "remote_open k s \<longleftrightarrow> (\<exists>r. case_at k s = Some r \<and> hc_state r = Applying \<and>
     hc_apply_attempt_id r \<noteq> None \<and> hc_remote_attempt_started_at r = None)"

fun prepares :: "string \<Rightarrow> case_op \<Rightarrow> bool" where
  "prepares k (PrepareApply now as att oc) \<longleftrightarrow> k \<in> ai_case_key ` set as"
| "prepares k (ObserveAndPrepare now cs rs as att oc tr en) \<longleftrightarrow> k \<in> ai_case_key ` set as"
| "prepares k _ \<longleftrightarrow> False"

definition announces :: "(string \<Rightarrow> string) \<Rightarrow> string \<Rightarrow> case_op \<Rightarrow> op_store \<Rightarrow> bool" where
  "announces sha k x s \<longleftrightarrow> (case x of
      StartRemote now ks att \<Rightarrow> k \<in> set ks \<and> fst (mark_holding_remote_attempt now ks att s) = Inr ()
    | _ \<Rightarrow> False)"

fun announcements :: "(string \<Rightarrow> string) \<Rightarrow> string \<Rightarrow> case_op list \<Rightarrow> op_store \<Rightarrow> nat" where
  "announcements sha k [] s = 0"
| "announcements sha k (x # xs) s =
     (if announces sha k x s then 1 else 0) + announcements sha k xs (case_step sha x s)"

lemma superseded_open:
  assumes "superseded_from ks r r'" and "hc_state r' = Applying"
  shows "r' = r"
  using assms by (auto simp: superseded_from_def split: if_splits)

lemma only_row_open:
  assumes "only_row key r r' s s'"
    and "hc_state r' = Applying \<Longrightarrow> hc_apply_attempt_id r' \<noteq> None \<Longrightarrow> hc_remote_attempt_started_at r' = None \<Longrightarrow>
      hc_state r = Applying \<and> hc_apply_attempt_id r \<noteq> None \<and> hc_remote_attempt_started_at r = None"
    and "remote_open k s'"
  shows "remote_open k s"
  using assms by (cases "k = key") (auto simp: only_row_def remote_open_def)

lemma materialize_case_open:
  assumes ok: "case_store_ok s" and m: "materialize_case_tx sha rs tr now en c s = Inr (d, s')"
    and o: "remote_open k s'"
  shows "remote_open k s"
  using ok m refl
proof (cases rule: materialize_case_rows)
  case skip
  with o show ?thesis by simp
next
  case (went s1)
  have prior: "remote_open k s" if o1: "remote_open k s1"
  proof -
    from o1 obtain r1 where r1: "case_at k s1 = Some r1" "hc_state r1 = Applying"
      "hc_apply_attempt_id r1 \<noteq> None" "hc_remote_attempt_started_at r1 = None"
      by (auto simp: remote_open_def)
    with went(4) obtain r where "case_at k s = Some r" by (cases "case_at k s") auto
    with went(3) [OF this] r1 superseded_open show ?thesis by (fastforce simp: remote_open_def)
  qed
  from went(6) show ?thesis
  proof (elim disjE exE conjE)
    fix r r' assume "only_row (py_strip (ci_case_key c)) r r' s1 s'" "observed_from r r'"
    with only_row_open [OF this(1) _ o] prior show ?thesis by (auto simp: observed_from_def)
  next
    assume "\<forall>k. case_at k s' = (if k = py_strip (ci_case_key c) then Some (new_case_row c now) else case_at k s1)"
    with o have "remote_open k s1" by (auto simp: remote_open_def new_case_row_def split: if_splits)
    with prior show ?thesis by simp
  qed
qed

lemma materialize_cases_open:
  assumes "case_store_ok s" and "materialize_cases_tx sha rs tr now en cs s = Inr (d, s')" and "remote_open k s'"
  shows "remote_open k s"
  using assms
proof (induction cs arbitrary: s d)
  case (Cons c cs)
  then obtain d1 s1 e where c: "materialize_case_tx sha rs tr now en c s = Inr (d1, s1)"
    "materialize_cases_tx sha rs tr now en cs s1 = Inr (e, s')"
    by (auto simp: bind_result_Inr)
  have "remote_open k s1"
    using Cons.IH [OF cases_step_ok [OF materialize_case_step [OF Cons.prems(1) c(1)]] c(2) Cons.prems(3)] .
  with materialize_case_open [OF Cons.prems(1) c(1)] show ?case by blast
qed simp

lemma resolve_absent_open:
  assumes ok: "case_store_ok s" and m: "resolve_absent_tx rid act dg ident tr now en s = Inr (d, s')"
    and o: "remote_open k s'"
  shows "remote_open k s"
proof -
  note rows = resolve_absent_rows [OF ok m]
  from o obtain r' where r': "case_at k s' = Some r'" "hc_state r' = Applying"
      "hc_apply_attempt_id r' \<noteq> None" "hc_remote_attempt_started_at r' = None" by (auto simp: remote_open_def)
  with rows(3) obtain r where r: "case_at k s = Some r" by (cases "case_at k s") auto
  from rows(2) [OF r] r' have "r' = r" by (auto split: if_splits)
  with r r' show ?thesis by (auto simp: remote_open_def)
qed

lemma each_open:
  assumes "case_store_ok s" and "each_tx f xs s = Inr s'" and "remote_open k s'"
    and "\<And>x s t. x \<in> set xs \<Longrightarrow> case_store_ok s \<Longrightarrow> f x s = Inr t \<Longrightarrow> cases_step s t \<and> (remote_open k t \<longrightarrow> remote_open k s)"
  shows "remote_open k s"
proof -
  have "case_store_ok s' \<and> (remote_open k s' \<longrightarrow> remote_open k s)"
    by (rule each_tx_preserves [where P = "\<lambda>t. case_store_ok t \<and> (remote_open k t \<longrightarrow> remote_open k s)", OF assms(2)])
      (use assms(1,4) cases_step_ok in blast)+
  with assms(3) show ?thesis by blast
qed

lemma duplicate_rows_open:
  assumes "case_store_ok s" and "duplicate_rows_tx pf tr act now en qs s = Inr (d, s')" and "remote_open k s'"
  shows "remote_open k s"
  using assms
proof (induction qs arbitrary: s d)
  case (Cons q qs)
  then obtain d1 s1 e where q: "duplicate_row_tx pf tr act now en q s = Inr (d1, s1)"
    "duplicate_rows_tx pf tr act now en qs s1 = Inr (e, s')"
    by (auto simp: bind_result_Inr)
  note row = duplicate_row_row [OF Cons.prems(1) q(1)]
  from Cons.IH [OF cases_step_ok [OF row(1)] q(2) Cons.prems(3)] obtain r1 where
    r1: "case_at k s1 = Some r1" "hc_state r1 = Applying" "hc_apply_attempt_id r1 \<noteq> None"
      "hc_remote_attempt_started_at r1 = None" by (auto simp: remote_open_def)
  with row(3) obtain r where r: "case_at k s = Some r" by (cases "case_at k s") auto
  with row(2) r1 have "r1 = r" by fastforce
  with r r1 show ?case by (auto simp: remote_open_def)
qed simp

lemma prepare_open:
  assumes "case_store_ok s" and "prepare_case_tx att oc now a s = Inr t" and "remote_open k t" and "ai_case_key a \<noteq> k"
  shows "remote_open k s"
  using prepare_case_row(2) [OF assms(1,2)] assms(3,4) by (auto simp: only_row_def remote_open_def)

lemma mark_open:
  assumes "case_store_ok s" and "mark_remote_tx att now key s = Inr t"
  shows "remote_open k t \<Longrightarrow> remote_open k s" and "remote_open key s \<and> \<not> remote_open key t"
proof -
  from mark_remote_row(2) [OF assms] obtain r where
    r: "only_row key r (remote_started_row now r) s t" "remote_ready key att r" by blast
  then show "remote_open key s \<and> \<not> remote_open key t"
    by (auto simp: only_row_def remote_open_def remote_ready_def remote_started_row_def)
  show "remote_open k s" if "remote_open k t"
    using only_row_open [OF r(1) _ that] by (simp add: remote_started_row_def)
qed

lemma finalize_open:
  assumes "case_store_ok s" and "finalize_case_tx rs now x s = Inr t" and "remote_open k t"
  shows "remote_open k s"
proof -
  from finalize_case_row(2) [OF assms(1,2)] obtain r where
    r: "only_row (co_case_key x) r (finalized_row x now r) s t" "parse_case_state (co_state x) \<in> set terminal_outcomes"
    by blast
  then have "hc_state (finalized_row x now r) \<noteq> Applying"
    by (auto simp: finalized_row_def terminal_outcomes_def)
  with only_row_open [OF r(1) _ assms(3)] show ?thesis by blast
qed

lemma marks_once:
  assumes "case_store_ok s" and "each_tx (mark_remote_tx att now) ks s = Inr s'" and "k \<in> set ks"
  shows "remote_open k s \<and> \<not> remote_open k s'"
  using assms
proof (induction ks arbitrary: s)
  case (Cons q ks)
  then obtain s1 where s1: "mark_remote_tx att now q s = Inr s1" "each_tx (mark_remote_tx att now) ks s1 = Inr s'"
    by (auto simp: bind_result_Inr)
  note st = cases_step_ok [OF mark_remote_row(1) [OF Cons.prems(1) s1(1)]]
  have later: "remote_open k s1" if "remote_open k s'"
    by (rule each_open [OF st s1(2) that]) (use mark_remote_row(1) mark_open(1) in blast)
  show ?case
  proof (cases "k \<in> set ks")
    case True
    with Cons.IH [OF st s1(2)] mark_open(1) [OF Cons.prems(1) s1(1)] show ?thesis by blast
  next
    case False
    with Cons.prems(3) have "k = q" by simp
    with mark_open(2) [OF Cons.prems(1) s1(1)] later show ?thesis by blast
  qed
qed simp

lemma case_step_open:
  assumes ok: "case_store_ok s" and np: "\<not> prepares k x" and o: "remote_open k (case_step sha x s)"
  shows "remote_open k s"
proof (rule ccontr)
  assume n: "\<not> remote_open k s"
  have "\<not> remote_open k (case_step sha x s)"
  proof (cases x)
    case (ObserveCases now cs rs tr en)
    show ?thesis
      unfolding ObserveCases case_step.simps materialize_holding_cases_def
      by (intro commit_preserves [where P = "\<lambda>t. \<not> remote_open k t"] n) (use n ok materialize_cases_open in blast)
  next
    case (CloseAbsent now rid act dg ident tr en)
    show ?thesis
      unfolding CloseAbsent case_step.simps resolve_holding_cases_external_def
      by (intro commit_preserves [where P = "\<lambda>t. \<not> remote_open k t"] n) (use n ok resolve_absent_open in blast)
  next
    case (ReconcileDuplicates now plan en)
    have "\<not> remote_open k t" if "reconcile_duplicate_cases_tx sha plan now en s = Inr (d, t)" for d t
    proof
      assume t: "remote_open k t"
      from that obtain cs rs tr d1 s1 pf act qs e where
        a: "materialize_cases_tx sha rs tr now en cs s = Inr (d1, s1)"
        and b: "duplicate_rows_tx pf tr act now en qs s1 = Inr (e, t)"
        unfolding reconcile_duplicate_cases_tx_def Let_def by (auto simp: bind_result_Inr split: if_splits)
      from duplicate_rows_open [OF cases_step_ok [OF materialize_cases_step [OF ok a]] b t]
        materialize_cases_open [OF ok a] n show False by blast
    qed
    then show ?thesis
      unfolding ReconcileDuplicates case_step.simps
      by (intro commit_preserves [where P = "\<lambda>t. \<not> remote_open k t"] n)
  next
    case (PrepareApply now as att oc)
    have "\<not> remote_open k t" if "each_tx (prepare_case_tx att oc now) as s = Inr t" for t
      using each_open [OF ok that, of k] n np PrepareApply prepare_open prepare_case_row(1) by fastforce
    then show ?thesis
      unfolding PrepareApply case_step.simps prepare_holding_apply_def
      by (intro commit_preserves [where P = "\<lambda>t. \<not> remote_open k t"] n)
        (auto simp: bind_result_Inr split: if_splits)
  next
    case (ObserveAndPrepare now cs rs as att oc tr en)
    have "\<not> remote_open k t" if m: "materialize_and_prepare_tx sha now cs rs as att oc tr en s = Inr (d, t)" for d t
    proof
      assume t: "remote_open k t"
      from m obtain d1 s1 rid act dg ident d2 s2 where
        a: "materialize_cases_tx sha rs tr now en cs s = Inr (d1, s1)"
        and b: "resolve_absent_tx rid act dg ident tr now en s1 = Inr (d2, s2)"
        and c: "each_tx (prepare_case_tx att oc now) as s2 = Inr t"
        by (rule observe_and_prepare_parts)
      note 1 = cases_step_ok [OF materialize_cases_step [OF ok a]]
      note 2 = cases_step_ok [OF resolve_absent_rows(1) [OF 1 b]]
      have "remote_open k s2"
        by (rule each_open [OF 2 c t]) (use np ObserveAndPrepare prepare_open prepare_case_row(1) in fastforce)
      with resolve_absent_open [OF 1 b] materialize_cases_open [OF ok a] n show False by blast
    qed
    then show ?thesis
      unfolding ObserveAndPrepare case_step.simps materialize_and_prepare_holding_apply_def
      by (intro commit_preserves [where P = "\<lambda>t. \<not> remote_open k t"] n)
  next
    case (StartRemote now ks att)
    have "\<not> remote_open k t" if "each_tx (mark_remote_tx att now) ks s = Inr t" for t
      using each_open [OF ok that, of k] n mark_remote_row(1) mark_open(1) by blast
    then show ?thesis
      unfolding StartRemote case_step.simps mark_holding_remote_attempt_def
      by (intro commit_preserves [where P = "\<lambda>t. \<not> remote_open k t"] n) (auto simp: bind_result_Inr)
  next
    case (FinalizeCases now xs rs)
    have "\<not> remote_open k t" if "each_tx (finalize_case_tx rs now) xs s = Inr t" for t
      using each_open [OF ok that, of k] n finalize_case_row(1) finalize_open by blast
    then show ?thesis
      unfolding FinalizeCases case_step.simps finalize_holding_cases_def
      by (intro commit_preserves [where P = "\<lambda>t. \<not> remote_open k t"] n) (auto simp: bind_result_Inr)
  qed
  with o show False by blast
qed

lemma announces_once:
  assumes ok: "case_store_ok s" and a: "announces sha k x s"
  shows "remote_open k s \<and> \<not> remote_open k (case_step sha x s)"
proof -
  from a obtain now ks att where x: "x = StartRemote now ks att" "k \<in> set ks"
      "fst (mark_holding_remote_attempt now ks att s) = Inr ()"
    by (cases x) (auto simp: announces_def)
  then obtain t where m: "mark_holding_remote_attempt now ks att s = (Inr (), t)"
    by (metis prod.collapse)
  then have "each_tx (mark_remote_tx att now) ks s = Inr t"
    by (auto simp: mark_holding_remote_attempt_def commit_Inr bind_result_Inr)
  from marks_once [OF ok this x(2)] m x(1) show ?thesis by simp
qed

lemma announcements_bound:
  assumes "case_store_ok s" and "\<And>x. x \<in> set xs \<Longrightarrow> \<not> prepares k x"
  shows "announcements sha k xs s \<le> 1 \<and> (\<not> remote_open k s \<longrightarrow> announcements sha k xs s = 0)"
  using assms
proof (induction xs arbitrary: s)
  case (Cons x xs)
  have IH: "announcements sha k xs (case_step sha x s) \<le> 1 \<and>
      (\<not> remote_open k (case_step sha x s) \<longrightarrow> announcements sha k xs (case_step sha x s) = 0)"
    using Cons.prems cases_step_ok [OF case_step_cases] by (intro Cons.IH) auto
  have np: "\<not> prepares k x" using Cons.prems(2) by simp
  show ?case
  proof (cases "announces sha k x s")
    case True
    with announces_once [OF Cons.prems(1) True] IH show ?thesis by simp
  next
    case False
    with IH case_step_open [OF Cons.prems(1) np] show ?thesis by auto
  qed
qed simp

section \<open>Automatic writes in flight and live cases\<close>

lemma automatic_kept: "automatic_in_flight r \<Longrightarrow> write_kept r r' \<Longrightarrow> automatic_in_flight r'"
  by (simp add: automatic_in_flight_def write_kept_def operator_method_def resolution_dict_def)

lemma materialize_case_automatic:
  assumes ok: "case_store_ok s" and m: "materialize_case_tx sha rs tr now en c s = Inr (d, s')"
    and r: "case_at k s = Some r" "automatic_in_flight r"
  shows "\<exists>r'. case_at k s' = Some r' \<and> same_case r r' \<and> write_kept r r'"
  using ok m refl
proof (cases rule: materialize_case_rows)
  case skip
  with r show ?thesis by (auto simp: write_kept_def)
next
  case (went s1)
  from went(3) [OF r(1)] obtain r1 where
    r1: "case_at k s1 = Some r1" "superseded_from (hc_case_key ` set (rivals_of c s)) r r1" by blast
  have "hc_case_key r \<notin> hc_case_key ` set (rivals_of c s)"
  proof
    assume "hc_case_key r \<in> hc_case_key ` set (rivals_of c s)"
    then obtain q where q: "q \<in> set (rivals_of c s)" "hc_case_key q = hc_case_key r" by force
    then have "q \<in> set (holding_cases s)" by (auto simp: rivals_of_def rival_rows_def)
    with q(2) r(1) case_store_okD(1) [OF ok] have "q = r" by (auto dest: row_of_Some unique_keys_eq)
    with q(1) r(2) went(1) show False by (auto simp: list_ex_iff)
  qed
  with r1(2) have "r1 = r" by (auto simp: superseded_from_def)
  with r1(1) have at: "case_at k s1 = Some r" by simp
  have st: "hc_state r = Applying \<or> hc_state r = ApplyOutcomeUnknown"
    using r(2) by (simp add: automatic_in_flight_def)
  from went(6) at st show ?thesis
    by (cases "k = py_strip (ci_case_key c)") (auto simp: only_row_def observed_from_def write_kept_def)
qed

lemma write_kept_trans: "write_kept r r' \<Longrightarrow> write_kept r' r'' \<Longrightarrow> write_kept r r''"
  by (simp add: write_kept_def)

lemma materialize_cases_automatic:
  assumes "case_store_ok s" and "materialize_cases_tx sha rs tr now en cs s = Inr (d, s')"
    and "case_at k s = Some r" and "automatic_in_flight r"
  shows "\<exists>r'. case_at k s' = Some r' \<and> same_case r r' \<and> write_kept r r'"
  using assms
proof (induction cs arbitrary: s d r)
  case Nil
  then show ?case by (auto simp: write_kept_def)
next
  case (Cons c cs)
  then obtain d1 s1 e where c: "materialize_case_tx sha rs tr now en c s = Inr (d1, s1)"
    "materialize_cases_tx sha rs tr now en cs s1 = Inr (e, s')"
    by (auto simp: bind_result_Inr)
  from materialize_case_automatic [OF Cons.prems(1) c(1) Cons.prems(3,4)] obtain r1 where
    r1: "case_at k s1 = Some r1" "same_case r r1" "write_kept r r1" by blast
  from Cons.IH [OF cases_step_ok [OF materialize_case_step [OF Cons.prems(1) c(1)]] c(2) r1(1)
      automatic_kept [OF Cons.prems(4) r1(3)]] r1(2,3)
  show ?case using same_case_trans write_kept_trans by blast
qed

definition live_unique :: "op_store \<Rightarrow> bool" where
  "live_unique s \<longleftrightarrow> (\<forall>k r k' r'. case_at k s = Some r \<longrightarrow> case_at k' s = Some r' \<longrightarrow>
     hc_state r \<in> set supersedeable_states \<longrightarrow> hc_state r' \<in> set supersedeable_states \<longrightarrow>
     hc_record_id r = hc_record_id r' \<longrightarrow> hc_field r = hc_field r' \<longrightarrow> k = k')"

lemma live_uniqueD:
  assumes "live_unique s" and "case_at k s = Some r" and "case_at k' s = Some r'"
    and "hc_state r \<in> set supersedeable_states" and "hc_state r' \<in> set supersedeable_states"
    and "hc_record_id r = hc_record_id r'" and "hc_field r = hc_field r'"
  shows "k = k'"
  using assms unfolding live_unique_def by blast

lemma materialize_case_live:
  assumes ok: "case_store_ok s" and m: "materialize_case_tx sha rs tr now en c s = Inr (d, s')"
    and live: "live_unique s"
  shows "live_unique s'"
  using ok m refl
proof (cases rule: materialize_case_rows)
  case skip
  with live show ?thesis by simp
next
  case (went s1)
  define key where "key = py_strip (ci_case_key c)"
  have old: "case_at k s = Some r1 \<and> (hc_record_id r1 = py_strip (ci_record_id c) \<longrightarrow>
      hc_field r1 = py_strip (ci_field c) \<longrightarrow> k = key)"
    if r1: "case_at k s1 = Some r1" "hc_state r1 \<in> set supersedeable_states" for k r1
  proof -
    from r1(1) went(4) obtain r where r: "case_at k s = Some r" by (cases "case_at k s") auto
    with went(3) [OF r] r1(1) have sf: "superseded_from (hc_case_key ` set (rivals_of c s)) r r1" by simp
    have live_not: "Superseded \<notin> set supersedeable_states"
      by (simp add: supersedeable_states_def open_case_states_def)
    with sf r1(2) have "r1 = r" by (auto simp: superseded_from_def split: if_splits)
    moreover have "hc_case_key r \<notin> hc_case_key ` set (rivals_of c s)"
      using sf r1(2) live_not \<open>r1 = r\<close> by (auto simp: superseded_from_def split: if_splits)
    then have "r \<notin> set (rivals_of c s)" by blast
    ultimately show ?thesis
      using r r1(2) by (auto simp: rivals_of_def rival_rows_def key_def dest: row_of_Some)
  qed
  have live1: "k = k'" if "case_at k s1 = Some r" "case_at k' s1 = Some r'"
      "hc_state r \<in> set supersedeable_states" "hc_state r' \<in> set supersedeable_states"
      "hc_record_id r = hc_record_id r'" "hc_field r = hc_field r'" for k k' r r'
    using old [OF that(1,3)] old [OF that(2,4)] live_uniqueD [OF live _ _ that(3-6)] by blast
  have other: "k = key" if "case_at k s' = Some r'" "hc_state r' \<in> set supersedeable_states"
      "hc_record_id r' = py_strip (ci_record_id c)" "hc_field r' = py_strip (ci_field c)"
      "k \<noteq> key \<longrightarrow> case_at k s1 = case_at k s'" for k r'
    using old [of k r'] that by auto
  obtain q where q: "case_at key s' = Some q" "hc_record_id q = py_strip (ci_record_id c)"
      "hc_field q = py_strip (ci_field c)" and rest: "\<And>k. k \<noteq> key \<Longrightarrow> case_at k s' = case_at k s1"
    using went(6) by (auto simp: only_row_def observed_from_def same_case_def new_case_row_def key_def)
  show ?thesis
    unfolding live_unique_def
  proof (intro allI impI)
    fix k r k' r'
    assume a: "case_at k s' = Some r" "case_at k' s' = Some r'"
      "hc_state r \<in> set supersedeable_states" "hc_state r' \<in> set supersedeable_states"
      "hc_record_id r = hc_record_id r'" "hc_field r = hc_field r'"
    show "k = k'"
    proof (cases "k = key \<or> k' = key")
      case True
      then have "hc_record_id r = py_strip (ci_record_id c)" "hc_field r = py_strip (ci_field c)"
        using a q by auto
      with other [OF a(1,3)] other [OF a(2,4)] rest a(5,6) show ?thesis by metis
    next
      case False
      with live1 [OF _ _ a(3-6)] rest a(1,2) show ?thesis by metis
    qed
  qed
qed

lemma materialize_cases_live:
  assumes "case_store_ok s" and "materialize_cases_tx sha rs tr now en cs s = Inr (d, s')" and "live_unique s"
  shows "live_unique s'"
  using assms
proof (induction cs arbitrary: s d)
  case (Cons c cs)
  then obtain d1 s1 e where c: "materialize_case_tx sha rs tr now en c s = Inr (d1, s1)"
    "materialize_cases_tx sha rs tr now en cs s1 = Inr (e, s')"
    by (auto simp: bind_result_Inr)
  show ?case
    by (rule Cons.IH [OF cases_step_ok [OF materialize_case_step [OF Cons.prems(1) c(1)]] c(2)
        materialize_case_live [OF Cons.prems(1) c(1) Cons.prems(3)]])
qed simp

section \<open>Preparing is all or nothing\<close>

definition apply_guard :: "apply_input \<Rightarrow> op_store \<Rightarrow> bool" where
  "apply_guard a s \<longleftrightarrow> (\<exists>r. case_at (ai_case_key a) s = Some r \<and>
     case_state_text (hc_state r) \<in> set (ai_allowed_states a) \<and> hc_precondition_digest r = ai_precondition a)"

lemma prepare_guard: "(\<exists>t. prepare_case_tx att oc now a s = Inr t) \<longleftrightarrow> apply_guard a s"
  by (auto simp: prepare_case_tx_def apply_guard_def Let_def split: option.splits)

lemma prepare_frame:
  assumes "case_store_ok s" and "prepare_case_tx att oc now a s = Inr t" and "k \<noteq> ai_case_key a"
  shows "case_at k t = case_at k s"
  using prepare_case_row(2) [OF assms(1,2)] assms(3) by (auto simp: only_row_def)

lemma prepare_each_iff:
  assumes "case_store_ok s" and "distinct (map ai_case_key as)"
  shows "(\<exists>t. each_tx (prepare_case_tx att oc now) as s = Inr t) \<longleftrightarrow> (\<forall>a \<in> set as. apply_guard a s)"
  using assms
proof (induction as arbitrary: s)
  case (Cons a as)
  show ?case
  proof (cases "prepare_case_tx att oc now a s")
    case (Inl e)
    with prepare_guard [of att oc now a s] show ?thesis by auto
  next
    case (Inr s1)
    have "ai_case_key b \<noteq> ai_case_key a" if "b \<in> set as" for b :: apply_input
      using Cons.prems(2) that by (metis distinct.simps(2) image_eqI list.simps(9) set_map)
    with prepare_frame [OF Cons.prems(1) Inr] have "\<forall>b \<in> set as. apply_guard b s1 = apply_guard b s"
      by (simp add: apply_guard_def)
    with Cons.IH [OF cases_step_ok [OF prepare_case_row(1) [OF Cons.prems(1) Inr]]] Cons.prems(2)
      prepare_guard [of att oc now a s] Inr
    show ?thesis by auto
  qed
qed simp

lemma prepare_each_rows:
  assumes "case_store_ok s" and "distinct (map ai_case_key as)"
    and "each_tx (prepare_case_tx att oc now) as s = Inr t"
  shows "(\<forall>a \<in> set as. \<exists>r. case_at (ai_case_key a) s = Some r \<and>
      case_at (ai_case_key a) t = Some (applying_row a att oc now r)) \<and>
    (\<forall>k. k \<notin> ai_case_key ` set as \<longrightarrow> case_at k t = case_at k s)"
  using assms
proof (induction as arbitrary: s)
  case (Cons a as)
  then obtain s1 where s1: "prepare_case_tx att oc now a s = Inr s1" "each_tx (prepare_case_tx att oc now) as s1 = Inr t"
    by (auto simp: bind_result_Inr)
  from prepare_case_row(2) [OF Cons.prems(1) s1(1)] obtain r where
    r: "only_row (ai_case_key a) r (applying_row a att oc now r) s s1" by blast
  have "distinct (map ai_case_key as)" using Cons.prems(2) by simp
  note IH = Cons.IH [OF cases_step_ok [OF prepare_case_row(1) [OF Cons.prems(1) s1(1)]] this s1(2)]
  have ne: "ai_case_key b \<noteq> ai_case_key a" if "b \<in> set as" for b :: apply_input
      using Cons.prems(2) that by (metis distinct.simps(2) image_eqI list.simps(9) set_map)
  note fr = prepare_frame [OF Cons.prems(1) s1(1)]
  have "case_at (ai_case_key a) t = case_at (ai_case_key a) s1" using IH Cons.prems(2) by simp
  with IH r ne fr show ?case by (auto simp: only_row_def)
qed simp

section \<open>A migrated precondition\<close>

lemma dict_get_canonical:
  assumes "distinct (map fst d)"
  shows "dict_get k (as_dict (canonical_json (JObj d))) = map_option canonical_json (dict_get k d)"
proof -
  define f where "f = (\<lambda>kv :: string \<times> json. (fst kv, canonical_json (snd kv)))"
  have eq: "map fst (map f d) = map fst d" by (simp add: f_def comp_def)
  have "map_of (sort_key fst (map f d)) = map_of (map f d)"
    by (rule map_of_sort_key) (simp only: eq assms)
  moreover have "map_of (map f d) k = map_option canonical_json (map_of d k)"
    by (induction d) (auto simp: f_def)
  ultimately show ?thesis by (simp add: dict_get_def as_dict_def f_def)
qed

lemma migrate_done:
  assumes ok: "case_store_ok s" and at: "case_at key s = Some r"
    and m: "migrate_case_precondition_tx sha r c tr now s = Inr (True, s')"
    and d: "distinct (map fst (resolution_dict r))"
  shows "\<exists>r'. case_at key s' = Some r' \<and> hc_state r' = hc_state r \<and>
    classify_precondition_transition sha r' c = TransitionExact \<and>
    (hc_state r = ResolvedKeep \<longrightarrow>
       dict_get ''confirmation_scope'' (resolution_dict r) = Some (JStr (stored_scope sha r)) \<and>
       dict_get ''confirmation_scope'' (resolution_dict r') = Some (JStr (stored_scope sha r')))"
proof -
  let ?r' = "migrated_row sha c now r r"
  from migrate_row(2) [OF ok at m] have at': "case_at key s' = Some ?r'" by (simp add: only_row_def)
  from m have cl: "classify_precondition_transition sha r c = LegacyMigratable"
    by (auto simp: migrate_case_precondition_tx_def split: transition.splits)
  then have sem: "same_semantics r c" and keep: "hc_state r = ResolvedKeep \<longrightarrow>
      dict_get ''confirmation_scope'' (resolution_dict r) = Some (JStr (stored_scope sha r))"
    by (simp_all add: classify_LegacyMigratable)
  have scope: "stored_scope sha ?r' = candidate_scope sha c"
    using sem by (simp add: stored_scope_def candidate_scope_def migrated_row_def same_semantics_def)
  have "dict_get ''confirmation_scope'' (resolution_dict ?r') = Some (JStr (candidate_scope sha c))"
    if "hc_state r = ResolvedKeep"
  proof -
    have "distinct (map fst (dict_set ''confirmation_scope'' (JStr (candidate_scope sha c)) (resolution_dict r)))"
      using d by (simp add: dict_set_def distinct_update)
    note get = dict_get_canonical [OF this]
    have "resolution_dict ?r' = as_dict (canonical_json (JObj
        (dict_set ''confirmation_scope'' (JStr (candidate_scope sha c)) (resolution_dict r))))"
      using that by (simp add: resolution_dict_def migrated_row_def migrated_resolution_def)
    then show ?thesis by (simp only: get dict_get_set) simp
  qed
  with at' keep scope show ?thesis by (auto simp: classify_Exact migrated_row_def)
qed

section \<open>Properties\<close>

text \<open>
  C5. The audit trail of the reconciliation cases. Every one of the seven operations, whether it
  succeeds or raises, keeps case keys and receipt keys unique and the history numbered without
  gaps over existing cases; it only appends to the history, never rewrites a receipt that is
  already queued and touches no other table; every case survives with its identifying columns,
  and a case that is created or changes its state has an entry among those appended.
\<close>
theorem case_audit_trail:
  assumes "case_store_ok s"
  shows "case_store_ok (case_step sha x s) \<and> same_elsewhere s (case_step sha x s) \<and>
    (\<forall>k r. row_of rc_receipt_key k (operation_receipt_outbox s) = Some r \<longrightarrow>
      row_of rc_receipt_key k (operation_receipt_outbox (case_step sha x s)) = Some r) \<and>
    (\<exists>ev. holding_case_events (case_step sha x s) = holding_case_events s @ ev \<and>
      (\<forall>k r. get_holding_case k s = Some r \<longrightarrow>
        (\<exists>r'. get_holding_case k (case_step sha x s) = Some r' \<and> same_case r r' \<and>
          (hc_state r' \<noteq> hc_state r \<longrightarrow> (\<exists>e \<in> set ev. ce_case_key e = k)))) \<and>
      (\<forall>k. get_holding_case k s = None \<longrightarrow> get_holding_case k (case_step sha x s) \<noteq> None \<longrightarrow>
        (\<exists>e \<in> set ev. ce_case_key e = k)))"
proof -
  have l: "logged ev k \<longleftrightarrow> (\<exists>e \<in> set ev. ce_case_key e = k)" for ev k by (auto simp: logged_def)
  show ?thesis
    using case_step_cases [OF assms, of sha x]
    unfolding cases_step_def outbox_grows_def rows_logged_def get_holding_case_def l by blast
qed

definition demo_sha :: "string \<Rightarrow> string" where
  "demo_sha t = replicate 64 (CHR ''0'')"

definition demo_candidate :: "string \<Rightarrow> string \<Rightarrow> json \<Rightarrow> case_input" where
  "demo_candidate key state current = \<lparr>ci_case_key = key, ci_record_id = ''rec1'', ci_field = ''currency'',
     ci_kind = ''field'', ci_state = state, ci_policy_version = ''p1'',
     ci_precondition = v2_prefix @ replicate 64 (CHR ''1''), ci_legacy_precondition = replicate 64 (CHR ''2''),
     ci_record_digest = ''d1'', ci_account = Some ''acc'', ci_identity = JObj [(''asset_id'', JStr ''X'')],
     ci_current = current, ci_proposed = JStr ''USD'', ci_authority_id = None, ci_blocks = True,
     ci_evidence_instance_id = None, ci_evidence = JNull\<rparr>"

definition demo_discovery :: "string \<Rightarrow> receipt_spec" where
  "demo_discovery key = \<lparr>rs_case_key = key, rs_receipt_key = ''discovered:'' @ key,
     rs_receipt_type = ''holding_case_discovered'', rs_payload = JStr key\<rparr>"

definition demo_observed :: op_store where
  "demo_observed = case_step demo_sha (ObserveCases 5 [demo_candidate ''c1'' ''pending_apply'' JNull]
     [demo_discovery ''c1''] [] True) empty_store"

definition demo_apply :: apply_input where
  "demo_apply = \<lparr>ai_case_key = ''c1'', ai_allowed_states = [''pending_apply''],
     ai_precondition = v2_prefix @ replicate 64 (CHR ''1''), ai_decision = JStr ''accept-proposed'',
     ai_reason = JNull, ai_confirmation_scope = JNull, ai_target = JStr ''USD'', ai_before = JNull\<rparr>"

definition demo_applying :: op_store where
  "demo_applying = case_step demo_sha (PrepareApply 6 [demo_apply] ''att1''
     [(''method'', JStr ''automatic_policy'')]) demo_observed"

lemma demo_case_ok: "case_store_ok demo_observed" "case_store_ok demo_applying"
  by code_simp+

lemma case_audit_trail_witness:
  "case_store_ok (case_step demo_sha (ObserveCases 7 [demo_candidate ''c2'' ''pending_apply'' (JStr ''EUR'')]
     [demo_discovery ''c2''] [] True) demo_observed)"
  using case_audit_trail [OF demo_case_ok(1)] by blast

text \<open>
  C2. An observation cannot release an automatic write whose result is not known: while a case is
  applying, or its outcome is unknown, under the automatic policy, no set of observed candidates
  and no closing of absent cases changes its state, resolution, target, before image, attempt,
  announcement or error.
\<close>
theorem automatic_write_protected:
  assumes "case_store_ok s" and "get_holding_case k s = Some r" and "automatic_in_flight r"
    and "s' \<in> {snd (materialize_holding_cases sha now cs rs tr en s),
      snd (resolve_holding_cases_external now rid act dg ident tr en s)}"
  shows "\<exists>r'. get_holding_case k s' = Some r' \<and> same_case r r' \<and> write_kept r r'"
proof -
  have at: "case_at k s = Some r" using assms(2) by (simp add: get_holding_case_def)
  have keep: "\<exists>r'. case_at k s = Some r' \<and> same_case r r' \<and> write_kept r r'"
    using at by (simp add: write_kept_def)
  have st: "hc_state r \<notin> set absent_eligible_states"
    using assms(3) by (auto simp: automatic_in_flight_def absent_eligible_states_def)
  have absent: "\<exists>r'. case_at k t = Some r' \<and> same_case r r' \<and> write_kept r r'"
    if "resolve_absent_tx rid act dg ident tr now en s = Inr (d, t)" for d t
    using resolve_absent_rows(2) [OF assms(1) that at] st by (auto simp: write_kept_def)
  from assms(4) have "\<exists>r'. case_at k s' = Some r' \<and> same_case r r' \<and> write_kept r r'"
    unfolding materialize_holding_cases_def resolve_holding_cases_external_def
    using keep materialize_cases_automatic [OF assms(1) _ at assms(3)] absent
    by (auto simp: commit_def split: sum.splits prod.splits)
  then show ?thesis by (simp add: get_holding_case_def)
qed

lemma demo_automatic: "\<exists>r. get_holding_case ''c1'' demo_applying = Some r \<and> automatic_in_flight r"
proof -
  have "(case get_holding_case ''c1'' demo_applying of Some r \<Rightarrow> automatic_in_flight r | None \<Rightarrow> False)"
    by code_simp
  then show ?thesis by (simp split: option.splits)
qed

lemma automatic_write_protected_witness:
  "\<exists>r r'. get_holding_case ''c1'' demo_applying = Some r \<and> get_holding_case ''c1''
     (snd (materialize_holding_cases demo_sha 7 [demo_candidate ''c2'' ''pending_apply'' (JStr ''EUR'')]
        [demo_discovery ''c2''] [] True demo_applying)) = Some r' \<and> write_kept r r'"
  using demo_automatic automatic_write_protected [OF demo_case_ok(2), of "''c1''" _
      "snd (materialize_holding_cases demo_sha 7 [demo_candidate ''c2'' ''pending_apply'' (JStr ''EUR'')]
        [demo_discovery ''c2''] [] True demo_applying)" demo_sha 7
        "[demo_candidate ''c2'' ''pending_apply'' (JStr ''EUR'')]" "[demo_discovery ''c2'']" "[]" True]
  by blast

text \<open>
  C6. At most one case is live per field of a record: if no two live cases (open, or resolved by a
  decision to keep) share their record and field, then none do after observing any candidates, be
  it that new semantics supersede the old case, reopen a closed one or are held back.
\<close>
theorem one_live_case_per_field:
  assumes "case_store_ok s" and "live_unique s"
  shows "live_unique (snd (materialize_holding_cases sha now cs rs tr en s))"
  unfolding materialize_holding_cases_def
  by (intro commit_preserves [where P = live_unique] assms(2) materialize_cases_live [OF assms(1) _ assms(2)])

lemma one_live_case_per_field_witness:
  "live_unique (snd (materialize_holding_cases demo_sha 7
     [demo_candidate ''c2'' ''pending_apply'' (JStr ''EUR'')] [demo_discovery ''c2''] [] True empty_store))"
proof (rule one_live_case_per_field)
  show "case_store_ok empty_store" by code_simp
  show "live_unique empty_store" by (simp add: live_unique_def empty_store_def)
qed

text \<open>
  Closing absent cases is exact: when it succeeds, precisely the cases of the record that still
  wait for a decision or a retry, were not reported by the fresh scan and are no duplicate-identity
  cases are closed (as repaired when the stored identity is the observed one, as superseded
  otherwise), and every other case is left as it is; when it raises nothing changes.
\<close>
theorem absent_cases_closed_exactly:
  assumes "case_store_ok s"
    and "resolve_holding_cases_external now rid active digest identity tr en s = (res, s')"
    and "get_holding_case k s = Some r"
  shows "case res of
      Inl e \<Rightarrow> s' = s
    | Inr d \<Rightarrow> \<exists>r'. get_holding_case k s' = Some r' \<and>
        (if hc_record_id r = rid \<and> hc_state r \<in> set absent_eligible_states \<and> k \<notin> set active \<and>
            hc_kind r \<noteq> ''duplicate_identity''
         then same_case r r' \<and> hc_state r' =
           (if hc_identity_json r = canonical_json (JObj identity) then ResolvedExternal else Superseded)
         else r' = r)"
proof (cases res)
  case (Inl e)
  with assms(2) show ?thesis by (simp add: resolve_holding_cases_external_def commit_Inl)
next
  case (Inr d)
  with assms(2) have "resolve_absent_tx rid active digest identity tr now en s = Inr (d, s')"
    by (simp add: resolve_holding_cases_external_def commit_Inr)
  from resolve_absent_rows(2) [OF assms(1) this] assms(3) Inr show ?thesis
    by (fastforce simp: get_holding_case_def)
qed

lemma absent_cases_closed_exactly_witness:
  "\<exists>r d s'. resolve_holding_cases_external 9 ''rec1'' [] ''d2'' [(''asset_id'', JStr ''X'')] [] True demo_observed = (Inr d, s')
     \<and> get_holding_case ''c1'' s' = Some r \<and> hc_state r = ResolvedExternal"
proof -
  define out where "out = resolve_holding_cases_external 9 ''rec1'' [] ''d2'' [(''asset_id'', JStr ''X'')] [] True demo_observed"
  have ok: "(case fst out of Inr d \<Rightarrow> True | Inl e \<Rightarrow> False)" unfolding out_def by code_simp
  have "(case get_holding_case ''c1'' demo_observed of Some r \<Rightarrow> hc_record_id r = ''rec1'' \<and>
      hc_state r = PendingApply \<and> hc_kind r = ''field'' \<and>
      hc_identity_json r = canonical_json (JObj [(''asset_id'', JStr ''X'')]) | None \<Rightarrow> False)"
    by code_simp
  then obtain r where r: "get_holding_case ''c1'' demo_observed = Some r" "hc_record_id r = ''rec1''"
      "hc_state r = PendingApply" "hc_kind r = ''field''"
      "hc_identity_json r = canonical_json (JObj [(''asset_id'', JStr ''X'')])"
    by (auto split: option.splits)
  from ok obtain d s' where d: "out = (Inr d, s')" by (cases out) (auto split: sum.splits)
  from absent_cases_closed_exactly [OF demo_case_ok(1) d [unfolded out_def] r(1)] r d show ?thesis
    by (auto simp: out_def absent_eligible_states_def)
qed

text \<open>
  C24. Preparing a remote write is all or nothing and exactly guarded: it succeeds if and only if at
  least one case is selected and every selected case exists, is in one of its allowed states and
  still has the precondition digest the caller saw; then every selected case is applying under this
  attempt with its announcement cleared and no other case changes, and otherwise nothing changes.
\<close>
theorem prepare_apply_exact:
  assumes "case_store_ok s" and "distinct (map ai_case_key as)"
    and "prepare_holding_apply now as attempt oc s = (res, s')"
  shows "(res = Inr () \<longleftrightarrow> as \<noteq> [] \<and> (\<forall>a \<in> set as. \<exists>r. get_holding_case (ai_case_key a) s = Some r \<and>
      case_state_text (hc_state r) \<in> set (ai_allowed_states a) \<and> hc_precondition_digest r = ai_precondition a)) \<and>
    (if res = Inr () then
       (\<forall>a \<in> set as. \<exists>r. get_holding_case (ai_case_key a) s = Some r \<and>
          get_holding_case (ai_case_key a) s' = Some (applying_row a attempt oc now r)) \<and>
       (\<forall>k. k \<notin> ai_case_key ` set as \<longrightarrow> get_holding_case k s' = get_holding_case k s)
     else s' = s)"
proof -
  have iff: "res = Inr () \<longleftrightarrow> as \<noteq> [] \<and> (\<exists>t. each_tx (prepare_case_tx attempt oc now) as s = Inr t)"
    using assms(3)
    by (auto simp: prepare_holding_apply_def commit_def split: sum.splits prod.splits if_splits)
      (auto simp: bind_result_Inr bind_result_def split: sum.splits)
  have ran: "each_tx (prepare_case_tx attempt oc now) as s = Inr s'" if "res = Inr ()"
    using assms(3) that by (auto simp: prepare_holding_apply_def commit_Inr bind_result_Inr split: if_splits)
  have "s' = s" if "res \<noteq> Inr ()"
    using assms(3) that by (cases res) (auto simp: prepare_holding_apply_def commit_Inl)
  with iff ran prepare_each_iff [OF assms(1,2)] prepare_each_rows [OF assms(1,2)]
  show ?thesis by (auto simp: apply_guard_def get_holding_case_def)
qed

lemma prepare_apply_exact_witness:
  "prepare_holding_apply 6 [demo_apply, demo_apply\<lparr>ai_case_key := ''c9''\<rparr>] ''att1'' [] demo_observed =
     (Inl (ValueError ''holding case is not applicable: c9: missing''), demo_observed)"
proof -
  have "fst (prepare_holding_apply 6 [demo_apply, demo_apply\<lparr>ai_case_key := ''c9''\<rparr>] ''att1'' [] demo_observed) =
      Inl (ValueError ''holding case is not applicable: c9: missing'')" by code_simp
  moreover have "distinct (map ai_case_key [demo_apply, demo_apply\<lparr>ai_case_key := ''c9''\<rparr>])" by code_simp
  ultimately show ?thesis
    using prepare_apply_exact [OF demo_case_ok(1), of "[demo_apply, demo_apply\<lparr>ai_case_key := ''c9''\<rparr>]" 6 "''att1''" "[]"
        "fst (prepare_holding_apply 6 [demo_apply, demo_apply\<lparr>ai_case_key := ''c9''\<rparr>] ''att1'' [] demo_observed)"
        "snd (prepare_holding_apply 6 [demo_apply, demo_apply\<lparr>ai_case_key := ''c9''\<rparr>] ''att1'' [] demo_observed)"]
    by (metis Inl_Inr_False prod.collapse)
qed

text \<open>
  C3. A remote write is announced at most once per preparation: in any run of operations that does
  not prepare the case again, whatever is observed, closed, announced or finalized in between, at
  most one announcement naming the case succeeds, and none does unless the case is applying under
  some attempt and not yet announced.
\<close>
theorem remote_write_announced_once:
  assumes "case_store_ok s" and "\<forall>x \<in> set xs. \<not> prepares k x"
  shows "announcements sha k xs s \<le> 1 \<and>
    (\<not> (\<exists>r. get_holding_case k s = Some r \<and> hc_state r = Applying \<and>
        hc_apply_attempt_id r \<noteq> None \<and> hc_remote_attempt_started_at r = None) \<longrightarrow>
     announcements sha k xs s = 0)"
  using announcements_bound [OF assms(1)] assms(2) by (simp add: remote_open_def get_holding_case_def)

lemma remote_write_announced_once_witness:
  "announcements demo_sha ''c1'' [StartRemote 7 [''c1''] ''att1'', StartRemote 8 [''c1''] ''att1''] demo_applying = 1"
proof -
  have "announcements demo_sha ''c1'' [StartRemote 7 [''c1''] ''att1'', StartRemote 8 [''c1''] ''att1''] demo_applying \<ge> 1"
    by code_simp
  with remote_write_announced_once [OF demo_case_ok(2),
      of "[StartRemote 7 [''c1''] ''att1'', StartRemote 8 [''c1''] ''att1'']" "''c1''" demo_sha]
  show ?thesis by auto
qed

text \<open>
  Migrating a legacy precondition settles it: after a migration the same candidate is classified
  as an exact match, so it is never migrated twice; the state of the case is kept, and a decision to
  keep that was confirmed for the old precondition is confirmed for the new one.
\<close>
theorem migration_settles:
  assumes "case_store_ok s" and "get_holding_case key s = Some r"
    and "distinct (map fst (resolution_dict r))"
    and "migrate_case_precondition_tx sha r c tr now s = Inr (True, s')"
  shows "\<exists>r'. get_holding_case key s' = Some r' \<and> hc_state r' = hc_state r \<and>
    classify_precondition_transition sha r' c = TransitionExact \<and>
    migrate_case_precondition_tx sha r' c tr' now' s' = Inr (False, s') \<and>
    (hc_state r = ResolvedKeep \<longrightarrow>
       dict_get ''confirmation_scope'' (resolution_dict r') = Some (JStr (stored_scope sha r')))"
proof -
  have at: "case_at key s = Some r" using assms(2) by (simp add: get_holding_case_def)
  from migrate_done [OF assms(1) at assms(4,3)] obtain r' where
    "case_at key s' = Some r'" "hc_state r' = hc_state r"
    "classify_precondition_transition sha r' c = TransitionExact"
    "hc_state r = ResolvedKeep \<longrightarrow>
       dict_get ''confirmation_scope'' (resolution_dict r') = Some (JStr (stored_scope sha r'))" by blast
  then show ?thesis by (auto simp: get_holding_case_def migrate_case_precondition_tx_def)
qed

definition demo_legacy :: holding_case where
  "demo_legacy = (new_case_row (demo_candidate ''c1'' ''resolved_keep'' JNull) 1)\<lparr>
     hc_precondition_digest := replicate 64 (CHR ''2''),
     hc_resolution_json := Some (JObj [(''confirmation_scope'', JStr (demo_sha []))])\<rparr>"

definition demo_legacy_store :: op_store where
  "demo_legacy_store = empty_store\<lparr>holding_cases := [demo_legacy]\<rparr>"

lemma migration_settles_witness:
  "\<exists>r'. get_holding_case ''c1'' (snd (projr (migrate_case_precondition_tx demo_sha demo_legacy
      (demo_candidate ''c1'' ''resolved_keep'' JNull) [] 9 demo_legacy_store))) = Some r' \<and> hc_state r' = ResolvedKeep \<and>
    dict_get ''confirmation_scope'' (resolution_dict r') = Some (JStr (stored_scope demo_sha r'))"
proof -
  let ?m = "migrate_case_precondition_tx demo_sha demo_legacy (demo_candidate ''c1'' ''resolved_keep'' JNull) [] 9 demo_legacy_store"
  have ok: "case_store_ok demo_legacy_store" by code_simp
  have at: "get_holding_case ''c1'' demo_legacy_store = Some demo_legacy" by code_simp
  have d: "distinct (map fst (resolution_dict demo_legacy))" by code_simp
  have st: "hc_state demo_legacy = ResolvedKeep" by code_simp
  have "(case ?m of Inr (b, t) \<Rightarrow> b | Inl e \<Rightarrow> False)" by code_simp
  then have m: "?m = Inr (True, snd (projr ?m))" by (auto split: sum.splits prod.splits)
  from migration_settles [OF ok at d m] st show ?thesis by auto
qed

end
