(* ===== verification/Holding_Monitor.thy ===== *)
theory Holding_Monitor
  imports Case_Properties Event_Inbox
begin

text \<open>
  The change monitor of a holdings table (\<open>app/operation_state/_holding_monitor_mixin.py\<close>): its
  baseline, its scheduling counters, the audit of its observations and the settlement that
  commits an observation, the duplicate cases it proves and its receipts together; and the
  settlement of a claimed holding event (\<open>complete_holding_event\<close> of
  \<open>_holding_event_mixin.py\<close>), which commits its cases the same way.
\<close>

section \<open>Operations of the monitor\<close>

abbreviation monitor_at :: "string \<Rightarrow> op_store \<Rightarrow> holding_monitor option" where
  "monitor_at k s \<equiv> row_of hm_scope_key k (holding_change_monitor s)"

definition update_monitors ::
    "(holding_monitor \<Rightarrow> bool) \<Rightarrow> (holding_monitor \<Rightarrow> holding_monitor) \<Rightarrow> op_store \<Rightarrow> op_store" where
  "update_monitors p f s = s\<lparr>holding_change_monitor := sql_update p f (holding_change_monitor s)\<rparr>"

definition read_holding_monitor :: "string \<Rightarrow> op_store \<Rightarrow> holding_monitor option" where
  "read_holding_monitor k s = monitor_at k s"

definition prefix_of :: "string \<Rightarrow> string \<Rightarrow> bool" where
  "prefix_of p t \<longleftrightarrow> take (length p) t = p"

text \<open>The receipts of a scope, counted by status.\<close>

definition monitor_receipts :: "string \<Rightarrow> op_store \<Rightarrow> receipt_status \<Rightarrow> nat" where
  "monitor_receipts k s st = length (filter (\<lambda>r. rc_status r = st \<and>
     prefix_of (''holdings:changes:'' @ k @ '':'') (rc_receipt_key r)) (operation_receipt_outbox s))"

definition new_monitor :: "string \<Rightarrow> string \<Rightarrow> string \<Rightarrow> json \<Rightarrow> json \<Rightarrow> string \<Rightarrow> holding_monitor" where
  "new_monitor k file_token table_id settings rows epoch =
     \<lparr>hm_scope_key = k, hm_file_token = file_token, hm_table_id = table_id,
      hm_settings_json = canonical_json settings, hm_epoch = epoch, hm_enabled = False,
      hm_ready = True, hm_rows_json = canonical_json rows, hm_requested = 0, hm_completed = 0,
      hm_observation_seq = 0, hm_next_due = None, hm_failure_count = 0, hm_manual_attempt_at = None,
      hm_manual_success_at = None, hm_manual_error = None, hm_background_attempt_at = None,
      hm_background_success_at = None, hm_background_error = None\<rparr>"

text \<open>\<open>epoch\<close> is the fresh identifier the call draws.\<close>

definition initialize_holding_monitor ::
    "string \<Rightarrow> string \<Rightarrow> string \<Rightarrow> string \<Rightarrow> json \<Rightarrow> json \<Rightarrow> bool \<Rightarrow> op_store \<Rightarrow> (py_exn + unit) \<times> op_store" where
  "initialize_holding_monitor epoch k file_token table_id settings rows rebuild = commit (\<lambda>s.
     if monitor_at k s \<noteq> None \<and> \<not> rebuild
     then Inl (ValueError ''monitor baseline already exists; preview and explicitly --rebuild'')
     else Inr ((), s\<lparr>holding_change_monitor :=
         filter (\<lambda>m. hm_scope_key m \<noteq> k) (holding_change_monitor s) @
           [new_monitor k file_token table_id settings rows epoch]\<rparr>))"

definition configure_holding_monitor :: "string \<Rightarrow> json \<Rightarrow> bool \<Rightarrow> op_store \<Rightarrow> bool \<times> op_store" where
  "configure_holding_monitor k settings enabled s =
     (let valid = (case fetchone (\<lambda>m. hm_scope_key m = k \<and> hm_ready m) (holding_change_monitor s) of
            Some m \<Rightarrow> hm_settings_json m = canonical_json settings | None \<Rightarrow> False)
      in (valid, update_monitors (\<lambda>m. hm_scope_key m = k) (\<lambda>m. m\<lparr>hm_enabled := enabled \<and> valid\<rparr>) s))"

definition request_holding_monitor :: "instant \<Rightarrow> string \<Rightarrow> int \<Rightarrow> op_store \<Rightarrow> op_store" where
  "request_holding_monitor now k delay s =
     update_monitors (\<lambda>m. hm_scope_key m = k \<and> hm_ready m \<and> hm_enabled m)
       (monitor_request_row (now + delay)) s"

definition monitor_backoff :: "int list" where
  "monitor_backoff = [2, 5, 15, 30, 60]"

definition backoff_delay :: "nat \<Rightarrow> int" where
  "backoff_delay count = seconds (monitor_backoff ! min (count - 1) 4)"

definition background_failed_row :: "instant \<Rightarrow> nat \<Rightarrow> string \<Rightarrow> holding_monitor \<Rightarrow> holding_monitor" where
  "background_failed_row now count err m =
     m\<lparr>hm_failure_count := count, hm_next_due := Some (now + backoff_delay count),
       hm_background_attempt_at := Some now, hm_background_error := Some err\<rparr>"

definition manual_failed_row :: "instant \<Rightarrow> string \<Rightarrow> holding_monitor \<Rightarrow> holding_monitor" where
  "manual_failed_row now err m = m\<lparr>hm_manual_attempt_at := Some now, hm_manual_error := Some err\<rparr>"

definition fail_holding_monitor ::
    "instant \<Rightarrow> string \<Rightarrow> string \<Rightarrow> string \<Rightarrow> op_store \<Rightarrow> (py_exn + unit) \<times> op_store" where
  "fail_holding_monitor now k mode err s =
     (if mode \<notin> set [''manual'', ''background''] then (Inl (ValueError ''invalid monitor mode''), s)
      else case (mode = ''background'', monitor_at k s) of
          (True, Some m) \<Rightarrow> (Inr (), update_monitors (\<lambda>q. hm_scope_key q = k)
             (background_failed_row now (hm_failure_count m + 1) err) s)
        | _ \<Rightarrow> (Inr (), update_monitors (\<lambda>q. hm_scope_key q = k) (manual_failed_row now err) s))"

text \<open>The plan of an observation, as \<open>domain/holding_changes.py\<close> computes it.\<close>

record monitor_plan =
  mp_changes :: json
  mp_rows :: json
  mp_has_missing :: bool

definition observed_monitor_row ::
    "instant \<Rightarrow> string \<Rightarrow> nat \<Rightarrow> monitor_plan \<Rightarrow> holding_monitor \<Rightarrow> holding_monitor" where
  "observed_monitor_row now mode seq plan m =
     (let m1 = m\<lparr>hm_rows_json := canonical_json (mp_rows plan), hm_observation_seq := seq\<rparr>
      in if mode = ''background''
         then m1\<lparr>hm_background_attempt_at := Some now, hm_background_success_at := Some now,
                 hm_background_error := None\<rparr>
         else m1\<lparr>hm_manual_attempt_at := Some now, hm_manual_success_at := Some now,
                 hm_manual_error := None\<rparr>)"

definition next_observation_due :: "instant \<Rightarrow> bool \<Rightarrow> int \<Rightarrow> nat \<Rightarrow> nat \<Rightarrow> instant" where
  "next_observation_due now has_missing interval requested generation =
     (let due = now + (if has_missing then seconds 2 else interval)
      in if requested > generation then min due (now + seconds 2) else due)"

definition scheduled_row :: "nat \<Rightarrow> instant \<Rightarrow> holding_monitor \<Rightarrow> holding_monitor" where
  "scheduled_row generation due m =
     m\<lparr>hm_completed := generation, hm_next_due := Some due, hm_failure_count := 0\<rparr>"

definition insert_observation_tx ::
    "string \<Rightarrow> string \<Rightarrow> nat \<Rightarrow> string \<Rightarrow> instant \<Rightarrow> json \<Rightarrow> op_store \<Rightarrow> py_exn + op_store" where
  "insert_observation_tx k epoch seq mode now changes s =
     (if list_ex (\<lambda>v. hv_scope_key v = k \<and> hv_epoch v = epoch \<and> hv_observation_seq v = seq)
           (holding_change_observations s)
      then Inl (IntegrityError ''UNIQUE constraint failed: holding_change_observations'')
      else Inr (s\<lparr>holding_change_observations := holding_change_observations s @
         [\<lparr>hv_scope_key = k, hv_epoch = epoch, hv_observation_seq = seq, hv_mode = mode,
           hv_observed_at = now, hv_changes_json = canonical_json changes\<rparr>]\<rparr>))"

record monitor_settled =
  ms_observation_seq :: nat
  ms_receipt_keys :: "string list"
  ms_case_result :: case_changes

text \<open>
  The scope check compares the parsed settings with those of the caller. Both are the dictionary of
  \<open>MonitorSettings.scope_settings\<close>, a list of account names and the text of the policy version: for
  texts and lists of texts Python's equality is equality of the canonical values. (Python would also
  take the numbers 1 and 1.0 for equal, which no settings of the program contain.)
\<close>

definition settle_monitor_tx ::
    "(string \<Rightarrow> string) \<Rightarrow> instant \<Rightarrow> string \<Rightarrow> json \<Rightarrow> string \<Rightarrow> string \<Rightarrow> nat \<Rightarrow> monitor_plan \<Rightarrow>
     duplicate_plan \<Rightarrow> (string \<Rightarrow> nat \<Rightarrow> json \<Rightarrow> receipt_spec list) \<Rightarrow> int \<Rightarrow> op_store \<Rightarrow>
     py_exn + monitor_settled \<times> op_store" where
  "settle_monitor_tx sha now k settings epoch mode generation plan duplicates builder interval s =
     (case monitor_at k s of
        None \<Rightarrow> Inl (ValueError ''monitor scope changed; reinitialize explicitly'')
      | Some m \<Rightarrow>
          if hm_epoch m \<noteq> epoch \<or> hm_settings_json m \<noteq> canonical_json settings
          then Inl (ValueError ''monitor scope changed; reinitialize explicitly'')
          else let seq = hm_observation_seq m + 1 in
          bind_result (reconcile_duplicate_cases_tx sha duplicates now True s) (\<lambda>(cases, s1).
          bind_result (insert_receipts_tx (builder epoch seq (mp_changes plan)) now s1) (\<lambda>(keys, s2).
          bind_result (insert_observation_tx k epoch seq mode now (mp_changes plan) s2) (\<lambda>s3.
          let s4 = update_monitors (\<lambda>q. hm_scope_key q = k) (observed_monitor_row now mode seq plan) s3;
              due = next_observation_due now (mp_has_missing plan) interval (hm_requested m) generation;
              s5 = (if mode = ''background''
                    then update_monitors (\<lambda>q. hm_scope_key q = k) (scheduled_row generation due) s4
                    else s4)
          in Inr (\<lparr>ms_observation_seq = seq, ms_receipt_keys = cc_receipts cases @ keys,
               ms_case_result = cases\<rparr>, s5)))))"

definition settle_holding_monitor ::
    "(string \<Rightarrow> string) \<Rightarrow> instant \<Rightarrow> string \<Rightarrow> json \<Rightarrow> string \<Rightarrow> string \<Rightarrow> nat \<Rightarrow> monitor_plan \<Rightarrow>
     duplicate_plan \<Rightarrow> (string \<Rightarrow> nat \<Rightarrow> json \<Rightarrow> receipt_spec list) \<Rightarrow> int \<Rightarrow> op_store \<Rightarrow>
     (py_exn + monitor_settled) \<times> op_store" where
  "settle_holding_monitor sha now k settings epoch mode generation plan duplicates builder interval s =
     (if mode \<notin> set [''manual'', ''background''] then (Inl (ValueError ''invalid monitor mode''), s)
      else commit (settle_monitor_tx sha now k settings epoch mode generation plan duplicates builder interval) s)"

section \<open>Settling a holding event\<close>

record event_materialization =
  em_trigger :: dict
  em_cases :: "case_input list"
  em_receipts :: "receipt_spec list"
  em_prove_external :: bool
  em_record_id :: string
  em_active_keys :: "string list"
  em_record_digest :: string
  em_identity :: dict

fun materialize_event_tx ::
    "(string \<Rightarrow> string) \<Rightarrow> instant \<Rightarrow> event_materialization list \<Rightarrow> op_store \<Rightarrow> py_exn + case_changes \<times> op_store" where
  "materialize_event_tx sha now [] s = Inr (no_changes, s)"
| "materialize_event_tx sha now (x # xs) s =
     bind_result (materialize_cases_tx sha (em_receipts x) (em_trigger x) now True (em_cases x) s) (\<lambda>(d, s1).
     bind_result (if em_prove_external x
       then resolve_absent_tx (em_record_id x) (em_active_keys x) (em_record_digest x) (em_identity x)
              (em_trigger x) now True s1
       else Inr (no_changes, s1)) (\<lambda>(e, s2).
     bind_result (materialize_event_tx sha now xs s2) (\<lambda>(f, s3).
     Inr (add_changes (add_changes d e) f, s3))))"

definition changes_json :: "case_changes \<Rightarrow> json" where
  "changes_json d = JObj [(''created_case_keys'', jstrs (cc_created d)),
     (''refreshed_case_keys'', jstrs (cc_refreshed d)), (''reopened_case_keys'', jstrs (cc_reopened d)),
     (''superseded_case_keys'', jstrs (cc_superseded d)), (''closed_case_keys'', jstrs (cc_closed d)),
     (''enqueued_receipt_keys'', jstrs (cc_receipts d))]"

definition complete_holding_tx ::
    "(string \<Rightarrow> string) \<Rightarrow> instant \<Rightarrow> string \<Rightarrow> string \<Rightarrow> event_materialization list \<Rightarrow> dict \<Rightarrow> op_store \<Rightarrow>
     py_exn + dict \<times> op_store" where
  "complete_holding_tx sha now event_id claim_id items outcome s =
     (if fetchone (claimed_by event_id claim_id) (holding_event_inbox s) = None
      then Inl (event_claim_missing ''holding'' event_id)
      else bind_result (materialize_event_tx sha now items s) (\<lambda>(d, s1).
        let persisted = dict_set ''workflow'' (changes_json d) outcome;
            hit = claimed_by event_id claim_id
        in if rowcount hit (holding_event_inbox s1) \<noteq> 1
           then Inl (event_claim_missing ''holding'' event_id)
           else Inr (persisted, s1\<lparr>holding_event_inbox :=
              sql_update hit (processed_row now (JObj persisted)) (holding_event_inbox s1)\<rparr>)))"

definition complete_holding_event ::
    "(string \<Rightarrow> string) \<Rightarrow> instant \<Rightarrow> string \<Rightarrow> string \<Rightarrow> event_materialization list \<Rightarrow> dict \<Rightarrow> op_store \<Rightarrow>
     (py_exn + dict) \<times> op_store" where
  "complete_holding_event sha now event_id claim_id items outcome =
     commit (complete_holding_tx sha now event_id claim_id items outcome)"

section \<open>Lemmas\<close>

lemma backoff_bounds: "seconds 2 \<le> backoff_delay n \<and> backoff_delay n \<le> seconds 60"
  by (simp add: backoff_delay_def monitor_backoff_def seconds_def nth_Cons')

lemma backoff_mono: "m \<le> n \<Longrightarrow> backoff_delay m \<le> backoff_delay n"
  by (auto simp: backoff_delay_def monitor_backoff_def seconds_def nth_Cons')

lemma monitor_update:
  assumes "\<And>m. p m \<Longrightarrow> hm_scope_key (f m) = hm_scope_key m"
  shows "monitor_at k (update_monitors p f s) = map_option (\<lambda>m. if p m then f m else m) (monitor_at k s)"
  unfolding update_monitors_def using assms by (simp add: row_of_sql_update)

lemma monitor_keyed_update:
  assumes "\<And>m. hm_scope_key (f m) = hm_scope_key m"
  shows "monitor_at k (update_monitors (\<lambda>m. hm_scope_key m = k) f s) = map_option f (monitor_at k s)"
  using monitor_update [where p = "\<lambda>m. hm_scope_key m = k" and f = f, OF assms]
  by (cases "monitor_at k s") (auto dest: row_of_Some)

lemma monitor_rows_keys [simp]:
  "hm_scope_key (monitor_request_row due m) = hm_scope_key m"
  "hm_scope_key (background_failed_row now n err m) = hm_scope_key m"
  "hm_scope_key (manual_failed_row now err m) = hm_scope_key m"
  "hm_scope_key (observed_monitor_row now mode seq plan m) = hm_scope_key m"
  "hm_scope_key (scheduled_row g due m) = hm_scope_key m"
  by (simp_all add: monitor_request_row_def background_failed_row_def manual_failed_row_def
      observed_monitor_row_def scheduled_row_def Let_def)

lemma settle_monitor_parts:
  assumes "settle_monitor_tx sha now k settings epoch mode g plan dups builder interval s = Inr (out, s')"
  obtains m cases s1 keys s2 s3 where
    "monitor_at k s = Some m" "hm_epoch m = epoch" "hm_settings_json m = canonical_json settings"
    "reconcile_duplicate_cases_tx sha dups now True s = Inr (cases, s1)"
    "insert_receipts_tx (builder epoch (hm_observation_seq m + 1) (mp_changes plan)) now s1 = Inr (keys, s2)"
    "insert_observation_tx k epoch (hm_observation_seq m + 1) mode now (mp_changes plan) s2 = Inr s3"
    "out = \<lparr>ms_observation_seq = hm_observation_seq m + 1, ms_receipt_keys = cc_receipts cases @ keys,
       ms_case_result = cases\<rparr>"
    "s' = (if mode = ''background''
       then update_monitors (\<lambda>q. hm_scope_key q = k) (scheduled_row g
           (next_observation_due now (mp_has_missing plan) interval (hm_requested m) g))
         (update_monitors (\<lambda>q. hm_scope_key q = k) (observed_monitor_row now mode (hm_observation_seq m + 1) plan) s3)
       else update_monitors (\<lambda>q. hm_scope_key q = k) (observed_monitor_row now mode (hm_observation_seq m + 1) plan) s3)"
  using assms unfolding settle_monitor_tx_def Let_def
  by (auto simp: bind_result_Inr split: option.splits if_splits)

lemma settle_frame:
  assumes ok: "case_store_ok s" and a: "reconcile_duplicate_cases_tx sha dups now True s = Inr (cases, s1)"
    and b: "insert_receipts_tx rs now s1 = Inr (keys, s2)"
    and c: "insert_observation_tx k epoch seq mode now changes s2 = Inr s3"
  shows "holding_change_monitor s3 = holding_change_monitor s"
    and "holding_change_observations s3 = holding_change_observations s @
      [\<lparr>hv_scope_key = k, hv_epoch = epoch, hv_observation_seq = seq, hv_mode = mode,
           hv_observed_at = now, hv_changes_json = canonical_json changes\<rparr>]"
    and "operation_receipt_outbox s3 = operation_receipt_outbox s2"
  using reconcile_duplicates_step [OF ok a] insert_receipts_frame [OF b] c
  by (auto simp: cases_step_def same_elsewhere_def insert_observation_tx_def split: if_splits)

section \<open>Scheduling\<close>

definition monitor_alert :: "holding_monitor \<Rightarrow> bool" where
  "monitor_alert m \<longleftrightarrow> (hm_requested m > hm_completed m \<longrightarrow> hm_next_due m \<noteq> None) \<and>
     (hm_failure_count m > 0 \<longrightarrow> hm_next_due m \<noteq> None)"

datatype monitor_op =
    MonInit string string string string json json bool
  | MonConfigure string json bool
  | MonRequest instant string int
  | MonEvent instant instant bool "int option" bitable_event
  | MonFail instant string string string
  | MonSettle instant string json string string nat monitor_plan duplicate_plan
      "string \<Rightarrow> nat \<Rightarrow> json \<Rightarrow> receipt_spec list" int

fun monitor_step :: "(string \<Rightarrow> string) \<Rightarrow> monitor_op \<Rightarrow> op_store \<Rightarrow> op_store" where
  "monitor_step sha (MonInit epoch k ft ti settings rows rebuild) s =
     snd (initialize_holding_monitor epoch k ft ti settings rows rebuild s)"
| "monitor_step sha (MonConfigure k settings enabled) s = snd (configure_holding_monitor k settings enabled s)"
| "monitor_step sha (MonRequest now k delay) s = request_holding_monitor now k delay s"
| "monitor_step sha (MonEvent now now2 enabled coalesce e) s =
     snd (accept_holding_event now now2 enabled coalesce e s)"
| "monitor_step sha (MonFail now k mode err) s = snd (fail_holding_monitor now k mode err s)"
| "monitor_step sha (MonSettle now k settings epoch mode g plan dups builder interval) s =
     snd (settle_holding_monitor sha now k settings epoch mode g plan dups builder interval s)"

lemma monitors_updated:
  assumes "\<forall>m \<in> set (holding_change_monitor s). P m" and "\<And>m. P m \<Longrightarrow> p m \<Longrightarrow> P (f m)"
  shows "\<forall>m \<in> set (holding_change_monitor (update_monitors p f s)). P m"
  using assms by (auto simp: update_monitors_def in_sql_update)

lemma alert_request: "monitor_alert m \<Longrightarrow> monitor_alert (monitor_request_row due m)"
  by (auto simp: monitor_alert_def monitor_request_row_def split: option.splits)

lemma monitor_step_alert:
  assumes ok: "case_store_ok s" and al: "\<forall>m \<in> set (holding_change_monitor s). monitor_alert m"
  shows "\<forall>m \<in> set (holding_change_monitor (monitor_step sha x s)). monitor_alert m"
proof (cases x)
  case (MonInit epoch k ft ti settings rows rebuild)
  then show ?thesis
    using al by (auto simp: initialize_holding_monitor_def commit_def monitor_alert_def new_monitor_def)
next
  case (MonConfigure k settings enabled)
  show ?thesis
    unfolding MonConfigure monitor_step.simps configure_holding_monitor_def Let_def snd_conv
    by (rule monitors_updated [OF al]) (simp add: monitor_alert_def)
next
  case (MonRequest now k delay)
  show ?thesis
    unfolding MonRequest monitor_step.simps request_holding_monitor_def
    by (rule monitors_updated [OF al]) (rule alert_request)
next
  case (MonEvent now now2 enabled coalesce e)
  then show ?thesis
    unfolding MonEvent monitor_step.simps accept_holding_event_def using al
    by (intro commit_preserves [where P = "\<lambda>t. \<forall>m \<in> set (holding_change_monitor t). monitor_alert m"])
      (auto simp: bind_result_Inr Let_def in_sql_update alert_request split: if_splits)
next
  case (MonFail now k mode err)
  have bg: "monitor_alert (background_failed_row now n err m)"
    and mn: "monitor_alert m \<Longrightarrow> monitor_alert (manual_failed_row now err m)" for n m
    by (simp_all add: monitor_alert_def background_failed_row_def manual_failed_row_def)
  let ?u = "\<lambda>f. update_monitors (\<lambda>q. hm_scope_key q = k) f s"
  have "monitor_step sha x s = s \<or> monitor_step sha x s = ?u (manual_failed_row now err) \<or>
      (\<exists>n. monitor_step sha x s = ?u (background_failed_row now n err))"
    unfolding MonFail monitor_step.simps fail_holding_monitor_def by (auto split: option.splits bool.splits)
  then show ?thesis
  proof (elim disjE exE)
    fix n assume "monitor_step sha x s = ?u (background_failed_row now n err)"
    then show ?thesis by (simp only:) (rule monitors_updated [OF al bg])
  next
    assume "monitor_step sha x s = ?u (manual_failed_row now err)"
    then show ?thesis by (simp only:) (rule monitors_updated [OF al mn])
  next
    assume "monitor_step sha x s = s"
    with al show ?thesis by simp
  qed
next
  case (MonSettle now k settings epoch mode g plan dups builder interval)
  have "\<forall>m \<in> set (holding_change_monitor t). monitor_alert m"
    if "settle_monitor_tx sha now k settings epoch mode g plan dups builder interval s = Inr (out, t)" for out t
    using that
  proof (rule settle_monitor_parts)
    fix m cases s1 keys s2 s3
    assume parts: "reconcile_duplicate_cases_tx sha dups now True s = Inr (cases, s1)"
      "insert_receipts_tx (builder epoch (hm_observation_seq m + 1) (mp_changes plan)) now s1 = Inr (keys, s2)"
      "insert_observation_tx k epoch (hm_observation_seq m + 1) mode now (mp_changes plan) s2 = Inr s3"
      and t: "t = (if mode = ''background''
       then update_monitors (\<lambda>q. hm_scope_key q = k) (scheduled_row g
           (next_observation_due now (mp_has_missing plan) interval (hm_requested m) g))
         (update_monitors (\<lambda>q. hm_scope_key q = k) (observed_monitor_row now mode (hm_observation_seq m + 1) plan) s3)
       else update_monitors (\<lambda>q. hm_scope_key q = k) (observed_monitor_row now mode (hm_observation_seq m + 1) plan) s3)"
    have "\<forall>m \<in> set (holding_change_monitor s3). monitor_alert m"
      using al settle_frame(1) [OF ok parts] by simp
    then have u: "\<forall>m \<in> set (holding_change_monitor (update_monitors (\<lambda>q. hm_scope_key q = k)
        (observed_monitor_row now mode seq plan) s3)). monitor_alert m" for seq
      by (rule monitors_updated) (simp add: monitor_alert_def observed_monitor_row_def Let_def)
    have sc: "monitor_alert (scheduled_row g due q)" for due q
      by (simp add: monitor_alert_def scheduled_row_def)
    show ?thesis
      unfolding t if_distrib [of holding_change_monitor] by (split if_split) (intro conjI impI u monitors_updated [OF u sc])
  qed
  with al show ?thesis
    unfolding MonSettle monitor_step.simps settle_holding_monitor_def
    by (auto simp: commit_def split: sum.splits)
qed

section \<open>Events and cases\<close>

lemma materialize_event_step:
  assumes "case_store_ok s" and "materialize_event_tx sha now xs s = Inr (d, s')"
  shows "cases_step s s'"
  using assms
proof (induction xs arbitrary: s d)
  case Nil
  then show ?case by (simp add: cases_step_refl)
next
  case (Cons x xs)
  from Cons.prems(2) obtain d1 s1 e s2 f where
    a: "materialize_cases_tx sha (em_receipts x) (em_trigger x) now True (em_cases x) s = Inr (d1, s1)"
    and b: "(if em_prove_external x
       then resolve_absent_tx (em_record_id x) (em_active_keys x) (em_record_digest x) (em_identity x)
              (em_trigger x) now True s1
       else Inr (no_changes, s1)) = Inr (e, s2)"
    and c: "materialize_event_tx sha now xs s2 = Inr (f, s')"
    by (auto simp: bind_result_Inr simp del: if_split)
  have 1: "cases_step s s1" by (rule materialize_cases_step [OF Cons.prems(1) a])
  have 2: "cases_step s1 s2"
    using b resolve_absent_rows(1) [OF cases_step_ok [OF 1]] cases_step_refl [OF cases_step_ok [OF 1]]
    by (auto split: if_splits)
  from Cons.IH [OF cases_step_ok [OF 2] c] 1 2 cases_step_trans show ?case by blast
qed

lemma complete_holding_parts:
  assumes ok: "case_store_ok s" and m: "complete_holding_tx sha now k c xs out s = Inr (persisted, s')"
  shows "\<exists>d s1. materialize_event_tx sha now xs s = Inr (d, s1) \<and> cases_step s s1 \<and>
    persisted = dict_set ''workflow'' (changes_json d) out \<and>
    rowcount (claimed_by k c) (holding_event_inbox s) = 1 \<and>
    s' = s1\<lparr>holding_event_inbox := sql_update (claimed_by k c) (processed_row now (JObj persisted))
      (holding_event_inbox s)\<rparr>"
proof -
  from m obtain d s1 where a: "materialize_event_tx sha now xs s = Inr (d, s1)"
    and r: "persisted = dict_set ''workflow'' (changes_json d) out"
      "rowcount (claimed_by k c) (holding_event_inbox s1) = 1"
      "s' = s1\<lparr>holding_event_inbox := sql_update (claimed_by k c) (processed_row now (JObj persisted))
        (holding_event_inbox s1)\<rparr>"
    by (auto simp: complete_holding_tx_def Let_def bind_result_Inr split: if_splits)
  note st = materialize_event_step [OF ok a]
  then have "holding_event_inbox s1 = holding_event_inbox s" by (simp add: cases_step_def same_elsewhere_def)
  with a r st show ?thesis by auto
qed

section \<open>Properties\<close>

text \<open>
  C21. The monitor never forgets a request: as long as a requested observation is outstanding, or
  the last background run failed, a next run is scheduled, whatever the operations on the monitors
  (initialising, enabling, requesting, accepting events, failing and settling) and whether they
  succeed or raise.
\<close>
theorem monitor_never_forgets:
  assumes "case_store_ok s"
    and "\<forall>m \<in> set (holding_change_monitor s).
      (hm_requested m > hm_completed m \<longrightarrow> hm_next_due m \<noteq> None) \<and> (hm_failure_count m > 0 \<longrightarrow> hm_next_due m \<noteq> None)"
  shows "\<forall>m \<in> set (holding_change_monitor (monitor_step sha x s)).
      (hm_requested m > hm_completed m \<longrightarrow> hm_next_due m \<noteq> None) \<and> (hm_failure_count m > 0 \<longrightarrow> hm_next_due m \<noteq> None)"
  using monitor_step_alert [OF assms(1)] assms(2) unfolding monitor_alert_def by blast

definition demo_monitor :: op_store where
  "demo_monitor = monitor_step demo_sha (MonRequest 10 ''k'' 0) (monitor_step demo_sha (MonConfigure ''k'' JNull True)
     (monitor_step demo_sha (MonInit ''e'' ''k'' ''f'' ''t'' JNull (JObj []) False) empty_store))"

definition demo_plan :: monitor_plan where
  "demo_plan = \<lparr>mp_changes = JArr [JStr ''x''], mp_rows = JObj [], mp_has_missing = False\<rparr>"

definition demo_duplicates :: duplicate_plan where
  "demo_duplicates = \<lparr>dp_proof = [(''complete'', JBool True)], dp_cases = [], dp_receipts = [], dp_trigger = []\<rparr>"

definition demo_builder :: "string \<Rightarrow> nat \<Rightarrow> json \<Rightarrow> receipt_spec list" where
  "demo_builder epoch seq changes = [\<lparr>rs_case_key = [], rs_receipt_key = ''holdings:changes:k:'' @ epoch,
     rs_receipt_type = ''non_futu_holdings_changed'', rs_payload = changes\<rparr>]"

lemma demo_monitor_ok: "case_store_ok demo_monitor" "unique_keys hm_scope_key (holding_change_monitor demo_monitor)"
  by code_simp+

lemma monitor_never_forgets_witness:
  "list_all monitor_alert (holding_change_monitor (monitor_step demo_sha (MonFail 20 ''k'' ''background'' ''x'') demo_monitor))"
proof -
  have "\<forall>m \<in> set (holding_change_monitor demo_monitor). monitor_alert m" by code_simp
  with monitor_never_forgets [OF demo_monitor_ok(1), of demo_sha] show ?thesis
    unfolding monitor_alert_def list_all_iff by blast
qed

text \<open>
  C20. Settling an observation is atomic and never loses a wake-up: it raises and changes nothing, or
  it was made for the epoch and settings the monitor still has, and then the baseline, the audit row
  under the next sequence number and every receipt are stored together. A background settlement
  resets the failures and completes exactly the generation it was started for, so a request that
  came in meanwhile stays outstanding and is due within two seconds; a manual one leaves the
  schedule alone.
\<close>
theorem monitor_settlement_exact:
  assumes "case_store_ok s" and "unique_keys hm_scope_key (holding_change_monitor s)"
    and "settle_holding_monitor sha now k settings epoch mode g plan dups builder interval s = (res, s')"
  shows "case res of
      Inl e \<Rightarrow> s' = s
    | Inr out \<Rightarrow> \<exists>m m'. read_holding_monitor k s = Some m \<and> read_holding_monitor k s' = Some m' \<and>
        hm_epoch m = epoch \<and> hm_settings_json m = canonical_json settings \<and>
        ms_observation_seq out = hm_observation_seq m + 1 \<and> hm_observation_seq m' = hm_observation_seq m + 1 \<and>
        hm_rows_json m' = canonical_json (mp_rows plan) \<and> hm_requested m' = hm_requested m \<and>
        holding_change_observations s' = holding_change_observations s @
          [\<lparr>hv_scope_key = k, hv_epoch = epoch, hv_observation_seq = hm_observation_seq m + 1, hv_mode = mode,
            hv_observed_at = now, hv_changes_json = canonical_json (mp_changes plan)\<rparr>] \<and>
        (\<forall>x \<in> set (builder epoch (hm_observation_seq m + 1) (mp_changes plan)).
          \<exists>q. row_of rc_receipt_key (rs_receipt_key x) (operation_receipt_outbox s') = Some q \<and>
            rc_payload_json q = canonical_json (rs_payload x)) \<and>
        (if mode = ''background''
         then hm_completed m' = g \<and> hm_failure_count m' = 0 \<and>
           (hm_requested m > g \<longrightarrow> (\<exists>d. hm_next_due m' = Some d \<and> d \<le> now + seconds 2))
         else hm_completed m' = hm_completed m \<and> hm_failure_count m' = hm_failure_count m \<and>
           hm_next_due m' = hm_next_due m)"
proof (cases res)
  case (Inl e)
  with assms(3) show ?thesis
    by (auto simp: settle_holding_monitor_def commit_Inl split: if_splits)
next
  case (Inr out)
  with assms(3) have "settle_monitor_tx sha now k settings epoch mode g plan dups builder interval s = Inr (out, s')"
    by (auto simp: settle_holding_monitor_def commit_Inr split: if_splits)
  then show ?thesis
  proof (rule settle_monitor_parts)
    fix m cases s1 keys s2 s3
    assume p: "monitor_at k s = Some m" "hm_epoch m = epoch" "hm_settings_json m = canonical_json settings"
      "reconcile_duplicate_cases_tx sha dups now True s = Inr (cases, s1)"
      "insert_receipts_tx (builder epoch (hm_observation_seq m + 1) (mp_changes plan)) now s1 = Inr (keys, s2)"
      "insert_observation_tx k epoch (hm_observation_seq m + 1) mode now (mp_changes plan) s2 = Inr s3"
      and out: "out = \<lparr>ms_observation_seq = hm_observation_seq m + 1, ms_receipt_keys = cc_receipts cases @ keys,
        ms_case_result = cases\<rparr>"
      and s': "s' = (if mode = ''background''
       then update_monitors (\<lambda>q. hm_scope_key q = k) (scheduled_row g
           (next_observation_due now (mp_has_missing plan) interval (hm_requested m) g))
         (update_monitors (\<lambda>q. hm_scope_key q = k) (observed_monitor_row now mode (hm_observation_seq m + 1) plan) s3)
       else update_monitors (\<lambda>q. hm_scope_key q = k) (observed_monitor_row now mode (hm_observation_seq m + 1) plan) s3)"
    note fr = settle_frame [OF assms(1) p(4-6)]
    define r where "r = observed_monitor_row now mode (hm_observation_seq m + 1) plan m"
    have "monitor_at k s3 = Some m" using p(1) fr(1) by simp
    then have at: "monitor_at k s' = Some (if mode = ''background''
        then scheduled_row g (next_observation_due now (mp_has_missing plan) interval (hm_requested m) g) r else r)"
      by (simp add: s' r_def monitor_keyed_update)
    have tables: "holding_change_observations s' = holding_change_observations s3"
      "operation_receipt_outbox s' = operation_receipt_outbox s3" by (simp_all add: s' update_monitors_def)
    have due: "next_observation_due now (mp_has_missing plan) interval (hm_requested m) g \<le> now + seconds 2"
      if "hm_requested m > g" using that by (simp add: next_observation_due_def Let_def)
    have rc: "\<forall>x \<in> set (builder epoch (hm_observation_seq m + 1) (mp_changes plan)).
        \<exists>q. row_of rc_receipt_key (rs_receipt_key x) (operation_receipt_outbox s') = Some q \<and>
          rc_payload_json q = canonical_json (rs_payload x)"
      using insert_receipts_present [OF p(5)] fr(3) tables(2) by auto
    show ?thesis
      unfolding Inr sum.case read_holding_monitor_def
      by (rule exI [of _ m], rule exI, intro conjI, rule p(1), rule at)
        (use p(2,3) rc fr(2) tables(1) due in
          \<open>auto simp: out r_def observed_monitor_row_def scheduled_row_def Let_def\<close>)
  qed
qed

lemma monitor_settlement_exact_witness:
  "\<exists>m'. read_holding_monitor ''k'' (snd (settle_holding_monitor demo_sha 50 ''k'' JNull ''e'' ''background'' 0 demo_plan
     demo_duplicates demo_builder (seconds 300) demo_monitor)) = Some m' \<and> hm_completed m' = 0 \<and>
     (\<exists>d. hm_next_due m' = Some d \<and> d \<le> 50 + seconds 2)"
proof -
  define run where "run = settle_holding_monitor demo_sha 50 ''k'' JNull ''e'' ''background'' 0 demo_plan
     demo_duplicates demo_builder (seconds 300) demo_monitor"
  have "(case fst run of Inr x \<Rightarrow> True | Inl e \<Rightarrow> False)" unfolding run_def by code_simp
  then obtain out s' where run: "run = (Inr out, s')" by (cases run) (auto split: sum.splits)
  have "(case read_holding_monitor ''k'' demo_monitor of Some m \<Rightarrow> hm_requested m = 1 | None \<Rightarrow> False)" by code_simp
  then obtain m where m: "read_holding_monitor ''k'' demo_monitor = Some m" "hm_requested m = 1"
    by (auto split: option.splits)
  from monitor_settlement_exact [OF demo_monitor_ok run [unfolded run_def]] m run show ?thesis
    by (auto simp: run_def)
qed

text \<open>
  Failures back off and cannot be bypassed: a failed background run counts one more failure and
  waits at least two seconds, at most a minute and never less than the failure before it, and while
  failures are counted no request moves the next run.
\<close>
theorem monitor_backoff_holds:
  assumes "read_holding_monitor k s = Some m"
    and "fail_holding_monitor now k ''background'' err s = (Inr (), s')"
  shows "\<exists>m' d. read_holding_monitor k s' = Some m' \<and> hm_failure_count m' = hm_failure_count m + 1 \<and>
    hm_next_due m' = Some (now + d) \<and> seconds 2 \<le> d \<and> d \<le> seconds 60 \<and>
    (hm_failure_count m > 0 \<longrightarrow> backoff_delay (hm_failure_count m) \<le> d) \<and>
    (\<exists>m''. read_holding_monitor k (request_holding_monitor later k delay s') = Some m'' \<and>
      hm_next_due m'' = hm_next_due m')"
proof -
  have s': "s' = update_monitors (\<lambda>q. hm_scope_key q = k) (background_failed_row now (hm_failure_count m + 1) err) s"
    using assms by (simp add: fail_holding_monitor_def read_holding_monitor_def)
  have at: "monitor_at k s' = Some (background_failed_row now (hm_failure_count m + 1) err m)"
    using assms(1) by (simp add: s' monitor_keyed_update read_holding_monitor_def)
  have later: "\<exists>m''. monitor_at k (request_holding_monitor later k delay s') = Some m'' \<and>
      hm_next_due m'' = Some (now + backoff_delay (hm_failure_count m + 1))"
    using at by (auto simp: request_holding_monitor_def monitor_update monitor_request_row_def background_failed_row_def)
  show ?thesis
    unfolding read_holding_monitor_def
    by (rule exI [of _ "background_failed_row now (hm_failure_count m + 1) err m"],
        rule exI [of _ "backoff_delay (hm_failure_count m + 1)"])
      (use at later backoff_bounds [of "hm_failure_count m + 1"] backoff_mono in
        \<open>auto simp: background_failed_row_def\<close>)
qed

lemma monitor_backoff_holds_witness:
  "\<exists>m'. read_holding_monitor ''k'' (snd (fail_holding_monitor 20 ''k'' ''background'' ''x'' demo_monitor)) = Some m' \<and>
     hm_failure_count m' > 0"
proof -
  have "(case read_holding_monitor ''k'' demo_monitor of Some m \<Rightarrow> True | None \<Rightarrow> False)" by code_simp
  then obtain m where m: "read_holding_monitor ''k'' demo_monitor = Some m" by (auto split: option.splits)
  have "fst (fail_holding_monitor 20 ''k'' ''background'' ''x'' demo_monitor) = Inr ()" by code_simp
  then have "fail_holding_monitor 20 ''k'' ''background'' ''x'' demo_monitor =
      (Inr (), snd (fail_holding_monitor 20 ''k'' ''background'' ''x'' demo_monitor))" by (metis prod.collapse)
  from monitor_backoff_holds [OF m this, of 30 0] show ?thesis by auto
qed

text \<open>
  C19. The effects of a holding event are committed exactly once: completing a claimed event either
  raises and changes nothing, or commits its cases, closures and receipts and marks the event
  processed in one step, after which completing it again, under any claim and with any effects,
  raises and changes nothing.
\<close>
theorem holding_event_completed_once:
  assumes "case_store_ok s" and "unique_keys ie_event_id (holding_event_inbox s)"
    and "complete_holding_event sha now k c xs out s = (res, s')"
  shows "case res of
      Inl e \<Rightarrow> s' = s
    | Inr persisted \<Rightarrow>
        (\<exists>d s1. materialize_event_tx sha now xs s = Inr (d, s1) \<and> holding_cases s' = holding_cases s1 \<and>
          holding_case_events s' = holding_case_events s1 \<and>
          operation_receipt_outbox s' = operation_receipt_outbox s1 \<and>
          persisted = dict_set ''workflow'' (changes_json d) out) \<and>
        (\<exists>r. get_holding_event k s' = Some r \<and> ie_state r = InboxProcessed \<and>
          ie_outcome_json r = Some (canonical_json (JObj persisted))) \<and>
        complete_holding_event sha' now' k c' xs' out' s' =
          (Inl (KeyError (''holding'' @ '' event claim not found: '' @ k)), s')"
proof (cases res)
  case (Inl e)
  with assms(3) show ?thesis by (simp add: complete_holding_event_def commit_Inl)
next
  case (Inr persisted)
  with assms(3) have "complete_holding_tx sha now k c xs out s = Inr (persisted, s')"
    by (simp add: complete_holding_event_def commit_Inr)
  from complete_holding_parts [OF assms(1) this] obtain d s1 where
    p: "materialize_event_tx sha now xs s = Inr (d, s1)" "persisted = dict_set ''workflow'' (changes_json d) out"
      "rowcount (claimed_by k c) (holding_event_inbox s) = 1"
    and s': "s' = s1\<lparr>holding_event_inbox := sql_update (claimed_by k c) (processed_row now (JObj persisted))
        (holding_event_inbox s)\<rparr>" by blast
  have ck: "\<And>r :: inbox_event. claimed_by k c r \<Longrightarrow> ie_event_id r = k" by (simp add: claimed_by_def)
  from p(3) rowcount_key_1 [OF assms(2) ck] obtain r :: inbox_event where
    r: "r \<in> set (holding_event_inbox s)" "claimed_by k c r" by blast
  have "row_of ie_event_id k (holding_event_inbox s) = Some r"
    using row_at [OF assms(2) r(1) ck [OF r(2)]] .
  then have at: "get_holding_event k s' = Some (processed_row now (JObj persisted) r)"
    using r(2) by (simp add: s' get_holding_event_def row_of_sql_update processed_row_def)
  have u': "unique_keys ie_event_id (holding_event_inbox s')"
    using assms(2) by (auto simp: s' processed_row_def intro: row_intros)
  have "\<not> claimed_by k c' q" if "q \<in> set (holding_event_inbox s')" for q
  proof
    assume "claimed_by k c' q"
    then have "q = processed_row now (JObj persisted) r"
      using row_at [OF u' that] at by (simp add: claimed_by_def get_holding_event_def)
    with \<open>claimed_by k c' q\<close> show False by (simp add: claimed_by_def processed_row_def)
  qed
  then have "complete_holding_event sha' now' k c' xs' out' s' = (Inl (event_claim_missing ''holding'' k), s')"
    by (simp add: complete_holding_event_def complete_holding_tx_def commit_def fetchone_None)
  with at p(1,2) Inr s' show ?thesis
    by (auto simp: event_claim_missing_def processed_row_def)
qed

definition demo_event_store :: op_store where
  "demo_event_store = snd (claim_holding_events 1 ''w'' 10 None (snd (accept_holding_event 0 0 False None demo_event empty_store)))"

definition demo_materialization :: event_materialization where
  "demo_materialization = \<lparr>em_trigger = [], em_cases = [demo_candidate ''c1'' ''pending_apply'' JNull],
     em_receipts = [demo_discovery ''c1''], em_prove_external = True, em_record_id = ''rec1'',
     em_active_keys = [''c1''], em_record_digest = ''d1'', em_identity = [(''asset_id'', JStr ''X'')]\<rparr>"

lemma holding_event_completed_once_witness:
  "complete_holding_event demo_sha 9 ''e1'' ''w'' [] []
     (snd (complete_holding_event demo_sha 2 ''e1'' ''w'' [demo_materialization] [] demo_event_store)) =
   (Inl (KeyError (''holding'' @ '' event claim not found: '' @ ''e1'')),
    snd (complete_holding_event demo_sha 2 ''e1'' ''w'' [demo_materialization] [] demo_event_store))"
proof -
  define run where "run = complete_holding_event demo_sha 2 ''e1'' ''w'' [demo_materialization] [] demo_event_store"
  have ok: "case_store_ok demo_event_store" "unique_keys ie_event_id (holding_event_inbox demo_event_store)"
    by code_simp+
  have "(case fst run of Inr x \<Rightarrow> True | Inl e \<Rightarrow> False)" unfolding run_def by code_simp
  then obtain d s' where run: "run = (Inr d, s')" by (cases run) (auto split: sum.splits)
  from holding_event_completed_once [OF ok run [unfolded run_def], of demo_sha 9 "''w''" "[]" "[]"] run
  show ?thesis by (simp add: run_def)
qed

end
