(* ===== verification/Agent_Names.thy ===== *)
theory Agent_Names
  imports Op_Schema
begin

text \<open>
  Agent name previews: the authorization of a request against the configured policy
  (\<open>app/agent_holding_name_service.py\<close>: \<open>authenticate\<close>), and the durable single-use operations
  behind it (\<open>app/operation_state/_agent_name_mixin.py\<close>). SHA-256 is a parameter: \<open>sha\<close> on the
  bearer token and \<open>dig\<close> on the JSON dump of a principal.
\<close>

section \<open>Authorization\<close>

datatype agent_error = AgentNameError int string

record agent_grant =
  ag_principal_id :: string
  ag_record_id :: string
  ag_account :: string
  ag_broker :: string
  ag_digest :: string

text \<open>\<open>re.fullmatch\<close> of \<open>RECORD_PATTERN\<close>.\<close>

definition record_pattern :: "string \<Rightarrow> bool" where
  "record_pattern s \<longleftrightarrow> 1 \<le> length s \<and> length s \<le> 128 \<and>
     list_all (\<lambda>c. chars_between (CHR ''A'') (CHR ''Z'') c \<or> chars_between (CHR ''a'') (CHR ''z'') c \<or>
       chars_between (CHR ''0'') (CHR ''9'') c \<or> c = CHR ''_'' \<or> c = CHR ''-'') s"

definition keys_are :: "string list \<Rightarrow> dict \<Rightarrow> bool" where
  "keys_are ks d \<longleftrightarrow> set (map fst d) = set ks"

definition plain_text :: "json \<Rightarrow> bool" where
  "plain_text v = (case v of
      JStr s \<Rightarrow> py_strip s \<noteq> [] \<and> s = py_strip s \<and> CHR ''*'' \<notin> set s
    | _ \<Rightarrow> False)"

definition str_at :: "string \<Rightarrow> dict \<Rightarrow> string option" where
  "str_at k d = (case dict_get k d of Some (JStr s) \<Rightarrow> Some s | _ \<Rightarrow> None)"

definition arr_at :: "string \<Rightarrow> dict \<Rightarrow> json list option" where
  "arr_at k d = (case dict_get k d of Some (JArr xs) \<Rightarrow> Some xs | _ \<Rightarrow> None)"

definition text_at :: "string \<Rightarrow> dict \<Rightarrow> string" where
  "text_at k d = (case str_at k d of Some s \<Rightarrow> s | None \<Rightarrow> [])"

text \<open>The loop over the grants of one principal, with the record ids seen so far.\<close>

fun valid_grants :: "string list \<Rightarrow> json list \<Rightarrow> bool" where
  "valid_grants seen [] = True"
| "valid_grants seen (JObj g # gs) =
     (keys_are [''record_id'', ''account'', ''broker''] g \<and> list_all plain_text (map snd g) \<and>
      record_pattern (text_at ''record_id'' g) \<and> text_at ''record_id'' g \<notin> set seen \<and>
      valid_grants (text_at ''record_id'' g # seen) gs)"
| "valid_grants seen (_ # gs) = False"

text \<open>The loop over the principals: every one is validated before any is matched.\<close>

fun valid_principals :: "string list \<Rightarrow> string list \<Rightarrow> json list \<Rightarrow> bool" where
  "valid_principals ids tokens [] = True"
| "valid_principals ids tokens (JObj p # ps) =
     (keys_are [''id'', ''token_sha256'', ''grants''] p \<and>
      (case (str_at ''id'' p, str_at ''token_sha256'' p, arr_at ''grants'' p) of
         (Some pid, Some token, Some grants) \<Rightarrow>
           record_pattern pid \<and> pid \<notin> set ids \<and> hex_text 64 token \<and> token \<notin> set tokens \<and>
           grants \<noteq> [] \<and> valid_grants [] grants \<and>
           valid_principals (pid # ids) (token # tokens) ps
       | _ \<Rightarrow> False))"
| "valid_principals ids tokens (_ # ps) = False"

definition grants_of :: "dict \<Rightarrow> dict list" where
  "grants_of p = (case arr_at ''grants'' p of Some gs \<Rightarrow> map as_dict gs | None \<Rightarrow> [])"

text \<open>\<open>for principal in validated: if token matches: matched = principal\<close>: the last match wins.\<close>

definition last_match :: "('a \<Rightarrow> bool) \<Rightarrow> 'a list \<Rightarrow> 'a option" where
  "last_match p xs = find p (rev xs)"

definition bearer :: string where
  "bearer = ''Bearer ''"

definition authenticate ::
    "(string \<Rightarrow> string) \<Rightarrow> (json \<Rightarrow> string) \<Rightarrow> json \<Rightarrow> string \<Rightarrow> string \<Rightarrow> agent_error + agent_grant" where
  "authenticate sha dig policy authorization record_id = (case policy of
      JObj d \<Rightarrow>
        if dict_get ''enabled'' d \<noteq> Some (JBool True)
        then Inl (AgentNameError 503 ''AGENT_OPERATIONS_DISABLED'')
        else (case arr_at ''principals'' d of
            Some ps \<Rightarrow>
              if ps = [] \<or> \<not> valid_principals [] [] ps
              then Inl (AgentNameError 503 ''AGENT_AUTH_UNAVAILABLE'')
              else if take 7 authorization \<noteq> bearer \<or> drop 7 authorization = [] \<or>
                  length authorization > 4096
              then Inl (AgentNameError 401 ''AGENT_AUTH_FAILED'')
              else (case last_match (\<lambda>p. text_at ''token_sha256'' p = sha (drop 7 authorization))
                        (map as_dict ps) of
                  None \<Rightarrow> Inl (AgentNameError 401 ''AGENT_AUTH_FAILED'')
                | Some p \<Rightarrow> (case find (\<lambda>g. text_at ''record_id'' g = record_id) (grants_of p) of
                      None \<Rightarrow> Inl (AgentNameError 403 ''AGENT_SCOPE_DENIED'')
                    | Some g \<Rightarrow> Inr \<lparr>ag_principal_id = text_at ''id'' p, ag_record_id = record_id,
                        ag_account = text_at ''account'' g, ag_broker = text_at ''broker'' g,
                        ag_digest = dig (JObj p)\<rparr>))
          | None \<Rightarrow> Inl (AgentNameError 503 ''AGENT_AUTH_UNAVAILABLE''))
    | _ \<Rightarrow> Inl (AgentNameError 503 ''AGENT_OPERATIONS_DISABLED''))"

section \<open>The durable operations\<close>

text \<open>
  An operation as the preview builds it; the columns of its row are copies of four of its fields,
  and \<open>snapshot_json\<close> keeps all of them.
\<close>

record agent_preview =
  ap_preview_id :: string
  ap_principal_id :: string
  ap_record_id :: string
  ap_grant_digest :: string
  ap_expires_at :: instant
  ap_snapshot :: json

definition create_agent_name_operation :: "agent_preview \<Rightarrow> op_store \<Rightarrow> (py_exn + unit) \<times> op_store" where
  "create_agent_name_operation p s =
     (if ap_preview_id p \<in> ao_preview_id ` set (agent_name_operations s)
      then (Inl (IntegrityError ''UNIQUE constraint failed: agent_name_operations.preview_id''), s)
      else (Inr (), s\<lparr>agent_name_operations := agent_name_operations s @
        [\<lparr>ao_preview_id = ap_preview_id p, ao_principal_id = ap_principal_id p,
          ao_record_id = ap_record_id p, ao_grant_digest = ap_grant_digest p,
          ao_state = AgentPreviewed, ao_expires_at = ap_expires_at p,
          ao_snapshot_json = ap_snapshot p, ao_result_json = None\<rparr>]\<rparr>))"

definition get_agent_name_operation :: "string \<Rightarrow> op_store \<Rightarrow> agent_operation option" where
  "get_agent_name_operation k s = row_of ao_preview_id k (agent_name_operations s)"

definition agent_claimable ::
    "string \<Rightarrow> string \<Rightarrow> string \<Rightarrow> string \<Rightarrow> instant \<Rightarrow> agent_operation \<Rightarrow> bool" where
  "agent_claimable k pid rec digest now r \<longleftrightarrow> ao_preview_id r = k \<and>
     ao_principal_id r = pid \<and> ao_record_id r = rec \<and> ao_grant_digest r = digest \<and>
     ao_state r = AgentPreviewed \<and> ao_expires_at r > now"

definition claim_agent_name_operation ::
    "string \<Rightarrow> string \<Rightarrow> string \<Rightarrow> string \<Rightarrow> instant \<Rightarrow> op_store \<Rightarrow> bool \<times> op_store" where
  "claim_agent_name_operation k pid rec digest now s =
     (let hit = agent_claimable k pid rec digest now; t = agent_name_operations s
      in (rowcount hit t = 1,
          s\<lparr>agent_name_operations := sql_update hit (\<lambda>r. r\<lparr>ao_state := AgentExecuting\<rparr>) t\<rparr>))"

definition parse_terminal :: "string \<Rightarrow> agent_state option" where
  "parse_terminal st = map_of [(''succeeded'', AgentSucceeded), (''noop'', AgentNoop),
     (''rejected'', AgentRejected), (''unknown'', AgentUnknown)] st"

definition finish_agent_name_operation ::
    "string \<Rightarrow> string \<Rightarrow> json \<Rightarrow> op_store \<Rightarrow> (py_exn + unit) \<times> op_store" where
  "finish_agent_name_operation k state result s = (case parse_terminal state of
      None \<Rightarrow> (Inl (ValueError ''invalid Agent operation terminal state''), s)
    | Some st \<Rightarrow> (Inr (), s\<lparr>agent_name_operations :=
        sql_update (\<lambda>r. ao_preview_id r = k \<and> ao_state r = AgentExecuting)
          (\<lambda>r. r\<lparr>ao_state := st, ao_result_json := Some result\<rparr>) (agent_name_operations s)\<rparr>))"

text \<open>
  \<open>AgentHoldingNameService._operation\<close>: an operation is visible only to the principal, record and
  policy digest it was previewed for.
\<close>

definition operation_for :: "agent_grant \<Rightarrow> string \<Rightarrow> op_store \<Rightarrow> agent_error + agent_operation" where
  "operation_for g k s =
     (if \<not> hex_text 32 k then Inl (AgentNameError 404 ''OPERATION_UNAVAILABLE'')
      else case get_agent_name_operation k s of
          None \<Rightarrow> Inl (AgentNameError 404 ''OPERATION_UNAVAILABLE'')
        | Some r \<Rightarrow>
            if ao_principal_id r \<noteq> ag_principal_id g \<or> ao_record_id r \<noteq> ag_record_id g \<or>
               ao_grant_digest r \<noteq> ag_digest g
            then Inl (AgentNameError 404 ''OPERATION_UNAVAILABLE'') else Inr r)"

text \<open>
  The start of \<open>confirm\<close>, up to the point where the caller may act on the record: \<open>now1\<close> is the
  clock at the expiry test and \<open>now2\<close> the clock of the claim. It either refuses, reports an
  operation that was confirmed before, or hands the right to act to this caller.
\<close>

datatype confirm_start = ConfirmAct agent_operation | ConfirmReport agent_operation

definition confirm_claim ::
    "agent_grant \<Rightarrow> string \<Rightarrow> instant \<Rightarrow> instant \<Rightarrow> op_store \<Rightarrow> (agent_error + confirm_start) \<times> op_store" where
  "confirm_claim g k now1 now2 s = (case operation_for g k s of
      Inl e \<Rightarrow> (Inl e, s)
    | Inr r \<Rightarrow>
        if ao_state r \<noteq> AgentPreviewed then (Inr (ConfirmReport r), s)
        else if ao_expires_at r \<le> now1 then (Inl (AgentNameError 409 ''PREVIEW_EXPIRED''), s)
        else (let (won, s') = claim_agent_name_operation k (ag_principal_id g) (ag_record_id g)
                    (ag_digest g) now2 s
              in if won then (Inr (ConfirmAct r), s')
                 else (case operation_for g k s' of
                     Inl e \<Rightarrow> (Inl e, s')
                   | Inr r' \<Rightarrow>
                       if ao_state r' = AgentPreviewed
                       then (Inl (AgentNameError 409 ''PREVIEW_EXPIRED''), s')
                       else (Inr (ConfirmReport r'), s'))))"

section \<open>Matching against a validated policy\<close>

lemma valid_grants_unique:
  assumes "valid_grants seen gs"
  shows "distinct (map (text_at ''record_id'' \<circ> as_dict) gs) \<and>
    set (map (text_at ''record_id'' \<circ> as_dict) gs) \<inter> set seen = {}"
  using assms by (induction seen gs rule: valid_grants.induct) (auto simp: as_dict_def)

lemma valid_principals_Cons:
  "valid_principals ids tokens (x # ps) \<Longrightarrow> (\<exists>p pid token grants. x = JObj p \<and>
     keys_are [''id'', ''token_sha256'', ''grants''] p \<and> str_at ''id'' p = Some pid \<and>
     str_at ''token_sha256'' p = Some token \<and> arr_at ''grants'' p = Some grants \<and>
     record_pattern pid \<and> pid \<notin> set ids \<and> hex_text 64 token \<and> token \<notin> set tokens \<and>
     grants \<noteq> [] \<and> valid_grants [] grants \<and> valid_principals (pid # ids) (token # tokens) ps)"
  by (cases x) (simp_all split: option.split_asm)

lemma valid_principals_unique:
  assumes "valid_principals ids tokens ps"
  shows "distinct (map (text_at ''token_sha256'' \<circ> as_dict) ps) \<and>
    set (map (text_at ''token_sha256'' \<circ> as_dict) ps) \<inter> set tokens = {}"
  using assms
proof (induction ps arbitrary: ids tokens)
  case (Cons x ps)
  then obtain p pid token where x: "x = JObj p" "str_at ''token_sha256'' p = Some token"
      "token \<notin> set tokens" and rest: "valid_principals (pid # ids) (token # tokens) ps"
    using valid_principals_Cons by blast
  from x have "text_at ''token_sha256'' (as_dict x) = token" by (simp add: text_at_def as_dict_def)
  with Cons.IH [OF rest] x(3) show ?case by auto
qed simp

lemma valid_principals_grants:
  assumes "valid_principals ids tokens ps" and "q \<in> set ps"
  shows "distinct (map (text_at ''record_id'') (grants_of (as_dict q)))"
  using assms
proof (induction ps arbitrary: ids tokens)
  case (Cons x ps)
  then obtain p pid token grants where x: "x = JObj p" "arr_at ''grants'' p = Some grants"
      "valid_grants [] grants" and rest: "valid_principals (pid # ids) (token # tokens) ps"
    using valid_principals_Cons by blast
  show ?case
  proof (cases "q = x")
    case True
    with x valid_grants_unique [OF x(3)] show ?thesis by (simp add: grants_of_def as_dict_def comp_def)
  next
    case False
    with Cons.IH [OF rest] Cons.prems(2) show ?thesis by simp
  qed
qed simp

lemma find_distinct:
  assumes "distinct (map f xs)"
  shows "find (\<lambda>x. f x = k) xs = Some x \<longleftrightarrow> x \<in> set xs \<and> f x = k"
  using assms by (induction xs) (auto split: if_splits)

lemma last_match_distinct:
  assumes "distinct (map f xs)"
  shows "last_match (\<lambda>x. f x = k) xs = Some x \<longleftrightarrow> x \<in> set xs \<and> f x = k"
  using find_distinct [of f "rev xs" k x] assms by (simp add: last_match_def rev_map [symmetric])

lemma authenticate_Inr:
  assumes "valid_principals [] [] ps" and "ps \<noteq> []"
    and "dict_get ''enabled'' d = Some (JBool True)" and "arr_at ''principals'' d = Some ps"
  shows "authenticate sha dig (JObj d) auth rec = Inr g \<longleftrightarrow>
    take 7 auth = bearer \<and> 7 < length auth \<and> length auth \<le> 4096 \<and>
    (\<exists>p \<in> set (map as_dict ps). text_at ''token_sha256'' p = sha (drop 7 auth) \<and>
      (\<exists>q \<in> set (grants_of p). text_at ''record_id'' q = rec \<and>
        g = \<lparr>ag_principal_id = text_at ''id'' p, ag_record_id = rec, ag_account = text_at ''account'' q,
          ag_broker = text_at ''broker'' q, ag_digest = dig (JObj p)\<rparr>))"
proof -
  have tok: "distinct (map (text_at ''token_sha256'') (map as_dict ps))"
    using valid_principals_unique [OF assms(1)] by (simp add: comp_def)
  have gr: "distinct (map (text_at ''record_id'') (grants_of p))" if "p \<in> set (map as_dict ps)" for p
    using valid_principals_grants [OF assms(1)] that by auto
  note match = last_match_distinct [OF tok, of "sha (drop 7 auth)"]
  show ?thesis
  proof (cases "last_match (\<lambda>p. text_at ''token_sha256'' p = sha (drop 7 auth)) (map as_dict ps)")
    case None
    then have "\<not> (\<exists>p \<in> set (map as_dict ps). text_at ''token_sha256'' p = sha (drop 7 auth))"
      using match by (metis option.distinct(1))
    with None assms show ?thesis by (auto simp: authenticate_def)
  next
    case (Some p)
    with match have p: "p \<in> set (map as_dict ps)" "text_at ''token_sha256'' p = sha (drop 7 auth)"
      by blast+
    have uniq: "p' = p" if "p' \<in> set (map as_dict ps)" "text_at ''token_sha256'' p' = sha (drop 7 auth)" for p'
      using match [of p'] that Some by simp
    note gmatch = find_distinct [OF gr [OF p(1)], of rec]
    show ?thesis
    proof (cases "find (\<lambda>q. text_at ''record_id'' q = rec) (grants_of p)")
      case None
      then have "\<not> (\<exists>q \<in> set (grants_of p). text_at ''record_id'' q = rec)"
        using gmatch by (metis option.distinct(1))
      moreover have "authenticate sha dig (JObj d) auth rec \<noteq> Inr g"
        using None Some assms by (simp add: authenticate_def)
      ultimately show ?thesis using uniq by blast
    next
      case found: (Some q)
      then have q: "q \<in> set (grants_of p)" "text_at ''record_id'' q = rec" using gmatch by blast+
      have "q' = q" if "q' \<in> set (grants_of p)" "text_at ''record_id'' q' = rec" for q'
        using gmatch [of q'] that found by simp
      moreover have "authenticate sha dig (JObj d) auth rec = Inr g \<longleftrightarrow>
          take 7 auth = bearer \<and> 7 < length auth \<and> length auth \<le> 4096 \<and>
          g = \<lparr>ag_principal_id = text_at ''id'' p, ag_record_id = rec,
            ag_account = text_at ''account'' q, ag_broker = text_at ''broker'' q, ag_digest = dig (JObj p)\<rparr>"
        using found Some assms by (auto simp: authenticate_def)
      ultimately show ?thesis using uniq p q by blast
    qed
  qed
qed

section \<open>Runs\<close>

datatype agent_op =
    AgentPreview agent_preview
  | AgentConfirm agent_grant string instant instant
  | AgentFinish string string json

fun agent_step :: "agent_op \<Rightarrow> op_store \<Rightarrow> op_store" where
  "agent_step (AgentPreview p) s = snd (create_agent_name_operation p s)"
| "agent_step (AgentConfirm g k t1 t2) s = snd (confirm_claim g k t1 t2 s)"
| "agent_step (AgentFinish k st res) s = snd (finish_agent_name_operation k st res s)"

definition may_act :: "string \<Rightarrow> agent_op \<Rightarrow> op_store \<Rightarrow> bool" where
  "may_act k x s = (case x of
      AgentConfirm g k' t1 t2 \<Rightarrow> k' = k \<and>
        (case fst (confirm_claim g k t1 t2 s) of Inr (ConfirmAct r) \<Rightarrow> True | _ \<Rightarrow> False)
    | _ \<Rightarrow> False)"

text \<open>How often a run hands out the right to act on preview \<open>k\<close>.\<close>

fun acts :: "string \<Rightarrow> agent_op list \<Rightarrow> op_store \<Rightarrow> nat" where
  "acts k [] s = 0"
| "acts k (x # xs) s = (if may_act k x s then 1 else 0) + acts k xs (agent_step x s)"

definition agent_run :: "agent_op list \<Rightarrow> op_store \<Rightarrow> op_store" where
  "agent_run xs s = foldl (\<lambda>s x. agent_step x s) s xs"

fun agent_move :: "agent_state \<Rightarrow> agent_state \<Rightarrow> bool" where
  "agent_move AgentPreviewed st \<longleftrightarrow> st = AgentPreviewed \<or> st = AgentExecuting"
| "agent_move AgentExecuting st \<longleftrightarrow> st \<noteq> AgentPreviewed"
| "agent_move st st' \<longleftrightarrow> st' = st"

definition agent_evolves :: "agent_operation \<Rightarrow> agent_operation \<Rightarrow> bool" where
  "agent_evolves r r' \<longleftrightarrow> agent_move (ao_state r) (ao_state r') \<and>
     r' = r\<lparr>ao_state := ao_state r', ao_result_json := ao_result_json r'\<rparr> \<and>
     (ao_state r \<noteq> AgentExecuting \<longrightarrow> ao_result_json r' = ao_result_json r)"

lemma claim_agent_props:
  assumes "unique_keys ao_preview_id (agent_name_operations s)"
    and "claim_agent_name_operation k pid rec digest now s = (won, s')"
  shows "row_of ao_preview_id k' (agent_name_operations s') =
      map_option (\<lambda>r. if agent_claimable k pid rec digest now r then r\<lparr>ao_state := AgentExecuting\<rparr> else r)
        (row_of ao_preview_id k' (agent_name_operations s))"
    and "won \<longleftrightarrow> (\<exists>r. row_of ao_preview_id k (agent_name_operations s) = Some r \<and>
           agent_claimable k pid rec digest now r)"
    and "\<not> won \<Longrightarrow> s' = s"
    and "unique_keys ao_preview_id (agent_name_operations s')"
proof -
  define hit where "hit = agent_claimable k pid rec digest now"
  have s': "won = (rowcount hit (agent_name_operations s) = 1)"
      "s' = s\<lparr>agent_name_operations := sql_update hit (\<lambda>r. r\<lparr>ao_state := AgentExecuting\<rparr>)
         (agent_name_operations s)\<rparr>"
    using assms(2) by (auto simp: claim_agent_name_operation_def hit_def Let_def)
  have key: "\<And>r. hit r \<Longrightarrow> ao_preview_id r = k" by (simp add: hit_def agent_claimable_def)
  have one: "won \<longleftrightarrow> (\<exists>r \<in> set (agent_name_operations s). hit r)"
    unfolding s'(1) by (rule rowcount_key_1 [OF assms(1) key])
  show "row_of ao_preview_id k' (agent_name_operations s') =
      map_option (\<lambda>r. if agent_claimable k pid rec digest now r then r\<lparr>ao_state := AgentExecuting\<rparr> else r)
        (row_of ao_preview_id k' (agent_name_operations s))"
    unfolding s'(2) hit_def [symmetric] by (simp add: row_of_sql_update)
  show "won \<longleftrightarrow> (\<exists>r. row_of ao_preview_id k (agent_name_operations s) = Some r \<and>
      agent_claimable k pid rec digest now r)"
    using one row_at [OF assms(1) _ key] unfolding hit_def [symmetric]
    by (metis row_of_Some)
  show "s' = s" if "\<not> won" using one that unfolding s'(2) by (simp add: sql_update_none)
  show "unique_keys ao_preview_id (agent_name_operations s')"
    unfolding s'(2) using assms(1) by (auto intro: row_intros)
qed

text \<open>A successful claim names the operation previewed for exactly this grant, still unexpired.\<close>

lemma confirm_claim_cases:
  assumes "unique_keys ao_preview_id (agent_name_operations s)"
    and "confirm_claim g k now1 now2 s = (res, s')"
  shows "(\<exists>r. res = Inr (ConfirmAct r) \<and> row_of ao_preview_id k (agent_name_operations s) = Some r \<and>
      agent_claimable k (ag_principal_id g) (ag_record_id g) (ag_digest g) now2 r \<and>
      ao_expires_at r > now1 \<and>
      claim_agent_name_operation k (ag_principal_id g) (ag_record_id g) (ag_digest g) now2 s = (True, s'))
    \<or> (\<forall>r. res \<noteq> Inr (ConfirmAct r)) \<and> s' = s"
proof (cases "operation_for g k s")
  case (Inl e)
  with assms(2) show ?thesis by (auto simp: confirm_claim_def)
next
  case (Inr r)
  then have r: "row_of ao_preview_id k (agent_name_operations s) = Some r"
    by (auto simp: operation_for_def get_agent_name_operation_def split: if_splits option.splits)
  obtain won t where c:
    "claim_agent_name_operation k (ag_principal_id g) (ag_record_id g) (ag_digest g) now2 s = (won, t)"
    by (metis surj_pair)
  note p = claim_agent_props(2,3) [OF assms(1) c]
  show ?thesis
    using assms(2) Inr r c p
    by (cases won) (auto simp: confirm_claim_def split: if_splits sum.splits)
qed

lemma agent_step_rows:
  assumes "unique_keys ao_preview_id (agent_name_operations s)"
  shows "unique_keys ao_preview_id (agent_name_operations (agent_step x s)) \<and>
    (\<forall>k r. row_of ao_preview_id k (agent_name_operations s) = Some r \<longrightarrow>
      (\<exists>r'. row_of ao_preview_id k (agent_name_operations (agent_step x s)) = Some r' \<and> agent_evolves r r'))"
proof (cases x)
  case (AgentPreview p)
  with assms show ?thesis
    by (auto simp: create_agent_name_operation_def unique_keys_snoc row_of_append agent_evolves_def
        agent_move.simps split: option.splits elim: agent_move.elims)
      (case_tac "ao_state r"; simp)+
next
  case (AgentConfirm g k t1 t2)
  obtain res s' where c: "confirm_claim g k t1 t2 s = (res, s')" by (metis surj_pair)
  have refl: "agent_evolves r r" for r by (cases "ao_state r") (simp_all add: agent_evolves_def)
  have exec: "agent_evolves r (r\<lparr>ao_state := AgentExecuting\<rparr>)"
    if "agent_claimable k (ag_principal_id g) (ag_record_id g) (ag_digest g) t2 r" for r
    using that by (simp add: agent_evolves_def agent_claimable_def)
  from confirm_claim_cases [OF assms c] show ?thesis
    using AgentConfirm c assms refl exec claim_agent_props(1,4) [OF assms]
    by (elim disjE exE conjE) auto
next
  case (AgentFinish k st res)
  have refl: "agent_evolves r r" for r by (cases "ao_state r") (simp_all add: agent_evolves_def)
  show ?thesis
  proof (cases "parse_terminal st")
    case None
    with AgentFinish assms refl show ?thesis by (auto simp: finish_agent_name_operation_def)
  next
    case (Some q)
    then have "q \<noteq> AgentPreviewed"
      by (auto simp: parse_terminal_def split: if_splits)
    then show ?thesis
      using AgentFinish assms refl Some
      by (auto simp: finish_agent_name_operation_def agent_evolves_def
          row_of_sql_update [where key = ao_preview_id] intro!: row_intros)
  qed
qed

lemma may_act_state:
  assumes "unique_keys ao_preview_id (agent_name_operations s)" and "may_act k x s"
  shows "\<exists>r r'. row_of ao_preview_id k (agent_name_operations s) = Some r \<and> ao_state r = AgentPreviewed \<and>
    row_of ao_preview_id k (agent_name_operations (agent_step x s)) = Some r' \<and> ao_state r' = AgentExecuting"
proof -
  from assms(2) obtain g t1 t2 where x: "x = AgentConfirm g k t1 t2"
    by (cases x) (auto simp: may_act_def)
  obtain res s' where c: "confirm_claim g k t1 t2 s = (res, s')" by (metis surj_pair)
  with assms(2) x obtain r where "res = Inr (ConfirmAct r)"
    by (auto simp: may_act_def split: sum.splits confirm_start.splits)
  with confirm_claim_cases [OF assms(1) c] obtain r where
    r: "row_of ao_preview_id k (agent_name_operations s) = Some r"
      "agent_claimable k (ag_principal_id g) (ag_record_id g) (ag_digest g) t2 r"
      "claim_agent_name_operation k (ag_principal_id g) (ag_record_id g) (ag_digest g) t2 s = (True, s')"
    by auto
  with claim_agent_props(1) [OF assms(1) r(3), of k] x c show ?thesis
    by (auto simp: agent_claimable_def)
qed

lemma acts_bound:
  assumes "unique_keys ao_preview_id (agent_name_operations s)"
  shows "acts k xs s \<le> 1 \<and>
    (\<forall>r. row_of ao_preview_id k (agent_name_operations s) = Some r \<longrightarrow> ao_state r \<noteq> AgentPreviewed \<longrightarrow>
      acts k xs s = 0)"
  using assms
proof (induction xs arbitrary: s)
  case Nil
  then show ?case by simp
next
  case (Cons x xs)
  note step = agent_step_rows [OF Cons.prems, of x]
  note IH = Cons.IH [of "agent_step x s"]
  have later: "acts k xs (agent_step x s) = 0"
    if "row_of ao_preview_id k (agent_name_operations s) = Some r" "ao_state r \<noteq> AgentPreviewed" for r
  proof -
    from step that obtain r' where
      "row_of ao_preview_id k (agent_name_operations (agent_step x s)) = Some r'" "agent_evolves r r'"
      by blast
    with that(2) have "ao_state r' \<noteq> AgentPreviewed"
      by (cases "ao_state r") (auto simp: agent_evolves_def)
    with IH step \<open>row_of _ _ _ = Some r'\<close> show ?thesis by blast
  qed
  show ?case
  proof (cases "may_act k x s")
    case True
    from may_act_state [OF Cons.prems True] IH step show ?thesis by force
  next
    case False
    with IH step later show ?thesis by auto
  qed
qed

lemma terminal_stays:
  assumes "unique_keys ao_preview_id (agent_name_operations s)"
    and "row_of ao_preview_id k (agent_name_operations s) = Some r"
    and "ao_state r \<notin> {AgentPreviewed, AgentExecuting}"
  shows "row_of ao_preview_id k (agent_name_operations (agent_run xs s)) = Some r"
  using assms
proof (induction xs arbitrary: s)
  case Nil
  then show ?case by (simp add: agent_run_def)
next
  case (Cons x xs)
  from agent_step_rows [OF Cons.prems(1), of x] Cons.prems(2) obtain r' where
    r': "row_of ao_preview_id k (agent_name_operations (agent_step x s)) = Some r'" "agent_evolves r r'"
    and u: "unique_keys ao_preview_id (agent_name_operations (agent_step x s))" by blast
  have "r' = r"
    using r'(2) Cons.prems(3) by (cases "ao_state r") (auto simp: agent_evolves_def)
  with Cons.IH [OF u] r'(1) Cons.prems(3) show ?case by (simp add: agent_run_def)
qed

section \<open>Properties\<close>

text \<open>
  Authorization is default-deny and exact: a request obtains a grant if and only if the policy
  is enabled, every one of its principals and grants is well-formed, the bearer token hashes to
  the token of a configured principal, and that principal holds a grant for exactly the requested
  record; the grant carries that principal's identity, the account and broker of that grant, and
  the digest of the principal's whole entry.
\<close>
theorem agent_authorization_exact:
  "authenticate sha dig policy auth rec = Inr g \<longleftrightarrow>
    (\<exists>d ps. policy = JObj d \<and> dict_get ''enabled'' d = Some (JBool True) \<and>
      arr_at ''principals'' d = Some ps \<and> ps \<noteq> [] \<and> valid_principals [] [] ps \<and>
      take 7 auth = bearer \<and> 7 < length auth \<and> length auth \<le> 4096 \<and>
      (\<exists>p \<in> set (map as_dict ps). text_at ''token_sha256'' p = sha (drop 7 auth) \<and>
        (\<exists>q \<in> set (grants_of p). text_at ''record_id'' q = rec \<and>
          g = \<lparr>ag_principal_id = text_at ''id'' p, ag_record_id = rec,
            ag_account = text_at ''account'' q, ag_broker = text_at ''broker'' q,
            ag_digest = dig (JObj p)\<rparr>)))" (is "?l \<longleftrightarrow> ?r")
proof -
  consider (ok) d ps where "policy = JObj d" "dict_get ''enabled'' d = Some (JBool True)"
      "arr_at ''principals'' d = Some ps" "ps \<noteq> []" "valid_principals [] [] ps"
    | (bad) "\<not> (\<exists>d ps. policy = JObj d \<and> dict_get ''enabled'' d = Some (JBool True) \<and>
        arr_at ''principals'' d = Some ps \<and> ps \<noteq> [] \<and> valid_principals [] [] ps)" by blast
  then show ?thesis
  proof cases
    case ok
    with authenticate_Inr [OF ok(5,4,2,3)] show ?thesis by simp
  next
    case bad
    then have "\<not> ?r" by blast
    moreover have "\<not> ?l"
      using bad by (cases policy) (auto simp: authenticate_def split: option.splits)
    ultimately show ?thesis by blast
  qed
qed

text \<open>
  The right to act on a preview is given out exactly when the caller's grant names the principal,
  the record and the policy digest of the preview, the preview is still unclaimed, and it has not
  expired at either of the two clock reads; the same transaction then marks it executing. In every
  other case, the refusals included, the store is left as it is.
\<close>
theorem agent_confirm_exact:
  assumes "unique_keys ao_preview_id (agent_name_operations s)"
    and "confirm_claim g k t1 t2 s = (res, s')"
  shows "((\<exists>r. res = Inr (ConfirmAct r)) \<longleftrightarrow>
      hex_text 32 k \<and> (\<exists>r. row_of ao_preview_id k (agent_name_operations s) = Some r \<and>
        ao_principal_id r = ag_principal_id g \<and> ao_record_id r = ag_record_id g \<and>
        ao_grant_digest r = ag_digest g \<and> ao_state r = AgentPreviewed \<and>
        t1 < ao_expires_at r \<and> t2 < ao_expires_at r)) \<and>
    ((\<exists>r. res = Inr (ConfirmAct r) \<and>
        row_of ao_preview_id k (agent_name_operations s') = Some (r\<lparr>ao_state := AgentExecuting\<rparr>)) \<or>
      s' = s \<and> (\<forall>r. res \<noteq> Inr (ConfirmAct r)))"
proof -
  have shape: "hex_text 32 k" if "res = Inr (ConfirmAct r)" for r
    using that assms(2)
    by (auto simp: confirm_claim_def operation_for_def split: if_splits sum.splits option.splits)
  have give: "\<exists>r. res = Inr (ConfirmAct r)"
    if "hex_text 32 k" "row_of ao_preview_id k (agent_name_operations s) = Some r"
      "agent_claimable k (ag_principal_id g) (ag_record_id g) (ag_digest g) t2 r" "t1 < ao_expires_at r" for r
  proof -
    obtain won t where c:
      "claim_agent_name_operation k (ag_principal_id g) (ag_record_id g) (ag_digest g) t2 s = (won, t)"
      by (metis surj_pair)
    with claim_agent_props(2) [OF assms(1) c] that assms(2) show ?thesis
      by (auto simp: confirm_claim_def operation_for_def get_agent_name_operation_def agent_claimable_def)
  qed
  from confirm_claim_cases [OF assms] show ?thesis
  proof (elim disjE exE conjE)
    fix r assume r: "res = Inr (ConfirmAct r)" "row_of ao_preview_id k (agent_name_operations s) = Some r"
      "agent_claimable k (ag_principal_id g) (ag_record_id g) (ag_digest g) t2 r" "t1 < ao_expires_at r"
      "claim_agent_name_operation k (ag_principal_id g) (ag_record_id g) (ag_digest g) t2 s = (True, s')"
    with claim_agent_props(1) [OF assms(1) r(5), of k] shape [OF r(1)] show ?thesis
      by (auto simp: agent_claimable_def)
  next
    assume "\<forall>r. res \<noteq> Inr (ConfirmAct r)" "s' = s"
    with give show ?thesis by (auto simp: agent_claimable_def dest: row_of_Some)
  qed
qed

definition demo_preview :: agent_preview where
  "demo_preview = \<lparr>ap_preview_id = replicate 32 (CHR ''a''), ap_principal_id = ''bot'',
     ap_record_id = ''rec1'', ap_grant_digest = ''dg'', ap_expires_at = seconds 300, ap_snapshot = JObj []\<rparr>"

definition demo_grant :: agent_grant where
  "demo_grant = \<lparr>ag_principal_id = ''bot'', ag_record_id = ''rec1'', ag_account = ''a'', ag_broker = ''b'',
     ag_digest = ''dg''\<rparr>"

definition demo_agent :: op_store where
  "demo_agent = agent_step (AgentPreview demo_preview) empty_store"

lemma demo_agent_unique: "unique_keys ao_preview_id (agent_name_operations demo_agent)"
  by code_simp

lemma agent_confirm_exact_witness:
  "\<exists>r. fst (confirm_claim demo_grant (ap_preview_id demo_preview) 5 6 demo_agent) = Inr (ConfirmAct r)"
proof -
  have "hex_text 32 (ap_preview_id demo_preview)" by code_simp
  moreover have "\<exists>r. row_of ao_preview_id (ap_preview_id demo_preview) (agent_name_operations demo_agent) = Some r \<and>
      ao_principal_id r = ag_principal_id demo_grant \<and> ao_record_id r = ag_record_id demo_grant \<and>
      ao_grant_digest r = ag_digest demo_grant \<and> ao_state r = AgentPreviewed \<and>
      5 < ao_expires_at r \<and> 6 < ao_expires_at r"
    by (simp add: demo_agent_def create_agent_name_operation_def demo_preview_def empty_store_def
        demo_grant_def row_of_Cons seconds_def)
  ultimately show ?thesis
    using agent_confirm_exact [OF demo_agent_unique surjective_pairing, of demo_grant
        "ap_preview_id demo_preview" 5 6] by blast
qed

text \<open>
  C4. A preview is acted on at most once, whatever previews, confirmations and completions follow
  in whatever order, and never once it has left the previewed state; a finished operation keeps
  its state and its recorded result for good.
\<close>
theorem agent_preview_single_use:
  assumes "unique_keys ao_preview_id (agent_name_operations s)"
  shows "acts k xs s \<le> 1 \<and>
    (\<forall>r. row_of ao_preview_id k (agent_name_operations s) = Some r \<longrightarrow>
      (ao_state r \<noteq> AgentPreviewed \<longrightarrow> acts k xs s = 0) \<and>
      (ao_state r \<notin> {AgentPreviewed, AgentExecuting} \<longrightarrow>
        row_of ao_preview_id k (agent_name_operations (agent_run xs s)) = Some r))"
  using acts_bound [OF assms] terminal_stays [OF assms] by blast

lemma agent_preview_single_use_witness:
  "acts (ap_preview_id demo_preview)
     [AgentConfirm demo_grant (ap_preview_id demo_preview) 5 6,
      AgentFinish (ap_preview_id demo_preview) ''unknown'' JNull,
      AgentConfirm demo_grant (ap_preview_id demo_preview) 7 8] demo_agent \<le> 1"
  using agent_preview_single_use [OF demo_agent_unique] by blast

end
