(* ===== verification/Fx_Confirmations.thy ===== *)
theory Fx_Confirmations
  imports Op_Schema
begin

text \<open>
  Confirmed exchange rates of cash flows
  (\<open>app/operation_state/_fx_confirmation_mixin.py\<close>): recording one, reading the latest one of a
  record, and carrying over the confirmations of an older database, whose rows are an argument
  (\<open>None\<close> where it has no such table).
\<close>

section \<open>Operations\<close>

definition record_fx_confirmation :: "instant \<Rightarrow> fx_confirmation \<Rightarrow> op_store \<Rightarrow> string \<times> op_store" where
  "record_fx_confirmation now c s =
     (fx_confirmation_id c,
      s\<lparr>fx_confirmations := filter (\<lambda>r. fx_confirmation_id r \<noteq> fx_confirmation_id c) (fx_confirmations s) @
        [c\<lparr>fx_confirmation_json := canonical_json (fx_confirmation_json c), fx_confirmed_at := now\<rparr>]\<rparr>)"

text \<open>\<open>ORDER BY confirmed_at DESC LIMIT 1\<close>, over the index on record and time.\<close>

definition latest_fx_confirmation :: "string \<Rightarrow> op_store \<Rightarrow> fx_confirmation option" where
  "latest_fx_confirmation record_id s =
     (case sort_key (\<lambda>r. - fx_confirmed_at r) (filter (\<lambda>r. fx_record_id r = record_id) (fx_confirmations s)) of
        [] \<Rightarrow> None | r # _ \<Rightarrow> Some r)"

fun import_rows :: "fx_confirmation list \<Rightarrow> fx_confirmation list \<Rightarrow> nat \<times> fx_confirmation list" where
  "import_rows [] t = (0, t)"
| "import_rows (r # rs) t =
     (let (t1, n) = insert_ignore fx_confirmation_id r t; (m, t2) = import_rows rs t1 in (n + m, t2))"

definition import_legacy_fx_confirmations ::
    "fx_confirmation list option \<Rightarrow> op_store \<Rightarrow> (nat \<times> nat) \<times> op_store" where
  "import_legacy_fx_confirmations legacy s = (case legacy of
      None \<Rightarrow> ((0, 0), s)
    | Some rows \<Rightarrow> let (imported, t) = import_rows rows (fx_confirmations s)
        in ((length rows, imported), s\<lparr>fx_confirmations := t\<rparr>))"

section \<open>Lemmas\<close>

lemma import_rows_props:
  assumes "unique_keys fx_confirmation_id t" and "import_rows rs t = (n, t')"
  shows "unique_keys fx_confirmation_id t'"
    and "row_of fx_confirmation_id k t = Some r \<Longrightarrow> row_of fx_confirmation_id k t' = Some r"
    and "r \<in> set rs \<Longrightarrow> fx_confirmation_id r \<in> fx_confirmation_id ` set t'"
    and "length t' = length t + n"
proof -
  have "unique_keys fx_confirmation_id t' \<and>
      (\<forall>k r. row_of fx_confirmation_id k t = Some r \<longrightarrow> row_of fx_confirmation_id k t' = Some r) \<and>
      fx_confirmation_id ` (set rs \<union> set t) \<subseteq> fx_confirmation_id ` set t' \<and> length t' = length t + n"
    using assms
  proof (induction rs arbitrary: t n)
    case (Cons r rs)
    define t1 where "t1 = fst (insert_ignore fx_confirmation_id r t)"
    from Cons.prems(2) obtain m where m: "import_rows rs t1 = (m, t')"
      and n: "n = snd (insert_ignore fx_confirmation_id r t) + m"
      by (auto simp: t1_def Let_def split: prod.splits)
    have u: "unique_keys fx_confirmation_id t1"
      unfolding t1_def using Cons.prems(1) by (rule unique_keys_insert_ignore)
    have "fx_confirmation_id ` (insert r (set t)) \<subseteq> fx_confirmation_id ` set t1"
      "length t1 = length t + snd (insert_ignore fx_confirmation_id r t)"
      by (auto simp: t1_def insert_ignore_def)
    moreover have "row_of fx_confirmation_id k t = Some q \<Longrightarrow> row_of fx_confirmation_id k t1 = Some q" for k q
      by (simp add: t1_def row_of_insert_ignore)
    ultimately show ?case using Cons.IH [OF u m] n by (auto simp: image_subset_iff)
  qed auto
  then show "unique_keys fx_confirmation_id t'"
    "row_of fx_confirmation_id k t = Some r \<Longrightarrow> row_of fx_confirmation_id k t' = Some r"
    "r \<in> set rs \<Longrightarrow> fx_confirmation_id r \<in> fx_confirmation_id ` set t'"
    "length t' = length t + n" by blast+
qed

lemma import_rows_known:
  assumes "\<forall>r \<in> set rs. fx_confirmation_id r \<in> fx_confirmation_id ` set t"
  shows "import_rows rs t = (0, t)"
  using assms by (induction rs) (auto simp: insert_ignore_def)

section \<open>Properties\<close>

text \<open>
  Carrying over older confirmations is idempotent and never overrides: every confirmation that
  is already stored stays as it is, the count reported is the number of rows added, every older
  confirmation is present afterwards, and importing the same rows again adds nothing.
\<close>
theorem fx_import_idempotent:
  assumes "unique_keys fx_confirmation_id (fx_confirmations s)"
    and "import_legacy_fx_confirmations (Some rows) s = ((scanned, imported), s')"
  shows "scanned = length rows \<and>
    length (fx_confirmations s') = length (fx_confirmations s) + imported \<and>
    (\<forall>k r. row_of fx_confirmation_id k (fx_confirmations s) = Some r \<longrightarrow>
      row_of fx_confirmation_id k (fx_confirmations s') = Some r) \<and>
    (\<forall>r \<in> set rows. row_of fx_confirmation_id (fx_confirmation_id r) (fx_confirmations s') \<noteq> None) \<and>
    import_legacy_fx_confirmations (Some rows) s' = ((length rows, 0), s')"
proof -
  from assms(2) obtain t where t: "import_rows rows (fx_confirmations s) = (imported, t)"
    and s': "scanned = length rows" "s' = s\<lparr>fx_confirmations := t\<rparr>"
    by (auto simp: import_legacy_fx_confirmations_def Let_def split: prod.splits)
  note p = import_rows_props [OF assms(1) t]
  have "import_rows rows t = (0, t)" using p(3) by (intro import_rows_known) blast
  with s' p show ?thesis
    by (simp add: import_legacy_fx_confirmations_def row_of_None)
qed

definition demo_fx :: "string \<Rightarrow> instant \<Rightarrow> fx_confirmation" where
  "demo_fx k at = \<lparr>fx_confirmation_id = k, fx_record_id = ''r1'', fx_source_hash = ''h'', fx_exchange_rate = ''7.1'',
     fx_exchange_rate_date = ''2025-01-02'', fx_exchange_rate_source = ''bank'', fx_evidence_type = ''operator'',
     fx_cny_amount = ''71'', fx_confirmation_json = JNull, fx_confirmed_at = at\<rparr>"

lemma fx_import_idempotent_witness:
  "import_legacy_fx_confirmations (Some [demo_fx ''a'' 1, demo_fx ''b'' 2])
     (snd (import_legacy_fx_confirmations (Some [demo_fx ''a'' 1, demo_fx ''b'' 2]) empty_store)) =
   ((2, 0), snd (import_legacy_fx_confirmations (Some [demo_fx ''a'' 1, demo_fx ''b'' 2]) empty_store))"
proof -
  have u: "unique_keys fx_confirmation_id (fx_confirmations empty_store)" by code_simp
  let ?rows = "[demo_fx ''a'' 1, demo_fx ''b'' 2]"
  let ?out = "import_legacy_fx_confirmations (Some ?rows) empty_store"
  have "?out = ((fst (fst ?out), snd (fst ?out)), snd ?out)" by simp
  from fx_import_idempotent [OF u this] show ?thesis by simp
qed

text \<open>
  A confirmation recorded after every stored one of its record is the one read back, with its
  values and in canonical form, and it replaces the confirmation of the same id: there is then
  exactly one row with that id.
\<close>
theorem fx_record_read_back:
  assumes "unique_keys fx_confirmation_id (fx_confirmations s)"
    and "\<forall>r \<in> set (fx_confirmations s). fx_record_id r = fx_record_id c \<longrightarrow> fx_confirmed_at r < now"
  shows "latest_fx_confirmation (fx_record_id c) (snd (record_fx_confirmation now c s)) =
      Some (c\<lparr>fx_confirmation_json := canonical_json (fx_confirmation_json c), fx_confirmed_at := now\<rparr>) \<and>
    unique_keys fx_confirmation_id (fx_confirmations (snd (record_fx_confirmation now c s))) \<and>
    row_of fx_confirmation_id (fx_confirmation_id c) (fx_confirmations (snd (record_fx_confirmation now c s))) =
      Some (c\<lparr>fx_confirmation_json := canonical_json (fx_confirmation_json c), fx_confirmed_at := now\<rparr>)"
proof -
  define new where "new = c\<lparr>fx_confirmation_json := canonical_json (fx_confirmation_json c), fx_confirmed_at := now\<rparr>"
  define t where "t = filter (\<lambda>r. fx_confirmation_id r \<noteq> fx_confirmation_id c) (fx_confirmations s)"
  have s': "fx_confirmations (snd (record_fx_confirmation now c s)) = t @ [new]"
    by (simp add: record_fx_confirmation_def t_def new_def)
  define own where "own = filter (\<lambda>r. fx_record_id r = fx_record_id c) t"
  have fl: "filter (\<lambda>r. fx_record_id r = fx_record_id c) (t @ [new]) = own @ [new]"
    by (simp add: own_def new_def)
  define srt where "srt = sort_key (\<lambda>r. - fx_confirmed_at r) (own @ [new])"
  have st: "set srt = insert new (set own)" by (simp add: srt_def)
  then obtain x xs where x: "srt = x # xs" by (cases srt) auto
  have "sorted (map (\<lambda>r. - fx_confirmed_at r) srt)" by (simp add: srt_def)
  then have "\<forall>y \<in> set srt. fx_confirmed_at y \<le> fx_confirmed_at x" by (auto simp: x)
  with st have "now \<le> fx_confirmed_at x" by (auto simp: new_def)
  moreover have "x = new \<or> fx_confirmed_at x < now"
    using st x assms(2) by (auto simp: own_def t_def)
  ultimately have "x = new" by auto
  then have latest: "latest_fx_confirmation (fx_record_id c) (snd (record_fx_confirmation now c s)) = Some new"
    by (simp add: latest_fx_confirmation_def s' fl srt_def [symmetric] x del: filter_append)
  have "distinct (map fx_confirmation_id t)"
    using assms(1) by (auto simp: unique_keys_def t_def distinct_map inj_on_def)
  then have u: "unique_keys fx_confirmation_id (t @ [new])"
    by (auto simp: unique_keys_snoc unique_keys_def t_def new_def)
  have "row_of fx_confirmation_id (fx_confirmation_id c) (t @ [new]) = Some new"
    by (rule row_at [OF u]) (simp_all add: new_def)
  with latest u show ?thesis by (simp add: s' new_def)
qed

lemma fx_record_read_back_witness:
  "latest_fx_confirmation ''r1'' (snd (record_fx_confirmation 5 (demo_fx ''a'' 0)
     (snd (record_fx_confirmation 3 (demo_fx ''b'' 0) empty_store)))) = Some (demo_fx ''a'' 5)"
proof -
  have u: "unique_keys fx_confirmation_id (fx_confirmations (snd (record_fx_confirmation 3 (demo_fx ''b'' 0) empty_store)))"
    by code_simp
  have o: "\<forall>r \<in> set (fx_confirmations (snd (record_fx_confirmation 3 (demo_fx ''b'' 0) empty_store))).
      fx_record_id r = fx_record_id (demo_fx ''a'' 0) \<longrightarrow> fx_confirmed_at r < 5" by code_simp
  from fx_record_read_back [OF u o] show ?thesis by (simp add: demo_fx_def)
qed

end
