(* ===== verification/Dates.thy ===== *)
theory Dates
  imports Prelude
begin

text \<open>
  Calendar dates as Python's \<open>datetime.date\<close> holds them, and \<open>date.fromisoformat\<close> on texts of the
  form \<open>YYYY-MM-DD\<close>, the only form the program stores; any other text raises.
\<close>

record py_date =
  dt_year :: nat
  dt_month :: nat
  dt_day :: nat

definition leap_year :: "nat \<Rightarrow> bool" where
  "leap_year y \<longleftrightarrow> y mod 4 = 0 \<and> (y mod 100 \<noteq> 0 \<or> y mod 400 = 0)"

definition month_days :: "nat \<Rightarrow> nat \<Rightarrow> nat" where
  "month_days y m = (if m = 2 \<and> leap_year y then 29
     else [31, 28, 31, 30, 31, 30, 31, 31, 30, 31, 30, 31] ! (m - 1))"

definition valid_date :: "py_date \<Rightarrow> bool" where
  "valid_date d \<longleftrightarrow> 1 \<le> dt_year d \<and> dt_year d \<le> 9999 \<and> 1 \<le> dt_month d \<and> dt_month d \<le> 12 \<and>
     1 \<le> dt_day d \<and> dt_day d \<le> month_days (dt_year d) (dt_month d)"

definition digit_value :: "char \<Rightarrow> nat option" where
  "digit_value c = (if chars_between (CHR ''0'') (CHR ''9'') c then Some (of_char c - 48) else None)"

fun digits_value :: "nat \<Rightarrow> string \<Rightarrow> nat option" where
  "digits_value acc [] = Some acc"
| "digits_value acc (c # cs) = (case digit_value c of None \<Rightarrow> None | Some n \<Rightarrow> digits_value (10 * acc + n) cs)"

definition date_fromisoformat :: "string \<Rightarrow> py_exn + py_date" where
  "date_fromisoformat t =
     (if length t = 10 \<and> t ! 4 = CHR ''-'' \<and> t ! 7 = CHR ''-'' then
        (case (digits_value 0 (take 4 t), digits_value 0 (take 2 (drop 5 t)), digits_value 0 (drop 8 t)) of
           (Some y, Some m, Some d) \<Rightarrow>
             let date = \<lparr>dt_year = y, dt_month = m, dt_day = d\<rparr>
             in if valid_date date then Inr date else Inl (ValueError (''Invalid isoformat string: '' @ t))
         | _ \<Rightarrow> Inl (ValueError (''Invalid isoformat string: '' @ t)))
      else Inl (ValueError (''Invalid isoformat string: '' @ t)))"

text \<open>The order of dates, as the comparison operators of \<open>date\<close> decide it.\<close>

instantiation py_date_ext :: (linorder) linorder
begin

definition less_eq_py_date_ext :: "'a py_date_scheme \<Rightarrow> 'a py_date_scheme \<Rightarrow> bool" where
  "d \<le> e \<longleftrightarrow> (dt_year d, dt_month d, dt_day d, py_date.more d) \<le>
     (dt_year e, dt_month e, dt_day e, py_date.more e)"

definition less_py_date_ext :: "'a py_date_scheme \<Rightarrow> 'a py_date_scheme \<Rightarrow> bool" where
  "d < e \<longleftrightarrow> (dt_year d, dt_month d, dt_day d, py_date.more d) <
     (dt_year e, dt_month e, dt_day e, py_date.more e)"

instance
proof
  fix d e f :: "'a py_date_scheme"
  show "d < e \<longleftrightarrow> d \<le> e \<and> \<not> e \<le> d"
    unfolding less_eq_py_date_ext_def less_py_date_ext_def by (rule less_le_not_le)
  show "d \<le> d" unfolding less_eq_py_date_ext_def by (rule order_refl)
  show "d \<le> f" if "d \<le> e" "e \<le> f"
    using that unfolding less_eq_py_date_ext_def by (rule order_trans)
  show "d = e" if "d \<le> e" "e \<le> d"
  proof -
    from that have "(dt_year d, dt_month d, dt_day d, py_date.more d) =
        (dt_year e, dt_month e, dt_day e, py_date.more e)"
      unfolding less_eq_py_date_ext_def by (rule antisym)
    then show ?thesis by (intro py_date.equality) simp_all
  qed
  show "d \<le> e \<or> e \<le> d" unfolding less_eq_py_date_ext_def by (rule linear)
qed

end

definition date_le :: "py_date \<Rightarrow> py_date \<Rightarrow> bool" where
  "date_le d e \<longleftrightarrow> d \<le> e"

definition date_less :: "py_date \<Rightarrow> py_date \<Rightarrow> bool" where
  "date_less d e \<longleftrightarrow> d < e"

lemma date_not_le [simp]: "\<not> date_le d e \<longleftrightarrow> date_less e d"
  by (simp only: date_le_def date_less_def not_le)

lemma date_not_less [simp]: "\<not> date_less d e \<longleftrightarrow> date_le e d"
  by (simp only: date_le_def date_less_def not_less)

text \<open>Earlier years come first, and within a year earlier months.\<close>

lemma date_year_mono: "(d :: py_date) \<le> e \<Longrightarrow> dt_year d \<le> dt_year e"
  by (auto simp: less_eq_py_date_ext_def)

end
