(* ===== verification/Effect_Store.thy ===== *)
theory Effect_Store
  imports Op_Schema Dates
begin

text \<open>
  The durable workflow state of confirmed cash-flow effects (\<open>app/cash_flow_effect_store.py\<close>):
  versioned effects with their history, scan runs, cash holding fingerprints and effect receipts.
  Fresh identifiers and the clock readings of a call are arguments, in the order the code draws
  them. A value for a text column is stored as SQLite converts it: a number by its digits (integers
  within 64 bits, floats by their \<open>repr\<close>), null as NULL, and a list or an object cannot be bound.
\<close>

section \<open>Tables\<close>

record effect_row =
  ef_effect_id :: string
  ef_effect_kind :: string
  ef_hash_contract_version :: string
  ef_record_id :: string
  ef_version :: nat
  ef_source_hash :: string
  ef_source_json :: json
  ef_state :: string
  ef_mode :: string
  ef_account :: string
  ef_broker :: string
  ef_currency :: string
  ef_signed_amount :: string
  ef_flow_date :: string
  ef_target_source :: "string option"
  ef_before_json :: "json option"
  ef_targets_json :: "json option"
  ef_preview_hash :: "string option"
  ef_warnings_json :: "json option"
  ef_confirmation_json :: "json option"
  ef_compensation_task_id :: "string option"
  ef_last_error :: "string option"
  ef_created_at :: instant
  ef_updated_at :: instant

record effect_event =
  ev_event_id :: nat
  ev_effect_id :: string
  ev_event_type :: string
  ev_payload_json :: json
  ev_created_at :: instant

record scan_run =
  sr_scan_run_id :: string
  sr_scope :: string
  sr_started_at :: instant
  sr_completed_at :: "instant option"
  sr_status :: string
  sr_source_record_count :: "int option"
  sr_source_digest :: "string option"
  sr_added_count :: int
  sr_changed_count :: int
  sr_deleted_count :: int
  sr_blocked_count :: int
  sr_error :: "string option"

record fingerprint =
  fp_holding_identity :: string
  fp_holding_record_id :: "string option"
  fp_last_confirmed_amount :: "string option"
  fp_last_confirmed_hash :: "string option"
  fp_last_observed_amount :: "string option"
  fp_last_observed_hash :: "string option"
  fp_confirmed_by_effect_id :: "string option"
  fp_observed_at :: "instant option"
  fp_updated_at :: instant

record effect_receipt =
  er_receipt_key :: string
  er_receipt_type :: string
  er_effect_id :: "string option"
  er_scan_run_id :: "string option"
  er_payload_json :: json
  er_status :: string
  er_attempt_count :: nat
  er_message_id :: "string option"
  er_last_error :: "string option"
  er_created_at :: instant
  er_updated_at :: instant

record effect_store =
  cutover :: py_date
  effects :: "effect_row list"
  effect_events :: "effect_event list"
  scan_runs :: "scan_run list"
  fingerprints :: "fingerprint list"
  effect_fx_confirmations :: "fx_confirmation list"
  effect_receipts :: "effect_receipt list"

section \<open>States\<close>

definition terminal_effect_states :: "string list" where
  "terminal_effect_states = [''applied'', ''record_only'']"

definition unresolved_effect_states :: "string list" where
  "unresolved_effect_states = [''scheduled'', ''pending'', ''blocked'', ''previewed'', ''stale'',
     ''applying'', ''compensation_pending'']"

definition known_effect_states :: "string list" where
  "known_effect_states = terminal_effect_states @ unresolved_effect_states @
     [''superseded'', ''superseded_by_cash_flow'']"

section \<open>Cutover\<close>

text \<open>\<open>_parse_date\<close> on a text: its first ten characters are a date.\<close>

definition parse_date_text :: "string \<Rightarrow> py_exn + py_date" where
  "parse_date_text t = date_fromisoformat (take 10 t)"

text \<open>
  \<open>initialize\<close>: the first call fixes the cutover date of the database, a later one must name the
  same date. \<open>None\<close> is a path without a database.
\<close>

definition initialize_store :: "string \<Rightarrow> effect_store option \<Rightarrow> py_exn + effect_store" where
  "initialize_store cutover_text existing = bind_result (parse_date_text cutover_text) (\<lambda>d.
     case existing of
       None \<Rightarrow> Inr \<lparr>cutover = d, effects = [], effect_events = [], scan_runs = [], fingerprints = [],
         effect_fx_confirmations = [], effect_receipts = []\<rparr>
     | Some s \<Rightarrow> if cutover s = d then Inr s
         else Inl (RuntimeError ''cash-flow effect cutover_date is immutable''))"

definition assert_cutover :: "string option \<Rightarrow> effect_store \<Rightarrow> py_exn + py_date" where
  "assert_cutover configured s = (case configured of
      None \<Rightarrow> Inl (RuntimeError ''cash-flow effect cutover config is missing after database activation'')
    | Some t \<Rightarrow>
        if t = [] then Inl (RuntimeError ''cash-flow effect cutover config is missing after database activation'')
        else bind_result (parse_date_text t) (\<lambda>requested.
          if requested \<noteq> cutover s
          then Inl (RuntimeError ''cash-flow effect cutover_date is immutable'') else Inr (cutover s)))"

section \<open>Versions\<close>

definition append_effect_event :: "string \<Rightarrow> string \<Rightarrow> dict \<Rightarrow> instant \<Rightarrow> effect_store \<Rightarrow> effect_store" where
  "append_effect_event effect_id event_type payload now s =
     s\<lparr>effect_events := effect_events s @
       [\<lparr>ev_event_id = Suc (length (effect_events s)), ev_effect_id = effect_id,
         ev_event_type = event_type, ev_payload_json = canonical_json (JObj payload),
         ev_created_at = now\<rparr>]\<rparr>"

text \<open>\<open>append_event\<close>: the foreign key refuses an event of an unknown effect.\<close>

definition append_event :: "string \<Rightarrow> string \<Rightarrow> dict \<Rightarrow> instant \<Rightarrow> effect_store \<Rightarrow> (py_exn + unit) \<times> effect_store" where
  "append_event effect_id event_type payload now s =
     (if effect_id \<in> ef_effect_id ` set (effects s)
      then (Inr (), append_effect_event effect_id event_type payload now s)
      else (Inl (IntegrityError ''FOREIGN KEY constraint failed''), s))"

definition get_effect :: "string \<Rightarrow> effect_store \<Rightarrow> effect_row option" where
  "get_effect effect_id s = row_of ef_effect_id effect_id (effects s)"

text \<open>\<open>ORDER BY version DESC LIMIT 1\<close> over some rows.\<close>

definition highest_version :: "effect_row list \<Rightarrow> effect_row option" where
  "highest_version rows = (case sort_key (\<lambda>r. - int (ef_version r)) rows of [] \<Rightarrow> None | r # _ \<Rightarrow> Some r)"

definition versions_of :: "string \<Rightarrow> string \<Rightarrow> effect_store \<Rightarrow> effect_row list" where
  "versions_of kind record_id s =
     filter (\<lambda>r. ef_effect_kind r = kind \<and> ef_record_id r = record_id) (effects s)"

definition get_latest_for_record :: "string \<Rightarrow> string \<Rightarrow> effect_store \<Rightarrow> effect_row option" where
  "get_latest_for_record kind record_id s = highest_version (versions_of kind record_id s)"

definition get_previous_applied :: "string \<Rightarrow> effect_store \<Rightarrow> effect_row option" where
  "get_previous_applied effect_id s = (case get_effect effect_id s of
      None \<Rightarrow> None
    | Some r \<Rightarrow> highest_version (filter (\<lambda>q. ef_version q < ef_version r \<and> ef_state q = ''applied'')
        (versions_of (ef_effect_kind r) (ef_record_id r) s)))"

text \<open>
  The source dictionary of an effect; the columns hold \<open>str(source.get(k) or default)\<close>.
\<close>

definition source_text :: "string \<Rightarrow> string \<Rightarrow> dict \<Rightarrow> string" where
  "source_text k otherwise src = (if falsy (dict_get k src) then otherwise else py_str (the (dict_get k src)))"

definition hash_contract_version :: string where
  "hash_contract_version = ''cash-flow-effects.v1''"

definition new_effect ::
    "string \<Rightarrow> string \<Rightarrow> string \<Rightarrow> nat \<Rightarrow> dict \<Rightarrow> string \<Rightarrow> string \<Rightarrow> string \<Rightarrow> instant \<Rightarrow> effect_row" where
  "new_effect effect_id kind record_id version src source_hash state mode now =
     \<lparr>ef_effect_id = effect_id, ef_effect_kind = kind, ef_hash_contract_version = hash_contract_version,
      ef_record_id = record_id, ef_version = version, ef_source_hash = source_hash, ef_source_json = canonical_json (JObj src),
      ef_state = state, ef_mode = mode, ef_account = source_text ''account'' [] src, ef_broker = source_text ''broker'' [] src,
      ef_currency = source_text ''currency'' [] src,
      ef_signed_amount = source_text ''signed_amount'' ''0'' src,
      ef_flow_date = source_text ''flow_date'' [] src, ef_target_source = None, ef_before_json = None,
      ef_targets_json = None, ef_preview_hash = None, ef_warnings_json = None,
      ef_confirmation_json = None, ef_compensation_task_id = None, ef_last_error = None,
      ef_created_at = now, ef_updated_at = now\<rparr>"

definition superseded_effect :: "instant \<Rightarrow> effect_row \<Rightarrow> effect_row" where
  "superseded_effect now r = r\<lparr>ef_state := ''superseded'', ef_updated_at := now\<rparr>"

text \<open>The step that retires the previous version, where it was still unresolved.\<close>

definition supersede_latest ::
    "effect_row option \<Rightarrow> string \<Rightarrow> instant \<Rightarrow> instant \<Rightarrow> effect_store \<Rightarrow> effect_store" where
  "supersede_latest latest effect_id now now1 s = (case latest of
      None \<Rightarrow> s
    | Some r \<Rightarrow>
        if ef_state r \<in> set unresolved_effect_states
        then append_effect_event (ef_effect_id r) ''superseded'' [(''superseded_by'', JStr effect_id)] now1
          (s\<lparr>effects := sql_update (\<lambda>q. ef_effect_id q = ef_effect_id r) (superseded_effect now) (effects s)\<rparr>)
        else s)"

text \<open>
  \<open>uuid\<close> is the fresh identifier the call draws; the call returns the effect it found or created.
\<close>

definition create_version_tx ::
    "string \<Rightarrow> instant \<Rightarrow> instant \<Rightarrow> instant \<Rightarrow> string \<Rightarrow> dict \<Rightarrow> string \<Rightarrow> string \<Rightarrow> string \<Rightarrow> string \<Rightarrow>
     string \<Rightarrow> effect_store \<Rightarrow> py_exn + effect_row \<times> effect_store" where
  "create_version_tx uuid now now1 now2 record_id src source_hash state mode kind event_type s =
     (let latest = get_latest_for_record kind record_id s;
          effect_id = ''cfe_'' @ uuid;
          version = (case latest of Some r \<Rightarrow> ef_version r + 1 | None \<Rightarrow> 1);
          row = new_effect effect_id kind record_id version src source_hash state mode now
      in if (case latest of Some r \<Rightarrow> ef_source_hash r = source_hash | None \<Rightarrow> False)
         then Inr (the latest, s)
         else if effect_id \<in> ef_effect_id ` set (effects s)
         then Inl (IntegrityError ''UNIQUE constraint failed: cash_flow_effects.effect_id'')
         else Inr (row, append_effect_event effect_id event_type [(''source_hash'', JStr source_hash),
             (''mode'', JStr mode), (''effect_kind'', JStr kind)] now2
           (supersede_latest latest effect_id now now1 (s\<lparr>effects := effects s @ [row]\<rparr>))))"

definition create_version ::
    "string \<Rightarrow> instant \<Rightarrow> instant \<Rightarrow> instant \<Rightarrow> dict \<Rightarrow> string \<Rightarrow> string \<Rightarrow> string \<Rightarrow> string \<Rightarrow>
     string \<Rightarrow> effect_store \<Rightarrow> (py_exn + effect_row) \<times> effect_store" where
  "create_version uuid now now1 now2 src source_hash state mode kind event_type s =
     (if state \<notin> set known_effect_states
      then (Inl (ValueError (''unknown cash-flow effect state: '' @ state)), s)
      else case dict_get ''record_id'' src of
          None \<Rightarrow> (Inl (KeyError ''record_id''), s)
        | Some j \<Rightarrow> commit (create_version_tx uuid now now1 now2 (py_str j) src source_hash state mode kind event_type) s)"

section \<open>Updates\<close>

definition updatable_columns :: "string list" where
  "updatable_columns = [''state'', ''target_source'', ''before_json'', ''targets_json'', ''preview_hash'',
     ''warnings_json'', ''confirmation_json'', ''compensation_task_id'', ''last_error'', ''updated_at'']"

definition text_column :: "json \<Rightarrow> string option" where
  "text_column j = (case j of
      JStr t \<Rightarrow> Some t
    | JInt i \<Rightarrow> Some (int_text i)
    | JBool b \<Rightarrow> Some (if b then ''1'' else ''0'')
    | JFloat t \<Rightarrow> Some t
    | _ \<Rightarrow> None)"

definition json_column :: "json \<Rightarrow> json option" where
  "json_column j = (if j = JNull then None else Some (canonical_json j))"

text \<open>The state column is not null; the update raises before a null is stored.\<close>

definition set_column :: "string \<times> json \<Rightarrow> effect_row \<Rightarrow> effect_row" where
  "set_column kv r = (let k = fst kv; v = snd kv in
     if k = ''state'' then r\<lparr>ef_state := (case text_column v of Some t \<Rightarrow> t | None \<Rightarrow> ef_state r)\<rparr>
     else if k = ''target_source'' then r\<lparr>ef_target_source := text_column v\<rparr>
     else if k = ''before_json'' then r\<lparr>ef_before_json := json_column v\<rparr>
     else if k = ''targets_json'' then r\<lparr>ef_targets_json := json_column v\<rparr>
     else if k = ''preview_hash'' then r\<lparr>ef_preview_hash := text_column v\<rparr>
     else if k = ''warnings_json'' then r\<lparr>ef_warnings_json := json_column v\<rparr>
     else if k = ''confirmation_json'' then r\<lparr>ef_confirmation_json := json_column v\<rparr>
     else if k = ''compensation_task_id'' then r\<lparr>ef_compensation_task_id := text_column v\<rparr>
     else if k = ''last_error'' then r\<lparr>ef_last_error := text_column v\<rparr>
     else r)"

text \<open>The SET clause: the given fields, then the state where one is given, then the time.\<close>

definition updated_effect :: "string option \<Rightarrow> dict \<Rightarrow> instant \<Rightarrow> effect_row \<Rightarrow> effect_row" where
  "updated_effect state cols now r =
     (let r1 = fold set_column cols r;
          r2 = (case state of Some st \<Rightarrow> r1\<lparr>ef_state := st\<rparr> | None \<Rightarrow> r1)
      in r2\<lparr>ef_updated_at := now\<rparr>)"

text \<open>
  The values of the statement: a given state replaces one among the fields, the JSON columns and the
  time are texts.
\<close>

definition json_columns :: "string list" where
  "json_columns = [''source_json'', ''before_json'', ''targets_json'', ''warnings_json'', ''confirmation_json'']"

definition unbindable :: "string option \<Rightarrow> dict \<Rightarrow> bool" where
  "unbindable state cols \<longleftrightarrow> list_ex (\<lambda>kv. fst kv \<notin> set json_columns \<and> fst kv \<noteq> ''updated_at'' \<and>
     (fst kv = ''state'' \<longrightarrow> state = None) \<and> (case snd kv of JArr xs \<Rightarrow> True | JObj d \<Rightarrow> True | _ \<Rightarrow> False)) cols"

definition null_state :: "string option \<Rightarrow> dict \<Rightarrow> bool" where
  "null_state state cols \<longleftrightarrow> state = None \<and> dict_get ''state'' cols = Some JNull"

definition update_hit :: "string \<Rightarrow> string list \<Rightarrow> effect_row \<Rightarrow> bool" where
  "update_hit effect_id expected r \<longleftrightarrow> ef_effect_id r = effect_id \<and> (expected = [] \<or> ef_state r \<in> set expected)"

definition update_effect_tx ::
    "instant \<Rightarrow> instant \<Rightarrow> string \<Rightarrow> string option \<Rightarrow> dict \<Rightarrow> string \<Rightarrow> dict \<Rightarrow> string list \<Rightarrow> effect_store \<Rightarrow>
     py_exn + effect_row \<times> effect_store" where
  "update_effect_tx now now1 effect_id state cols event_type payload expected s =
     (let t = sql_update (update_hit effect_id expected) (updated_effect state cols now) (effects s)
      in if unbindable state cols then Inl (BindingError ''Error binding parameter: type is not supported'')
         else if null_state state cols \<and> rowcount (update_hit effect_id expected) (effects s) \<noteq> 0
         then Inl (IntegrityError ''NOT NULL constraint failed: cash_flow_effects.state'')
         else if rowcount (update_hit effect_id expected) (effects s) \<noteq> 1
         then Inl (RuntimeError (''cash-flow effect state conflict: effect_id='' @ effect_id))
         else case row_of ef_effect_id effect_id t of
             None \<Rightarrow> Inl (TypeError effect_id)
           | Some r \<Rightarrow> Inr (r, append_effect_event effect_id event_type payload now1 (s\<lparr>effects := t\<rparr>)))"

definition update_effect ::
    "instant \<Rightarrow> instant \<Rightarrow> string \<Rightarrow> string option \<Rightarrow> dict \<Rightarrow> string \<Rightarrow> dict \<Rightarrow> string list \<Rightarrow> effect_store \<Rightarrow>
     (py_exn + effect_row) \<times> effect_store" where
  "update_effect now now1 effect_id state cols event_type payload expected s =
     (if (case state of Some st \<Rightarrow> st \<notin> set known_effect_states | None \<Rightarrow> False)
      then (Inl (ValueError (''unknown cash-flow effect state: '' @ the state)), s)
      else if \<not> set (map fst cols) \<subseteq> set updatable_columns
      then (Inl (ValueError ''unsupported cash-flow effect fields''), s)
      else commit (update_effect_tx now now1 effect_id state cols event_type payload expected) s)"

section \<open>Queries\<close>

definition list_effects :: "string option \<Rightarrow> bool \<Rightarrow> string list \<Rightarrow> effect_store \<Rightarrow> effect_row list" where
  "list_effects account latest_only states s =
     sort_key (\<lambda>e. (ef_flow_date e, ef_effect_kind e, ef_record_id e, ef_version e))
       (filter (\<lambda>e. (first_nonempty account [] = [] \<or> ef_account e = first_nonempty account []) \<and>
          (states = [] \<or> ef_state e \<in> set states) \<and>
          (latest_only \<longrightarrow> ef_version e =
             Max (ef_version ` set (versions_of (ef_effect_kind e) (ef_record_id e) s)))) (effects s))"

definition starts_superseded :: "string \<Rightarrow> bool" where
  "starts_superseded state \<longleftrightarrow> take (length ''superseded'') state = ''superseded''"

text \<open>The effects that keep the NAV of a date from being official; a malformed flow date raises.\<close>

fun blockers_loop :: "py_date \<Rightarrow> effect_row list \<Rightarrow> py_exn + effect_row list" where
  "blockers_loop target [] = Inr []"
| "blockers_loop target (e # es) =
     (if ef_state e \<in> set terminal_effect_states \<or> starts_superseded (ef_state e)
      then blockers_loop target es
      else bind_result (parse_date_text (ef_flow_date e)) (\<lambda>flow_date.
        bind_result (blockers_loop target es) (\<lambda>rest.
          Inr (if ef_state e = ''scheduled'' \<and> date_less target flow_date then rest else e # rest))))"

definition list_blockers :: "string \<Rightarrow> py_date \<Rightarrow> effect_store \<Rightarrow> py_exn + effect_row list" where
  "list_blockers account target s = blockers_loop target (list_effects (Some account) True [] s)"

definition list_effect_events :: "string \<Rightarrow> effect_store \<Rightarrow> effect_event list" where
  "list_effect_events effect_id s = sort_key ev_event_id (filter (\<lambda>e. ev_effect_id e = effect_id) (effect_events s))"

section \<open>Scan runs\<close>

definition begin_scan :: "string \<Rightarrow> instant \<Rightarrow> string \<Rightarrow> effect_store \<Rightarrow> (py_exn + string) \<times> effect_store" where
  "begin_scan uuid now scope s =
     (if ''cfs_'' @ uuid \<in> sr_scan_run_id ` set (scan_runs s)
      then (Inl (IntegrityError ''UNIQUE constraint failed: cash_flow_scan_runs.scan_run_id''), s)
      else (Inr (''cfs_'' @ uuid), s\<lparr>scan_runs := scan_runs s @
       [\<lparr>sr_scan_run_id = ''cfs_'' @ uuid, sr_scope = scope, sr_started_at = now, sr_completed_at = None,
         sr_status = ''running'', sr_source_record_count = None, sr_source_digest = None,
         sr_added_count = 0, sr_changed_count = 0, sr_deleted_count = 0, sr_blocked_count = 0,
         sr_error = None\<rparr>]\<rparr>))"

record scan_result =
  sc_source_record_count :: "int option"
  sc_source_digest :: "string option"
  sc_added_count :: int
  sc_changed_count :: int
  sc_deleted_count :: int
  sc_blocked_count :: int
  sc_error :: "string option"

definition finished_scan :: "instant \<Rightarrow> string \<Rightarrow> scan_result \<Rightarrow> scan_run \<Rightarrow> scan_run" where
  "finished_scan now status x r =
     r\<lparr>sr_completed_at := Some now, sr_status := status,
       sr_source_record_count := sc_source_record_count x, sr_source_digest := sc_source_digest x,
       sr_added_count := sc_added_count x, sr_changed_count := sc_changed_count x,
       sr_deleted_count := sc_deleted_count x, sr_blocked_count := sc_blocked_count x,
       sr_error := sc_error x\<rparr>"

definition finish_scan ::
    "instant \<Rightarrow> string \<Rightarrow> string \<Rightarrow> scan_result \<Rightarrow> effect_store \<Rightarrow> (py_exn + scan_run option) \<times> effect_store" where
  "finish_scan now scan_run_id status x s =
     (let hit = (\<lambda>r. sr_scan_run_id r = scan_run_id \<and> sr_status r = ''running'');
          t = sql_update hit (finished_scan now status x) (scan_runs s)
      in if status \<notin> set [''completed'', ''failed'']
         then (Inl (ValueError ''scan status must be completed or failed''), s)
         else if rowcount hit (scan_runs s) \<noteq> 1
         then (Inl (RuntimeError (''scan run is not active: '' @ scan_run_id)), s)
         else (Inr (row_of sr_scan_run_id scan_run_id t), s\<lparr>scan_runs := t\<rparr>))"

definition latest_successful_scan :: "string option \<Rightarrow> effect_store \<Rightarrow> scan_run option" where
  "latest_successful_scan scope s =
     (case sort_key (\<lambda>r. - (case sr_completed_at r of Some t \<Rightarrow> t | None \<Rightarrow> 0))
        (filter (\<lambda>r. sr_status r = ''completed'' \<and>
           (first_nonempty scope [] = [] \<or> sr_scope r = first_nonempty scope [])) (scan_runs s)) of
        [] \<Rightarrow> None | r # _ \<Rightarrow> Some r)"

definition latest_scan :: "string option \<Rightarrow> effect_store \<Rightarrow> scan_run option" where
  "latest_scan scope s =
     (case sort_key (\<lambda>r. - sr_started_at r)
        (filter (\<lambda>r. first_nonempty scope [] = [] \<or> sr_scope r = first_nonempty scope []) (scan_runs s)) of
        [] \<Rightarrow> None | r # _ \<Rightarrow> Some r)"

section \<open>Fingerprints\<close>

definition get_fingerprint :: "string \<Rightarrow> effect_store \<Rightarrow> fingerprint option" where
  "get_fingerprint k s = row_of fp_holding_identity k (fingerprints s)"

definition upsert_fingerprint ::
    "fingerprint \<Rightarrow> (fingerprint \<Rightarrow> fingerprint) \<Rightarrow> effect_store \<Rightarrow> effect_store" where
  "upsert_fingerprint fresh f s =
     s\<lparr>fingerprints := (if fp_holding_identity fresh \<in> fp_holding_identity ` set (fingerprints s)
        then sql_update (\<lambda>r. fp_holding_identity r = fp_holding_identity fresh) f (fingerprints s)
        else fingerprints s @ [fresh])\<rparr>"

definition observe_fingerprint ::
    "instant \<Rightarrow> string \<Rightarrow> string option \<Rightarrow> string \<Rightarrow> string \<Rightarrow> effect_store \<Rightarrow> fingerprint option \<times> effect_store" where
  "observe_fingerprint now k record_id amount hash s =
     (let fresh = \<lparr>fp_holding_identity = k, fp_holding_record_id = record_id, fp_last_confirmed_amount = None,
            fp_last_confirmed_hash = None, fp_last_observed_amount = Some amount,
            fp_last_observed_hash = Some hash, fp_confirmed_by_effect_id = None, fp_observed_at = Some now,
            fp_updated_at = now\<rparr>;
          s1 = upsert_fingerprint fresh (\<lambda>r. r\<lparr>fp_holding_record_id := record_id,
            fp_last_observed_amount := Some amount, fp_last_observed_hash := Some hash,
            fp_observed_at := Some now, fp_updated_at := now\<rparr>) s
      in (get_fingerprint k s1, s1))"

definition confirm_fingerprint ::
    "instant \<Rightarrow> string \<Rightarrow> string option \<Rightarrow> string \<Rightarrow> string \<Rightarrow> string option \<Rightarrow> effect_store \<Rightarrow>
     fingerprint option \<times> effect_store" where
  "confirm_fingerprint now k record_id amount hash effect_id s =
     (let confirmed = \<lparr>fp_holding_identity = k, fp_holding_record_id = record_id,
            fp_last_confirmed_amount = Some amount, fp_last_confirmed_hash = Some hash,
            fp_last_observed_amount = Some amount, fp_last_observed_hash = Some hash,
            fp_confirmed_by_effect_id = effect_id, fp_observed_at = Some now, fp_updated_at = now\<rparr>;
          s1 = upsert_fingerprint confirmed (\<lambda>r. confirmed) s
      in (get_fingerprint k s1, s1))"

text \<open>The second part of an identity, as \<open>split('|', 2)[1]\<close> gives it.\<close>

definition identity_account :: "string \<Rightarrow> py_exn + string" where
  "identity_account k =
     (case dropWhile (\<lambda>c. c \<noteq> CHR ''|'') k of
        [] \<Rightarrow> Inl (IndexError ''list index out of range'')
      | _ # rest \<Rightarrow> Inr (takeWhile (\<lambda>c. c \<noteq> CHR ''|'') rest))"

fun of_account :: "string \<Rightarrow> fingerprint list \<Rightarrow> py_exn + fingerprint list" where
  "of_account account [] = Inr []"
| "of_account account (r # rs) =
     bind_result (identity_account (fp_holding_identity r)) (\<lambda>a.
       bind_result (of_account account rs) (\<lambda>rest. Inr (if a = account then r # rest else rest)))"

definition list_fingerprints :: "string option \<Rightarrow> effect_store \<Rightarrow> py_exn + fingerprint list" where
  "list_fingerprints account s =
     (let rows = sort_key fp_holding_identity (fingerprints s)
      in if first_nonempty account [] = [] then Inr rows else of_account (first_nonempty account []) rows)"

section \<open>Exchange rate confirmations\<close>

definition record_effect_fx :: "string \<Rightarrow> instant \<Rightarrow> fx_confirmation \<Rightarrow> effect_store \<Rightarrow> (py_exn + string) \<times> effect_store" where
  "record_effect_fx uuid now c s =
     (let confirmation_id = ''cfx_'' @ uuid
      in if confirmation_id \<in> fx_confirmation_id ` set (effect_fx_confirmations s)
         then (Inl (IntegrityError ''UNIQUE constraint failed: cash_flow_fx_confirmations.confirmation_id''), s)
         else (Inr confirmation_id, s\<lparr>effect_fx_confirmations := effect_fx_confirmations s @
           [c\<lparr>fx_confirmation_id := confirmation_id,
              fx_confirmation_json := canonical_json (fx_confirmation_json c), fx_confirmed_at := now\<rparr>]\<rparr>))"

definition latest_effect_fx :: "string \<Rightarrow> effect_store \<Rightarrow> fx_confirmation option" where
  "latest_effect_fx record_id s =
     (case sort_key (\<lambda>r. - fx_confirmed_at r)
        (filter (\<lambda>r. fx_record_id r = record_id) (effect_fx_confirmations s)) of
        [] \<Rightarrow> None | r # _ \<Rightarrow> Some r)"

section \<open>Receipts\<close>

definition enqueue_effect_receipt ::
    "instant \<Rightarrow> string \<Rightarrow> string \<Rightarrow> json \<Rightarrow> string option \<Rightarrow> string option \<Rightarrow> effect_store \<Rightarrow> bool \<times> effect_store" where
  "enqueue_effect_receipt now key receipt_type payload effect_id scan_run_id s =
     (let (t, n) = insert_ignore er_receipt_key
            \<lparr>er_receipt_key = key, er_receipt_type = receipt_type, er_effect_id = effect_id,
             er_scan_run_id = scan_run_id, er_payload_json = canonical_json payload, er_status = ''pending'',
             er_attempt_count = 0, er_message_id = None, er_last_error = None, er_created_at = now,
             er_updated_at = now\<rparr> (effect_receipts s)
      in (n = 1, s\<lparr>effect_receipts := t\<rparr>))"

definition list_pending_receipts :: "int \<Rightarrow> effect_store \<Rightarrow> effect_receipt list" where
  "list_pending_receipts limit s = sql_limit limit (sort_key er_created_at
     (filter (\<lambda>r. er_status r \<in> set [''pending'', ''failed'']) (effect_receipts s)))"

definition list_invalid_receipts :: "int \<Rightarrow> effect_store \<Rightarrow> effect_receipt list" where
  "list_invalid_receipts limit s = sql_limit limit (sort_key (\<lambda>r. - er_updated_at r)
     (filter (\<lambda>r. er_status r = ''invalid'') (effect_receipts s)))"

definition mark_effect_receipt ::
    "instant \<Rightarrow> string \<Rightarrow> bool \<Rightarrow> bool \<Rightarrow> string option \<Rightarrow> string option \<Rightarrow> effect_store \<Rightarrow>
     (py_exn + unit) \<times> effect_store" where
  "mark_effect_receipt now key success retryable message_id err s =
     (let status = (if success then ''sent'' else if retryable then ''failed'' else ''invalid'');
          hit = (\<lambda>r. er_receipt_key r = key)
      in if rowcount hit (effect_receipts s) \<noteq> 1
         then (Inl (KeyError (''receipt not found: '' @ key)), s)
         else (Inr (), s\<lparr>effect_receipts := sql_update hit (\<lambda>r. r\<lparr>er_status := status,
            er_attempt_count := er_attempt_count r + 1, er_message_id := message_id,
            er_last_error := err, er_updated_at := now\<rparr>) (effect_receipts s)\<rparr>))"

section \<open>What the operations keep\<close>

text \<open>
  The versions of one record are numbered 1, 2, 3, .. in the order of their insertion, and every
  history event belongs to a stored effect.
\<close>

definition versions_numbered :: "effect_store \<Rightarrow> bool" where
  "versions_numbered s \<longleftrightarrow> (\<forall>kind record_id.
     map ef_version (versions_of kind record_id s) = [1..<Suc (length (versions_of kind record_id s))])"

definition effect_store_ok :: "effect_store \<Rightarrow> bool" where
  "effect_store_ok s \<longleftrightarrow> unique_keys ef_effect_id (effects s) \<and> versions_numbered s \<and>
     ev_effect_id ` set (effect_events s) \<subseteq> ef_effect_id ` set (effects s)"

text \<open>What never changes of an effect after its creation.\<close>

definition same_origin :: "effect_row \<Rightarrow> effect_row \<Rightarrow> bool" where
  "same_origin r q \<longleftrightarrow> ef_effect_id q = ef_effect_id r \<and> ef_effect_kind q = ef_effect_kind r \<and>
     ef_hash_contract_version q = ef_hash_contract_version r \<and> ef_record_id q = ef_record_id r \<and> ef_version q = ef_version r \<and>
     ef_source_hash q = ef_source_hash r \<and> ef_source_json q = ef_source_json r \<and>
     ef_mode q = ef_mode r \<and> ef_account q = ef_account r \<and> ef_broker q = ef_broker r \<and>
     ef_currency q = ef_currency r \<and> ef_signed_amount q = ef_signed_amount r \<and>
     ef_flow_date q = ef_flow_date r \<and> ef_created_at q = ef_created_at r"

lemma same_origin_refl [simp]: "same_origin r r"
  by (simp add: same_origin_def)

lemma same_origin_trans: "same_origin r q \<Longrightarrow> same_origin q p \<Longrightarrow> same_origin r p"
  by (simp add: same_origin_def)

lemma same_origin_superseded [simp]: "same_origin r (superseded_effect now r)"
  by (simp add: same_origin_def superseded_effect_def)

lemma same_origin_set_column [simp]: "same_origin r (set_column kv r)"
  by (simp add: same_origin_def set_column_def Let_def)

lemma same_origin_columns: "same_origin r (fold set_column cols r)"
proof (induction cols arbitrary: r)
  case (Cons kv cols)
  show ?case
    using same_origin_trans [OF same_origin_set_column Cons.IH [of "set_column kv r"]] by simp
qed simp

lemma same_origin_updated [simp]: "same_origin r (updated_effect state cols now r)"
proof -
  have "same_origin q (q\<lparr>ef_state := x, ef_updated_at := now\<rparr>)"
    "same_origin q (q\<lparr>ef_updated_at := now\<rparr>)" for q x
    by (simp_all add: same_origin_def)
  then show ?thesis
    by (cases state) (auto simp: updated_effect_def Let_def intro: same_origin_trans [OF same_origin_columns])
qed

text \<open>An update of rows that keeps their origin keeps the numbering.\<close>

lemma versions_of_update:
  assumes "\<And>r. same_origin r (f r)"
  shows "map ef_version (filter (\<lambda>r. ef_effect_kind r = k \<and> ef_record_id r = i) (sql_update p f t)) =
    map ef_version (filter (\<lambda>r. ef_effect_kind r = k \<and> ef_record_id r = i) t)"
  using assms by (induction t) (auto simp: sql_update_def same_origin_def)

lemma numbered_update:
  assumes "versions_numbered s" and "\<And>r. same_origin r (f r)" and "effects s' = sql_update p f (effects s)"
  shows "versions_numbered s'"
proof -
  have "map ef_version (versions_of k i s') = map ef_version (versions_of k i s)" for k i
    unfolding versions_of_def assms(3) using assms(2) by (rule versions_of_update)
  moreover from this have "length (versions_of k i s') = length (versions_of k i s)" for k i
    by (metis length_map)
  ultimately show ?thesis using assms(1) by (simp add: versions_numbered_def)
qed

lemma numbered_effects: "effects s' = effects s \<Longrightarrow> versions_numbered s' = versions_numbered s"
  by (simp add: versions_numbered_def versions_of_def)

text \<open>The latest version of a record is the one with the number of its versions.\<close>

lemma last_numbered:
  assumes "map ef_version rows = [1..<Suc (length rows)]" and "rows \<noteq> []"
  shows "ef_version (last rows) = length rows"
proof -
  have "ef_version (last rows) = last (map ef_version rows)" using assms(2) by (simp add: last_map)
  also have "\<dots> = length rows" using assms(2) by (cases "length rows") (simp_all only: assms(1), simp_all)
  finally show ?thesis .
qed

lemma highest_version_numbered:
  assumes "map ef_version rows = [1..<Suc (length rows)]"
  shows "highest_version rows = (if rows = [] then None else Some (last rows))"
proof (cases "rows = []")
  case False
  define srt where "srt = sort_key (\<lambda>r. - int (ef_version r)) rows"
  have st: "set srt = set rows" "length srt = length rows" by (simp_all add: srt_def)
  with False obtain x xs where x: "srt = x # xs" by (cases srt) auto
  have "sorted (map (\<lambda>r. - int (ef_version r)) srt)" by (simp add: srt_def)
  then have top: "\<forall>y \<in> set rows. ef_version y \<le> ef_version x" by (auto simp: x simp flip: st(1))
  have lastv: "ef_version (last rows) = length rows"
    using assms False by (rule last_numbered)
  have xr: "x \<in> set rows" using st x by auto
  with assms have "ef_version x \<in> set [1..<Suc (length rows)]" by (metis image_eqI list.set_map)
  then have "ef_version x \<le> length rows" by auto
  with top False lastv have "ef_version x = ef_version (last rows)" by (metis last_in_set le_antisym)
  moreover have "distinct (map ef_version rows)" by (simp only: assms distinct_upt)
  ultimately have "x = last rows"
    using xr False by (auto simp: distinct_map inj_on_def)
  with False x show ?thesis by (simp add: highest_version_def srt_def [symmetric])
qed (simp add: highest_version_def)

lemma latest_numbered:
  assumes "versions_numbered s"
  shows "get_latest_for_record k i s =
      (if versions_of k i s = [] then None else Some (last (versions_of k i s)))"
  unfolding get_latest_for_record_def using assms
  by (intro highest_version_numbered) (simp add: versions_numbered_def)

lemma latest_version:
  assumes "versions_numbered s"
  shows "(case get_latest_for_record k i s of Some r \<Rightarrow> ef_version r + 1 | None \<Rightarrow> 1) =
      Suc (length (versions_of k i s))"
proof (cases "versions_of k i s = []")
  case False
  then have "ef_version (last (versions_of k i s)) = length (versions_of k i s)"
    using assms by (intro last_numbered) (simp_all add: versions_numbered_def)
  then show ?thesis using False by (simp add: latest_numbered [OF assms])
qed (simp add: latest_numbered [OF assms])

text \<open>Effects are never removed or rewritten at their origin, the history only grows, and the cutover stays.\<close>

definition effect_ext :: "effect_store \<Rightarrow> effect_store \<Rightarrow> bool" where
  "effect_ext s s' \<longleftrightarrow> cutover s' = cutover s \<and> take (length (effect_events s)) (effect_events s') = effect_events s \<and>
     (\<forall>r \<in> set (effects s). \<exists>q \<in> set (effects s'). same_origin r q)"

lemma effect_ext_refl [simp]: "effect_ext s s"
  by (simp add: effect_ext_def) (blast intro: same_origin_refl)

lemma effect_ext_trans:
  assumes "effect_ext s t" and "effect_ext t u"
  shows "effect_ext s u"
proof -
  have "length (effect_events s) \<le> length (effect_events t)"
    using assms(1) unfolding effect_ext_def by (metis length_take min.cobounded1)
  then have "take (length (effect_events s)) (effect_events u) =
      take (length (effect_events s)) (take (length (effect_events t)) (effect_events u))"
    by (simp add: min_def)
  with assms same_origin_trans show ?thesis unfolding effect_ext_def by metis
qed

definition effect_kept :: "effect_store \<Rightarrow> effect_store \<Rightarrow> bool" where
  "effect_kept s s' \<longleftrightarrow> effect_store_ok s' \<and> effect_ext s s'"

lemma effect_kept_refl: "effect_store_ok s \<Longrightarrow> effect_kept s s"
  by (simp add: effect_kept_def)

lemma effect_kept_trans: "effect_kept s t \<Longrightarrow> effect_kept t u \<Longrightarrow> effect_kept s u"
  by (auto simp: effect_kept_def intro: effect_ext_trans)

text \<open>An operation on the other tables only.\<close>

lemma kept_other_tables:
  assumes "effect_store_ok s" and "effects s' = effects s" and "effect_events s' = effect_events s"
    and "cutover s' = cutover s"
  shows "effect_kept s s'"
proof -
  have "effect_store_ok s'" using assms(1) by (simp add: effect_store_ok_def assms(2,3) numbered_effects [OF assms(2)])
  moreover have "effect_ext s s'" by (auto simp: effect_ext_def assms intro: same_origin_refl)
  ultimately show ?thesis by (simp add: effect_kept_def)
qed

lemma kept_event:
  assumes "effect_store_ok s" and "k \<in> ef_effect_id ` set (effects s)"
  shows "effect_kept s (append_effect_event k e p now s)"
proof -
  have eff: "effects (append_effect_event k e p now s) = effects s"
    by (simp add: append_effect_event_def)
  have "effect_store_ok (append_effect_event k e p now s)"
    using assms by (simp add: effect_store_ok_def numbered_effects [OF eff] eff) (simp add: append_effect_event_def)
  moreover have "effect_ext s (append_effect_event k e p now s)"
    by (auto simp: effect_ext_def append_effect_event_def intro: same_origin_refl)
  ultimately show ?thesis by (simp add: effect_kept_def)
qed

lemma origin_id: "same_origin r q \<Longrightarrow> ef_effect_id q = ef_effect_id r"
  by (simp add: same_origin_def)

lemma kept_update:
  assumes "effect_store_ok s" and "\<And>r. same_origin r (f r)"
  shows "effect_kept s (s\<lparr>effects := sql_update p f (effects s)\<rparr>)" (is "effect_kept s ?s'")
proof -
  note key = origin_id [OF assms(2)]
  have keys: "map ef_effect_id (sql_update p f (effects s)) = map ef_effect_id (effects s)"
    by (rule map_key_sql_update) (rule key)
  have "versions_numbered ?s'"
    using numbered_update [where s = s and s' = ?s', OF _ assms(2)] assms(1) by (simp add: effect_store_ok_def)
  moreover have "ef_effect_id ` set (sql_update p f (effects s)) = ef_effect_id ` set (effects s)"
    using key by (rule keys_sql_update)
  ultimately have "effect_store_ok ?s'"
    using assms(1) keys by (simp add: effect_store_ok_def unique_keys_def)
  moreover have "\<exists>q \<in> set (sql_update p f (effects s)). same_origin r q" if "r \<in> set (effects s)" for r
    using that assms(2) by (intro bexI [of _ "if p r then f r else r"]) (auto simp: in_sql_update)
  then have "effect_ext s ?s'" by (simp add: effect_ext_def)
  ultimately show ?thesis by (simp add: effect_kept_def)
qed

lemma kept_insert:
  assumes "effect_store_ok s" and "ef_effect_id row \<notin> ef_effect_id ` set (effects s)"
    and "ef_version row = Suc (length (versions_of (ef_effect_kind row) (ef_record_id row) s))"
  shows "effect_kept s (s\<lparr>effects := effects s @ [row]\<rparr>)" (is "effect_kept s ?s'")
proof -
  have v: "versions_of k i ?s' =
      versions_of k i s @ (if ef_effect_kind row = k \<and> ef_record_id row = i then [row] else [])" for k i
    by (simp add: versions_of_def)
  have "map ef_version (versions_of k i ?s') = [1..<Suc (length (versions_of k i ?s'))]" for k i
    using assms(1,3) unfolding v effect_store_ok_def versions_numbered_def by auto
  then have "versions_numbered ?s'" unfolding versions_numbered_def by blast
  then have "effect_store_ok ?s'" using assms(1,2) by (auto simp: effect_store_ok_def unique_keys_snoc)
  moreover have "effect_ext s ?s'" by (auto simp: effect_ext_def intro: same_origin_refl)
  ultimately show ?thesis by (simp add: effect_kept_def)
qed

lemma kept_commit:
  assumes "effect_store_ok s" and "\<And>a t. body s = Inr (a, t) \<Longrightarrow> effect_kept s t"
    and "commit body s = (r, s')"
  shows "effect_kept s s'"
  using assms effect_kept_refl by (auto simp: commit_def split: sum.splits prod.splits)

lemma effects_append_event [simp]: "effects (append_effect_event k e p now s) = effects s"
  by (simp add: append_effect_event_def)

lemma effects_supersede:
  "effects (supersede_latest latest k now now1 s) = (case latest of
      Some r \<Rightarrow> if ef_state r \<in> set unresolved_effect_states
        then sql_update (\<lambda>q. ef_effect_id q = ef_effect_id r) (superseded_effect now) (effects s) else effects s
    | None \<Rightarrow> effects s)"
  by (simp add: supersede_latest_def split: option.splits)

lemma new_effect_simps [simp]:
  "ef_effect_id (new_effect k kind i v src h st mode now) = k"
  "ef_effect_kind (new_effect k kind i v src h st mode now) = kind"
  "ef_record_id (new_effect k kind i v src h st mode now) = i"
  "ef_version (new_effect k kind i v src h st mode now) = v"
  "ef_source_hash (new_effect k kind i v src h st mode now) = h"
  "ef_state (new_effect k kind i v src h st mode now) = st"
  "ef_account (new_effect k kind i v src h st mode now) = source_text ''account'' [] src"
  "ef_flow_date (new_effect k kind i v src h st mode now) = source_text ''flow_date'' [] src"
  by (simp_all add: new_effect_def)

lemma get_latest_in:
  "get_latest_for_record kind i s = Some r \<Longrightarrow> r \<in> set (effects s) \<and> ef_effect_kind r = kind \<and> ef_record_id r = i"
proof -
  assume "get_latest_for_record kind i s = Some r"
  then obtain xs where "sort_key (\<lambda>r. - int (ef_version r)) (versions_of kind i s) = r # xs"
    by (auto simp: get_latest_for_record_def highest_version_def split: list.splits)
  then have "r \<in> set (versions_of kind i s)" by (metis list.set_intros(1) set_sort)
  then show ?thesis by (simp add: versions_of_def)
qed

lemma kept_supersede:
  assumes "effect_store_ok s" and "\<forall>r. latest = Some r \<longrightarrow> r \<in> set (effects s)"
  shows "effect_kept s (supersede_latest latest k now now1 s)"
proof (cases latest)
  case (Some r)
  define s1 where "s1 = s\<lparr>effects := sql_update (\<lambda>q. ef_effect_id q = ef_effect_id r) (superseded_effect now) (effects s)\<rparr>"
  have s1: "effect_kept s s1" unfolding s1_def using assms(1) by (rule kept_update) simp
  have "ef_effect_id ` set (effects s1) = ef_effect_id ` set (effects s)"
    by (simp add: s1_def keys_sql_update superseded_effect_def)
  then have "effect_kept s1 (append_effect_event (ef_effect_id r) e p now1 s1)" for e p
    using s1 Some assms(2) by (intro kept_event) (auto simp: effect_kept_def)
  with Some show ?thesis
    using effect_kept_trans [OF s1] assms(1) by (simp add: supersede_latest_def s1_def effect_kept_refl)
qed (simp add: supersede_latest_def effect_kept_refl assms(1))

text \<open>The two outcomes of a successful creation.\<close>

lemma create_version_parts:
  assumes "create_version_tx uuid now now1 now2 i src h st mode kind ev s = Inr (r, s')"
  shows "(get_latest_for_record kind i s = Some r \<and> ef_source_hash r = h \<and> s' = s) \<or>
    (\<exists>latest version p. latest = get_latest_for_record kind i s \<and>
       \<not> (case latest of Some q \<Rightarrow> ef_source_hash q = h | None \<Rightarrow> False) \<and>
       version = (case latest of Some q \<Rightarrow> ef_version q + 1 | None \<Rightarrow> 1) \<and>
       r = new_effect (''cfe_'' @ uuid) kind i version src h st mode now \<and>
       ''cfe_'' @ uuid \<notin> ef_effect_id ` set (effects s) \<and>
       s' = append_effect_event (''cfe_'' @ uuid) ev p now2
         (supersede_latest latest (''cfe_'' @ uuid) now now1 (s\<lparr>effects := effects s @ [r]\<rparr>)))"
proof (cases "case get_latest_for_record kind i s of Some q \<Rightarrow> ef_source_hash q = h | None \<Rightarrow> False")
  case True
  with assms show ?thesis by (auto simp: create_version_tx_def Let_def split: option.splits)
next
  case False
  with assms show ?thesis
    by (simp add: create_version_tx_def Let_def split: if_splits) blast
qed

lemma kept_create:
  assumes "effect_store_ok s" and "create_version uuid now now1 now2 src h st mode kind ev s = (res, s')"
  shows "effect_kept s s'"
proof -
  have tx: "effect_kept s t" if t: "create_version_tx uuid now now1 now2 i src h st mode kind ev s = Inr (r, t)" for i r t
    using create_version_parts [OF t]
  proof (elim disjE exE conjE)
    assume "t = s" then show ?thesis using assms(1) by (simp add: effect_kept_refl)
  next
    fix latest version p
    assume l: "latest = get_latest_for_record kind i s"
      and v: "version = (case latest of Some q \<Rightarrow> ef_version q + 1 | None \<Rightarrow> 1)"
      and r: "r = new_effect (''cfe_'' @ uuid) kind i version src h st mode now"
      and fresh: "''cfe_'' @ uuid \<notin> ef_effect_id ` set (effects s)"
      and t: "t = append_effect_event (''cfe_'' @ uuid) ev p now2
         (supersede_latest latest (''cfe_'' @ uuid) now now1 (s\<lparr>effects := effects s @ [r]\<rparr>))"
    define s1 where "s1 = s\<lparr>effects := effects s @ [r]\<rparr>"
    define s2 where "s2 = supersede_latest latest (''cfe_'' @ uuid) now now1 s1"
    have s1: "effect_kept s s1"
      unfolding s1_def using assms(1) fresh
      by (intro kept_insert) (simp_all add: r v l latest_version effect_store_ok_def)
    have s2: "effect_kept s1 s2"
      unfolding s2_def using s1 get_latest_in by (intro kept_supersede) (auto simp: effect_kept_def s1_def l)
    have "r \<in> set (effects s1)" by (simp add: s1_def)
    with s2 obtain q where "q \<in> set (effects s2)" "same_origin r q"
      by (auto simp: effect_kept_def effect_ext_def)
    then have "''cfe_'' @ uuid \<in> ef_effect_id ` set (effects s2)"
      by (intro image_eqI [of _ _ q]) (simp_all add: same_origin_def r)
    then have "effect_kept s2 t"
      unfolding t s1_def [symmetric] s2_def [symmetric] using s2 by (intro kept_event) (simp_all add: effect_kept_def)
    with s1 s2 show ?thesis by (blast intro: effect_kept_trans)
  qed
  show ?thesis
    using assms(2) kept_commit [OF assms(1) tx] effect_kept_refl [OF assms(1)]
    by (auto simp: create_version_def split: if_splits option.splits)
qed

lemma update_effect_parts:
  assumes "update_effect_tx now now1 k st cols ev p expected s = Inr (r, s')"
  shows "\<not> unbindable st cols \<and> rowcount (update_hit k expected) (effects s) = 1 \<and>
    row_of ef_effect_id k (sql_update (update_hit k expected) (updated_effect st cols now) (effects s)) = Some r \<and>
    s' = append_effect_event k ev p now1
      (s\<lparr>effects := sql_update (update_hit k expected) (updated_effect st cols now) (effects s)\<rparr>)"
  using assms by (simp add: update_effect_tx_def Let_def split: if_splits option.splits)

lemma kept_update_effect:
  assumes "effect_store_ok s" and "update_effect now now1 k st cols ev p expected s = (res, s')"
  shows "effect_kept s s'"
proof -
  have tx: "effect_kept s t" if "update_effect_tx now now1 k st cols ev p expected s = Inr (r, t)" for r t
  proof -
    define s1 where "s1 = s\<lparr>effects := sql_update (update_hit k expected) (updated_effect st cols now) (effects s)\<rparr>"
    note parts = update_effect_parts [OF that, folded s1_def]
    have s1: "effect_kept s s1" unfolding s1_def using assms(1) by (rule kept_update) simp
    have "row_of ef_effect_id k (effects s1) = Some r" using parts by (simp add: s1_def)
    then have "k \<in> ef_effect_id ` set (effects s1)" by (rule row_of_key)
    with s1 have "effect_kept s1 (append_effect_event k ev p now1 s1)"
      by (intro kept_event) (simp_all add: effect_kept_def)
    with s1 parts show ?thesis by (blast intro: effect_kept_trans)
  qed
  show ?thesis
    using assms(2) kept_commit [OF assms(1) tx] effect_kept_refl [OF assms(1)]
    by (auto simp: update_effect_def split: if_splits)
qed

section \<open>The store as a state machine\<close>

text \<open>Every public operation that writes, with any arguments and any outcome.\<close>

inductive effect_step :: "effect_store \<Rightarrow> effect_store \<Rightarrow> bool" where
  create: "create_version uuid now now1 now2 src h st mode kind ev s = (r, s') \<Longrightarrow> effect_step s s'"
| update: "update_effect now now1 k state cols ev p expected s = (r, s') \<Longrightarrow> effect_step s s'"
| event: "append_event k ev p now s = (x, s') \<Longrightarrow> effect_step s s'"
| scan_begin: "begin_scan uuid now scope s = (y, s') \<Longrightarrow> effect_step s s'"
| scan_finish: "finish_scan now run status result s = (z, s') \<Longrightarrow> effect_step s s'"
| observe: "observe_fingerprint now i record_id amount hash s = (f, s') \<Longrightarrow> effect_step s s'"
| confirm: "confirm_fingerprint now i record_id amount hash effect_id s = (f, s') \<Longrightarrow> effect_step s s'"
| rate: "record_effect_fx uuid now c s = (y, s') \<Longrightarrow> effect_step s s'"
| enqueue: "enqueue_effect_receipt now key t payload effect_id run_id s = (b, s') \<Longrightarrow> effect_step s s'"
| mark: "mark_effect_receipt now key success retryable mid err s = (x, s') \<Longrightarrow> effect_step s s'"

lemma effect_step_kept:
  assumes "effect_step s s'" and "effect_store_ok s"
  shows "effect_kept s s'"
  using assms
proof (cases rule: effect_step.cases)
  case create
  then show ?thesis by (rule kept_create [OF assms(2)])
next
  case update
  then show ?thesis by (rule kept_update_effect [OF assms(2)])
next
  case event
  then show ?thesis
    using assms(2) by (auto simp: append_event_def effect_kept_refl kept_event split: if_splits)
next
  case scan_begin
  then show ?thesis
    using assms(2) by (intro kept_other_tables) (auto simp: begin_scan_def split: if_splits)
next
  case scan_finish
  then show ?thesis
    using assms(2) by (intro kept_other_tables) (auto simp: finish_scan_def Let_def split: if_splits)
next
  case observe
  then show ?thesis
    using assms(2) by (intro kept_other_tables) (auto simp: observe_fingerprint_def upsert_fingerprint_def Let_def)
next
  case confirm
  then show ?thesis
    using assms(2) by (intro kept_other_tables) (auto simp: confirm_fingerprint_def upsert_fingerprint_def Let_def)
next
  case rate
  then show ?thesis
    using assms(2) by (intro kept_other_tables) (auto simp: record_effect_fx_def Let_def split: if_splits)
next
  case enqueue
  then show ?thesis
    using assms(2) by (intro kept_other_tables) (auto simp: enqueue_effect_receipt_def Let_def split: prod.splits)
next
  case mark
  then show ?thesis
    using assms(2) by (intro kept_other_tables) (auto simp: mark_effect_receipt_def Let_def split: if_splits)
qed

lemma effect_steps_kept:
  assumes "effect_step\<^sup>*\<^sup>* s s'" and "effect_store_ok s"
  shows "effect_kept s s'"
  using assms
proof (induction rule: rtranclp_induct)
  case base
  then show ?case by (rule effect_kept_refl)
next
  case (step t u)
  then have st: "effect_kept s t" by simp
  then have "effect_kept t u" using step.hyps(2) by (intro effect_step_kept) (simp_all add: effect_kept_def)
  with st show ?case by (rule effect_kept_trans)
qed

lemma effect_store_ok_fresh: "initialize_store t None = Inr s \<Longrightarrow> effect_store_ok s"
  by (auto simp: initialize_store_def bind_result_Inr effect_store_ok_def versions_numbered_def versions_of_def)

section \<open>Properties\<close>

text \<open>
  C26. In every store reached from a fresh one by any sequence of operations, the versions of each
  record are numbered 1, 2, 3, .. without a gap and every history event belongs to a stored effect;
  and from then on no operation removes an effect, rewrites what it was created from, drops or
  rewrites a history event, or moves the cutover date.
\<close>
theorem effect_history_kept:
  assumes "initialize_store t None = Inr s0" and "effect_step\<^sup>*\<^sup>* s0 s" and "effect_step\<^sup>*\<^sup>* s s'"
  shows "(\<forall>kind i. map ef_version (versions_of kind i s) = [1..<Suc (length (versions_of kind i s))]) \<and>
    ev_effect_id ` set (effect_events s) \<subseteq> ef_effect_id ` set (effects s) \<and>
    (\<exists>later. effect_events s' = effect_events s @ later) \<and> cutover s' = cutover s0 \<and>
    (\<forall>r \<in> set (effects s). \<exists>q \<in> set (effects s'). same_origin r q)"
proof -
  have s: "effect_kept s0 s" using assms(1,2) by (intro effect_steps_kept effect_store_ok_fresh)
  then have ok: "effect_store_ok s" by (simp add: effect_kept_def)
  have s': "effect_kept s s'" using assms(3) ok by (rule effect_steps_kept)
  then have "effect_events s' = effect_events s @ drop (length (effect_events s)) (effect_events s')"
    unfolding effect_kept_def effect_ext_def by (metis append_take_drop_id)
  moreover have "cutover s' = cutover s0" using s s' by (simp add: effect_kept_def effect_ext_def)
  moreover have "\<forall>r \<in> set (effects s). \<exists>q \<in> set (effects s'). same_origin r q"
    using s' by (simp add: effect_kept_def effect_ext_def)
  ultimately show ?thesis
    using ok unfolding effect_store_ok_def versions_numbered_def by blast
qed

definition demo_effect_store :: effect_store where
  "demo_effect_store = \<lparr>cutover = \<lparr>dt_year = 2025, dt_month = 1, dt_day = 2\<rparr>, effects = [], effect_events = [],
     scan_runs = [], fingerprints = [], effect_fx_confirmations = [], effect_receipts = []\<rparr>"

definition demo_source :: "string \<Rightarrow> dict" where
  "demo_source day = [(''record_id'', JStr ''r1''), (''account'', JStr ''a''), (''flow_date'', JStr day)]"

definition demo_created :: effect_store where
  "demo_created = snd (create_version ''1'' 1 2 3 (demo_source ''2025-01-03'') ''h1'' ''pending'' ''auto''
     ''cash_flow'' ''discovered'' demo_effect_store)"

definition demo_recreated :: effect_store where
  "demo_recreated = snd (create_version ''2'' 4 5 6 (demo_source ''2025-01-04'') ''h2'' ''pending'' ''auto''
     ''cash_flow'' ''discovered'' demo_created)"

lemma effect_history_kept_witness:
  "cutover demo_recreated = \<lparr>dt_year = 2025, dt_month = 1, dt_day = 2\<rparr> \<and>
   (\<exists>later. effect_events demo_recreated = effect_events demo_created @ later)"
proof -
  have f: "initialize_store ''2025-01-02'' None = Inr demo_effect_store" by code_simp
  have "effect_step demo_effect_store demo_created"
    unfolding demo_created_def by (rule effect_step.create [OF prod.collapse [symmetric]])
  then have a: "effect_step\<^sup>*\<^sup>* demo_effect_store demo_created" by simp
  have "effect_step demo_created demo_recreated"
    unfolding demo_recreated_def by (rule effect_step.create [OF prod.collapse [symmetric]])
  then have b: "effect_step\<^sup>*\<^sup>* demo_created demo_recreated" by simp
  from effect_history_kept [OF f a b] show ?thesis by (simp add: demo_effect_store_def)
qed

lemma versions_of_superseded:
  assumes "\<forall>r. latest = Some r \<longrightarrow> r \<in> set (versions_of kind i s)"
    and "effects t = effects s @ [row]"
    and "ef_effect_id row \<notin> ef_effect_id ` set (effects s)" and "ef_effect_kind row = kind" and "ef_record_id row = i"
  shows "last (versions_of kind i (supersede_latest latest k now now1 t)) = row \<and>
    versions_of kind i (supersede_latest latest k now now1 t) \<noteq> []"
proof -
  have "effects (supersede_latest latest k now now1 t) =
      (case latest of Some r \<Rightarrow> if ef_state r \<in> set unresolved_effect_states
        then sql_update (\<lambda>q. ef_effect_id q = ef_effect_id r) (superseded_effect now) (effects s) else effects s
       | None \<Rightarrow> effects s) @ [row]"
    using assms(1,3) by (auto simp: effects_supersede assms(2) sql_update_def versions_of_def split: option.splits)
  then show ?thesis using assms(4,5) by (simp add: versions_of_def)
qed

text \<open>The row a discovered version is stored as, and the events its creation writes.\<close>

lemma superseded_rows:
  assumes "unique_keys ef_effect_id rows" and "\<forall>r. latest = Some r \<longrightarrow> r \<in> set rows"
    and "effects t = rows @ [row]" and "ef_effect_id row \<notin> ef_effect_id ` set rows"
  shows "effects (supersede_latest latest k now now1 t) = map (\<lambda>x. if latest = Some x \<and> ef_state x \<in> set unresolved_effect_states
      then x\<lparr>ef_state := ''superseded'', ef_updated_at := now\<rparr> else x) rows @ [row]"
proof (cases latest)
  case (Some q)
  have one: "ef_effect_id x = ef_effect_id q \<longleftrightarrow> x = q" if "x \<in> set rows" for x
    using unique_keys_eq [OF assms(1)] that assms(2) Some by auto
  have "ef_effect_id row \<noteq> ef_effect_id q" using assms(2,4) Some by auto
  moreover have "sql_update (\<lambda>x. ef_effect_id x = ef_effect_id q) (superseded_effect now) rows =
      map (\<lambda>x. if q = x then x\<lparr>ef_state := ''superseded'', ef_updated_at := now\<rparr> else x) rows"
    using one by (auto simp: sql_update_def superseded_effect_def)
  ultimately show ?thesis
    by (auto simp: effects_supersede assms(3) Some sql_update_def superseded_effect_def intro!: map_idI [symmetric])
qed (simp add: effects_supersede assms(3))

lemma superseded_store: "supersede_latest latest k now now1 s =
    s\<lparr>effects := effects (supersede_latest latest k now now1 s), effect_events := effect_events s @
      (case latest of None \<Rightarrow> [] | Some q \<Rightarrow> if ef_state q \<in> set unresolved_effect_states
        then [\<lparr>ev_event_id = Suc (length (effect_events s)), ev_effect_id = ef_effect_id q, ev_event_type = ''superseded'',
          ev_payload_json = canonical_json (JObj [(''superseded_by'', JStr k)]), ev_created_at = now1\<rparr>] else [])\<rparr>"
  by (auto simp: supersede_latest_def append_effect_event_def split: option.splits)

lemma created_parts:
  assumes "create_version_tx uuid now now1 now2 i src h st mode kind ev s = Inr (r, s')"
    and "\<not> (\<exists>q. get_latest_for_record kind i s = Some q \<and> ef_source_hash q = h)"
  shows "r = new_effect (''cfe_'' @ uuid) kind i
      (case get_latest_for_record kind i s of Some q \<Rightarrow> ef_version q + 1 | None \<Rightarrow> 1) src h st mode now \<and>
    ''cfe_'' @ uuid \<notin> ef_effect_id ` set (effects s) \<and>
    s' = append_effect_event (''cfe_'' @ uuid) ev [(''source_hash'', JStr h), (''mode'', JStr mode), (''effect_kind'', JStr kind)] now2
      (supersede_latest (get_latest_for_record kind i s) (''cfe_'' @ uuid) now now1 (s\<lparr>effects := effects s @ [r]\<rparr>))"
  using assms by (auto simp: create_version_tx_def Let_def split: if_splits option.splits)

text \<open>
  C27. Discovering a changed source is exact. The same source hash as the latest version changes
  nothing and returns that version. Otherwise the version after it is created with every column
  given: identity, number, hash and text of the source, state and mode, the account, broker, currency,
  amount and flow date of the source, nothing else set; it is the latest one from then on. Of the other
  effects only the previous version changes, to superseded, and exactly when it was still unresolved;
  then one event names its successor. One event of the new effect follows, and no other table changes.
\<close>
theorem version_created_exact:
  assumes "effect_store_ok s"
    and "create_version uuid now now1 now2 src h st mode kind ev s = (Inr r, s')"
    and "dict_get ''record_id'' src = Some j" and "latest = get_latest_for_record kind (py_str j) s"
  shows "if (\<exists>q. latest = Some q \<and> ef_source_hash q = h) then latest = Some r \<and> s' = s
    else get_latest_for_record kind (py_str j) s' = Some r \<and>
      r = \<lparr>ef_effect_id = ''cfe_'' @ uuid, ef_effect_kind = kind, ef_hash_contract_version = ''cash-flow-effects.v1'',
        ef_record_id = py_str j, ef_version = (case latest of Some q \<Rightarrow> ef_version q + 1 | None \<Rightarrow> 1), ef_source_hash = h,
        ef_source_json = canonical_json (JObj src), ef_state = st, ef_mode = mode, ef_account = source_text ''account'' [] src,
        ef_broker = source_text ''broker'' [] src, ef_currency = source_text ''currency'' [] src,
        ef_signed_amount = source_text ''signed_amount'' ''0'' src, ef_flow_date = source_text ''flow_date'' [] src,
        ef_target_source = None, ef_before_json = None, ef_targets_json = None, ef_preview_hash = None,
        ef_warnings_json = None, ef_confirmation_json = None, ef_compensation_task_id = None, ef_last_error = None,
        ef_created_at = now, ef_updated_at = now\<rparr> \<and>
      (let retired = (case latest of None \<Rightarrow> [] | Some q \<Rightarrow> if ef_state q \<in> set unresolved_effect_states
          then [\<lparr>ev_event_id = Suc (length (effect_events s)), ev_effect_id = ef_effect_id q, ev_event_type = ''superseded'',
            ev_payload_json = JObj [(''superseded_by'', JStr (''cfe_'' @ uuid))], ev_created_at = now1\<rparr>] else [])
       in s' = s\<lparr>effects := map (\<lambda>x. if latest = Some x \<and> ef_state x \<in> set unresolved_effect_states
            then x\<lparr>ef_state := ''superseded'', ef_updated_at := now\<rparr> else x) (effects s) @ [r],
          effect_events := effect_events s @ retired @
            [\<lparr>ev_event_id = Suc (length (effect_events s) + length retired), ev_effect_id = ''cfe_'' @ uuid, ev_event_type = ev,
              ev_payload_json = JObj [(''effect_kind'', JStr kind), (''mode'', JStr mode), (''source_hash'', JStr h)],
              ev_created_at = now2\<rparr>]\<rparr>)"
proof -
  define k where "k = ''cfe_'' @ uuid"
  have kept: "effect_kept s s'" using assms(1,2) by (rule kept_create)
  from assms(2,3) have tx: "create_version_tx uuid now now1 now2 (py_str j) src h st mode kind ev s = Inr (r, s')"
    by (simp add: create_version_def commit_Inr split: if_splits)
  let ?same = "\<exists>q. latest = Some q \<and> ef_source_hash q = h"
  show ?thesis
  proof (cases ?same)
    case True
    with tx assms(4) show ?thesis by (auto simp: create_version_tx_def Let_def)
  next
    case False
    note parts = created_parts [OF tx, folded assms(4) k_def, OF False]
    define t where "t = s\<lparr>effects := effects s @ [r]\<rparr>"
    have lin: "\<forall>q. latest = Some q \<longrightarrow> q \<in> set (versions_of kind (py_str j) s)"
      using get_latest_in by (auto simp: assms(4) versions_of_def)
    have id: "ef_effect_id r = k" "ef_effect_kind r = kind" "ef_record_id r = py_str j"
      using parts by simp_all
    have rows: "effects (supersede_latest latest k now now1 t) = map (\<lambda>x. if latest = Some x \<and>
        ef_state x \<in> set unresolved_effect_states then x\<lparr>ef_state := ''superseded'', ef_updated_at := now\<rparr> else x) (effects s) @ [r]"
      using assms(1) lin parts
      by (intro superseded_rows) (auto simp: effect_store_ok_def versions_of_def t_def id)
    have eff: "effects s' = effects (supersede_latest latest k now now1 t)"
      using parts by (simp add: append_effect_event_def t_def)
    have "last (versions_of kind (py_str j) s') = r \<and> versions_of kind (py_str j) s' \<noteq> []"
      unfolding versions_of_def eff rows by (simp add: id)
    then have latest': "get_latest_for_record kind (py_str j) s' = Some r"
      using kept by (simp add: effect_kept_def effect_store_ok_def latest_numbered)
    have events: "canonical_json (JObj [(''source_hash'', JStr h), (''mode'', JStr mode), (''effect_kind'', JStr kind)]) =
        JObj [(''effect_kind'', JStr kind), (''mode'', JStr mode), (''source_hash'', JStr h)]"
      by simp
    have store: "s' = append_effect_event k ev [(''source_hash'', JStr h), (''mode'', JStr mode), (''effect_kind'', JStr kind)] now2
        (supersede_latest latest k now now1 t)" using parts by (simp add: t_def)
    note after = superseded_store [of latest k now now1 t, unfolded rows]
    have row: "r = new_effect k kind (py_str j) (case latest of Some q \<Rightarrow> ef_version q + 1 | None \<Rightarrow> 1) src h st mode now"
      using parts by simp
    have named: "canonical_json (JObj [(''superseded_by'', JStr k)]) = JObj [(''superseded_by'', JStr k)]" by simp
    have ts: "effect_events t = effect_events s" by (simp add: t_def)
    show ?thesis
      unfolding if_not_P [OF False] k_def [symmetric] Let_def
    proof (intro conjI)
      show "get_latest_for_record kind (py_str j) s' = Some r" by (rule latest')
      show "r = \<lparr>ef_effect_id = k, ef_effect_kind = kind, ef_hash_contract_version = ''cash-flow-effects.v1'',
        ef_record_id = py_str j, ef_version = (case latest of Some q \<Rightarrow> ef_version q + 1 | None \<Rightarrow> 1), ef_source_hash = h,
        ef_source_json = canonical_json (JObj src), ef_state = st, ef_mode = mode, ef_account = source_text ''account'' [] src,
        ef_broker = source_text ''broker'' [] src, ef_currency = source_text ''currency'' [] src,
        ef_signed_amount = source_text ''signed_amount'' ''0'' src, ef_flow_date = source_text ''flow_date'' [] src,
        ef_target_source = None, ef_before_json = None, ef_targets_json = None, ef_preview_hash = None,
        ef_warnings_json = None, ef_confirmation_json = None, ef_compensation_task_id = None, ef_last_error = None,
        ef_created_at = now, ef_updated_at = now\<rparr>"
        unfolding row new_effect_def hash_contract_version_def by (rule refl)
    qed (unfold store after ts named, simp add: append_effect_event_def events, simp add: t_def)
  qed
qed

lemma version_created_exact_witness:
  "get_latest_for_record ''cash_flow'' ''r1'' demo_recreated = Some (hd (tl (effects demo_recreated))) \<and>
   ef_flow_date (hd (tl (effects demo_recreated))) = ''2025-01-04'' \<and> length (effects demo_recreated) = 2 \<and>
   map ev_event_type (effect_events demo_recreated) = [''discovered'', ''superseded'', ''discovered'']"
proof -
  let ?out = "create_version ''2'' 4 5 6 (demo_source ''2025-01-04'') ''h2'' ''pending'' ''auto''
     ''cash_flow'' ''discovered'' demo_created"
  have f: "initialize_store ''2025-01-02'' None = Inr demo_effect_store" by code_simp
  have "effect_kept demo_effect_store demo_created"
    unfolding demo_created_def by (rule kept_create [OF effect_store_ok_fresh [OF f] prod.collapse [symmetric]])
  then have ok: "effect_store_ok demo_created" by (simp add: effect_kept_def)
  have out: "?out = (Inr (hd (tl (effects demo_recreated))), demo_recreated)" by code_simp
  have j: "dict_get ''record_id'' (demo_source ''2025-01-04'') = Some (JStr ''r1'')" by code_simp
  have l: "Some (hd (effects demo_created)) = get_latest_for_record ''cash_flow'' (py_str (JStr ''r1'')) demo_created"
    by code_simp
  have h: "ef_source_hash (hd (effects demo_created)) \<noteq> ''h2''" by code_simp
  then have "\<not> (\<exists>q. Some (hd (effects demo_created)) = Some q \<and> ef_source_hash q = ''h2'')" by simp
  with version_created_exact [OF ok out j l]
  have "get_latest_for_record ''cash_flow'' (py_str (JStr ''r1'')) demo_recreated = Some (hd (tl (effects demo_recreated)))"
    by (simp only: if_False)
  moreover have "py_str (JStr ''r1'') = ''r1''" by (simp add: py_str_def)
  moreover have "ef_flow_date (hd (tl (effects demo_recreated))) = ''2025-01-04'' \<and> length (effects demo_recreated) = 2 \<and>
      map ev_event_type (effect_events demo_recreated) = [''discovered'', ''superseded'', ''discovered'']" by code_simp
  ultimately show ?thesis by simp
qed

text \<open>What blocks the NAV of a date, and what the loop over the effects returns.\<close>

definition may_block :: "effect_row \<Rightarrow> bool" where
  "may_block e \<longleftrightarrow> ef_state e \<notin> set terminal_effect_states \<and> \<not> starts_superseded (ef_state e)"

definition blocks :: "py_date \<Rightarrow> effect_row \<Rightarrow> bool" where
  "blocks target e \<longleftrightarrow> may_block e \<and> (\<exists>d. parse_date_text (ef_flow_date e) = Inr d \<and>
     (ef_state e = ''scheduled'' \<longrightarrow> date_le d target))"

definition unreadable_flow :: "effect_row \<Rightarrow> bool" where
  "unreadable_flow e \<longleftrightarrow> may_block e \<and> (\<exists>x. parse_date_text (ef_flow_date e) = Inl x)"

lemma blockers_loop_exact:
  "if list_ex unreadable_flow es then \<exists>x. blockers_loop target es = Inl x
   else blockers_loop target es = Inr (filter (blocks target) es)"
proof (induction es)
  case (Cons e es)
  show ?case
  proof (cases "parse_date_text (ef_flow_date e)")
    case (Inl x)
    with Cons.IH show ?thesis
      by (auto simp: unreadable_flow_def blocks_def may_block_def)
  next
    case (Inr d)
    with Cons.IH show ?thesis
      by (auto simp: unreadable_flow_def blocks_def may_block_def simp flip: date_not_less)
  qed
qed simp

lemma latest_iff_max:
  assumes "effect_store_ok s" and "e \<in> set (effects s)"
  shows "ef_version e = Max (ef_version ` set (versions_of (ef_effect_kind e) (ef_record_id e) s)) \<longleftrightarrow>
    get_latest_for_record (ef_effect_kind e) (ef_record_id e) s = Some e"
proof -
  define vs where "vs = versions_of (ef_effect_kind e) (ef_record_id e) s"
  have e: "e \<in> set vs" using assms(2) by (simp add: vs_def versions_of_def)
  then have ne: "vs \<noteq> []" by auto
  have num: "map ef_version vs = [1..<Suc (length vs)]"
    using assms(1) by (simp add: vs_def effect_store_ok_def versions_numbered_def)
  have "ef_version ` set vs = {1..<Suc (length vs)}"
    by (metis list.set_map num set_upt)
  moreover have "Max {1..<Suc (length vs)} = length vs"
    using ne by (intro Max_eqI) (auto simp: Suc_le_eq)
  ultimately have m: "Max (ef_version ` set vs) = length vs" by simp
  have l: "ef_version (last vs) = length vs" using num ne by (rule last_numbered)
  have "inj_on ef_version (set vs)" using num by (metis distinct_map distinct_upt)
  then have "ef_version e = length vs \<longleftrightarrow> e = last vs" using l e ne by (metis inj_onD last_in_set)
  moreover have "get_latest_for_record (ef_effect_kind e) (ef_record_id e) s = Some (last vs)"
    using assms(1) ne by (simp add: effect_store_ok_def latest_numbered vs_def)
  ultimately show ?thesis by (auto simp: m vs_def [symmetric])
qed

lemma listed_effect:
  assumes "effect_store_ok s" and "account \<noteq> []"
  shows "e \<in> set (list_effects (Some account) True [] s) \<longleftrightarrow>
    e \<in> set (effects s) \<and> ef_account e = account \<and>
    get_latest_for_record (ef_effect_kind e) (ef_record_id e) s = Some e"
  using latest_iff_max [OF assms(1)] assms(2) by (auto simp: list_effects_def first_nonempty_def)

text \<open>
  C28. What keeps the NAV of a date from being official is exact. The call raises exactly when an
  undecided latest effect of the account has a flow date that is not a date. Otherwise its result
  holds exactly the effects of the account that are the latest version of their record, neither
  applied, recorded only nor superseded, and, where they are only scheduled, due by that date: no
  undecided effect is ever left out, and no earlier version is reported.
\<close>
theorem nav_blockers_exact:
  assumes "effect_store_ok s" and "account \<noteq> []"
  shows "case list_blockers account target s of
      Inl x \<Rightarrow> \<exists>e \<in> set (effects s). ef_account e = account \<and>
        get_latest_for_record (ef_effect_kind e) (ef_record_id e) s = Some e \<and> unreadable_flow e
    | Inr bs \<Rightarrow> \<forall>e. (e \<in> set bs \<longleftrightarrow> e \<in> set (effects s) \<and> ef_account e = account \<and>
        get_latest_for_record (ef_effect_kind e) (ef_record_id e) s = Some e \<and> blocks target e) \<and>
        (e \<in> set (effects s) \<and> ef_account e = account \<and>
          get_latest_for_record (ef_effect_kind e) (ef_record_id e) s = Some e \<and> may_block e \<longrightarrow>
          \<not> unreadable_flow e)"
proof -
  note listed = listed_effect [OF assms]
  note loop = blockers_loop_exact [of "list_effects (Some account) True [] s" target]
  show ?thesis
  proof (cases "list_ex unreadable_flow (list_effects (Some account) True [] s)")
    case True
    with loop obtain x where "list_blockers account target s = Inl x" by (auto simp: list_blockers_def)
    moreover from True obtain e where "e \<in> set (list_effects (Some account) True [] s)" "unreadable_flow e"
      by (auto simp: list_ex_iff)
    ultimately show ?thesis using listed [of e] by auto
  next
    case False
    with loop have "list_blockers account target s =
        Inr (filter (blocks target) (list_effects (Some account) True [] s))" by (simp add: list_blockers_def)
    with False listed show ?thesis by (auto simp: list_ex_iff)
  qed
qed

lemma demo_recreated_ok: "effect_store_ok demo_recreated"
proof -
  have f: "initialize_store ''2025-01-02'' None = Inr demo_effect_store" by code_simp
  have "effect_kept demo_effect_store demo_created"
    unfolding demo_created_def by (rule kept_create [OF effect_store_ok_fresh [OF f] prod.collapse [symmetric]])
  then have "effect_store_ok demo_created" by (simp add: effect_kept_def)
  then have "effect_kept demo_created demo_recreated"
    unfolding demo_recreated_def by (rule kept_create [OF _ prod.collapse [symmetric]])
  then show ?thesis by (simp add: effect_kept_def)
qed

lemma nav_blockers_exact_witness:
  "hd (tl (effects demo_recreated)) \<in>
     set (projr (list_blockers ''a'' \<lparr>dt_year = 2025, dt_month = 1, dt_day = 3\<rparr> demo_recreated)) \<and>
   hd (effects demo_recreated) \<notin>
     set (projr (list_blockers ''a'' \<lparr>dt_year = 2025, dt_month = 1, dt_day = 3\<rparr> demo_recreated))"
proof -
  define target :: py_date where "target = \<lparr>dt_year = 2025, dt_month = 1, dt_day = 3\<rparr>"
  let ?new = "hd (tl (effects demo_recreated))" and ?old = "hd (effects demo_recreated)"
  have r: "list_blockers ''a'' target demo_recreated = Inr [?new]" unfolding target_def by code_simp
  have old: "get_latest_for_record (ef_effect_kind ?old) (ef_record_id ?old) demo_recreated \<noteq> Some ?old"
    by code_simp
  have "?old \<notin> set [?new]"
    using nav_blockers_exact [OF demo_recreated_ok, of "''a''" target] old unfolding r sum.case by blast
  then show ?thesis unfolding target_def [symmetric] r by simp
qed

text \<open>What a column holds after an update: the given value, or what it held.\<close>

definition stored_text :: "string \<Rightarrow> dict \<Rightarrow> string option \<Rightarrow> string option" where
  "stored_text k cols old = (case map_of (rev cols) k of
      None \<Rightarrow> old | Some JNull \<Rightarrow> None | Some (JStr t) \<Rightarrow> Some t | Some j \<Rightarrow> text_column j)"

definition stored_json :: "string \<Rightarrow> dict \<Rightarrow> json option \<Rightarrow> json option" where
  "stored_json k cols old = (case map_of (rev cols) k of
      None \<Rightarrow> old | Some j \<Rightarrow> if j = JNull then None else Some (canonical_json j))"

lemma stored_snoc:
  "stored_text k (cols @ [kv]) old = (if fst kv = k then text_column (snd kv) else stored_text k cols old)"
  "stored_json k (cols @ [kv]) old' = (if fst kv = k then json_column (snd kv) else stored_json k cols old')"
  by (cases kv; auto simp: stored_text_def stored_json_def text_column_def json_column_def split: json.split)+

lemma set_column_other: "k \<noteq> ''state'' \<Longrightarrow> ef_state (set_column (k, v) r) = ef_state r"
  "ef_updated_at (set_column kv r) = ef_updated_at r"
  by (simp_all add: set_column_def Let_def)

lemma set_column_parts:
  "ef_target_source (set_column kv r) = (if fst kv = ''target_source'' then text_column (snd kv) else ef_target_source r)"
  "ef_before_json (set_column kv r) = (if fst kv = ''before_json'' then json_column (snd kv) else ef_before_json r)"
  "ef_targets_json (set_column kv r) = (if fst kv = ''targets_json'' then json_column (snd kv) else ef_targets_json r)"
  "ef_preview_hash (set_column kv r) = (if fst kv = ''preview_hash'' then text_column (snd kv) else ef_preview_hash r)"
  "ef_warnings_json (set_column kv r) = (if fst kv = ''warnings_json'' then json_column (snd kv) else ef_warnings_json r)"
  "ef_confirmation_json (set_column kv r) = (if fst kv = ''confirmation_json'' then json_column (snd kv) else ef_confirmation_json r)"
  "ef_compensation_task_id (set_column kv r) =
     (if fst kv = ''compensation_task_id'' then text_column (snd kv) else ef_compensation_task_id r)"
  "ef_last_error (set_column kv r) = (if fst kv = ''last_error'' then text_column (snd kv) else ef_last_error r)"
  by (simp_all add: set_column_def Let_def)

lemma columns_stored:
  "ef_target_source (fold set_column cols r) = stored_text ''target_source'' cols (ef_target_source r)"
  "ef_before_json (fold set_column cols r) = stored_json ''before_json'' cols (ef_before_json r)"
  "ef_targets_json (fold set_column cols r) = stored_json ''targets_json'' cols (ef_targets_json r)"
  "ef_preview_hash (fold set_column cols r) = stored_text ''preview_hash'' cols (ef_preview_hash r)"
  "ef_warnings_json (fold set_column cols r) = stored_json ''warnings_json'' cols (ef_warnings_json r)"
  "ef_confirmation_json (fold set_column cols r) = stored_json ''confirmation_json'' cols (ef_confirmation_json r)"
  "ef_compensation_task_id (fold set_column cols r) =
     stored_text ''compensation_task_id'' cols (ef_compensation_task_id r)"
  "ef_last_error (fold set_column cols r) = stored_text ''last_error'' cols (ef_last_error r)"
proof -
  have start: "stored_text k [] old = old" "stored_json k [] old' = old'" for k old old'
    by (simp_all add: stored_text_def stored_json_def)
  show "ef_target_source (fold set_column cols r) = stored_text ''target_source'' cols (ef_target_source r)"
    "ef_before_json (fold set_column cols r) = stored_json ''before_json'' cols (ef_before_json r)"
    "ef_targets_json (fold set_column cols r) = stored_json ''targets_json'' cols (ef_targets_json r)"
    "ef_preview_hash (fold set_column cols r) = stored_text ''preview_hash'' cols (ef_preview_hash r)"
    "ef_warnings_json (fold set_column cols r) = stored_json ''warnings_json'' cols (ef_warnings_json r)"
    "ef_confirmation_json (fold set_column cols r) = stored_json ''confirmation_json'' cols (ef_confirmation_json r)"
    "ef_compensation_task_id (fold set_column cols r) =
       stored_text ''compensation_task_id'' cols (ef_compensation_task_id r)"
    "ef_last_error (fold set_column cols r) = stored_text ''last_error'' cols (ef_last_error r)"
    by (induction cols rule: rev_induct, simp_all add: start stored_snoc set_column_parts)
qed

lemma updated_effect_row:
  "updated_effect (Some st) cols now q = q\<lparr>ef_state := st, ef_target_source := stored_text ''target_source'' cols (ef_target_source q),
     ef_before_json := stored_json ''before_json'' cols (ef_before_json q),
     ef_targets_json := stored_json ''targets_json'' cols (ef_targets_json q),
     ef_preview_hash := stored_text ''preview_hash'' cols (ef_preview_hash q),
     ef_warnings_json := stored_json ''warnings_json'' cols (ef_warnings_json q),
     ef_confirmation_json := stored_json ''confirmation_json'' cols (ef_confirmation_json q),
     ef_compensation_task_id := stored_text ''compensation_task_id'' cols (ef_compensation_task_id q),
     ef_last_error := stored_text ''last_error'' cols (ef_last_error q), ef_updated_at := now\<rparr>"
proof -
  have "same_origin q (fold set_column cols q)" by (rule same_origin_columns)
  then show ?thesis
    unfolding updated_effect_def Let_def option.case same_origin_def
    by (intro effect_row.equality) (simp_all add: columns_stored)
qed



end
