(* ===== verification/Nav_Index.thy ===== *)
theory Nav_Index
  imports Dates
begin

text \<open>
  The in-memory index of the NAV history (\<open>domain/nav_history_index.py\<close>): building it, the lookups
  of a base value with and without it, and the proof that both ways agree. A row of the history is
  read by its date only; its other columns are \<open>ne_row\<close>. The maps of the index are Python
  dictionaries filled in one pass over the rows in date order.
\<close>

record nav_entry =
  ne_date :: py_date
  ne_row :: string

record nav_index =
  ix_sorted_navs :: "nav_entry list"
  ix_dates :: "py_date list"
  ix_year_end :: "nat \<rightharpoonup> nav_entry"
  ix_year_first :: "nat \<rightharpoonup> nav_entry"
  ix_month_end :: "nat \<times> nat \<rightharpoonup> nav_entry"
  ix_month_first :: "nat \<times> nat \<rightharpoonup> nav_entry"

section \<open>Building the index\<close>

definition set_default :: "'k \<Rightarrow> 'v \<Rightarrow> ('k \<rightharpoonup> 'v) \<Rightarrow> ('k \<rightharpoonup> 'v)" where
  "set_default k v m = (if m k = None then m(k \<mapsto> v) else m)"

definition month_key :: "nav_entry \<Rightarrow> nat \<times> nat" where
  "month_key n = (dt_year (ne_date n), dt_month (ne_date n))"

definition year_key :: "nav_entry \<Rightarrow> nat" where
  "year_key n = dt_year (ne_date n)"

definition index_row :: "nav_entry \<Rightarrow> nav_index \<Rightarrow> nav_index" where
  "index_row n ix = ix\<lparr>
     ix_year_end := (ix_year_end ix)(year_key n \<mapsto> n),
     ix_year_first := set_default (year_key n) n (ix_year_first ix),
     ix_month_end := (ix_month_end ix)(month_key n \<mapsto> n),
     ix_month_first := set_default (month_key n) n (ix_month_first ix)\<rparr>"

definition build_nav_index :: "nav_entry list \<Rightarrow> nav_index" where
  "build_nav_index navs = (let sorted_navs = sort_key ne_date navs in
     fold index_row sorted_navs
       \<lparr>ix_sorted_navs = sorted_navs, ix_dates = map ne_date sorted_navs, ix_year_end = Map.empty,
        ix_year_first = Map.empty, ix_month_end = Map.empty, ix_month_first = Map.empty\<rparr>)"

section \<open>Bisection\<close>

text \<open>\<open>bisect.bisect_left\<close> of the standard library: the loop over \<open>lo\<close> and \<open>hi\<close>.\<close>

function bisect_loop :: "'a::linorder list \<Rightarrow> 'a \<Rightarrow> nat \<Rightarrow> nat \<Rightarrow> nat" where
  "bisect_loop xs x lo hi =
     (if lo < hi then
        let mid = (lo + hi) div 2
        in if xs ! mid < x then bisect_loop xs x (mid + 1) hi else bisect_loop xs x lo mid
      else lo)"
  by pat_completeness auto
termination
  by (relation "measure (\<lambda>(xs, x, lo, hi). hi - lo)") auto

declare bisect_loop.simps [simp del]

definition bisect_left :: "'a::linorder list \<Rightarrow> 'a \<Rightarrow> nat" where
  "bisect_left xs x = bisect_loop xs x 0 (length xs)"

lemma bisect_loop_split:
  assumes "sorted xs" and "lo \<le> hi" and "hi \<le> length xs"
    and "\<forall>i < lo. xs ! i < x" and "\<forall>i. hi \<le> i \<and> i < length xs \<longrightarrow> x \<le> xs ! i"
  shows "let j = bisect_loop xs x lo hi in j \<le> length xs \<and> (\<forall>i < j. xs ! i < x) \<and>
    (\<forall>i. j \<le> i \<and> i < length xs \<longrightarrow> x \<le> xs ! i)"
  using assms
proof (induction xs x lo hi rule: bisect_loop.induct)
  case (1 xs x lo hi)
  define mid where "mid = (lo + hi) div 2"
  show ?case
  proof (cases "lo < hi")
    case True
    then have mid: "lo \<le> mid" "mid < hi" by (auto simp: mid_def)
    show ?thesis
    proof (cases "xs ! mid < x")
      case below: True
      have "xs ! i < x" if "i < mid + 1" for i
      proof -
        have "xs ! i \<le> xs ! mid"
          using that mid 1(5) by (intro sorted_nth_mono [OF 1(3)]) auto
        with below show ?thesis by simp
      qed
      then have "let j = bisect_loop xs x (mid + 1) hi in j \<le> length xs \<and> (\<forall>i < j. xs ! i < x) \<and>
          (\<forall>i. j \<le> i \<and> i < length xs \<longrightarrow> x \<le> xs ! i)"
        using 1(1) [OF True mid_def below 1(3)] mid 1(5,7) by auto
      with True below show ?thesis by (subst bisect_loop.simps) (simp add: mid_def Let_def)
    next
      case above: False
      have "x \<le> xs ! i" if "mid \<le> i" "i < length xs" for i
        using above sorted_nth_mono [OF 1(3) that] by simp
      then have "let j = bisect_loop xs x lo mid in j \<le> length xs \<and> (\<forall>i < j. xs ! i < x) \<and>
          (\<forall>i. j \<le> i \<and> i < length xs \<longrightarrow> x \<le> xs ! i)"
        using 1(2) [OF True mid_def above 1(3)] mid 1(5,6) by auto
      with True above show ?thesis by (subst bisect_loop.simps) (simp add: mid_def Let_def)
    qed
  next
    case False
    with 1 show ?thesis by (subst bisect_loop.simps) (simp add: Let_def)
  qed
qed

text \<open>On a sorted list the result is the number of smaller elements.\<close>

lemma bisect_left_split:
  assumes "sorted xs"
  shows "take (bisect_left xs x) xs = filter (\<lambda>y. y < x) xs" and "bisect_left xs x \<le> length xs"
proof -
  define j where "j = bisect_left xs x"
  have "let j = bisect_loop xs x 0 (length xs) in j \<le> length xs \<and> (\<forall>i < j. xs ! i < x) \<and>
      (\<forall>i. j \<le> i \<and> i < length xs \<longrightarrow> x \<le> xs ! i)"
    using assms by (intro bisect_loop_split) auto
  then have j: "j \<le> length xs" "\<forall>i < j. xs ! i < x" "\<forall>i. j \<le> i \<and> i < length xs \<longrightarrow> x \<le> xs ! i"
    by (simp_all add: j_def bisect_left_def Let_def)
  have below: "\<forall>y \<in> set (take j xs). y < x" using j(1,2) by (auto simp: in_set_conv_nth)
  have above: "\<forall>y \<in> set (drop j xs). \<not> y < x"
  proof
    fix y assume "y \<in> set (drop j xs)"
    then obtain i where i: "i < length (drop j xs)" "drop j xs ! i = y" by (auto simp: in_set_conv_nth)
    then have "j + i < length xs" by simp
    with j(3) have "x \<le> xs ! (j + i)" by simp
    with i j(1) show "\<not> y < x" by simp
  qed
  have "filter (\<lambda>y. y < x) (take j xs @ drop j xs) = take j xs"
    using below above by (simp only: filter_append) (simp add: filter_True filter_False)
  then show "take (bisect_left xs x) xs = filter (\<lambda>y. y < x) xs" by (simp add: j_def)
  show "bisect_left xs x \<le> length xs" using j(1) by (simp add: j_def)
qed

section \<open>Lookups\<close>

text \<open>\<open>max\<close> and \<open>min\<close> with a key: the first element with the extreme key.\<close>

definition py_max_by :: "('a \<Rightarrow> 'k::linorder) \<Rightarrow> 'a list \<Rightarrow> 'a option" where
  "py_max_by key xs = (case xs of [] \<Rightarrow> None
     | x # rest \<Rightarrow> Some (foldl (\<lambda>b y. if key b < key y then y else b) x rest))"

definition py_min_by :: "('a \<Rightarrow> 'k::linorder) \<Rightarrow> 'a list \<Rightarrow> 'a option" where
  "py_min_by key xs = (case xs of [] \<Rightarrow> None
     | x # rest \<Rightarrow> Some (foldl (\<lambda>b y. if key y < key b then y else b) x rest))"

definition find_latest_before :: "nav_entry list \<Rightarrow> py_date \<Rightarrow> nav_index option \<Rightarrow> nav_entry option" where
  "find_latest_before navs before ix = (case ix of
      Some x \<Rightarrow> (case bisect_left (ix_dates x) before of
          0 \<Rightarrow> None
        | Suc idx \<Rightarrow> Some (ix_sorted_navs x ! idx))
    | None \<Rightarrow> py_max_by ne_date (filter (\<lambda>n. ne_date n < before) navs))"

definition find_year_end :: "nav_entry list \<Rightarrow> nat \<Rightarrow> nav_index option \<Rightarrow> nav_entry option" where
  "find_year_end navs year ix = (case ix of
      Some x \<Rightarrow> ix_year_end x year
    | None \<Rightarrow> py_max_by ne_date (filter (\<lambda>n. year_key n = year) navs))"

definition prev_month :: "nat \<Rightarrow> nat \<Rightarrow> nat \<times> nat" where
  "prev_month year month = (if month = 1 then (year - 1, 12) else (year, month - 1))"

definition find_prev_month_end :: "nav_entry list \<Rightarrow> nat \<Rightarrow> nat \<Rightarrow> nav_index option \<Rightarrow> nav_entry option" where
  "find_prev_month_end navs year month ix = (case ix of
      Some x \<Rightarrow> ix_month_end x (prev_month year month)
    | None \<Rightarrow> py_max_by ne_date (filter (\<lambda>n. month_key n = prev_month year month) navs))"

definition only_before :: "py_date \<Rightarrow> nav_entry option \<Rightarrow> nav_entry option" where
  "only_before before c = (case c of None \<Rightarrow> None | Some n \<Rightarrow> if ne_date n < before then Some n else None)"

definition find_first_in_month_before ::
    "nav_entry list \<Rightarrow> nat \<Rightarrow> nat \<Rightarrow> py_date \<Rightarrow> nav_index option \<Rightarrow> nav_entry option" where
  "find_first_in_month_before navs year month before ix = (case ix of
      Some x \<Rightarrow> only_before before (ix_month_first x (year, month))
    | None \<Rightarrow> py_min_by ne_date (filter (\<lambda>n. ne_date n < before \<and> month_key n = (year, month)) navs))"

definition find_first_in_year_before ::
    "nav_entry list \<Rightarrow> nat \<Rightarrow> py_date \<Rightarrow> nav_index option \<Rightarrow> nav_entry option" where
  "find_first_in_year_before navs year before ix = (case ix of
      Some x \<Rightarrow> only_before before (ix_year_first x year)
    | None \<Rightarrow> py_min_by ne_date (filter (\<lambda>n. ne_date n < before \<and> year_key n = year) navs))"

definition find_mtd_return_base :: "nav_entry list \<Rightarrow> py_date \<Rightarrow> nav_index option \<Rightarrow> nav_entry option" where
  "find_mtd_return_base navs as_of ix =
     (case find_prev_month_end navs (dt_year as_of) (dt_month as_of) ix of
        Some n \<Rightarrow> Some n
      | None \<Rightarrow> find_first_in_month_before navs (dt_year as_of) (dt_month as_of) as_of ix)"

definition find_ytd_return_base :: "nav_entry list \<Rightarrow> py_date \<Rightarrow> nav_index option \<Rightarrow> nav_entry option" where
  "find_ytd_return_base navs as_of ix =
     (case find_year_end navs (dt_year as_of - 1) ix of
        Some n \<Rightarrow> Some n
      | None \<Rightarrow> find_first_in_year_before navs (dt_year as_of) as_of ix)"

section \<open>Lemmas\<close>

definition first_of :: "'a list \<Rightarrow> 'a option" where
  "first_of xs = (case xs of [] \<Rightarrow> None | x # _ \<Rightarrow> Some x)"

definition last_of :: "'a list \<Rightarrow> 'a option" where
  "last_of xs = (if xs = [] then None else Some (last xs))"

lemma fold_last:
  "fold (\<lambda>n m. m(k n \<mapsto> n)) xs m y =
     (case last_of (filter (\<lambda>n. k n = y) xs) of None \<Rightarrow> m y | Some n \<Rightarrow> Some n)"
  by (induction xs arbitrary: m) (auto simp: last_of_def)

lemma fold_first:
  "fold (\<lambda>n m. set_default (k n) n m) xs m y =
     (case m y of Some n \<Rightarrow> Some n | None \<Rightarrow> first_of (filter (\<lambda>n. k n = y) xs))"
  by (induction xs arbitrary: m) (auto simp: first_of_def set_default_def split: option.splits)

lemma fold_index_row:
  "fold index_row xs ix = ix\<lparr>
     ix_year_end := fold (\<lambda>n m. m(year_key n \<mapsto> n)) xs (ix_year_end ix),
     ix_year_first := fold (\<lambda>n m. set_default (year_key n) n m) xs (ix_year_first ix),
     ix_month_end := fold (\<lambda>n m. m(month_key n \<mapsto> n)) xs (ix_month_end ix),
     ix_month_first := fold (\<lambda>n m. set_default (month_key n) n m) xs (ix_month_first ix)\<rparr>"
  by (induction xs arbitrary: ix) (simp_all add: index_row_def)

lemma built_index:
  fixes navs :: "nav_entry list"
  defines "S \<equiv> sort_key ne_date navs"
  shows "ix_sorted_navs (build_nav_index navs) = S" "ix_dates (build_nav_index navs) = map ne_date S"
    "ix_year_end (build_nav_index navs) y = last_of (filter (\<lambda>n. year_key n = y) S)"
    "ix_year_first (build_nav_index navs) y = first_of (filter (\<lambda>n. year_key n = y) S)"
    "ix_month_end (build_nav_index navs) m = last_of (filter (\<lambda>n. month_key n = m) S)"
    "ix_month_first (build_nav_index navs) m = first_of (filter (\<lambda>n. month_key n = m) S)"
  unfolding S_def build_nav_index_def Let_def
  by (simp_all add: fold_index_row fold_last fold_first split: option.splits)

text \<open>The minimum and the maximum of a list against its sorted form.\<close>

lemma py_min_Cons:
  "py_min_by f (x # xs) = Some (case py_min_by f xs of None \<Rightarrow> x | Some y \<Rightarrow> if f y < f x then y else x)"
proof (cases xs)
  case (Cons y ys)
  define mn where "mn b y = (if f y < f b then y else b)" for b y
  have assoc: "mn (mn a b) c = mn a (mn b c)" for a b c by (auto simp: mn_def)
  have "foldl mn (mn x y) ys = mn x (foldl mn y ys)"
    by (induction ys arbitrary: y) (simp_all add: assoc)
  moreover have "mn = (\<lambda>b y. if f y < f b then y else b)" by (intro ext) (simp add: mn_def)
  ultimately show ?thesis by (simp add: py_min_by_def Cons mn_def)
qed (simp add: py_min_by_def)

lemma first_of_sort: "first_of (sort_key f xs) = py_min_by f xs"
proof (induction xs)
  case Nil
  then show ?case by (simp add: first_of_def py_min_by_def)
next
  case (Cons x xs)
  have "first_of (insort_key f x ys) = Some (case first_of ys of None \<Rightarrow> x | Some y \<Rightarrow> if f y < f x then y else x)"
    for ys by (cases ys) (auto simp: first_of_def)
  then show ?case by (simp add: Cons.IH py_min_Cons)
qed

lemma py_max_props:
  assumes "py_max_by f xs = Some m"
  shows "m \<in> set xs \<and> (\<forall>y \<in> set xs. f y \<le> f m)"
proof -
  have "foldl (\<lambda>b y. if f b < f y then y else b) x ys \<in> set (x # ys) \<and>
      (\<forall>y \<in> set (x # ys). f y \<le> f (foldl (\<lambda>b y. if f b < f y then y else b) x ys))" for x ys
  proof (induction ys arbitrary: x)
    case (Cons y ys)
    define b where "b = (if f x < f y then y else x)"
    from Cons.IH [of b] have "f b \<le> f (foldl (\<lambda>b y. if f b < f y then y else b) b ys)" by simp
    moreover have "f x \<le> f b" "f y \<le> f b" by (auto simp: b_def)
    moreover have "b = x \<or> b = y" by (auto simp: b_def)
    ultimately show ?case
      using Cons.IH [of b] by (auto simp flip: b_def dest: order_trans)
  qed simp
  with assms show ?thesis by (auto simp: py_max_by_def split: list.splits)
qed

lemma py_max_None: "py_max_by f xs = None \<longleftrightarrow> xs = []"
  by (simp add: py_max_by_def split: list.splits)

lemma last_of_sort_key: "map_option f (last_of (sort_key f xs)) = map_option f (py_max_by f xs)"
proof (cases "py_max_by f xs")
  case None
  then have "xs = []" by (simp add: py_max_None)
  then show ?thesis by (simp add: last_of_def py_max_by_def)
next
  case (Some m)
  from py_max_props [OF this] have m: "m \<in> set xs" "\<forall>y \<in> set xs. f y \<le> f m" by blast+
  define S where "S = sort_key f xs"
  have S: "set S = set xs" "sorted (map f S)" by (simp_all add: S_def)
  then have ne: "S \<noteq> []" using m(1) by (metis empty_iff empty_set)
  then have "last S \<in> set xs" using S(1) last_in_set by metis
  with m(2) have le: "f (last S) \<le> f m" by auto
  have "m \<in> set S" using m(1) S(1) by simp
  then obtain i where i: "i < length S" "S ! i = m" by (auto simp: in_set_conv_nth)
  have "map f S ! i \<le> map f S ! (length S - 1)"
    using i(1) by (intro sorted_nth_mono [OF S(2)]) auto
  then have "f m \<le> f (last S)" using i ne by (simp add: last_conv_nth)
  with le ne Some show ?thesis by (simp add: last_of_def S_def)
qed

lemma last_of_sort:
  assumes "distinct (map f xs)"
  shows "last_of (sort_key f xs) = py_max_by f xs"
proof (cases "py_max_by f xs")
  case None
  with last_of_sort_key [of f xs] show ?thesis by simp
next
  case (Some m)
  with last_of_sort_key [of f xs] obtain z where z: "last_of (sort_key f xs) = Some z" "f z = f m" by auto
  have "m \<in> set xs" using py_max_props [OF Some] by blast
  moreover have "z \<in> set xs"
    using z(1) last_in_set [of "sort_key f xs"] by (auto simp: last_of_def split: if_splits)
  ultimately have "z = m" using z(2) assms by (auto simp: distinct_map dest: inj_onD)
  with z Some show ?thesis by simp
qed

lemma filter_sorted: "filter p (sort_key f xs) = sort_key f (filter p xs)"
  by (rule filter_sort)

lemma first_before:
  assumes "sorted (map ne_date xs)"
  shows "only_before d (first_of xs) = first_of (filter (\<lambda>n. ne_date n < d) xs)"
proof (cases xs)
  case (Cons x rest)
  have "filter (\<lambda>n. ne_date n < d) rest = []" if "\<not> ne_date x < d"
    using that assms by (auto simp: Cons filter_empty_conv)
  then show ?thesis by (auto simp: Cons only_before_def first_of_def)
qed (simp add: only_before_def first_of_def)

lemma indexed_latest_before:
  "find_latest_before navs before (Some (build_nav_index navs)) =
     last_of (sort_key ne_date (filter (\<lambda>n. ne_date n < before) navs))"
proof -
  define S where "S = sort_key ne_date navs"
  define j where "j = bisect_left (map ne_date S) before"
  have srt: "sorted (map ne_date S)" by (simp add: S_def)
  have j: "j \<le> length S" using bisect_left_split(2) [OF srt] by (simp add: j_def)
  have "filter (\<lambda>y. y < before) (map ne_date S) = map ne_date (filter (\<lambda>n. ne_date n < before) S)"
    by (simp add: filter_map comp_def)
  then have dates: "map ne_date (take j S) = map ne_date (filter (\<lambda>n. ne_date n < before) S)"
    using bisect_left_split(1) [OF srt] by (simp add: j_def take_map)
  then have len: "length (filter (\<lambda>n. ne_date n < before) S) = j" using j by (metis length_map length_take min.absorb2)
  have "\<forall>n \<in> set (take j S). ne_date n < before"
  proof
    fix n assume "n \<in> set (take j S)"
    then have "ne_date n \<in> ne_date ` set (filter (\<lambda>n. ne_date n < before) S)"
      using dates by (metis image_eqI list.set_map)
    then show "ne_date n < before" by auto
  qed
  then have "filter (\<lambda>n. ne_date n < before) (take j S) = take j S" by (simp add: filter_True)
  moreover have split: "filter (\<lambda>n. ne_date n < before) S =
      filter (\<lambda>n. ne_date n < before) (take j S) @ filter (\<lambda>n. ne_date n < before) (drop j S)"
    by (metis append_take_drop_id filter_append)
  ultimately have "length (filter (\<lambda>n. ne_date n < before) (drop j S)) = 0"
    using len j by simp
  with split \<open>filter (\<lambda>n. ne_date n < before) (take j S) = take j S\<close>
  have "filter (\<lambda>n. ne_date n < before) S = take j S" by simp
  then have "last_of (sort_key ne_date (filter (\<lambda>n. ne_date n < before) navs)) = last_of (take j S)"
    by (simp add: S_def filter_sorted)
  moreover have "last_of (take j S) = (case j of 0 \<Rightarrow> None | Suc i \<Rightarrow> Some (S ! i))"
    using j by (cases j) (auto simp: last_of_def take_Suc_conv_app_nth)
  ultimately show ?thesis
    by (simp add: find_latest_before_def built_index S_def [symmetric] j_def split: nat.split)
qed

lemma indexed_year_end:
  "find_year_end navs year (Some (build_nav_index navs)) =
     last_of (sort_key ne_date (filter (\<lambda>n. year_key n = year) navs))"
  by (simp add: find_year_end_def built_index filter_sorted)

lemma indexed_month_end:
  "find_prev_month_end navs year month (Some (build_nav_index navs)) =
     last_of (sort_key ne_date (filter (\<lambda>n. month_key n = prev_month year month) navs))"
  by (simp add: find_prev_month_end_def built_index filter_sorted)

lemma indexed_first_before:
  "only_before d (first_of (filter p (sort_key ne_date navs))) =
     py_min_by ne_date (filter (\<lambda>n. ne_date n < d \<and> p n) navs)"
proof -
  have "sorted (map ne_date (filter p (sort_key ne_date navs)))"
    by (simp add: filter_sorted)
  then have "only_before d (first_of (filter p (sort_key ne_date navs))) =
      first_of (filter (\<lambda>n. ne_date n < d) (filter p (sort_key ne_date navs)))"
    by (rule first_before)
  also have "\<dots> = first_of (sort_key ne_date (filter (\<lambda>n. ne_date n < d \<and> p n) navs))"
    by (simp add: filter_sorted conj_commute)
  finally show ?thesis by (simp add: first_of_sort)
qed

lemma indexed_first_in_month:
  "find_first_in_month_before navs y m d (Some (build_nav_index navs)) = find_first_in_month_before navs y m d None"
  by (simp add: find_first_in_month_before_def built_index indexed_first_before)

lemma indexed_first_in_year:
  "find_first_in_year_before navs y d (Some (build_nav_index navs)) = find_first_in_year_before navs y d None"
  by (simp add: find_first_in_year_before_def built_index indexed_first_before)

section \<open>Properties\<close>

text \<open>
  C32. The index against scanning the history. The first row of a month and the first row of a year
  are the same row with and without the index, always. The other five lookups (the latest row before
  a date, the end of a year, the end of the previous month, and the bases of the month-to-date and
  year-to-date returns) always give a row of the same date both ways, and the same row where no two
  rows of the history have the same date. That condition is needed: \<open>nav_index_duplicate_dates\<close> below
  shows two rows of one date between which the index and the scan choose differently.
\<close>
theorem nav_index_equivalent:
  shows "map_option ne_date (find_latest_before navs d (Some (build_nav_index navs))) =
      map_option ne_date (find_latest_before navs d None) \<and>
    map_option ne_date (find_year_end navs y (Some (build_nav_index navs))) = map_option ne_date (find_year_end navs y None) \<and>
    map_option ne_date (find_prev_month_end navs y m (Some (build_nav_index navs))) =
      map_option ne_date (find_prev_month_end navs y m None) \<and>
    map_option ne_date (find_mtd_return_base navs d (Some (build_nav_index navs))) =
      map_option ne_date (find_mtd_return_base navs d None) \<and>
    map_option ne_date (find_ytd_return_base navs d (Some (build_nav_index navs))) =
      map_option ne_date (find_ytd_return_base navs d None) \<and>
    find_first_in_month_before navs y m d (Some (build_nav_index navs)) = find_first_in_month_before navs y m d None \<and>
    find_first_in_year_before navs y d (Some (build_nav_index navs)) = find_first_in_year_before navs y d None \<and>
    (distinct (map ne_date navs) \<longrightarrow>
      find_latest_before navs d (Some (build_nav_index navs)) = find_latest_before navs d None \<and>
      find_year_end navs y (Some (build_nav_index navs)) = find_year_end navs y None \<and>
      find_prev_month_end navs y m (Some (build_nav_index navs)) = find_prev_month_end navs y m None \<and>
      find_mtd_return_base navs d (Some (build_nav_index navs)) = find_mtd_return_base navs d None \<and>
      find_ytd_return_base navs d (Some (build_nav_index navs)) = find_ytd_return_base navs d None)"
proof -
  have ends: "map_option ne_date (find_year_end navs y (Some (build_nav_index navs))) =
      map_option ne_date (find_year_end navs y None)"
    "map_option ne_date (find_prev_month_end navs y m (Some (build_nav_index navs))) =
      map_option ne_date (find_prev_month_end navs y m None)" for y m
    by (simp_all add: indexed_year_end indexed_month_end last_of_sort_key)
      (simp_all add: find_year_end_def find_prev_month_end_def)
  have scan: "last_of (sort_key ne_date (filter p navs)) = py_max_by ne_date (filter p navs)"
    if "distinct (map ne_date navs)" for p
    using that by (intro last_of_sort) (simp add: distinct_map inj_on_def)
  have exact: "find_year_end navs y (Some (build_nav_index navs)) = find_year_end navs y None"
    "find_prev_month_end navs y m (Some (build_nav_index navs)) = find_prev_month_end navs y m None"
    "find_latest_before navs d (Some (build_nav_index navs)) = find_latest_before navs d None"
    if "distinct (map ne_date navs)" for y m d
    by (simp_all add: indexed_year_end indexed_month_end indexed_latest_before scan [OF that])
      (simp_all add: find_year_end_def find_prev_month_end_def find_latest_before_def)
  have "map_option ne_date (find_latest_before navs d (Some (build_nav_index navs))) =
      map_option ne_date (find_latest_before navs d None)"
    by (simp add: indexed_latest_before last_of_sort_key) (simp add: find_latest_before_def)
  moreover have "map_option ne_date (find_mtd_return_base navs d (Some (build_nav_index navs))) =
      map_option ne_date (find_mtd_return_base navs d None)"
    using ends(2) [of "dt_year d" "dt_month d"]
    by (auto simp: find_mtd_return_base_def indexed_first_in_month split: option.splits)
  moreover have "map_option ne_date (find_ytd_return_base navs d (Some (build_nav_index navs))) =
      map_option ne_date (find_ytd_return_base navs d None)"
    using ends(1) [of "dt_year d - 1"]
    by (auto simp: find_ytd_return_base_def indexed_first_in_year split: option.splits)
  moreover have "find_mtd_return_base navs d (Some (build_nav_index navs)) = find_mtd_return_base navs d None"
    "find_ytd_return_base navs d (Some (build_nav_index navs)) = find_ytd_return_base navs d None"
    if "distinct (map ne_date navs)"
    by (simp_all only: find_mtd_return_base_def find_ytd_return_base_def exact [OF that]
        indexed_first_in_month indexed_first_in_year)
  ultimately show ?thesis
    using exact ends indexed_first_in_month indexed_first_in_year by blast
qed

definition demo_nav :: "nat \<Rightarrow> nat \<Rightarrow> string \<Rightarrow> nav_entry" where
  "demo_nav m d x = \<lparr>ne_date = \<lparr>dt_year = 2025, dt_month = m, dt_day = d\<rparr>, ne_row = x\<rparr>"

lemma nav_index_equivalent_witness:
  "find_mtd_return_base [demo_nav 2 3 ''b'', demo_nav 1 31 ''a''] \<lparr>dt_year = 2025, dt_month = 2, dt_day = 5\<rparr>
     (Some (build_nav_index [demo_nav 2 3 ''b'', demo_nav 1 31 ''a''])) = Some (demo_nav 1 31 ''a'')"
proof -
  have d: "distinct (map ne_date [demo_nav 2 3 ''b'', demo_nav 1 31 ''a''])" by code_simp
  have "find_mtd_return_base [demo_nav 2 3 ''b'', demo_nav 1 31 ''a''] \<lparr>dt_year = 2025, dt_month = 2, dt_day = 5\<rparr> None =
      Some (demo_nav 1 31 ''a'')" by code_simp
  with nav_index_equivalent [of "[demo_nav 2 3 ''b'', demo_nav 1 31 ''a'']"
      "\<lparr>dt_year = 2025, dt_month = 2, dt_day = 5\<rparr>"] d show ?thesis by simp
qed

text \<open>With two rows of one date the two ways pick different rows.\<close>

lemma nav_index_duplicate_dates:
  "find_latest_before [demo_nav 1 2 ''old'', demo_nav 1 2 ''new''] \<lparr>dt_year = 2025, dt_month = 1, dt_day = 3\<rparr>
     (Some (build_nav_index [demo_nav 1 2 ''old'', demo_nav 1 2 ''new''])) = Some (demo_nav 1 2 ''new'') \<and>
   find_latest_before [demo_nav 1 2 ''old'', demo_nav 1 2 ''new''] \<lparr>dt_year = 2025, dt_month = 1, dt_day = 3\<rparr> None =
     Some (demo_nav 1 2 ''old'')"
  by code_simp

end
