(* ===== verification/Decimals.thy ===== *)
theory Decimals
  imports Complex_Main Json Dates
begin

text \<open>
  Finite numbers of Python's \<open>decimal\<close> module as the program uses them: the text a constructor
  accepts, exact comparison, the plain format, sums in the default context of 28 digits, and
  \<open>quantize\<close> with ROUND_HALF_UP. A number is a sign, a coefficient and an exponent, as
  \<open>Decimal.as_tuple\<close> gives them. \<open>dec_value\<close>, its value as a rational, serves the statements only.
\<close>

record decimal =
  dec_neg :: bool
  dec_coeff :: nat
  dec_exp :: int

definition dec_value :: "decimal \<Rightarrow> rat" where
  "dec_value d = (if dec_neg d then -1 else 1) * of_nat (dec_coeff d) * 10 powi dec_exp d"

section \<open>Reading a number\<close>

definition is_digit :: "char \<Rightarrow> bool" where
  "is_digit c \<longleftrightarrow> chars_between (CHR ''0'') (CHR ''9'') c"

definition digits_nat :: "string \<Rightarrow> nat" where
  "digits_nat ds = foldl (\<lambda>n c. 10 * n + (of_char c - 48)) 0 ds"

definition split_sign :: "string \<Rightarrow> bool \<times> string" where
  "split_sign t = (case t of
      [] \<Rightarrow> (False, [])
    | c # cs \<Rightarrow> if c = CHR ''-'' then (True, cs) else if c = CHR ''+'' then (False, cs) else (False, c # cs))"

text \<open>The optional exponent: \<open>None\<close> where the rest of the text is no exponent.\<close>

definition parse_exponent :: "string \<Rightarrow> int option" where
  "parse_exponent t = (case t of
      [] \<Rightarrow> Some 0
    | c # cs \<Rightarrow>
        if c \<in> {CHR ''e'', CHR ''E''} then
          (let (neg, ds) = split_sign cs
           in if ds \<noteq> [] \<and> list_all is_digit ds
              then Some ((if neg then -1 else 1) * int (digits_nat ds)) else None)
        else None)"

definition parse_unsigned :: "bool \<Rightarrow> string \<Rightarrow> decimal option" where
  "parse_unsigned neg t =
     (let whole = takeWhile is_digit t; rest = dropWhile is_digit t;
          (frac, rest2) = (case rest of
             c # cs \<Rightarrow> if c = CHR ''.'' then (takeWhile is_digit cs, dropWhile is_digit cs) else ([], rest)
           | [] \<Rightarrow> ([], []))
      in if whole @ frac = [] then None
         else case parse_exponent rest2 of
             None \<Rightarrow> None
           | Some e \<Rightarrow> Some \<lparr>dec_neg = neg, dec_coeff = digits_nat (whole @ frac),
               dec_exp = e - int (length frac)\<rparr>)"

text \<open>
  \<open>Decimal(t)\<close> for a finite number: surrounding blanks and underscores are dropped. \<open>None\<close> stands
  for \<open>InvalidOperation\<close> and for the infinities and NaNs, which every caller rejects next.
\<close>

definition parse_decimal :: "string \<Rightarrow> decimal option" where
  "parse_decimal t = (case split_sign (filter (\<lambda>c. c \<noteq> CHR ''_'') (py_strip t)) of (neg, u) \<Rightarrow> parse_unsigned neg u)"

section \<open>Comparison\<close>

text \<open>The signed coefficient at a common exponent \<open>m\<close> not above the number's own.\<close>

definition scaled :: "int \<Rightarrow> decimal \<Rightarrow> int" where
  "scaled m d = (if dec_neg d then -1 else 1) * int (dec_coeff d) * 10 ^ nat (dec_exp d - m)"

definition dec_less :: "decimal \<Rightarrow> decimal \<Rightarrow> bool" where
  "dec_less a b \<longleftrightarrow> (let m = min (dec_exp a) (dec_exp b) in scaled m a < scaled m b)"

definition dec_eq :: "decimal \<Rightarrow> decimal \<Rightarrow> bool" where
  "dec_eq a b \<longleftrightarrow> (let m = min (dec_exp a) (dec_exp b) in scaled m a = scaled m b)"

definition dec_zero :: decimal where
  "dec_zero = \<lparr>dec_neg = False, dec_coeff = 0, dec_exp = 0\<rparr>"

lemma scaled_value:
  assumes "m \<le> dec_exp d"
  shows "dec_value d = of_int (scaled m d) * 10 powi m"
proof -
  have "(10::rat) powi dec_exp d = 10 ^ nat (dec_exp d - m) * 10 powi m"
  proof -
    have "(10::rat) powi dec_exp d = 10 powi (dec_exp d - m) * 10 powi m"
      by (simp flip: power_int_add)
    also have "(10::rat) powi (dec_exp d - m) = 10 ^ nat (dec_exp d - m)"
      using assms by (simp add: power_int_def)
    finally show ?thesis .
  qed
  then show ?thesis by (simp add: dec_value_def scaled_def)
qed

lemma dec_less_value: "dec_less a b \<longleftrightarrow> dec_value a < dec_value b"
proof -
  define m where "m = min (dec_exp a) (dec_exp b)"
  have "dec_value a = of_int (scaled m a) * 10 powi m" "dec_value b = of_int (scaled m b) * 10 powi m"
    by (simp_all add: scaled_value m_def)
  moreover have "(0::rat) < 10 powi m" by simp
  ultimately show ?thesis by (simp add: dec_less_def Let_def flip: m_def)
qed

lemma dec_eq_value: "dec_eq a b \<longleftrightarrow> dec_value a = dec_value b"
proof -
  define m where "m = min (dec_exp a) (dec_exp b)"
  have "dec_value a = of_int (scaled m a) * 10 powi m" "dec_value b = of_int (scaled m b) * 10 powi m"
    by (simp_all add: scaled_value m_def)
  moreover have "(10::rat) powi m \<noteq> 0" by simp
  ultimately show ?thesis by (simp add: dec_eq_def Let_def m_def)
qed

section \<open>The plain format\<close>

definition format_f :: "decimal \<Rightarrow> string" where
  "format_f d =
     (let ds = nat_text (dec_coeff d); n = nat (- dec_exp d); sign = (if dec_neg d then ''-'' else [])
      in if dec_exp d \<ge> 0 then sign @ ds @ replicate (nat (dec_exp d)) (CHR ''0'')
         else if length ds > n then sign @ take (length ds - n) ds @ ''.'' @ drop (length ds - n) ds
         else sign @ ''0.'' @ replicate (n - length ds) (CHR ''0'') @ ds)"

definition rstrip_char :: "char \<Rightarrow> string \<Rightarrow> string" where
  "rstrip_char c t = rev (dropWhile (\<lambda>x. x = c) (rev t))"

text \<open>\<open>canonical_holding_number\<close> of \<open>domain/holding_values.py\<close>.\<close>

definition canonical_holding_number :: "decimal \<Rightarrow> string" where
  "canonical_holding_number d =
     (if dec_coeff d = 0 then ''0''
      else let t = format_f d
        in if CHR ''.'' \<in> set t then rstrip_char (CHR ''.'') (rstrip_char (CHR ''0'') t) else t)"

section \<open>Lemmas: digits\<close>

lemma is_digit_zero [simp]: "is_digit (CHR ''0'')"
  by code_simp

lemma not_digit [simp]: "\<not> is_digit (CHR ''.'')" "\<not> is_digit (CHR ''-'')" "\<not> is_digit (CHR ''+'')"
  "\<not> is_digit (CHR ''_'')"
  by code_simp+

lemma digit_not_space: "is_digit c \<Longrightarrow> \<not> py_space c"
  by (auto simp: is_digit_def chars_between_def py_space_def less_eq_char_def)

lemma hex_digit_decimal:
  assumes "n < 10"
  shows "is_digit (hex_digit n)" and "of_char (hex_digit n) = 48 + n"
proof -
  from assms have "n \<in> set [0, 1, 2, 3, 4, 5, 6, 7, 8, 9]" by auto
  moreover have "list_all (\<lambda>n. is_digit (hex_digit n) \<and> of_char (hex_digit n) = 48 + n) [0, 1, 2, 3, 4, 5, 6, 7, 8, 9 :: nat]"
    by code_simp
  ultimately have "is_digit (hex_digit n) \<and> of_char (hex_digit n) = 48 + n"
    unfolding list_all_iff by blast
  then show "is_digit (hex_digit n)" "of_char (hex_digit n) = 48 + n" by blast+
qed

definition digit_step :: "nat \<Rightarrow> char \<Rightarrow> nat" where
  "digit_step n c = 10 * n + (of_char c - 48)"

lemma digits_nat_step: "digits_nat ds = foldl digit_step 0 ds"
proof -
  have "(\<lambda>n c. 10 * n + (of_char c - 48)) = digit_step" by (intro ext) (simp add: digit_step_def)
  then show ?thesis by (simp add: digits_nat_def)
qed

lemma foldl_digit_step: "foldl digit_step a ds = a * 10 ^ length ds + foldl digit_step 0 ds"
proof (induction ds arbitrary: a)
  case (Cons c ds)
  define v where "v = (of_char c - 48 :: nat)"
  have st: "digit_step n c = 10 * n + v" for n by (simp add: digit_step_def v_def)
  have "foldl digit_step a (c # ds) = (10 * a + v) * 10 ^ length ds + foldl digit_step 0 ds"
    using Cons.IH [of "10 * a + v"] by (simp add: st)
  moreover have "foldl digit_step 0 (c # ds) = v * 10 ^ length ds + foldl digit_step 0 ds"
    using Cons.IH [of v] by (simp add: st)
  ultimately show ?case by (simp add: add_mult_distrib)
qed simp

lemma digits_nat_append: "digits_nat (xs @ ys) = digits_nat xs * 10 ^ length ys + digits_nat ys"
  unfolding digits_nat_step foldl_append by (rule foldl_digit_step)

lemma digits_nat_zeros [simp]: "digits_nat (replicate k (CHR ''0'')) = 0"
  by (induction k) (simp_all add: digits_nat_def)

lemma digits_nat_Nil [simp]: "digits_nat [] = 0"
  by (simp add: digits_nat_def)

lemma nat_text_props: "nat_text n \<noteq> [] \<and> list_all is_digit (nat_text n) \<and> digits_nat (nat_text n) = n"
proof (induction n rule: nat_text.induct)
  case (1 n)
  show ?case
  proof (cases "n < 10")
    case True
    then show ?thesis
      by (subst (1 2 3) nat_text.simps) (simp add: hex_digit_decimal digits_nat_def)
  next
    case False
    then have t: "nat_text n = nat_text (n div 10) @ [hex_digit (n mod 10)]"
      by (subst nat_text.simps) simp
    have m: "n mod 10 < 10" by simp
    have "digits_nat [hex_digit (n mod 10)] = n mod 10"
      using hex_digit_decimal(2) [OF m] by (simp add: digits_nat_def)
    with 1 [OF False] show ?thesis
      unfolding t digits_nat_append using hex_digit_decimal(1) [OF m] by simp
  qed
qed

lemmas nat_text_facts [simp] =
  nat_text_props [THEN conjunct1] nat_text_props [THEN conjunct2, THEN conjunct1]
  nat_text_props [THEN conjunct2, THEN conjunct2]

lemma nat_text_ten: "0 < c \<Longrightarrow> nat_text (10 * c) = nat_text c @ ''0''"
  by (subst nat_text.simps) (simp add: hex_digit_def)

section \<open>Lemmas: the plain text of a number\<close>

definition plain_text_of :: "bool \<Rightarrow> string \<Rightarrow> string \<Rightarrow> string" where
  "plain_text_of neg whole part =
     (if neg then ''-'' else []) @ whole @ (if part = [] then [] else CHR ''.'' # part)"

definition whole_part :: "decimal \<Rightarrow> string" where
  "whole_part d = (let ds = nat_text (dec_coeff d); n = nat (- dec_exp d) in
     if dec_exp d \<ge> 0 then ds @ replicate (nat (dec_exp d)) (CHR ''0'')
     else if length ds > n then take (length ds - n) ds else ''0'')"

definition frac_part :: "decimal \<Rightarrow> string" where
  "frac_part d = (let ds = nat_text (dec_coeff d); n = nat (- dec_exp d) in
     if dec_exp d \<ge> 0 then [] else if length ds > n then drop (length ds - n) ds
     else replicate (n - length ds) (CHR ''0'') @ ds)"

lemma format_parts: "format_f d = plain_text_of (dec_neg d) (whole_part d) (frac_part d)"
  by (auto simp: format_f_def plain_text_of_def whole_part_def frac_part_def Let_def)

lemma list_all_take_drop: "list_all p xs \<Longrightarrow> list_all p (take n xs) \<and> list_all p (drop n xs)"
  by (auto simp: list_all_iff dest: in_set_takeD in_set_dropD)

lemma parts_digits: "whole_part d \<noteq> []" "list_all is_digit (whole_part d)" "list_all is_digit (frac_part d)"
proof -
  show "whole_part d \<noteq> []" by (auto simp: whole_part_def Let_def)
  show "list_all is_digit (whole_part d)" "list_all is_digit (frac_part d)"
    by (auto simp: whole_part_def frac_part_def Let_def list_all_take_drop)
      (auto simp: list_all_iff)
qed

lemma parts_value:
  "dec_value d = (if dec_neg d then -1 else 1) * of_nat (digits_nat (whole_part d @ frac_part d)) *
     10 powi (- int (length (frac_part d)))"
proof (cases "dec_exp d \<ge> 0")
  case True
  then have "whole_part d @ frac_part d = nat_text (dec_coeff d) @ replicate (nat (dec_exp d)) (CHR ''0'')"
    "frac_part d = []" by (simp_all add: whole_part_def frac_part_def Let_def)
  then show ?thesis
    using True by (simp add: digits_nat_append dec_value_def power_int_def)
next
  case False
  define n where "n = nat (- dec_exp d)"
  have len: "length (frac_part d) = n"
    using False by (auto simp: frac_part_def Let_def n_def)
  have "digits_nat (whole_part d @ frac_part d) = dec_coeff d"
  proof (cases "length (nat_text (dec_coeff d)) > n")
    case True
    with False show ?thesis by (simp add: whole_part_def frac_part_def Let_def flip: n_def)
  next
    case short: False
    have z: "digits_nat ''0'' = 0" by (simp add: digits_nat_def)
    have "digits_nat (''0'' @ replicate k (CHR ''0'') @ xs) = digits_nat xs" for k xs
      by (simp only: digits_nat_append digits_nat_zeros z mult_zero_left add_0)
    with False short show ?thesis by (simp add: whole_part_def frac_part_def Let_def flip: n_def)
  qed
  moreover have "- int n = dec_exp d" using False by (simp add: n_def)
  ultimately show ?thesis by (simp add: dec_value_def len)
qed

lemma rstrip_append: "rstrip_char c (t @ [c]) = rstrip_char c t"
  by (simp add: rstrip_char_def)

lemma rstrip_keep: "x \<noteq> c \<Longrightarrow> rstrip_char c (t @ [x]) = t @ [x]"
  by (simp add: rstrip_char_def)

lemma rstrip_frac:
  assumes "x \<noteq> c"
  shows "rstrip_char c (t @ x # u) = t @ x # rstrip_char c u"
proof (induction u rule: rev_induct)
  case Nil
  show ?case using rstrip_keep [OF assms, of t] by (simp add: rstrip_char_def)
next
  case (snoc y u)
  show ?case
  proof (cases "y = c")
    case True
    with snoc show ?thesis using rstrip_append [of c "t @ x # u"] rstrip_append [of c u] by simp
  next
    case False
    then show ?thesis using rstrip_keep [OF False, of "t @ x # u"] rstrip_keep [OF False, of u] by simp
  qed
qed

lemma rstrip_split: "\<exists>k. t = rstrip_char c t @ replicate k c"
proof (induction t rule: rev_induct)
  case (snoc y t)
  show ?case
  proof (cases "y = c")
    case True
    from snoc obtain k where "t = rstrip_char c t @ replicate k c" by blast
    then have "t @ [y] = rstrip_char c t @ replicate (Suc k) c"
      using True by (metis append.assoc replicate_append_same replicate_Suc)
    then show ?thesis using True by (metis rstrip_append)
  next
    case False
    then show ?thesis by (intro exI [of _ 0]) (simp add: rstrip_keep)
  qed
qed (simp add: rstrip_char_def)

lemma digits_last: "xs \<noteq> [] \<Longrightarrow> list_all is_digit xs \<Longrightarrow> rstrip_char (CHR ''.'') (t @ xs) = t @ xs"
proof -
  assume "xs \<noteq> []" "list_all is_digit xs"
  then have "last xs \<noteq> CHR ''.''" by (metis last_in_set list_all_iff not_digit(1))
  then show ?thesis
    using \<open>xs \<noteq> []\<close> rstrip_keep [of "last xs" "CHR ''.''" "t @ butlast xs"] by simp
qed

lemma no_point: "list_all is_digit xs \<Longrightarrow> CHR ''.'' \<notin> set xs"
  by (auto simp: list_all_iff)

lemma canonical_plain:
  assumes "dec_coeff d \<noteq> 0"
  shows "canonical_holding_number d =
    plain_text_of (dec_neg d) (whole_part d) (rstrip_char (CHR ''0'') (frac_part d))"
proof (cases "frac_part d = []")
  case True
  have "CHR ''.'' \<notin> set (plain_text_of (dec_neg d) (whole_part d) [])"
    using no_point [OF parts_digits(2)] by (simp add: plain_text_of_def)
  with assms True show ?thesis
    by (simp add: canonical_holding_number_def Let_def format_parts) (simp add: rstrip_char_def)
next
  case False
  let ?pre = "(if dec_neg d then ''-'' else []) @ whole_part d"
  let ?f = "rstrip_char (CHR ''0'') (frac_part d)"
  have t: "format_f d = ?pre @ CHR ''.'' # frac_part d"
    using False by (simp add: format_parts plain_text_of_def)
  then have "CHR ''.'' \<in> set (format_f d)" by simp
  then have can: "canonical_holding_number d = rstrip_char (CHR ''.'') (?pre @ CHR ''.'' # ?f)"
    using assms by (simp only: canonical_holding_number_def Let_def if_True if_False t) (subst rstrip_frac; simp)
  show ?thesis
  proof (cases "?f = []")
    case True
    have "rstrip_char (CHR ''.'') (?pre @ ''.'') = ?pre"
      unfolding rstrip_append by (rule digits_last [OF parts_digits(1,2)])
    with can True show ?thesis by (simp add: plain_text_of_def)
  next
    case ne: False
    from rstrip_split [of "frac_part d" "CHR ''0''"] parts_digits(3) [of d]
    have "list_all is_digit ?f" by (metis list_all_append)
    with ne have "rstrip_char (CHR ''.'') ((?pre @ ''.'') @ ?f) = (?pre @ ''.'') @ ?f"
      by (rule digits_last)
    with can ne show ?thesis by (simp add: plain_text_of_def)
  qed
qed

section \<open>Lemmas: the canonical text\<close>

lemma takeWhile_digits: "list_all is_digit xs \<Longrightarrow> takeWhile is_digit (xs @ ys) = xs @ takeWhile is_digit ys"
  by (induction xs) auto

lemma dropWhile_digits: "list_all is_digit xs \<Longrightarrow> dropWhile is_digit (xs @ ys) = dropWhile is_digit ys"
  by (induction xs) auto

lemma strip_plain:
  assumes "t \<noteq> []" and "\<not> py_space (hd t)" and "\<not> py_space (last t)"
  shows "py_strip t = t"
proof -
  have "dropWhile py_space t = t" using assms(1,2) by (cases t) auto
  moreover obtain x xs where r: "rev t = x # xs" using assms(1) by (cases "rev t") auto
  then have "x = last t" by (metis hd_rev list.sel(1))
  with r assms(3) have "dropWhile py_space (rev t) = rev t" by (simp only:) simp
  ultimately show ?thesis by (simp add: py_strip_def)
qed

text \<open>Reading a plain text back.\<close>

lemma parse_plain:
  assumes "whole \<noteq> []" and "list_all is_digit whole" and "list_all is_digit part"
  shows "parse_decimal (plain_text_of neg whole part) =
    Some \<lparr>dec_neg = neg, dec_coeff = digits_nat (whole @ part), dec_exp = - int (length part)\<rparr>"
proof -
  let ?u = "whole @ (if part = [] then [] else CHR ''.'' # part)"
  have t: "plain_text_of neg whole part = (if neg then ''-'' else []) @ ?u"
    by (simp add: plain_text_of_def)
  obtain c cs where whole: "whole = c # cs" using assms(1) by (cases whole) auto
  with assms(2) have c: "is_digit c" by simp
  have dash: "\<not> py_space (CHR ''-'')" by code_simp
  have "is_digit (last ?u)"
    using assms by (auto simp: list_all_iff)
  moreover have "last (plain_text_of neg whole part) = last ?u"
    by (cases neg) (simp_all add: plain_text_of_def whole)
  ultimately have "\<not> py_space (last (plain_text_of neg whole part))" using digit_not_space by simp
  moreover have "\<not> py_space (hd (plain_text_of neg whole part))"
    using dash digit_not_space [OF c] by (simp add: plain_text_of_def whole)
  moreover have "plain_text_of neg whole part \<noteq> []" by (simp add: plain_text_of_def whole)
  ultimately have "py_strip (plain_text_of neg whole part) = plain_text_of neg whole part"
    by (intro strip_plain)
  moreover have "CHR ''_'' \<notin> set (plain_text_of neg whole part)"
    using assms(2,3) by (auto simp: plain_text_of_def list_all_iff)
  then have "filter (\<lambda>c. c \<noteq> CHR ''_'') (plain_text_of neg whole part) = plain_text_of neg whole part"
    by (auto intro: filter_True)
  moreover have "split_sign (plain_text_of neg whole part) = (neg, ?u)"
    using c by (auto simp: plain_text_of_def split_sign_def whole)
  moreover have "parse_unsigned neg ?u =
      Some \<lparr>dec_neg = neg, dec_coeff = digits_nat (whole @ part), dec_exp = - int (length part)\<rparr>"
  proof (cases "part = []")
    case True
    have tw: "takeWhile is_digit whole = whole" "dropWhile is_digit whole = []"
      using takeWhile_digits [OF assms(2), of "[]"] dropWhile_digits [OF assms(2), of "[]"] by simp_all
    show ?thesis
      using assms(1) by (simp add: parse_unsigned_def Let_def parse_exponent_def tw True)
  next
    case False
    have tp: "takeWhile is_digit part = part" "dropWhile is_digit part = []"
      using takeWhile_digits [OF assms(3), of "[]"] dropWhile_digits [OF assms(3), of "[]"] by simp_all
    have tw: "takeWhile is_digit (whole @ CHR ''.'' # part) = whole"
      "dropWhile is_digit (whole @ CHR ''.'' # part) = CHR ''.'' # part"
      using takeWhile_digits [OF assms(2)] dropWhile_digits [OF assms(2)] by simp_all
    show ?thesis
      using assms(1) False by (simp add: parse_unsigned_def Let_def parse_exponent_def tp tw)
  qed
  ultimately show ?thesis by (simp add: parse_decimal_def)
qed

lemma stripped_value:
  "of_nat (digits_nat (whole @ rstrip_char (CHR ''0'') part)) *
     (10::rat) powi (- int (length (rstrip_char (CHR ''0'') part))) =
   of_nat (digits_nat (whole @ part)) * 10 powi (- int (length part))"
proof -
  define r where "r = rstrip_char (CHR ''0'') part"
  obtain k where k: "part = r @ replicate k (CHR ''0'')" using rstrip_split [of part "CHR ''0''"] by (auto simp: r_def)
  have "whole @ part = (whole @ r) @ replicate k (CHR ''0'')" by (simp add: k)
  then have "digits_nat (whole @ part) = digits_nat (whole @ r) * 10 ^ k"
    by (simp only: digits_nat_append digits_nat_zeros length_replicate add_0_right)
  moreover have "(10::rat) powi (- int (length part)) = 10 powi (- int (length r)) * inverse (10 ^ k)"
  proof -
    have e: "- int (length part) = - int (length r) + - int k" by (simp add: k)
    have "(10::rat) powi (- int k) = inverse (10 ^ k)" by (simp add: power_int_minus)
    moreover have "(10::rat) powi (- int (length r) + - int k) = 10 powi (- int (length r)) * 10 powi (- int k)"
      by (rule power_int_add) simp
    ultimately show ?thesis by (simp only: e)
  qed
  ultimately show ?thesis by (simp add: r_def [symmetric])
qed

lemma canonical_parse:
  "\<exists>d'. parse_decimal (canonical_holding_number d) = Some d' \<and> dec_value d' = dec_value d"
proof (cases "dec_coeff d = 0")
  case True
  then have "canonical_holding_number d = ''0''" by (simp add: canonical_holding_number_def)
  moreover have "parse_decimal ''0'' = Some dec_zero" by code_simp
  ultimately show ?thesis using True by (simp add: dec_value_def dec_zero_def)
next
  case False
  define r where "r = rstrip_char (CHR ''0'') (frac_part d)"
  from rstrip_split [of "frac_part d" "CHR ''0''"] parts_digits(3) [of d]
  have "list_all is_digit r" unfolding r_def by (metis list_all_append)
  then have "parse_decimal (canonical_holding_number d) = Some \<lparr>dec_neg = dec_neg d,
      dec_coeff = digits_nat (whole_part d @ r), dec_exp = - int (length r)\<rparr>"
    unfolding canonical_plain [OF False] r_def [symmetric] by (intro parse_plain parts_digits)
  moreover have "dec_value \<lparr>dec_neg = dec_neg d, dec_coeff = digits_nat (whole_part d @ r),
      dec_exp = - int (length r)\<rparr> = dec_value d"
    using stripped_value [of "whole_part d" "frac_part d"] parts_value [of d]
    by (simp add: dec_value_def [of "\<lparr>dec_neg = x, dec_coeff = y, dec_exp = z\<rparr>" for x y z] r_def)
  ultimately show ?thesis by blast
qed

text \<open>Shifting the exponent does not change the text.\<close>

lemma canonical_ten:
  assumes "0 < c"
  shows "canonical_holding_number \<lparr>dec_neg = neg, dec_coeff = 10 * c, dec_exp = e - 1\<rparr> =
    canonical_holding_number \<lparr>dec_neg = neg, dec_coeff = c, dec_exp = e\<rparr>"
    (is "canonical_holding_number ?d1 = canonical_holding_number ?d")
proof -
  have ten: "nat_text (10 * c) = nat_text c @ ''0''" using assms by (rule nat_text_ten)
  have "whole_part ?d1 = whole_part ?d \<and>
      rstrip_char (CHR ''0'') (frac_part ?d1) = rstrip_char (CHR ''0'') (frac_part ?d)"
  proof (cases "1 \<le> e")
    case True
    then have "nat e = Suc (nat (e - 1))" by simp
    then show ?thesis using True ten by (simp add: whole_part_def frac_part_def Let_def replicate_app_Cons_same)
  next
    case False
    then have n: "nat (1 - e) = Suc (nat (- e))" by simp
    show ?thesis
    proof (cases "e = 0")
      case True
      then show ?thesis
        by (simp add: whole_part_def frac_part_def Let_def ten) (simp add: rstrip_char_def)
    next
      case neg: False
      with False have e: "e < 0" by simp
      then have "e - 1 < 0" by simp
      show ?thesis
      proof (cases "length (nat_text c) > nat (- e)")
        case True
        with e show ?thesis
          by (simp add: whole_part_def frac_part_def Let_def ten n rstrip_append)
      next
        case False
        with e have "frac_part ?d1 = frac_part ?d @ ''0''" "whole_part ?d1 = ''0''" "whole_part ?d = ''0''"
          by (simp_all add: whole_part_def frac_part_def Let_def ten n)
        then show ?thesis by (simp only: rstrip_append simp_thms)
      qed
    qed
  qed
  with assms show ?thesis by (simp add: canonical_plain)
qed

lemma canonical_shift:
  assumes "0 < c"
  shows "canonical_holding_number \<lparr>dec_neg = neg, dec_coeff = c * 10 ^ k, dec_exp = e - int k\<rparr> =
    canonical_holding_number \<lparr>dec_neg = neg, dec_coeff = c, dec_exp = e\<rparr>"
proof (induction k)
  case (Suc k)
  have "0 < c * 10 ^ k" using assms by simp
  from canonical_ten [OF this, of neg "e - int k"] Suc show ?case by (simp add: algebra_simps)
qed simp

lemma canonical_of_value:
  assumes "dec_value a = dec_value b"
  shows "canonical_holding_number a = canonical_holding_number b"
proof -
  have zero: "dec_value d = 0 \<longleftrightarrow> dec_coeff d = 0" for d by (simp add: dec_value_def)
  have main: "canonical_holding_number a = canonical_holding_number b"
    if v: "dec_value a = dec_value b" and c: "dec_coeff a \<noteq> 0" and e: "dec_exp a \<le> dec_exp b" for a b
  proof -
    define k where "k = nat (dec_exp b - dec_exp a)"
    from v have "dec_eq a b" by (simp add: dec_eq_value)
    then have s: "scaled (dec_exp a) a = scaled (dec_exp a) b" using e by (simp add: dec_eq_def Let_def)
    have c': "dec_coeff b \<noteq> 0" using v c zero by metis
    have "dec_neg a = dec_neg b"
    proof (rule ccontr)
      assume "dec_neg a \<noteq> dec_neg b"
      with s have "int (dec_coeff a) = - (int (dec_coeff b) * 10 ^ k)" by (auto simp: scaled_def k_def)
      moreover have "0 < int (dec_coeff b) * 10 ^ k" using c' by simp
      ultimately show False by simp
    qed
    with s have "int (dec_coeff a) = int (dec_coeff b) * 10 ^ k" by (simp add: scaled_def k_def split: if_splits)
    then have "int (dec_coeff a) = int (dec_coeff b * 10 ^ k)" by simp
    then have "dec_coeff a = dec_coeff b * 10 ^ k" by (simp only: of_nat_eq_iff)
    moreover have "dec_exp a = dec_exp b - int k" using e by (simp add: k_def)
    ultimately have "a = \<lparr>dec_neg = dec_neg b, dec_coeff = dec_coeff b * 10 ^ k, dec_exp = dec_exp b - int k\<rparr>"
      using \<open>dec_neg a = dec_neg b\<close> by (cases a) simp
    moreover have "b = \<lparr>dec_neg = dec_neg b, dec_coeff = dec_coeff b, dec_exp = dec_exp b\<rparr>" by simp
    ultimately show ?thesis using canonical_shift [of "dec_coeff b" "dec_neg b" k "dec_exp b"] c'
      by (metis bot_nat_0.not_eq_extremum)
  qed
  show ?thesis
  proof (cases "dec_coeff a = 0")
    case True
    with assms zero have "dec_coeff b = 0" by metis
    with True show ?thesis by (simp add: canonical_holding_number_def)
  next
    case False
    with assms zero have "dec_coeff b \<noteq> 0" by metis
    with False main [OF assms False] main [OF assms [symmetric]] show ?thesis
      using linear [of "dec_exp a" "dec_exp b"] by metis
  qed
qed

section \<open>Arithmetic in the default context\<close>

text \<open>The default context keeps 28 digits and rounds half to even.\<close>

definition dec_digits :: "nat \<Rightarrow> nat" where
  "dec_digits n = (if n = 0 then 1 else length (nat_text n))"

definition context_precision :: nat where
  "context_precision = 28"

text \<open>\<open>n\<close> divided by a power of ten, rounded half to even, or half away from zero.\<close>

definition round_half_even :: "nat \<Rightarrow> nat \<Rightarrow> nat" where
  "round_half_even n p = (let q = n div p; r = n mod p in
     if 2 * r > p \<or> (2 * r = p \<and> odd q) then q + 1 else q)"

definition round_half_up :: "nat \<Rightarrow> nat \<Rightarrow> nat" where
  "round_half_up n p = (let q = n div p; r = n mod p in if 2 * r \<ge> p then q + 1 else q)"

definition fix_context :: "decimal \<Rightarrow> decimal" where
  "fix_context d = (let extra = dec_digits (dec_coeff d) - context_precision in
     if extra = 0 then d
     else (let c = round_half_even (dec_coeff d) (10 ^ extra) in
       if dec_digits c > context_precision
       then d\<lparr>dec_coeff := c div 10, dec_exp := dec_exp d + int extra + 1\<rparr>
       else d\<lparr>dec_coeff := c, dec_exp := dec_exp d + int extra\<rparr>))"

definition of_scaled :: "int \<Rightarrow> int \<Rightarrow> decimal" where
  "of_scaled c e = \<lparr>dec_neg = (c < 0), dec_coeff = nat \<bar>c\<bar>, dec_exp = e\<rparr>"

definition dec_add :: "decimal \<Rightarrow> decimal \<Rightarrow> decimal" where
  "dec_add a b = (let m = min (dec_exp a) (dec_exp b) in fix_context (of_scaled (scaled m a + scaled m b) m))"

definition dec_neg_of :: "decimal \<Rightarrow> decimal" where
  "dec_neg_of d = d\<lparr>dec_neg := \<not> dec_neg d\<rparr>"

text \<open>
  \<open>d.quantize(Decimal('1E' + str(e)), rounding=ROUND_HALF_UP)\<close>: the exponent becomes \<open>e\<close>; a result
  that needs more digits than the context has raises.
\<close>

definition dec_quantize :: "int \<Rightarrow> decimal \<Rightarrow> py_exn + decimal" where
  "dec_quantize e d =
     (let c = (if e \<le> dec_exp d then dec_coeff d * 10 ^ nat (dec_exp d - e)
               else round_half_up (dec_coeff d) (10 ^ nat (e - dec_exp d)))
      in if dec_digits c > context_precision then Inl (ValueError ''quantize result has too many digits'')
         else Inr \<lparr>dec_neg = dec_neg d, dec_coeff = c, dec_exp = e\<rparr>)"

definition quantize_money :: "decimal \<Rightarrow> py_exn + decimal" where
  "quantize_money = dec_quantize (-2)"

definition quantize_nav :: "decimal \<Rightarrow> py_exn + decimal" where
  "quantize_nav = dec_quantize (-6)"

lemma of_scaled_value: "dec_value (of_scaled c e) = of_int c * 10 powi e"
  by (simp add: dec_value_def of_scaled_def)

lemma dec_neg_of_value [simp]: "dec_value (dec_neg_of d) = - dec_value d"
  by (simp add: dec_value_def dec_neg_of_def)

text \<open>A sum that fits the context is exact.\<close>

lemma dec_add_exact:
  assumes "m = min (dec_exp a) (dec_exp b)"
    and "dec_digits (nat \<bar>scaled m a + scaled m b\<bar>) \<le> context_precision"
  shows "dec_value (dec_add a b) = dec_value a + dec_value b"
proof -
  have "fix_context (of_scaled (scaled m a + scaled m b) m) = of_scaled (scaled m a + scaled m b) m"
    using assms(2) by (simp add: fix_context_def Let_def of_scaled_def)
  then have "dec_add a b = of_scaled (scaled m a + scaled m b) m"
    by (simp add: dec_add_def Let_def flip: assms(1))
  then show ?thesis
    using scaled_value [of m a] scaled_value [of m b] assms(1) by (simp add: of_scaled_value algebra_simps)
qed

text \<open>Rounding half up moves by at most half a unit.\<close>

lemma round_half_up_error:
  assumes "0 < p"
  shows "2 * \<bar>int (round_half_up n p) * int p - int n\<bar> \<le> int p"
proof -
  define q r where "q = n div p" and "r = n mod p"
  have n: "n = q * p + r" and r: "r < p" using assms by (simp_all add: q_def r_def)
  show ?thesis
  proof (cases "2 * r \<ge> p")
    case True
    then have "round_half_up n p = q + 1" by (simp add: round_half_up_def Let_def q_def r_def)
    then have "int (round_half_up n p) * int p - int n = int p - int r"
      by (simp add: n algebra_simps)
    with True r show ?thesis by simp
  next
    case False
    then have "round_half_up n p = q" by (simp add: round_half_up_def Let_def q_def r_def)
    then have "int (round_half_up n p) * int p - int n = - int r" by (simp add: n algebra_simps)
    with False show ?thesis by simp
  qed
qed

lemma quantize_error:
  assumes "dec_quantize e d = Inr q"
  shows "dec_exp q = e" and "2 * \<bar>dec_value q - dec_value d\<bar> \<le> 10 powi e"
proof -
  define c where "c = (if e \<le> dec_exp d then dec_coeff d * 10 ^ nat (dec_exp d - e)
               else round_half_up (dec_coeff d) (10 ^ nat (e - dec_exp d)))"
  from assms have q: "q = \<lparr>dec_neg = dec_neg d, dec_coeff = c, dec_exp = e\<rparr>"
    by (simp add: dec_quantize_def Let_def c_def split: if_splits)
  show "dec_exp q = e" by (simp add: q)
  define sg :: rat where "sg = (if dec_neg d then -1 else 1)"
  have vq: "dec_value q = sg * of_nat c * 10 powi e" by (simp add: dec_value_def q sg_def)
  show "2 * \<bar>dec_value q - dec_value d\<bar> \<le> 10 powi e"
  proof (cases "e \<le> dec_exp d")
    case True
    then have "dec_value q = dec_value d"
      using scaled_value [OF True] by (simp add: vq c_def sg_def scaled_def)
    then show ?thesis by simp
  next
    case False
    define k where "k = nat (e - dec_exp d)"
    have c: "c = round_half_up (dec_coeff d) (10 ^ k)" using False by (simp add: c_def k_def)
    have "e = dec_exp d + int k" using False by (simp add: k_def)
    then have p: "(10::rat) powi e = 10 powi dec_exp d * 10 ^ k" by (simp add: power_int_add)
    have err: "2 * \<bar>int c * 10 ^ k - int (dec_coeff d)\<bar> \<le> 10 ^ k"
      using round_half_up_error [of "10 ^ k" "dec_coeff d"] by (simp add: c)
    have "dec_value q - dec_value d = sg * of_int (int c * 10 ^ k - int (dec_coeff d)) * 10 powi dec_exp d"
      by (simp add: vq p dec_value_def [of d] algebra_simps flip: sg_def)
    then have "\<bar>dec_value q - dec_value d\<bar> = of_int \<bar>int c * 10 ^ k - int (dec_coeff d)\<bar> * 10 powi dec_exp d"
      by (simp add: abs_mult sg_def)
    moreover have "(of_int (2 * \<bar>int c * 10 ^ k - int (dec_coeff d)\<bar>) :: rat) \<le> of_int (10 ^ k)"
      using err by (simp only: of_int_le_iff)
    then have "2 * of_int \<bar>int c * 10 ^ k - int (dec_coeff d)\<bar> * (10::rat) powi dec_exp d \<le> 10 ^ k * 10 powi dec_exp d"
      by (intro mult_right_mono) simp_all
    ultimately show ?thesis by (simp add: p mult.commute)
  qed
qed

section \<open>Properties\<close>

text \<open>
  C34. The canonical text of a quantity identifies its value: two numbers have the same canonical text
  exactly when their values are equal, however they were written, and reading the text back gives
  the value again. So comparing canonical texts never reports a change that is none, and never
  misses one.
\<close>
theorem canonical_number_faithful:
  shows "(canonical_holding_number a = canonical_holding_number b \<longleftrightarrow> dec_value a = dec_value b) \<and>
    (\<exists>d. parse_decimal (canonical_holding_number a) = Some d \<and> dec_value d = dec_value a)"
proof -
  have "dec_value a = dec_value b" if "canonical_holding_number a = canonical_holding_number b"
    using that canonical_parse [of a] canonical_parse [of b] by auto
  then show ?thesis using canonical_of_value canonical_parse by blast
qed

end
