(* ===== verification/Compensation.thy ===== *)
theory Compensation
  imports Decimals
begin

text \<open>
  Durable compensation tasks (\<open>domain/compensation_contracts.py\<close>, \<open>app/compensation_service.py\<close>):
  the life cycle of a task, the append-only log of events it is folded from, and the retry that
  applies the recorded targets. Parameters of the model: \<open>mutation_ok\<close>, whether a target's mutation
  is accepted by \<open>HoldingTarget.from_payload\<close>; \<open>apply_target\<close>, the write of one target to the
  remote tables; \<open>mirror\<close>, the optional status mirror; and \<open>clk n\<close>, the clock reading taken when
  the log holds \<open>n\<close> lines. Appending a line to the log file is taken to succeed.
\<close>

section \<open>The life cycle\<close>

datatype comp_status = CompPrepared | CompPending | CompRunning | CompFailed | CompResolved

definition status_value :: "comp_status \<Rightarrow> string" where
  "status_value st = (case st of
      CompPrepared \<Rightarrow> ''PREPARED''
    | CompPending \<Rightarrow> ''PENDING''
    | CompRunning \<Rightarrow> ''RUNNING''
    | CompFailed \<Rightarrow> ''FAILED''
    | CompResolved \<Rightarrow> ''RESOLVED'')"

definition all_statuses :: "comp_status list" where
  "all_statuses = [CompPrepared, CompPending, CompRunning, CompFailed, CompResolved]"

definition mirror_activating_statuses :: "comp_status list" where
  "mirror_activating_statuses = [CompPending, CompRunning, CompFailed]"

definition compensation_transitions :: "comp_status \<Rightarrow> comp_status list" where
  "compensation_transitions st = (case st of
      CompPrepared \<Rightarrow> all_statuses
    | CompPending \<Rightarrow> [CompPending, CompRunning, CompFailed, CompResolved]
    | CompRunning \<Rightarrow> [CompRunning, CompFailed, CompResolved]
    | CompFailed \<Rightarrow> [CompFailed, CompRunning, CompResolved]
    | CompResolved \<Rightarrow> [CompResolved])"

definition compensation_status :: "json \<Rightarrow> py_exn + comp_status" where
  "compensation_status v = (case find (\<lambda>st. status_value st = py_str v) all_statuses of
      None \<Rightarrow> Inl (ValueError (''unsupported compensation status: '' @ py_str v))
    | Some st \<Rightarrow> Inr st)"

definition validate_compensation_transition :: "json \<Rightarrow> json \<Rightarrow> py_exn + string" where
  "validate_compensation_transition current target =
     bind_result (compensation_status current) (\<lambda>c. bind_result (compensation_status target) (\<lambda>t.
       if t \<in> set (compensation_transitions c) then Inr (status_value t)
       else Inl (ValueError (''invalid compensation transition: '' @ status_value c @ '' -> '' @ status_value t))))"

section \<open>The log\<close>

text \<open>
  A line of the log file is the value \<open>json.loads\<close> reads from it, or \<open>None\<close> where it reads none;
  blank and unreadable lines, and events without a task, are skipped.
\<close>

type_synonym log_line = "json option"

definition read_line :: "log_line \<Rightarrow> dict list" where
  "read_line l = (case l of
      Some (JObj d) \<Rightarrow> if falsy (dict_get ''task_id'' d) then [] else [d]
    | _ \<Rightarrow> [])"

definition read_events :: "log_line list \<Rightarrow> dict list" where
  "read_events ls = concat (map read_line ls)"

text \<open>\<open>json.dumps(.., sort_keys=True)\<close> of the event, on a line of its own.\<close>

definition event_line :: "dict \<Rightarrow> log_line" where
  "event_line e = Some (JObj (read_back e))"

definition supported_target_types :: "string list" where
  "supported_target_types =
     [''HOLDING_TARGET_SET'', ''HOLDING_ZERO_DELETE'', ''CASH_TARGET_SET'', ''HOLDINGS_SNAPSHOT_TARGET_SET'']"

definition target_is_supported :: "(dict \<Rightarrow> bool) \<Rightarrow> json \<Rightarrow> bool" where
  "target_is_supported mutation_ok target = (case target of
      JObj d \<Rightarrow> dict_get ''type'' d \<in> set (map (\<lambda>t. Some (JStr t)) supported_target_types) \<and>
        (dict_get ''type'' d = Some (JStr ''HOLDINGS_SNAPSHOT_TARGET_SET'') \<or>
         (case dict_get ''mutation'' d of Some (JObj m) \<Rightarrow> mutation_ok m | _ \<Rightarrow> False))
    | _ \<Rightarrow> False)"

definition payload_targets :: "json option \<Rightarrow> json option" where
  "payload_targets payload = (case payload of Some (JObj p) \<Rightarrow> dict_get ''targets'' p | _ \<Rightarrow> None)"

definition targets_of :: "json option \<Rightarrow> json list" where
  "targets_of payload = (case payload_targets payload of Some (JArr ts) \<Rightarrow> ts | _ \<Rightarrow> [])"

definition payload_is_supported :: "(dict \<Rightarrow> bool) \<Rightarrow> json option \<Rightarrow> bool" where
  "payload_is_supported mutation_ok payload \<longleftrightarrow>
     targets_of payload \<noteq> [] \<and> list_all (target_is_supported mutation_ok) (targets_of payload)"

definition frozen_keys :: "string list" where
  "frozen_keys = [''event'', ''operation_type'', ''account'', ''payload'', ''created_at'']"

definition new_task :: "dict \<Rightarrow> dict" where
  "new_task e = dict_setdefault ''target_outcomes'' (JArr [])
     (dict_setdefault ''payload'' (JObj []) (dict_setdefault ''retry_count'' (JInt 0)
       (dict_setdefault ''status'' (JStr (status_value CompPending)) (dict_del ''event'' e))))"

definition merged_task :: "dict \<Rightarrow> dict \<Rightarrow> dict" where
  "merged_task e current = dict_merge current (filter (\<lambda>kv. fst kv \<notin> set frozen_keys) e)"

definition derived_columns :: "(dict \<Rightarrow> bool) \<Rightarrow> dict \<Rightarrow> dict" where
  "derived_columns mutation_ok current =
     (let payload = dict_get ''payload'' current;
          supported = payload_is_supported mutation_ok payload;
          d = dict_set ''target_count''
            (JInt (int (length (targets_of payload))))
            (dict_set ''supported'' (JBool supported) current)
      in dict_setdefault ''mirror_eligible''
        (JBool (supported \<and> dict_get ''status'' d \<noteq> Some (JStr (status_value CompPrepared)))) d)"

definition fold_task :: "(dict \<Rightarrow> bool) \<Rightarrow> dict \<Rightarrow> dict option \<Rightarrow> dict" where
  "fold_task mutation_ok e current = derived_columns mutation_ok
     (case current of None \<Rightarrow> new_task e | Some c \<Rightarrow> merged_task e c)"

definition event_task :: "dict \<Rightarrow> string" where
  "event_task e = py_str (case dict_get ''task_id'' e of None \<Rightarrow> JNull | Some j \<Rightarrow> j)"

type_synonym tasks = "(string \<times> dict) list"

definition fold_event :: "(dict \<Rightarrow> bool) \<Rightarrow> dict \<Rightarrow> tasks \<Rightarrow> tasks" where
  "fold_event mutation_ok e folded =
     AList.update (event_task e) (fold_task mutation_ok e (map_of folded (event_task e))) folded"

definition fold_events :: "(dict \<Rightarrow> bool) \<Rightarrow> log_line list \<Rightarrow> tasks" where
  "fold_events mutation_ok ls = fold (fold_event mutation_ok) (read_events ls) []"

definition get_task :: "(dict \<Rightarrow> bool) \<Rightarrow> string \<Rightarrow> log_line list \<Rightarrow> dict option" where
  "get_task mutation_ok k ls = map_of (fold_events mutation_ok ls) k"

definition list_tasks :: "(dict \<Rightarrow> bool) \<Rightarrow> bool \<Rightarrow> log_line list \<Rightarrow> dict list" where
  "list_tasks mutation_ok include_resolved ls =
     sort_key (\<lambda>d. (text_or_empty (dict_get ''created_at'' d), text_or_empty (dict_get ''task_id'' d)))
       (filter (\<lambda>d. include_resolved \<or> dict_get ''status'' d \<noteq> Some (JStr (status_value CompResolved)))
         (map snd (fold_events mutation_ok ls)))"

definition find_unresolved_by_related_record :: "(dict \<Rightarrow> bool) \<Rightarrow> string \<Rightarrow> log_line list \<Rightarrow> dict option" where
  "find_unresolved_by_related_record mutation_ok rid ls =
     (let matches = filter (\<lambda>d. dict_get ''related_record_id'' d = Some (JStr rid)) (list_tasks mutation_ok False ls)
      in if matches = [] then None else Some (last matches))"

section \<open>Operations\<close>

text \<open>The log, the remote tables the targets are written to, and the mirror's table.\<close>

record ('w, 'm) comp_world =
  comp_log :: "log_line list"
  comp_remote :: 'w
  comp_mirror :: 'm

type_synonym 'm mirror = "dict \<Rightarrow> json option \<Rightarrow> 'm \<Rightarrow> (string + json) \<times> 'm"

definition add_event :: "dict \<Rightarrow> ('w, 'm) comp_world \<Rightarrow> ('w, 'm) comp_world" where
  "add_event e s = s\<lparr>comp_log := comp_log s @ [event_line e]\<rparr>"

definition mirror_receipt :: "string \<Rightarrow> string \<Rightarrow> string + json \<Rightarrow> dict" where
  "mirror_receipt k attempted_at result =
     (let failed = (\<lambda>err. [(''status'', JStr ''failed''), (''task_id'', JStr k),
            (''attempted_at'', JStr attempted_at), (''error'', JStr err)])
      in case result of
          Inl err \<Rightarrow> failed err
        | Inr (JObj o1) \<Rightarrow>
            if falsy (dict_get ''status'' o1) then failed ''compensation mirror returned an invalid outcome''
            else dict_merge [(''status'', JStr (py_str (the (dict_get ''status'' o1)))), (''task_id'', JStr k),
                (''attempted_at'', JStr attempted_at)]
              (filter (\<lambda>kv. fst kv \<notin> {''status'', ''task_id''}) o1)
        | Inr _ \<Rightarrow> failed ''compensation mirror returned an invalid outcome'')"

definition mirror_event :: "string \<Rightarrow> dict \<Rightarrow> dict" where
  "mirror_event k receipt =
     (let record_id = py_strip (text_or_empty (dict_get ''record_id'' receipt))
      in [(''event'', JStr ''MIRROR''), (''task_id'', JStr k), (''mirror_receipt'', JObj receipt)] @
        (if record_id = [] then [] else [(''mirror_record_id'', JStr record_id)]))"

definition mirror_current_state ::
    "(dict \<Rightarrow> bool) \<Rightarrow> 'm mirror option \<Rightarrow> (nat \<Rightarrow> string) \<Rightarrow> string \<Rightarrow> ('w, 'm) comp_world \<Rightarrow> ('w, 'm) comp_world" where
  "mirror_current_state mutation_ok mirror clk k s = (case get_task mutation_ok k (comp_log s) of
      None \<Rightarrow> s
    | Some task \<Rightarrow>
        if falsy (dict_get ''mirror_eligible'' task) then s
        else case mirror of
            None \<Rightarrow> s
          | Some m \<Rightarrow> (case m task (dict_get ''mirror_record_id'' task) (comp_mirror s) of (result, w) \<Rightarrow>
              add_event (mirror_event k (mirror_receipt k (clk (length (comp_log s))) result))
                (s\<lparr>comp_mirror := w\<rparr>)))"

text \<open>\<open>asdict\<close> of a fresh task.\<close>

definition task_columns ::
    "string \<Rightarrow> string \<Rightarrow> string \<Rightarrow> comp_status \<Rightarrow> json \<Rightarrow> string \<Rightarrow> string option \<Rightarrow> string \<Rightarrow> string \<Rightarrow> dict" where
  "task_columns k operation_type account st payload err related created_at updated_at =
     [(''task_id'', JStr k), (''operation_type'', JStr operation_type), (''account'', JStr account),
      (''status'', JStr (status_value st)), (''payload'', payload), (''error'', JStr err),
      (''related_record_id'', jopt related), (''retry_count'', JInt 0), (''created_at'', JStr created_at),
      (''updated_at'', JStr updated_at)]"

definition record_task ::
    "(dict \<Rightarrow> bool) \<Rightarrow> 'm mirror option \<Rightarrow> (nat \<Rightarrow> string) \<Rightarrow> string \<Rightarrow> string \<Rightarrow> string \<Rightarrow> json \<Rightarrow> string \<Rightarrow>
     string option \<Rightarrow> ('w, 'm) comp_world \<Rightarrow> ('w, 'm) comp_world" where
  "record_task mutation_ok mirror clk k operation_type account payload err related s =
     (let now = clk (length (comp_log s));
          eligible = payload_is_supported mutation_ok (Some payload);
          s1 = add_event ((''event'', JStr ''CREATED'') #
            task_columns k operation_type account CompPending payload err related now now @
            [(''mirror_eligible'', JBool eligible)]) s
      in if eligible then mirror_current_state mutation_ok mirror clk k s1 else s1)"

definition prepare_task ::
    "(dict \<Rightarrow> bool) \<Rightarrow> (nat \<Rightarrow> string) \<Rightarrow> string \<Rightarrow> string \<Rightarrow> string \<Rightarrow> json \<Rightarrow> ('w, 'm) comp_world \<Rightarrow>
     (py_exn + unit) \<times> ('w, 'm) comp_world" where
  "prepare_task mutation_ok clk k operation_type account payload s =
     (let now = clk (length (comp_log s))
      in if targets_of (Some payload) = []
         then (Inl (ValueError ''prepared compensation payload requires targets''), s)
         else if \<not> list_all (target_is_supported mutation_ok) (targets_of (Some payload))
         then (Inl (ValueError ''prepared compensation payload contains unsupported target''), s)
         else (Inr (), add_event ((''event'', JStr ''CREATED'') #
           task_columns k operation_type account CompPrepared payload [] None now now @
           [(''mirror_eligible'', JBool False)]) s))"

definition status_event :: "string \<Rightarrow> string \<Rightarrow> dict \<Rightarrow> string \<Rightarrow> bool \<Rightarrow> dict" where
  "status_event k st metadata now eligible =
     dict_set ''mirror_eligible'' (JBool eligible) (dict_set ''updated_at'' (JStr now)
       (dict_set ''status'' (JStr st) (dict_set ''task_id'' (JStr k)
         (dict_merge [(''event'', JStr ''STATUS'')] metadata))))"

definition now_eligible :: "dict \<Rightarrow> string \<Rightarrow> bool" where
  "now_eligible task st \<longleftrightarrow> \<not> falsy (dict_get ''mirror_eligible'' task) \<or>
     (\<not> falsy (dict_get ''supported'' task) \<and> st \<in> set (map status_value mirror_activating_statuses))"

definition append_status ::
    "(dict \<Rightarrow> bool) \<Rightarrow> 'm mirror option \<Rightarrow> (nat \<Rightarrow> string) \<Rightarrow> string \<Rightarrow> json \<Rightarrow> dict \<Rightarrow> ('w, 'm) comp_world \<Rightarrow>
     py_exn + ('w, 'm) comp_world" where
  "append_status mutation_ok mirror clk k status metadata s =
     (case get_task mutation_ok k (comp_log s) of
        None \<Rightarrow> Inl (ValueError (''compensation task not found: '' @ k))
      | Some task \<Rightarrow> bind_result
          (validate_compensation_transition
            (case dict_get ''status'' task of None \<Rightarrow> JNull | Some j \<Rightarrow> j) status)
          (\<lambda>st. let s1 = add_event (status_event k st metadata (clk (length (comp_log s))) (now_eligible task st)) s
            in Inr (if now_eligible task st then mirror_current_state mutation_ok mirror clk k s1 else s1)))"

definition update_status ::
    "(dict \<Rightarrow> bool) \<Rightarrow> 'm mirror option \<Rightarrow> (nat \<Rightarrow> string) \<Rightarrow> string \<Rightarrow> json \<Rightarrow> dict \<Rightarrow> ('w, 'm) comp_world \<Rightarrow>
     (py_exn + unit) \<times> ('w, 'm) comp_world" where
  "update_status mutation_ok mirror clk k status metadata s =
     (case append_status mutation_ok mirror clk k status metadata s of
        Inl e \<Rightarrow> (Inl e, s) | Inr s' \<Rightarrow> (Inr (), s'))"

section \<open>Retry\<close>

text \<open>
  How the write of a target failed: with a state conflict or otherwise, and with which message. On
  success the outcome is a dictionary.
\<close>

record apply_failure =
  af_conflict :: bool
  af_message :: string

type_synonym 'w target_writer = "json \<Rightarrow> 'w \<Rightarrow> (apply_failure + dict) \<times> 'w"

definition outcome_entry :: "nat \<Rightarrow> json \<Rightarrow> dict \<Rightarrow> json" where
  "outcome_entry i target outcome = JObj (dict_merge
     [(''index'', JInt (int i)),
      (''type'', (case dict_get ''type'' (as_dict target) of None \<Rightarrow> JNull | Some j \<Rightarrow> j))] outcome)"

definition running_metadata :: "int \<Rightarrow> json list \<Rightarrow> dict" where
  "running_metadata n outcomes = [(''retry_count'', JInt n), (''target_outcomes'', JArr outcomes)]"

text \<open>The loop of the retry: it stops at the first target that fails, with the outcomes so far.\<close>

fun apply_targets ::
    "(dict \<Rightarrow> bool) \<Rightarrow> 'm mirror option \<Rightarrow> (nat \<Rightarrow> string) \<Rightarrow> 'w target_writer \<Rightarrow> string \<Rightarrow> int \<Rightarrow> nat \<Rightarrow>
     json list \<Rightarrow> json list \<Rightarrow> ('w, 'm) comp_world \<Rightarrow>
     (json list \<times> apply_failure option) \<times> ('w, 'm) comp_world" where
  "apply_targets mutation_ok mirror clk writer k n i [] outcomes s = ((outcomes, None), s)"
| "apply_targets mutation_ok mirror clk writer k n i (t # ts) outcomes s =
     (case writer t (comp_remote s) of
        (Inl f, w) \<Rightarrow> ((outcomes, Some f), s\<lparr>comp_remote := w\<rparr>)
      | (Inr outcome, w) \<Rightarrow>
          (let done1 = outcomes @ [outcome_entry i t outcome]
           in case append_status mutation_ok mirror clk k (JStr (status_value CompRunning))
                  (running_metadata n done1) (s\<lparr>comp_remote := w\<rparr>) of
              Inl e \<Rightarrow> ((done1, Some \<lparr>af_conflict = False, af_message = exn_text e\<rparr>), s\<lparr>comp_remote := w\<rparr>)
            | Inr s1 \<Rightarrow> apply_targets mutation_ok mirror clk writer k n (Suc i) ts done1 s1))"

text \<open>
  \<open>int(value or 0)\<close>: missing and empty values count as 0, a float is cut towards zero, a text is read
  as an integer (ASCII digits, single underscores between them), and anything else raises.
\<close>

definition underscores_ok :: "string \<Rightarrow> bool" where
  "underscores_ok t \<longleftrightarrow> t \<noteq> [] \<and> hd t \<noteq> CHR ''_'' \<and> last t \<noteq> CHR ''_'' \<and>
     list_all (\<lambda>(a, b). \<not> (a = CHR ''_'' \<and> b = CHR ''_'')) (zip t (tl t))"

definition int_of_text :: "string \<Rightarrow> py_exn + int" where
  "int_of_text t = (case split_sign (py_strip t) of (neg, u) \<Rightarrow>
     (let ds = filter (\<lambda>c. c \<noteq> CHR ''_'') u
      in if underscores_ok u \<and> list_all is_digit ds
         then Inr ((if neg then -1 else 1) * int (digits_nat ds))
         else Inl (ValueError (''invalid literal for int() with base 10: '' @ [CHR 0x27] @ t @ [CHR 0x27]))))"

definition truncated :: "decimal \<Rightarrow> int" where
  "truncated d = (if dec_neg d then -1 else 1) *
     int (if dec_exp d \<ge> 0 then dec_coeff d * 10 ^ nat (dec_exp d) else dec_coeff d div 10 ^ nat (- dec_exp d))"

definition int_argument :: "string \<Rightarrow> py_exn" where
  "int_argument kind = TypeError (''int() argument must be a string, a bytes-like object or a real number, not '' @
     [CHR 0x27] @ kind @ [CHR 0x27])"

definition int_or_zero :: "json option \<Rightarrow> py_exn + int" where
  "int_or_zero v = (if falsy v then Inr 0
     else case the v of
         JInt n \<Rightarrow> Inr n
       | JBool b \<Rightarrow> Inr 1
       | JStr t \<Rightarrow> int_of_text t
       | JFloat t \<Rightarrow> (case parse_decimal t of
             Some d \<Rightarrow> Inr (truncated d)
           | None \<Rightarrow> Inl (if t = ''nan'' then ValueError ''cannot convert float NaN to integer''
               else OverflowError ''cannot convert float infinity to integer''))
       | JArr xs \<Rightarrow> Inl (int_argument ''list'')
       | JObj d \<Rightarrow> Inl (int_argument ''dict'')
       | JNull \<Rightarrow> Inr 0)"

definition task_or_empty :: "dict option \<Rightarrow> dict" where
  "task_or_empty t = (case t of None \<Rightarrow> [] | Some d \<Rightarrow> d)"

definition failed_metadata :: "int \<Rightarrow> apply_failure \<Rightarrow> json list \<Rightarrow> dict" where
  "failed_metadata n f outcomes = [(''retry_count'', JInt n), (''error'', JStr (af_message f)),
     (''error_type'', JStr (if af_conflict f then ''state_conflict'' else ''target_apply_failed'')),
     (''target_outcomes'', JArr outcomes)]"

definition resolved_metadata :: "int \<Rightarrow> json list \<Rightarrow> string \<Rightarrow> dict" where
  "resolved_metadata n outcomes resolved_at = [(''retry_count'', JInt n), (''error'', JStr []),
     (''resolution'', JStr ''targets_applied_and_read_back''), (''target_outcomes'', JArr outcomes),
     (''resolved_at'', JStr resolved_at)]"

text \<open>The end of a retry: the final status, and the task as it then is.\<close>

definition finish_retry ::
    "(dict \<Rightarrow> bool) \<Rightarrow> 'm mirror option \<Rightarrow> (nat \<Rightarrow> string) \<Rightarrow> string \<Rightarrow> int \<Rightarrow> string \<Rightarrow>
     (json list \<times> apply_failure option) \<times> ('w, 'm) comp_world \<Rightarrow> (py_exn + dict) \<times> ('w, 'm) comp_world" where
  "finish_retry mutation_ok mirror clk k n resolved_at r = (case r of ((outcomes, failure), s) \<Rightarrow>
     (let (success, st, metadata) = (case failure of
            Some f \<Rightarrow> (False, CompFailed, failed_metadata n f outcomes)
          | None \<Rightarrow> (True, CompResolved, resolved_metadata n outcomes resolved_at))
      in case append_status mutation_ok mirror clk k (JStr (status_value st)) metadata s of
          Inl e \<Rightarrow> (Inl e, s)
        | Inr s1 \<Rightarrow> (Inr (dict_merge [(''success'', JBool success)]
            (task_or_empty (get_task mutation_ok k (comp_log s1)))), s1)))"

definition retry ::
    "(dict \<Rightarrow> bool) \<Rightarrow> 'm mirror option \<Rightarrow> (nat \<Rightarrow> string) \<Rightarrow> 'w target_writer \<Rightarrow> string \<Rightarrow> string \<Rightarrow> bool \<Rightarrow>
     ('w, 'm) comp_world \<Rightarrow> (py_exn + dict) \<times> ('w, 'm) comp_world" where
  "retry mutation_ok mirror clk writer resolved_at k confirm s =
     (if \<not> confirm then (Inl (ValueError ''compensation retry requires confirm=True''), s)
      else case get_task mutation_ok k (comp_log s) of
          None \<Rightarrow> (Inl (ValueError (''compensation task not found: '' @ k)), s)
        | Some task \<Rightarrow>
            if falsy (dict_get ''supported'' task)
            then (Inr [(''success'', JBool False),
                (''status'', (case dict_get ''status'' task of None \<Rightarrow> JNull | Some j \<Rightarrow> j)),
                (''task_id'', JStr k), (''supported'', JBool False),
                (''error'', JStr ''legacy or unsupported compensation payload; automatic retry refused'')], s)
            else if dict_get ''status'' task = Some (JStr (status_value CompResolved))
            then (Inr (dict_set ''already_resolved'' (JBool True) (dict_merge [(''success'', JBool True)] task)), s)
            else (case int_or_zero (dict_get ''retry_count'' task) of
                Inl e \<Rightarrow> (Inl e, s)
              | Inr count \<Rightarrow> (let n = count + 1
                  in case append_status mutation_ok mirror clk k (JStr (status_value CompRunning))
                        (running_metadata n []) s of
                      Inl e \<Rightarrow> (Inl e, s)
                    | Inr s1 \<Rightarrow> finish_retry mutation_ok mirror clk k n resolved_at
                        (apply_targets mutation_ok mirror clk writer k n 0 (targets_of (dict_get ''payload'' task)) [] s1))))"

section \<open>Lemmas: the fold\<close>

definition task_events :: "string \<Rightarrow> log_line list \<Rightarrow> dict list" where
  "task_events k ls = filter (\<lambda>e. event_task e = k) (read_events ls)"

lemma fold_event_map:
  "map_of (fold (fold_event mutation_ok) es folded) k =
     fold (\<lambda>e c. Some (fold_task mutation_ok e c)) (filter (\<lambda>e. event_task e = k) es) (map_of folded k)"
  by (induction es arbitrary: folded) (auto simp: fold_event_def update_conv)

lemma get_task_fold:
  "get_task mutation_ok k ls = fold (\<lambda>e c. Some (fold_task mutation_ok e c)) (task_events k ls) None"
  by (simp add: get_task_def fold_events_def task_events_def fold_event_map)

text \<open>Appending one event changes its own task only.\<close>

lemma get_task_append:
  assumes "dict_get ''task_id'' e = Some (JStr k)" and "k \<noteq> []" and "distinct (map fst e)"
  shows "get_task mutation_ok i (ls @ [event_line e]) =
    (if i = k then Some (fold_task mutation_ok (read_back e) (get_task mutation_ok k ls))
     else get_task mutation_ok i ls)"
proof -
  have "dict_get ''task_id'' (read_back e) = Some (JStr k)"
    using assms by (simp add: dict_get_read_back)
  then have "read_line (event_line e) = [read_back e]" "event_task (read_back e) = k"
    using assms(2) by (simp_all add: read_line_def event_line_def falsy_def event_task_def py_str_def)
  then have "task_events i (ls @ [event_line e]) = task_events i ls @ (if i = k then [read_back e] else [])"
    by (simp add: task_events_def read_events_def)
  then show ?thesis by (simp add: get_task_fold)
qed

text \<open>What a fold step keeps and what it reads from the event.\<close>

definition carried :: "string \<Rightarrow> bool" where
  "carried key \<longleftrightarrow> key \<notin> {''supported'', ''target_count'', ''mirror_eligible''}"

lemma dict_get_derived:
  "carried key \<Longrightarrow> dict_get key (derived_columns mutation_ok d) = dict_get key d"
  by (simp add: carried_def derived_columns_def dict_get_setdefault dict_get_set Let_def)

lemma distinct_filter_keys: "distinct (map fst e) \<Longrightarrow> distinct (map fst (filter p e))"
  by (induction e) auto

lemma dict_get_filter: "dict_get k (filter (\<lambda>kv. q (fst kv)) e) = (if q k then dict_get k e else None)"
  by (induction e) (auto simp: dict_get_def)

lemma dict_get_merged:
  assumes "distinct (map fst e)"
  shows "dict_get key (merged_task e c) =
    (if key \<in> set frozen_keys then dict_get key c
     else case dict_get key e of None \<Rightarrow> dict_get key c | Some v \<Rightarrow> Some v)"
  unfolding merged_task_def
  by (subst dict_get_merge [OF distinct_filter_keys [OF assms]])
    (simp add: dict_get_filter [where q = "\<lambda>x. x \<notin> set frozen_keys"])

lemma distinct_read_back: "distinct (map fst d) \<Longrightarrow> distinct (map fst (read_back d))"
proof -
  assume "distinct (map fst d)"
  then have "distinct (map fst (map (\<lambda>kv. (fst kv, canonical_json (snd kv))) d))" by (simp add: comp_def)
  then have "distinct (map fst (sort_key fst (map (\<lambda>kv. (fst kv, canonical_json (snd kv))) d)))"
    by (simp only: distinct_map distinct_sort set_sort)
  then show ?thesis by (simp add: read_back_def as_dict_def)
qed

lemma folded_column:
  assumes "distinct (map fst e)" and "carried key"
  shows "dict_get key (fold_task mutation_ok (read_back e) (Some c)) =
    (if key \<in> set frozen_keys then dict_get key c
     else case dict_get key e of None \<Rightarrow> dict_get key c | Some v \<Rightarrow> Some (canonical_json v))"
  using assms
  by (simp add: fold_task_def dict_get_derived dict_get_merged distinct_read_back dict_get_read_back
      split: option.splits)

section \<open>Lemmas: one operation\<close>

text \<open>The columns that a mirror receipt does not write.\<close>

definition settled :: "string \<Rightarrow> bool" where
  "settled key \<longleftrightarrow> carried key \<and> key \<notin> {''mirror_receipt'', ''mirror_record_id'', ''task_id''}"

definition same_columns :: "dict option \<Rightarrow> dict option \<Rightarrow> bool" where
  "same_columns t t' \<longleftrightarrow> (case (t, t') of
      (None, None) \<Rightarrow> True
    | (Some d, Some d') \<Rightarrow> (\<forall>key. settled key \<longrightarrow> dict_get key d' = dict_get key d)
    | _ \<Rightarrow> False)"

lemma same_columns_refl [simp]: "same_columns t t"
  by (simp add: same_columns_def split: option.splits)

definition log_grows :: "('w, 'm) comp_world \<Rightarrow> ('w, 'm) comp_world \<Rightarrow> bool" where
  "log_grows s s' \<longleftrightarrow> (\<exists>ls. comp_log s' = comp_log s @ ls)"

lemma log_grows_refl [simp]: "log_grows s s"
  by (simp add: log_grows_def)

lemma log_grows_trans: "log_grows s t \<Longrightarrow> log_grows t u \<Longrightarrow> log_grows s u"
  by (auto simp: log_grows_def)

lemma log_grows_add [simp]: "log_grows s (add_event e s)"
  by (auto simp: log_grows_def add_event_def)

lemma mirror_event_props:
  "dict_get ''task_id'' (mirror_event k r) = Some (JStr k)" "distinct (map fst (mirror_event k r))"
  "settled key \<Longrightarrow> key \<noteq> ''event'' \<Longrightarrow> dict_get key (mirror_event k r) = None"
  by (auto simp: mirror_event_def Let_def dict_get_def settled_def)

lemma mirror_keeps:
  fixes s :: "('w, 'm) comp_world"
  assumes "k \<noteq> []" and "s' = mirror_current_state mutation_ok mirror clk k s"
  shows "same_columns (get_task mutation_ok i (comp_log s)) (get_task mutation_ok i (comp_log s'))"
    and "comp_remote s' = comp_remote s" and "log_grows s s'"
proof -
  have "(\<forall>i. same_columns (get_task mutation_ok i (comp_log s)) (get_task mutation_ok i (comp_log s'))) \<and>
      comp_remote s' = comp_remote s \<and> log_grows s s'"
  proof (cases "s' = s")
    case False
    with assms(2) obtain d r w where d: "get_task mutation_ok k (comp_log s) = Some d"
      and s': "s' = add_event (mirror_event k r) (s\<lparr>comp_mirror := w\<rparr>)"
      by (auto simp: mirror_current_state_def split: option.splits if_splits prod.splits)
    have "get_task mutation_ok i (comp_log s') =
        (if i = k then Some (fold_task mutation_ok (read_back (mirror_event k r)) (Some d))
         else get_task mutation_ok i (comp_log s))" for i
      using get_task_append [OF mirror_event_props(1) assms(1) mirror_event_props(2)] d
      by (simp add: s' add_event_def)
    moreover have "dict_get key (fold_task mutation_ok (read_back (mirror_event k r)) (Some d)) = dict_get key d"
      if "settled key" for key
      using that folded_column [OF mirror_event_props(2), of key mutation_ok k r d] mirror_event_props(3) [OF that]
      by (cases "key = ''event''") (simp_all add: settled_def frozen_keys_def)
    ultimately have "same_columns (get_task mutation_ok i (comp_log s)) (get_task mutation_ok i (comp_log s'))" for i
      by (simp add: same_columns_def d split: option.splits)
    then show ?thesis by (auto simp: s' add_event_def log_grows_def)
  qed auto
  then show "same_columns (get_task mutation_ok i (comp_log s)) (get_task mutation_ok i (comp_log s'))"
    and "comp_remote s' = comp_remote s" and "log_grows s s'" by blast+
qed

text \<open>Dictionary facts of a status event.\<close>

lemma status_event_distinct: "distinct (map fst (status_event k st md now b))"
  unfolding status_event_def by (intro distinct_dict_set distinct_dict_merge) simp

definition status_owned :: "string list" where
  "status_owned = [''task_id'', ''status'', ''updated_at'', ''mirror_eligible'']"

lemma status_event_get:
  assumes "distinct (map fst md)"
  shows "dict_get ''task_id'' (status_event k st md now b) = Some (JStr k)"
    and "dict_get ''status'' (status_event k st md now b) = Some (JStr st)"
    and "key \<notin> set (''event'' # status_owned) \<Longrightarrow>
      dict_get key (status_event k st md now b) = dict_get key md"
  using assms by (auto simp: status_event_def dict_get_set dict_get_merge status_owned_def)
    (simp add: dict_get_def split: option.splits)

lemma validate_Inr:
  "validate_compensation_transition cur target = Inr t \<longleftrightarrow>
     (\<exists>c st. compensation_status cur = Inr c \<and> compensation_status target = Inr st \<and>
        st \<in> set (compensation_transitions c) \<and> t = status_value st)"
  by (auto simp: validate_compensation_transition_def bind_result_Inr split: if_splits)

lemma status_value_inj [simp]: "status_value a = status_value b \<longleftrightarrow> a = b"
  by (cases a; cases b) (simp_all add: status_value_def)

lemma compensation_status_value [simp]: "compensation_status (JStr (status_value st)) = Inr st"
  by (cases st) (simp_all add: compensation_status_def all_statuses_def py_str_def status_value_def)

text \<open>A status that was accepted: the task's new columns, and nothing else.\<close>

lemma append_status_effect:
  fixes s :: "('w, 'm) comp_world"
  assumes "append_status mutation_ok mirror clk k status md s = Inr s'" and "k \<noteq> []" and "distinct (map fst md)"
  shows "\<exists>d d' c st. get_task mutation_ok k (comp_log s) = Some d \<and>
      compensation_status (case dict_get ''status'' d of None \<Rightarrow> JNull | Some j \<Rightarrow> j) = Inr c \<and>
      compensation_status status = Inr st \<and> st \<in> set (compensation_transitions c) \<and>
      get_task mutation_ok k (comp_log s') = Some d' \<and> dict_get ''status'' d' = Some (JStr (status_value st)) \<and>
      (\<forall>key. settled key \<and> key \<notin> set status_owned \<longrightarrow> dict_get key d' =
        (if key \<in> set frozen_keys then dict_get key d
         else case dict_get key md of None \<Rightarrow> dict_get key d | Some v \<Rightarrow> Some (canonical_json v)))"
    and "i \<noteq> k \<Longrightarrow> same_columns (get_task mutation_ok i (comp_log s)) (get_task mutation_ok i (comp_log s'))"
    and "comp_remote s' = comp_remote s" and "log_grows s s'"
proof -
  from assms(1) obtain d t where d: "get_task mutation_ok k (comp_log s) = Some d"
    and t: "validate_compensation_transition (case dict_get ''status'' d of None \<Rightarrow> JNull | Some j \<Rightarrow> j) status = Inr t"
    and out: "Inr s' = (let s1 = add_event (status_event k t md (clk (length (comp_log s))) (now_eligible d t)) s
            in Inr (if now_eligible d t then mirror_current_state mutation_ok mirror clk k s1 else s1) ::
            py_exn + ('w, 'm) comp_world)"
    by (auto simp: append_status_def bind_result_Inr split: option.splits)
  define e where "e = status_event k t md (clk (length (comp_log s))) (now_eligible d t)"
  define s1 where "s1 = add_event e s"
  from out have s': "s' = (if now_eligible d t then mirror_current_state mutation_ok mirror clk k s1 else s1)"
    by (simp add: Let_def s1_def e_def)
  from t obtain c st where st: "compensation_status (case dict_get ''status'' d of None \<Rightarrow> JNull | Some j \<Rightarrow> j) = Inr c"
    "compensation_status status = Inr st" "st \<in> set (compensation_transitions c)" "t = status_value st"
    by (auto simp: validate_Inr)
  note e = status_event_get [OF assms(3), where k = k and st = t and now = "clk (length (comp_log s))"
      and b = "now_eligible d t", folded e_def]
  have de: "distinct (map fst e)" unfolding e_def by (rule status_event_distinct)
  have s1: "get_task mutation_ok i (comp_log s1) =
      (if i = k then Some (fold_task mutation_ok (read_back e) (Some d)) else get_task mutation_ok i (comp_log s))" for i
    using get_task_append [OF e(1) assms(2) de] d by (simp add: s1_def add_event_def)
  have same: "same_columns (get_task mutation_ok i (comp_log s1)) (get_task mutation_ok i (comp_log s'))" for i
    by (simp add: s' mirror_keeps(1) [OF assms(2) refl])
  from same [of k] obtain d' where d': "get_task mutation_ok k (comp_log s') = Some d'"
    and cols: "\<forall>key. settled key \<longrightarrow> dict_get key d' = dict_get key (fold_task mutation_ok (read_back e) (Some d))"
    by (auto simp: same_columns_def s1 split: option.splits)
  have "dict_get ''status'' d' = Some (JStr (status_value st))"
    using cols folded_column [OF de, of "''status''" mutation_ok d] e(2)
    by (simp add: settled_def carried_def frozen_keys_def st(4))
  moreover have "dict_get key d' = (if key \<in> set frozen_keys then dict_get key d
       else case dict_get key md of None \<Rightarrow> dict_get key d | Some v \<Rightarrow> Some (canonical_json v))"
    if "settled key" "key \<notin> set status_owned" for key
    using that cols folded_column [OF de, of key mutation_ok d] e(3) [of key]
    by (auto simp: settled_def frozen_keys_def)
  ultimately show "\<exists>d d' c st. get_task mutation_ok k (comp_log s) = Some d \<and>
      compensation_status (case dict_get ''status'' d of None \<Rightarrow> JNull | Some j \<Rightarrow> j) = Inr c \<and>
      compensation_status status = Inr st \<and> st \<in> set (compensation_transitions c) \<and>
      get_task mutation_ok k (comp_log s') = Some d' \<and> dict_get ''status'' d' = Some (JStr (status_value st)) \<and>
      (\<forall>key. settled key \<and> key \<notin> set status_owned \<longrightarrow> dict_get key d' =
        (if key \<in> set frozen_keys then dict_get key d
         else case dict_get key md of None \<Rightarrow> dict_get key d | Some v \<Rightarrow> Some (canonical_json v)))"
    using d d' st by blast
  show "same_columns (get_task mutation_ok i (comp_log s)) (get_task mutation_ok i (comp_log s'))" if "i \<noteq> k"
    using that same [of i] by (simp add: s1)
  show "comp_remote s' = comp_remote s"
    by (simp add: s' mirror_keeps(2) [OF assms(2) refl]) (simp add: s1_def add_event_def)
  show "log_grows s s'"
    unfolding s' s1_def using log_grows_trans [OF log_grows_add mirror_keeps(3) [OF assms(2) refl]] by auto
qed

section \<open>Lemmas: progress of the tasks\<close>

definition raw_status :: "dict \<Rightarrow> json" where
  "raw_status d = (case dict_get ''status'' d of None \<Rightarrow> JNull | Some j \<Rightarrow> j)"

definition status_edge :: "json \<Rightarrow> json \<Rightarrow> bool" where
  "status_edge a b \<longleftrightarrow> (\<exists>c st. compensation_status a = Inr c \<and> b = JStr (status_value st) \<and>
     st \<in> set (compensation_transitions c))"

definition origin_keys :: "string list" where
  "origin_keys = [''operation_type'', ''account'', ''payload'', ''created_at'']"

definition task_progress :: "dict option \<Rightarrow> dict option \<Rightarrow> bool" where
  "task_progress t t' \<longleftrightarrow> (case t of
      None \<Rightarrow> True
    | Some d \<Rightarrow> (\<exists>d'. t' = Some d' \<and> status_edge\<^sup>*\<^sup>* (raw_status d) (raw_status d') \<and>
        (\<forall>key \<in> set origin_keys. dict_get key d' = dict_get key d)))"

lemma task_progress_refl [simp]: "task_progress t t"
  by (simp add: task_progress_def split: option.splits)

lemma task_progress_trans: "task_progress t u \<Longrightarrow> task_progress u v \<Longrightarrow> task_progress t v"
  by (fastforce simp: task_progress_def split: option.splits)

lemma settled_keys: "key \<in> set (''status'' # origin_keys) \<Longrightarrow> settled key"
  by (auto simp: origin_keys_def settled_def carried_def)

lemma same_columns_progress: "same_columns t t' \<Longrightarrow> task_progress t t'"
  using settled_keys by (auto simp: same_columns_def task_progress_def raw_status_def split: option.splits)

definition comp_kept :: "(dict \<Rightarrow> bool) \<Rightarrow> ('w, 'm) comp_world \<Rightarrow> ('w, 'm) comp_world \<Rightarrow> bool" where
  "comp_kept mutation_ok s s' \<longleftrightarrow> log_grows s s' \<and>
     (\<forall>i. task_progress (get_task mutation_ok i (comp_log s)) (get_task mutation_ok i (comp_log s')))"

lemma comp_kept_refl [simp]: "comp_kept mutation_ok s s"
  by (simp add: comp_kept_def)

lemma comp_kept_trans: "comp_kept mutation_ok s t \<Longrightarrow> comp_kept mutation_ok t u \<Longrightarrow> comp_kept mutation_ok s u"
  unfolding comp_kept_def by (blast intro: log_grows_trans task_progress_trans)

lemma comp_kept_log: "comp_log s' = comp_log s \<Longrightarrow> comp_kept mutation_ok s s'"
  by (simp add: comp_kept_def log_grows_def)

lemma comp_kept_mirror:
  "k \<noteq> [] \<Longrightarrow> comp_kept mutation_ok s (mirror_current_state mutation_ok mirror clk k s)"
  by (simp add: comp_kept_def same_columns_progress [OF mirror_keeps(1) [OF _ refl]] mirror_keeps(3) [OF _ refl])

lemma append_status_kept:
  assumes "append_status mutation_ok mirror clk k status md s = Inr s'" and "k \<noteq> []" and "distinct (map fst md)"
  shows "comp_kept mutation_ok s s'"
proof -
  note eff = append_status_effect [OF assms]
  from eff(1) obtain d d' c st where t: "get_task mutation_ok k (comp_log s) = Some d"
    "compensation_status (raw_status d) = Inr c" "st \<in> set (compensation_transitions c)"
    "get_task mutation_ok k (comp_log s') = Some d'" "dict_get ''status'' d' = Some (JStr (status_value st))"
    and cols: "\<forall>key. settled key \<and> key \<notin> set status_owned \<longrightarrow> dict_get key d' =
        (if key \<in> set frozen_keys then dict_get key d
         else case dict_get key md of None \<Rightarrow> dict_get key d | Some v \<Rightarrow> Some (canonical_json v))"
    by (auto simp: raw_status_def)
  have "status_edge (raw_status d) (raw_status d')"
    using t(2,3,5) by (auto simp: status_edge_def raw_status_def)
  moreover have "dict_get key d' = dict_get key d" if "key \<in> set origin_keys" for key
    using that cols settled_keys [of key] by (auto simp: origin_keys_def status_owned_def frozen_keys_def)
  ultimately have "task_progress (get_task mutation_ok k (comp_log s)) (get_task mutation_ok k (comp_log s'))"
    by (auto simp: task_progress_def t(1,4))
  then have "task_progress (get_task mutation_ok i (comp_log s)) (get_task mutation_ok i (comp_log s'))" for i
    using same_columns_progress [OF eff(2)] by (cases "i = k") auto
  with eff(4) show ?thesis by (simp add: comp_kept_def)
qed

lemma create_kept:
  assumes "get_task mutation_ok k (comp_log s) = None" and "k \<noteq> []"
  shows "comp_kept mutation_ok s (add_event ((''event'', JStr ''CREATED'') #
    task_columns k op_type account st payload err related c u @ [(''mirror_eligible'', JBool b)]) s)"
    (is "comp_kept _ _ (add_event ?e s)")
proof -
  have "dict_get ''task_id'' ?e = Some (JStr k)" "distinct (map fst ?e)"
    by (simp_all add: task_columns_def dict_get_def)
  then have "get_task mutation_ok i (comp_log (add_event ?e s)) =
      (if i = k then Some (fold_task mutation_ok (read_back ?e) None) else get_task mutation_ok i (comp_log s))" for i
    using get_task_append [of ?e k mutation_ok i] assms by (simp add: add_event_def)
  then have "task_progress (get_task mutation_ok i (comp_log s)) (get_task mutation_ok i (comp_log (add_event ?e s)))" for i
    using assms(1) by (cases "i = k") (simp_all add: task_progress_def [of None])
  then show ?thesis by (simp add: comp_kept_def)
qed

lemma metadata_distinct [simp]:
  "distinct (map fst (running_metadata n outs))" "distinct (map fst (failed_metadata n f outs))"
  "distinct (map fst (resolved_metadata n outs r))"
  by (simp_all add: running_metadata_def failed_metadata_def resolved_metadata_def)

lemma apply_targets_kept:
  assumes "apply_targets mutation_ok mirror clk writer k n i ts outs s = (r, s')" and "k \<noteq> []"
  shows "comp_kept mutation_ok s s'"
  using assms(1)
proof (induction ts arbitrary: i outs s)
  case (Cons t ts)
  obtain x w where x: "writer t (comp_remote s) = (x, w)" by (cases "writer t (comp_remote s)")
  have log: "comp_kept mutation_ok s (s\<lparr>comp_remote := w\<rparr>)" by (rule comp_kept_log) simp
  show ?case
  proof (cases x)
    case (Inl f)
    with Cons.prems x log show ?thesis by simp
  next
    case (Inr outcome)
    define done1 where "done1 = outs @ [outcome_entry i t outcome]"
    show ?thesis
    proof (cases "append_status mutation_ok mirror clk k (JStr (status_value CompRunning))
        (running_metadata n done1) (s\<lparr>comp_remote := w\<rparr>)")
      case (Inl e)
      with Cons.prems x Inr log show ?thesis by (simp add: done1_def Let_def)
    next
      case (Inr s1)
      with Cons.prems x \<open>x = Inr outcome\<close>
      have "apply_targets mutation_ok mirror clk writer k n (Suc i) ts done1 s1 = (r, s')"
        by (simp add: done1_def Let_def)
      then have "comp_kept mutation_ok s1 s'" by (rule Cons.IH)
      moreover have "comp_kept mutation_ok (s\<lparr>comp_remote := w\<rparr>) s1"
        using Inr assms(2) by (rule append_status_kept) simp
      ultimately show ?thesis using log by (blast intro: comp_kept_trans)
    qed
  qed
qed simp

lemma finish_retry_kept:
  assumes "finish_retry mutation_ok mirror clk k n r (x, s) = (res, s')" and "k \<noteq> []"
  shows "comp_kept mutation_ok s s'"
proof -
  obtain outs failure where x: "x = (outs, failure)" by (cases x)
  obtain b st md where m: "(case failure of
            Some f \<Rightarrow> (False, CompFailed, failed_metadata n f outs)
          | None \<Rightarrow> (True, CompResolved, resolved_metadata n outs r)) = (b, st, md)"
    by (rule prod_cases3)
  then have md: "distinct (map fst md)" by (auto split: option.splits)
  show ?thesis
  proof (cases "append_status mutation_ok mirror clk k (JStr (status_value st)) md s")
    case (Inl e)
    with assms(1) show ?thesis by (simp add: finish_retry_def x m)
  next
    case (Inr s1)
    moreover from this assms(1) have "s' = s1" by (simp add: finish_retry_def x m)
    ultimately show ?thesis using append_status_kept [OF _ assms(2) md] by simp
  qed
qed

lemma retry_kept:
  assumes "retry mutation_ok mirror clk writer r k confirm s = (res, s')" and "k \<noteq> []"
  shows "comp_kept mutation_ok s s'"
proof (cases "s' = s")
  case False
  with assms(1) obtain n md ts s1 where a: "append_status mutation_ok mirror clk k (JStr (status_value CompRunning))
      (running_metadata n []) s = Inr s1"
    and b: "finish_retry mutation_ok mirror clk k n r
      (apply_targets mutation_ok mirror clk writer k n 0 ts [] s1) = (res, s')"
    by (auto simp: retry_def Let_def split: if_splits option.splits sum.splits)
  obtain x s2 where x: "apply_targets mutation_ok mirror clk writer k n 0 ts [] s1 = (x, s2)"
    by (cases "apply_targets mutation_ok mirror clk writer k n 0 ts [] s1")
  have "comp_kept mutation_ok s s1" using a assms(2) by (rule append_status_kept) simp
  moreover have "comp_kept mutation_ok s1 s2" using x assms(2) by (rule apply_targets_kept)
  moreover have "comp_kept mutation_ok s2 s'" using b [unfolded x] assms(2) by (rule finish_retry_kept)
  ultimately show ?thesis by (blast intro: comp_kept_trans)
qed simp

section \<open>Every operation as a step\<close>

inductive comp_step ::
    "(dict \<Rightarrow> bool) \<Rightarrow> 'm mirror option \<Rightarrow> 'w target_writer \<Rightarrow> ('w, 'm) comp_world \<Rightarrow> ('w, 'm) comp_world \<Rightarrow> bool"
    for mutation_ok mirror writer where
  step_record: "get_task mutation_ok k (comp_log s) = None \<Longrightarrow> k \<noteq> [] \<Longrightarrow>
    comp_step mutation_ok mirror writer s
      (record_task mutation_ok mirror clk k operation_type account payload err related s)"
| step_prepare: "get_task mutation_ok k (comp_log s) = None \<Longrightarrow> k \<noteq> [] \<Longrightarrow>
    prepare_task mutation_ok clk k operation_type account payload s = (res, s') \<Longrightarrow>
    comp_step mutation_ok mirror writer s s'"
| step_update: "k \<noteq> [] \<Longrightarrow> distinct (map fst md) \<Longrightarrow>
    update_status mutation_ok mirror clk k status md s = (res, s') \<Longrightarrow>
    comp_step mutation_ok mirror writer s s'"
| step_retry: "k \<noteq> [] \<Longrightarrow> retry mutation_ok mirror clk writer r k confirm s = (out, s') \<Longrightarrow>
    comp_step mutation_ok mirror writer s s'"

lemma comp_step_kept:
  assumes "comp_step mutation_ok mirror writer s s'"
  shows "comp_kept mutation_ok s s'"
  using assms
proof (cases rule: comp_step.cases)
  case (step_record k clk operation_type account payload err related)
  let ?s1 = "add_event ((''event'', JStr ''CREATED'') #
    task_columns k operation_type account CompPending payload err related (clk (length (comp_log s)))
      (clk (length (comp_log s))) @ [(''mirror_eligible'', JBool (payload_is_supported mutation_ok (Some payload)))]) s"
  have a: "comp_kept mutation_ok s ?s1" using step_record(2,3) by (rule create_kept)
  have "comp_kept mutation_ok ?s1 (mirror_current_state mutation_ok mirror clk k ?s1)"
    using step_record(3) by (rule comp_kept_mirror)
  with a have b: "comp_kept mutation_ok s (mirror_current_state mutation_ok mirror clk k ?s1)"
    by (rule comp_kept_trans)
  have "s' \<in> {mirror_current_state mutation_ok mirror clk k ?s1, ?s1}"
    unfolding step_record(1) record_task_def Let_def by simp
  then show ?thesis
  proof (elim insertE emptyE)
    assume "s' = mirror_current_state mutation_ok mirror clk k ?s1"
    with b show ?thesis by (simp only:)
  next
    assume "s' = ?s1"
    with a show ?thesis by (simp only:)
  qed
next
  case (step_prepare k clk operation_type account payload res)
  let ?new = "add_event ((''event'', JStr ''CREATED'') #
      task_columns k operation_type account CompPrepared payload [] None (clk (length (comp_log s)))
        (clk (length (comp_log s))) @ [(''mirror_eligible'', JBool False)]) s"
  have "snd (prepare_task mutation_ok clk k operation_type account payload s) \<in> {s, ?new}"
    by (simp add: prepare_task_def Let_def)
  then have "s' = s \<or> s' = ?new" by (simp only: step_prepare(3) snd_conv insert_iff empty_iff simp_thms)
  then show ?thesis
  proof
    assume "s' = s" then show ?thesis by simp
  next
    assume "s' = ?new"
    with create_kept [OF step_prepare(1,2)] show ?thesis by (simp only:)
  qed
next
  case (step_update k md clk status res)
  then show ?thesis
    using append_status_kept [OF _ step_update(1,2)] by (auto simp: update_status_def split: sum.splits)
next
  case (step_retry k clk r confirm out)
  from step_retry(2,1) show ?thesis by (rule retry_kept)
qed

lemma comp_steps_kept:
  assumes "(comp_step mutation_ok mirror writer)\<^sup>*\<^sup>* s s'"
  shows "comp_kept mutation_ok s s'"
  using assms by (induction rule: rtranclp_induct) (auto intro: comp_step_kept comp_kept_trans)

lemma resolved_path:
  assumes "status_edge\<^sup>*\<^sup>* (JStr (status_value CompResolved)) b"
  shows "b = JStr (status_value CompResolved)"
  using assms
  by (induction rule: rtranclp_induct) (auto simp: status_edge_def compensation_transitions_def)

section \<open>Lemmas: a retry runs to its end\<close>

lemma append_status_ok:
  assumes "get_task mutation_ok k (comp_log s) = Some d" and "dict_get ''status'' d = Some (JStr (status_value c))"
    and "st \<in> set (compensation_transitions c)"
  obtains s' where "append_status mutation_ok mirror clk k (JStr (status_value st)) md s = Inr s'"
  using assms by (simp add: append_status_def validate_compensation_transition_def Let_def)

definition task_with :: "comp_status \<Rightarrow> dict \<Rightarrow> dict option \<Rightarrow> bool" where
  "task_with st md t \<longleftrightarrow> (\<exists>d. t = Some d \<and> dict_get ''status'' d = Some (JStr (status_value st)) \<and>
     (\<forall>key v. settled key \<and> key \<notin> set status_owned \<and> key \<notin> set frozen_keys \<and> dict_get key md = Some v \<longrightarrow>
       dict_get key d = Some (canonical_json v)))"

lemma append_status_task:
  assumes "append_status mutation_ok mirror clk k (JStr (status_value st)) md s = Inr s'" and "k \<noteq> []"
    and "distinct (map fst md)"
  shows "task_with st md (get_task mutation_ok k (comp_log s'))"
  using append_status_effect(1) [OF assms] by (auto simp: task_with_def)

lemma task_with_obtain:
  assumes "task_with st md t"
  obtains d where "t = Some d" and "dict_get ''status'' d = Some (JStr (status_value st))"
  using assms by (auto simp: task_with_def)

text \<open>What the loop does to the remote tables, without the log.\<close>

fun run_targets ::
    "'w target_writer \<Rightarrow> nat \<Rightarrow> json list \<Rightarrow> json list \<Rightarrow> 'w \<Rightarrow> (json list \<times> apply_failure option) \<times> 'w" where
  "run_targets writer i [] outs w = ((outs, None), w)"
| "run_targets writer i (t # ts) outs w = (case writer t w of
     (Inl f, w') \<Rightarrow> ((outs, Some f), w')
   | (Inr x, w') \<Rightarrow> run_targets writer (Suc i) ts (outs @ [outcome_entry i t x]) w')"

lemma apply_targets_run:
  assumes "k \<noteq> []" and "task_with CompRunning md (get_task mutation_ok k (comp_log s))"
    and "apply_targets mutation_ok mirror clk writer k n i ts outs s = (x, s')"
  shows "run_targets writer i ts outs (comp_remote s) = (x, comp_remote s') \<and>
    (\<exists>md. task_with CompRunning md (get_task mutation_ok k (comp_log s')))"
  using assms(2,3)
proof (induction ts arbitrary: i outs s md)
  case Nil
  then show ?case by auto
next
  case (Cons t ts)
  obtain y w where y: "writer t (comp_remote s) = (y, w)" by (cases "writer t (comp_remote s)")
  show ?case
  proof (cases y)
    case (Inl f)
    with Cons.prems y show ?thesis by auto
  next
    case (Inr o1)
    define done1 where "done1 = outs @ [outcome_entry i t o1]"
    let ?s = "s\<lparr>comp_remote := w\<rparr>"
    from Cons.prems(1) obtain d where "get_task mutation_ok k (comp_log ?s) = Some d"
      "dict_get ''status'' d = Some (JStr (status_value CompRunning))" by (auto elim: task_with_obtain)
    then obtain s1 where s1: "append_status mutation_ok mirror clk k (JStr (status_value CompRunning))
        (running_metadata n done1) ?s = Inr s1"
      by (rule append_status_ok [where st = CompRunning and mirror = mirror and clk = clk
            and md = "running_metadata n done1"]) (simp add: compensation_transitions_def)
    have run: "task_with CompRunning (running_metadata n done1) (get_task mutation_ok k (comp_log s1))"
      using s1 assms(1) by (rule append_status_task) simp
    have "apply_targets mutation_ok mirror clk writer k n (Suc i) ts done1 s1 = (x, s')"
      using Cons.prems(2) y Inr s1 by (simp add: done1_def Let_def)
    from Cons.IH [OF run this] append_status_effect(3) [OF s1 assms(1)] y Inr
    show ?thesis by (simp add: done1_def)
  qed
qed

section \<open>Properties\<close>

text \<open>
  C30. The log is the authority and a task's life follows the declared transitions. Under any
  sequence of recordings and preparations of new tasks, status updates and retries, with any
  outcomes of the remote writes and of the mirror: the log only grows, no task disappears, what a
  task was created for (operation, account, payload, time) never changes, and its status moves
  along allowed transitions only; a resolved task stays resolved.
\<close>
theorem compensation_lifecycle:
  assumes "(comp_step mutation_ok mirror writer)\<^sup>*\<^sup>* s s'" and "get_task mutation_ok k (comp_log s) = Some d"
  shows "(\<exists>ls. comp_log s' = comp_log s @ ls) \<and>
    (\<exists>d'. get_task mutation_ok k (comp_log s') = Some d' \<and> status_edge\<^sup>*\<^sup>* (raw_status d) (raw_status d') \<and>
      (raw_status d = JStr ''RESOLVED'' \<longrightarrow> raw_status d' = JStr ''RESOLVED'') \<and>
      dict_get ''payload'' d' = dict_get ''payload'' d \<and> dict_get ''account'' d' = dict_get ''account'' d \<and>
      dict_get ''operation_type'' d' = dict_get ''operation_type'' d \<and>
      dict_get ''created_at'' d' = dict_get ''created_at'' d)"
proof -
  have kept: "comp_kept mutation_ok s s'" using assms(1) by (rule comp_steps_kept)
  then have "task_progress (Some d) (get_task mutation_ok k (comp_log s'))"
    unfolding comp_kept_def using assms(2) by metis
  then obtain d' where d': "get_task mutation_ok k (comp_log s') = Some d'"
    "status_edge\<^sup>*\<^sup>* (raw_status d) (raw_status d')" "\<forall>key \<in> set origin_keys. dict_get key d' = dict_get key d"
    by (auto simp: task_progress_def)
  have "raw_status d' = JStr ''RESOLVED''" if "raw_status d = JStr ''RESOLVED''"
    using that d'(2) resolved_path [of "raw_status d'"] by (simp add: status_value_def)
  with d' kept show ?thesis by (auto simp: comp_kept_def log_grows_def origin_keys_def)
qed

definition demo_target :: json where
  "demo_target = JObj [(''type'', JStr ''HOLDINGS_SNAPSHOT_TARGET_SET'')]"

definition demo_world :: "(nat, unit) comp_world" where
  "demo_world = record_task (\<lambda>m. True) None (\<lambda>n. ''t'') ''k'' ''BUY'' ''a'' (JObj [(''targets'', JArr [demo_target, demo_target])])
     ''timeout'' None \<lparr>comp_log = [], comp_remote = 0, comp_mirror = ()\<rparr>"

text \<open>A writer that accepts its first call and then conflicts.\<close>

definition demo_writer :: "nat target_writer" where
  "demo_writer t w = (if w = 0 then Inr [(''status'', JStr ''applied'')]
     else Inl \<lparr>af_conflict = True, af_message = ''stale''\<rparr>, Suc w)"

lemma compensation_lifecycle_witness:
  "\<exists>d'. get_task (\<lambda>m. True) ''k'' (comp_log (snd (retry (\<lambda>m. True) None (\<lambda>n. ''t'') demo_writer ''r'' ''k'' True demo_world)))
     = Some d' \<and> dict_get ''operation_type'' d' = Some (JStr ''BUY'')"
proof -
  let ?after = "snd (retry (\<lambda>m. True) None (\<lambda>n. ''t'') demo_writer ''r'' ''k'' True demo_world)"
  have "comp_step (\<lambda>m. True) None demo_writer demo_world ?after"
    by (rule comp_step.step_retry [OF _ prod.collapse [symmetric]]) simp
  then have steps: "(comp_step (\<lambda>m. True) None demo_writer)\<^sup>*\<^sup>* demo_world ?after" by simp
  have d: "get_task (\<lambda>m. True) ''k'' (comp_log demo_world) = Some (the (get_task (\<lambda>m. True) ''k'' (comp_log demo_world)))"
    "dict_get ''operation_type'' (the (get_task (\<lambda>m. True) ''k'' (comp_log demo_world))) = Some (JStr ''BUY'')"
    by code_simp+
  from compensation_lifecycle [OF steps d(1)] d(2) show ?thesis by auto
qed

text \<open>
  C31. A confirmed retry of a supported task is exact. A resolved task is left alone: no target is
  written and no line is logged. Otherwise the recorded targets are written in their order until
  one fails; the task ends RESOLVED exactly when all of them were written, and otherwise FAILED
  with the error, its kind and the outcomes of the targets before it; the retry is counted, and
  nothing but these writes touches the remote tables. A stored count that is no number raises before
  anything is written.
\<close>
theorem compensation_retry_exact:
  assumes "k \<noteq> []" and "get_task mutation_ok k (comp_log s) = Some d"
    and "\<not> falsy (dict_get ''supported'' d)" and "dict_get ''status'' d = Some (JStr (status_value c))"
    and "retry mutation_ok mirror clk writer r k True s = (res, s')"
  shows "if c = CompResolved
    then s' = s \<and> (\<exists>out. res = Inr out \<and> dict_get ''already_resolved'' out = Some (JBool True))
    else case int_or_zero (dict_get ''retry_count'' d) of Inl e \<Rightarrow> res = Inl e \<and> s' = s | Inr count \<Rightarrow>
     case run_targets writer 0 (targets_of (dict_get ''payload'' d)) [] (comp_remote s) of ((outs, failure), w) \<Rightarrow>
      comp_remote s' = w \<and>
      (\<exists>d'. get_task mutation_ok k (comp_log s') = Some d' \<and>
        res = Inr (dict_merge [(''success'', JBool (failure = None))] d') \<and>
        dict_get ''retry_count'' d' = Some (JInt (count + 1)) \<and>
        dict_get ''target_outcomes'' d' = Some (canonical_json (JArr outs)) \<and>
        (case failure of
           None \<Rightarrow> dict_get ''status'' d' = Some (JStr ''RESOLVED'')
         | Some f \<Rightarrow> dict_get ''status'' d' = Some (JStr ''FAILED'') \<and>
             dict_get ''error'' d' = Some (JStr (af_message f)) \<and>
             dict_get ''error_type'' d' =
               Some (JStr (if af_conflict f then ''state_conflict'' else ''target_apply_failed''))))"
proof (cases "c = CompResolved")
  case True
  with assms show ?thesis by (auto simp: retry_def dict_get_set)
next
  case unresolved: False
  show ?thesis
  proof (cases "int_or_zero (dict_get ''retry_count'' d)")
  case (Inl e)
  with assms unresolved show ?thesis by (auto simp: retry_def status_value_def split: comp_status.splits)
next
  case count: (Inr n0)
  note False = unresolved
  define n where "n = n0 + 1"
  define ts where "ts = targets_of (dict_get ''payload'' d)"
  have "CompRunning \<in> set (compensation_transitions c)"
    using False by (cases c) (simp_all add: compensation_transitions_def all_statuses_def)
  then obtain s1 where s1: "append_status mutation_ok mirror clk k (JStr (status_value CompRunning))
      (running_metadata n []) s = Inr s1"
    by (rule append_status_ok [OF assms(2,4)])
  have run1: "task_with CompRunning (running_metadata n []) (get_task mutation_ok k (comp_log s1))"
    using s1 assms(1) by (rule append_status_task) simp
  obtain outs failure s2 where x: "apply_targets mutation_ok mirror clk writer k n 0 ts [] s1 = ((outs, failure), s2)"
    by (metis prod.collapse)
  from apply_targets_run [OF assms(1) run1 x] obtain md where
    run: "run_targets writer 0 ts [] (comp_remote s1) = ((outs, failure), comp_remote s2)"
    and run2: "task_with CompRunning md (get_task mutation_ok k (comp_log s2))" by blast
  have remote1: "comp_remote s1 = comp_remote s" by (rule append_status_effect(3) [OF s1 assms(1)]) simp
  define st where "st = (if failure = None then CompResolved else CompFailed)"
  define md2 where "md2 = (case failure of None \<Rightarrow> resolved_metadata n outs r | Some f \<Rightarrow> failed_metadata n f outs)"
  have md2: "distinct (map fst md2)" by (simp add: md2_def split: option.splits)
  have st_next: "st \<in> set (compensation_transitions CompRunning)"
    by (simp add: st_def compensation_transitions_def)
  from run2 obtain d2 where "get_task mutation_ok k (comp_log s2) = Some d2"
    "dict_get ''status'' d2 = Some (JStr (status_value CompRunning))" by (rule task_with_obtain)
  then obtain s3 where s3: "append_status mutation_ok mirror clk k (JStr (status_value st)) md2 s2 = Inr s3"
    using st_next by (rule append_status_ok)
  have remote3: "comp_remote s3 = comp_remote s2" by (rule append_status_effect(3) [OF s3 assms(1) md2])
  from append_status_task [OF s3 assms(1) md2] obtain d' where
    d': "get_task mutation_ok k (comp_log s3) = Some d'" "dict_get ''status'' d' = Some (JStr (status_value st))"
    and cols: "\<forall>key v. settled key \<and> key \<notin> set status_owned \<and> key \<notin> set frozen_keys \<and> dict_get key md2 = Some v \<longrightarrow>
       dict_get key d' = Some (canonical_json v)"
    by (auto simp: task_with_def)
  have "finish_retry mutation_ok mirror clk k n r ((outs, failure), s2) =
      (Inr (dict_merge [(''success'', JBool (failure = None))] d'), s3)"
    using s3 d'(1) by (cases failure) (simp_all add: finish_retry_def st_def md2_def task_or_empty_def)
  with assms False s1 x have out: "res = Inr (dict_merge [(''success'', JBool (failure = None))] d')" "s' = s3"
    by (simp_all add: retry_def n_def ts_def count)
  have free: "settled key \<and> key \<notin> set status_owned \<and> key \<notin> set frozen_keys"
    if "key \<in> {''retry_count'', ''target_outcomes'', ''error'', ''error_type''}" for key
    using that by (auto simp: settled_def carried_def status_owned_def frozen_keys_def)
  have "dict_get ''retry_count'' md2 = Some (JInt n)" "dict_get ''target_outcomes'' md2 = Some (JArr outs)"
    by (auto simp: md2_def resolved_metadata_def failed_metadata_def dict_get_def split: option.splits)
  with cols free have "dict_get ''retry_count'' d' = Some (JInt n)"
    "dict_get ''target_outcomes'' d' = Some (canonical_json (JArr outs))" by fastforce+
  moreover have "dict_get ''error'' d' = Some (JStr (af_message f))"
    "dict_get ''error_type'' d' = Some (JStr (if af_conflict f then ''state_conflict'' else ''target_apply_failed''))"
    if "failure = Some f" for f
  proof -
    have "dict_get ''error'' md2 = Some (JStr (af_message f))"
      "dict_get ''error_type'' md2 = Some (JStr (if af_conflict f then ''state_conflict'' else ''target_apply_failed''))"
      using that by (simp_all add: md2_def failed_metadata_def dict_get_def)
    with cols free show "dict_get ''error'' d' = Some (JStr (af_message f))"
      "dict_get ''error_type'' d' = Some (JStr (if af_conflict f then ''state_conflict'' else ''target_apply_failed''))"
      by fastforce+
  qed
  ultimately show ?thesis
    using False run remote1 remote3 d' out
    by (simp add: n_def ts_def st_def status_value_def count split: option.splits)
  qed
qed

lemma compensation_retry_exact_witness:
  "\<exists>d'. get_task (\<lambda>m. True) ''k'' (comp_log (snd (retry (\<lambda>m. True) None (\<lambda>n. ''t'') demo_writer ''r'' ''k'' True demo_world)))
     = Some d' \<and> dict_get ''status'' d' = Some (JStr ''FAILED'') \<and> dict_get ''error'' d' = Some (JStr ''stale'')"
proof -
  let ?d = "the (get_task (\<lambda>m. True) ''k'' (comp_log demo_world))"
  have d: "get_task (\<lambda>m. True) ''k'' (comp_log demo_world) = Some ?d" "\<not> falsy (dict_get ''supported'' ?d)"
    "dict_get ''status'' ?d = Some (JStr (status_value CompPending))" by code_simp+
  have run: "run_targets demo_writer 0 (targets_of (dict_get ''payload'' ?d)) [] (comp_remote demo_world) =
      (([outcome_entry 0 demo_target [(''status'', JStr ''applied'')]], Some \<lparr>af_conflict = True, af_message = ''stale''\<rparr>), 2)"
    by code_simp
  have k: "''k'' \<noteq> []" by simp
  have count: "int_or_zero (dict_get ''retry_count'' ?d) = Inr 0" by code_simp
  from compensation_retry_exact [OF k d prod.collapse [symmetric], of None "\<lambda>n. ''t''" demo_writer "''r''"]
  show ?thesis unfolding run count by auto
qed

end
