(* ===== verification/Holding_Values.thy ===== *)
theory Holding_Values
  imports Decimals
begin

text \<open>
  The rules that read one cell of a holdings row (\<open>domain/holding_values.py\<close>,
  \<open>domain/holding_currencies.py\<close>): texts, quantities, and the accepted currency codes.
\<close>

text \<open>\<open>text or None\<close>: an empty text is no text.\<close>

definition nonempty :: "string \<Rightarrow> string option" where
  "nonempty t = (if t = [] then None else Some t)"

definition holding_text :: "json option \<Rightarrow> string option" where
  "holding_text v = (case v of
      None \<Rightarrow> None
    | Some JNull \<Rightarrow> None
    | Some (JArr xs) \<Rightarrow> None
    | Some (JObj d) \<Rightarrow> None
    | Some j \<Rightarrow> nonempty (py_strip (py_str j)))"

definition holding_decimal :: "json option \<Rightarrow> decimal option" where
  "holding_decimal v = (case v of
      None \<Rightarrow> None
    | Some JNull \<Rightarrow> None
    | Some (JBool b) \<Rightarrow> None
    | Some (JArr xs) \<Rightarrow> None
    | Some (JObj d) \<Rightarrow> None
    | Some j \<Rightarrow> parse_decimal (py_strip (filter (\<lambda>c. c \<noteq> CHR '','') (py_str j))))"

section \<open>Currencies\<close>

fun words_of :: "string \<Rightarrow> string list" where
  "words_of [] = []"
| "words_of (c # cs) =
     (if c = CHR '' '' then words_of cs
      else case cs of
          [] \<Rightarrow> [[c]]
        | d # ds \<Rightarrow> if d = CHR '' '' then [c] # words_of cs
            else (case words_of cs of [] \<Rightarrow> [[c]] | w # ws \<Rightarrow> (c # w) # ws))"

definition holding_currencies :: "string list" where
  "holding_currencies =
     words_of ''ADP AED AFA AFN ALK ALL AMD ANG AOA AOK AON AOR ARA ARL ARM ARP ARS ATS AUD AWG AZM'' @
     words_of ''AZN BAD BAM BAN BBD BDT BEC BEF BEL BGL BGM BGN BGO BHD BIF BMD BND BOB BOL BOP BOV'' @
     words_of ''BRB BRC BRE BRL BRN BRR BRZ BSD BTN BUK BWP BYB BYN BYR BZD CAD CDF CHE CHF CHW CLE'' @
     words_of ''CLF CLP CNH CNX CNY COP COU CRC CSD CSK CUC CUP CVE CYP CZK DDM DEM DJF DKK DOP DZD'' @
     words_of ''ECS ECV EEK EGP ERN ESA ESB ESP ETB EUR FIM FJD FKP FRF GBP GEK GEL GHC GHS GIP GMD'' @
     words_of ''GNF GNS GQE GRD GTQ GWE GWP GYD HKD HNL HRD HRK HTG HUF IDR IEP ILP ILR ILS INR IQD'' @
     words_of ''IRR ISJ ISK ITL JMD JOD JPY KES KGS KHR KMF KPW KRH KRO KRW KWD KYD KZT LAK LBP LKR'' @
     words_of ''LRD LSL LSM LTL LTT LUC LUF LUL LVL LVR LYD MAD MAF MCF MDC MDL MGA MGF MKD MKN MLF'' @
     words_of ''MMK MNT MOP MRO MRU MTL MTP MUR MVP MVR MWK MXN MXP MXV MYR MZE MZM MZN NAD NGN NIC'' @
     words_of ''NIO NLG NOK NPR NZD OMR PAB PEI PEN PES PGK PHP PKR PLN PLZ PTE PYG QAR RHD ROL RON'' @
     words_of ''RSD RUB RUR RWF SAR SBD SCR SDD SDG SDP SEK SGD SHP SIT SKK SLE SLL SOS SRD SRG SSP'' @
     words_of ''STD STN SUR SVC SYP SZL THB TJR TJS TMM TMT TND TOP TPE TRL TRY TTD TWD TZS UAH UAK'' @
     words_of ''UGS UGX USD USN USS UYI UYP UYU UYW UZS VEB VED VEF VES VND VNN VUV WST XAF XAG XAU'' @
     words_of ''XBA XBB XBC XBD XCD XCG XDR XEU XFO XFU XOF XPD XPF XPT XRE XSU XUA YDD YER YUD YUM'' @
     words_of ''YUN YUR ZAL ZAR ZMK ZMW ZRN ZRZ ZWD ZWG ZWL ZWR''"

definition currency_typo_corrections :: "(string \<times> string) list" where
  "currency_typo_corrections = [(''HDK'', ''HKD'')]"

definition is_known_holding_currency :: "json \<Rightarrow> bool" where
  "is_known_holding_currency v \<longleftrightarrow> (case v of
      JStr t \<Rightarrow> py_upper (py_strip t) \<in> set holding_currencies
    | _ \<Rightarrow> False)"

lemma known_currency_examples:
  "is_known_holding_currency (JStr '' hkd '')" "\<not> is_known_holding_currency (JStr ''HDK'')"
  by code_simp+

end
