(* ===== verification/Holding_Changes.thy ===== *)
theory Holding_Changes
  imports Holding_Values
begin

text \<open>
  Comparing two successive readings of the holdings table (\<open>domain/holding_changes.py\<close>): the
  projection of a raw row, and \<open>observe\<close>, which turns the previous observation and a new reading
  into the new observation, the changes to report and the rows that are proven deleted. Times are
  instants. Parameters: \<open>scope_of\<close>, the broker classification of \<open>holding_broker_scope\<close> (rules on
  Chinese broker names), and the configured \<open>accounts\<close>.
\<close>

section \<open>Rows\<close>

record raw_holding =
  rh_record_id :: string
  rh_fields :: dict

record snapshot =
  sn_asset_id :: "string option"
  sn_account :: "string option"
  sn_broker :: "string option"
  sn_asset_type :: string
  sn_currency :: string
  sn_asset_name :: "string option"
  sn_quantity :: "string option"
  sn_avg_cost :: "string option"

record obs_row =
  ob_state :: string
  ob_snapshot :: "snapshot option"
  ob_observed_at :: "instant option"
  ob_reason :: "string option"
  ob_missing_since :: "instant option"
  ob_current :: "snapshot option"

record holding_change =
  ch_kind :: string
  ch_record_id :: string
  ch_before :: "snapshot option"
  ch_after :: "snapshot option"
  ch_previous_observed_at :: "instant option"
  ch_observed_at :: instant
  ch_after_gap :: bool
  ch_previous_record_id :: "string option"

definition supported_types :: "string list" where
  "supported_types = [''a_stock'', ''hk_stock'', ''us_stock'', ''exchange_fund'', ''otc_fund'',
     ''us_fund'', ''cn_fund'', ''hk_fund'', ''fund'']"

text \<open>The values of \<open>AssetType\<close> in \<open>models.py\<close>.\<close>

definition recognized_types :: "string list" where
  "recognized_types = supported_types @ [''cash'', ''mmf'', ''crypto'', ''bond'', ''other'']"

type_synonym identity = "string \<times> string \<times> string"

definition text_or :: "string option \<Rightarrow> string" where
  "text_or t = (case t of None \<Rightarrow> [] | Some s \<Rightarrow> s)"

definition identity :: "snapshot \<Rightarrow> identity" where
  "identity s = (text_or (sn_asset_id s), text_or (sn_account s), text_or (sn_broker s))"

definition identity_of :: "snapshot option \<Rightarrow> snapshot option \<Rightarrow> identity" where
  "identity_of a b = (case a of Some s \<Rightarrow> identity s
     | None \<Rightarrow> (case b of Some s \<Rightarrow> identity s | None \<Rightarrow> ([], [], [])))"

section \<open>Projection\<close>

record projection =
  pj_snapshot :: snapshot
  pj_eligible :: bool
  pj_excluded :: bool
  pj_reason :: "string option"

definition raw_snapshot :: "dict \<Rightarrow> snapshot" where
  "raw_snapshot raw =
     \<lparr>sn_asset_id = holding_text (dict_get ''asset_id'' raw), sn_account = holding_text (dict_get ''account'' raw),
      sn_broker = holding_text (dict_get ''broker'' raw),
      sn_asset_type = py_lower (text_or (holding_text (dict_get ''asset_type'' raw))),
      sn_currency = py_upper (text_or (holding_text (dict_get ''currency'' raw))),
      sn_asset_name = holding_text (dict_get ''asset_name'' raw),
      sn_quantity = map_option canonical_holding_number (holding_decimal (dict_get ''quantity'' raw)),
      sn_avg_cost = map_option canonical_holding_number (holding_decimal (dict_get ''avg_cost'' raw))\<rparr>"

definition identity_complete :: "snapshot \<Rightarrow> bool" where
  "identity_complete s \<longleftrightarrow> sn_asset_id s \<noteq> None \<and> sn_account s \<noteq> None \<and> sn_broker s \<noteq> None"

definition project_record :: "(string option \<Rightarrow> string) \<Rightarrow> string list \<Rightarrow> raw_holding \<Rightarrow> projection" where
  "project_record scope_of accounts record =
     (let s = raw_snapshot (rh_fields record);
          amount = holding_decimal (dict_get ''quantity'' (rh_fields record));
          scope = scope_of (sn_broker s); kind = sn_asset_type s;
          excluded = (case sn_account s of None \<Rightarrow> False | Some a \<Rightarrow> a \<notin> set accounts) \<or> scope = ''futu'' \<or>
            (kind \<in> set recognized_types \<and> kind \<notin> set supported_types);
          problem = (if excluded then None
            else if \<not> identity_complete s \<or> kind = [] \<or> sn_currency s = [] \<or> scope \<noteq> ''non_futu''
              then Some ''incomplete_identity''
            else if kind \<notin> set supported_types then Some ''invalid_asset_type''
            else if \<not> is_known_holding_currency (JStr (sn_currency s)) then Some ''invalid_currency''
            else (case amount of
                None \<Rightarrow> Some ''invalid_quantity''
              | Some d \<Rightarrow> if dec_less d dec_zero then Some ''invalid_quantity'' else None))
      in \<lparr>pj_snapshot = s, pj_eligible = (\<not> excluded \<and> problem = None), pj_excluded = excluded, pj_reason = problem\<rparr>)"

definition positive_quantity :: "snapshot option \<Rightarrow> bool" where
  "positive_quantity s \<longleftrightarrow> (case s of None \<Rightarrow> False | Some x \<Rightarrow>
     (case sn_quantity x of None \<Rightarrow> False | Some q \<Rightarrow>
       (case parse_decimal q of None \<Rightarrow> False | Some d \<Rightarrow> dec_less dec_zero d)))"

section \<open>Observation\<close>

type_synonym observation = "(string \<times> obs_row) list"

definition final_states :: "string list" where
  "final_states = [''deleted'', ''out_of_scope'']"

text \<open>What the loop over the absent rows does with one of them.\<close>

datatype absence = AbsentFinal | AbsentDeleted | AbsentCandidate

definition absence_of :: "instant \<Rightarrow> obs_row \<Rightarrow> absence" where
  "absence_of now old =
     (if ob_state old \<in> set final_states then AbsentFinal
      else case ob_missing_since old of
          Some first \<Rightarrow> if now - first \<ge> seconds 2 then AbsentDeleted else AbsentCandidate
        | None \<Rightarrow> AbsentCandidate)"

definition absent_row :: "instant \<Rightarrow> obs_row \<Rightarrow> obs_row" where
  "absent_row now old = (case absence_of now old of
      AbsentFinal \<Rightarrow> old
    | AbsentDeleted \<Rightarrow> old\<lparr>ob_state := ''deleted'', ob_missing_since := None, ob_reason := None\<rparr>
    | AbsentCandidate \<Rightarrow> old\<lparr>ob_state := ''missing_candidate'',
        ob_missing_since := Some (case ob_missing_since old of Some first \<Rightarrow> first | None \<Rightarrow> now),
        ob_reason := Some ''record_absent''\<rparr>)"

definition absent_rows :: "string list \<Rightarrow> observation \<Rightarrow> observation" where
  "absent_rows raw_ids previous = filter (\<lambda>(rid, old). rid \<notin> set raw_ids) previous"

definition deleted_ids :: "instant \<Rightarrow> string list \<Rightarrow> observation \<Rightarrow> string list" where
  "deleted_ids now raw_ids previous =
     map fst (filter (\<lambda>(rid, old). absence_of now old = AbsentDeleted) (absent_rows raw_ids previous))"

definition protected_identities :: "instant \<Rightarrow> string list \<Rightarrow> observation \<Rightarrow> identity list" where
  "protected_identities now raw_ids previous =
     map (\<lambda>(rid, old). identity_of (ob_snapshot old) (ob_current old))
       (filter (\<lambda>(rid, old). absence_of now old = AbsentCandidate) (absent_rows raw_ids previous))"

definition missing_with :: "string list \<Rightarrow> observation \<Rightarrow> identity \<Rightarrow> string list" where
  "missing_with raw_ids previous ident =
     map fst (filter (\<lambda>(rid, old). ob_state old \<notin> set final_states \<and>
       identity_of (ob_snapshot old) (ob_current old) = ident) (absent_rows raw_ids previous))"

definition duplicate_ids :: "(string \<Rightarrow> projection option) \<Rightarrow> observation \<Rightarrow> string list list \<Rightarrow> string list" where
  "duplicate_ids projected previous groups =
     concat (filter (\<lambda>ids. list_ex (\<lambda>rid.
       (case projected rid of Some p \<Rightarrow> pj_eligible p | None \<Rightarrow> False) \<or> rid \<in> set (map fst previous)) ids) groups)"

definition change_of ::
    "instant \<Rightarrow> string \<Rightarrow> string \<Rightarrow> snapshot option \<Rightarrow> snapshot option \<Rightarrow> obs_row option \<Rightarrow> holding_change" where
  "change_of now kind rid before after old =
     \<lparr>ch_kind = kind, ch_record_id = rid, ch_before = before, ch_after = after,
      ch_previous_observed_at = (case old of None \<Rightarrow> None | Some r \<Rightarrow> ob_observed_at r),
      ch_observed_at = now, ch_after_gap = (case old of None \<Rightarrow> False | Some r \<Rightarrow> ob_state r = ''gap''),
      ch_previous_record_id = None\<rparr>"

text \<open>What the loop over the present rows does with one of them.\<close>

record visit =
  vs_row :: "obs_row option"
  vs_change :: "holding_change option"
  vs_problem :: "string option"
  vs_covered :: bool
  vs_replaced :: "string option"

definition settled_row :: "string \<Rightarrow> instant \<Rightarrow> snapshot \<Rightarrow> obs_row" where
  "settled_row state now after = \<lparr>ob_state = state, ob_snapshot = Some after, ob_observed_at = Some now,
     ob_reason = None, ob_missing_since = None, ob_current = None\<rparr>"

definition visit_excluded :: "instant \<Rightarrow> string \<Rightarrow> obs_row option \<Rightarrow> snapshot \<Rightarrow> visit" where
  "visit_excluded now rid old after =
     (let before = (case old of None \<Rightarrow> None | Some r \<Rightarrow> ob_snapshot r);
          leaves = (before \<noteq> None \<and> (case old of None \<Rightarrow> True | Some r \<Rightarrow> ob_state r \<notin> set final_states))
      in \<lparr>vs_row = (if leaves then Some (settled_row ''out_of_scope'' now after) else old),
          vs_change = (if leaves then Some (change_of now ''out_of_scope'' rid before (Some after) old) else None),
          vs_problem = None, vs_covered = (before \<noteq> None \<and> identity_complete after), vs_replaced = None\<rparr>)"

definition visit_problem ::
    "string \<Rightarrow> bool \<Rightarrow> obs_row option \<Rightarrow> snapshot \<Rightarrow> visit" where
  "visit_problem problem guarded old after =
     \<lparr>vs_row = Some \<lparr>ob_state = ''gap'', ob_snapshot = (case old of None \<Rightarrow> None | Some r \<Rightarrow> ob_snapshot r),
        ob_observed_at = (case old of None \<Rightarrow> None | Some r \<Rightarrow> ob_observed_at r), ob_reason = Some problem,
        ob_missing_since = None, ob_current = Some after\<rparr>,
      vs_change = None, vs_problem = Some problem,
      vs_covered = (problem = ''duplicate_identity'' \<and> \<not> guarded), vs_replaced = None\<rparr>"

text \<open>The change a row that can be compared reports, if any.\<close>

definition compared_kind :: "bool \<Rightarrow> obs_row option \<Rightarrow> snapshot \<Rightarrow> string option" where
  "compared_kind initialize old after =
     (if initialize then None
      else case (case old of None \<Rightarrow> None | Some r \<Rightarrow> ob_snapshot r) of
          None \<Rightarrow> if positive_quantity (Some after) then Some ''first_observed'' else None
        | Some before \<Rightarrow>
            let state = (case old of None \<Rightarrow> [] | Some r \<Rightarrow> ob_state r) in
            if state = ''deleted'' then (if positive_quantity (Some after) then Some ''first_observed'' else None)
            else if state = ''out_of_scope'' then Some ''back_in_scope''
            else if identity before \<noteq> identity after then Some ''identity_changed''
            else if sn_asset_type before \<noteq> sn_asset_type after \<or> sn_currency before \<noteq> sn_currency after
              then Some ''measure_changed''
            else if sn_quantity before \<noteq> sn_quantity after
              then Some (if \<not> positive_quantity (Some after) then ''quantity_zero''
                else if \<not> positive_quantity (Some before) then ''quantity_restored'' else ''quantity_changed'')
            else None)"

definition visit_compared ::
    "instant \<Rightarrow> bool \<Rightarrow> string list \<Rightarrow> string list \<Rightarrow> observation \<Rightarrow> string \<Rightarrow> obs_row option \<Rightarrow> snapshot \<Rightarrow> visit" where
  "visit_compared now initialize deleted missing previous rid old after =
     (let before = (case old of None \<Rightarrow> None | Some r \<Rightarrow> ob_snapshot r);
          row = Some (settled_row ''active'' now after)
      in case (if before = None then missing else []) of
          [p] \<Rightarrow>
            if p \<in> set deleted
            then \<lparr>vs_row = row, vs_change = Some ((change_of now ''record_replaced'' rid
                    (case map_of previous p of None \<Rightarrow> None | Some r \<Rightarrow> ob_snapshot r) (Some after)
                    (map_of previous p))\<lparr>ch_previous_record_id := Some p\<rparr>),
                  vs_problem = None, vs_covered = True, vs_replaced = Some p\<rparr>
            else \<lparr>vs_row = row, vs_change = map_option (\<lambda>kind. change_of now kind rid
                    (if kind = ''first_observed'' then None else before) (Some after) old)
                    (compared_kind initialize old after),
                  vs_problem = None, vs_covered = True, vs_replaced = None\<rparr>
        | _ \<Rightarrow> \<lparr>vs_row = row, vs_change = map_option (\<lambda>kind. change_of now kind rid
                  (if kind = ''first_observed'' then None else before) (Some after) old)
                  (compared_kind initialize old after),
                vs_problem = None, vs_covered = True, vs_replaced = None\<rparr>)"

definition row_problem :: "string list \<Rightarrow> identity list \<Rightarrow> string \<Rightarrow> projection \<Rightarrow> string option" where
  "row_problem duplicates protected rid item =
     (let problem = (if rid \<in> set duplicates then Some ''duplicate_identity'' else pj_reason item)
      in if problem = None \<and> identity (pj_snapshot item) \<in> set protected
         then Some ''missing_group_member'' else problem)"

definition visit_record ::
    "instant \<Rightarrow> bool \<Rightarrow> string list \<Rightarrow> string list \<Rightarrow> observation \<Rightarrow> string list \<Rightarrow> string \<Rightarrow> projection \<Rightarrow> visit" where
  "visit_record now initialize raw_ids duplicates previous deleted rid item =
     (let old = map_of previous rid; after = pj_snapshot item;
          protected = protected_identities now raw_ids previous
      in if pj_excluded item then visit_excluded now rid old after
         else case row_problem duplicates protected rid item of
             Some problem \<Rightarrow> visit_problem problem (identity after \<in> set protected) old after
           | None \<Rightarrow> visit_compared now initialize deleted (missing_with raw_ids previous (identity after))
               previous rid old after)"

record observe_plan =
  pl_rows :: observation
  pl_changes :: "holding_change list"
  pl_problems :: "(string \<times> string) list"
  pl_covered :: "string list"
  pl_deleted :: "string list"
  pl_has_missing :: bool

definition deletion_change :: "instant \<Rightarrow> observation \<Rightarrow> string \<Rightarrow> holding_change list" where
  "deletion_change now previous rid = (case map_of previous rid of
      None \<Rightarrow> []
    | Some old \<Rightarrow> (case ob_snapshot old of
        None \<Rightarrow> []
      | Some s \<Rightarrow> [change_of now ''record_deleted'' rid (Some s) None (Some old)]))"

definition collect :: "('a \<Rightarrow> 'b option) \<Rightarrow> 'a list \<Rightarrow> 'b list" where
  "collect f xs = concat (map (\<lambda>x. case f x of None \<Rightarrow> [] | Some y \<Rightarrow> [y]) xs)"

text \<open>
  A row of the group of a first absence settles no duplicate case. The set of deleted rows is
  walked in the order of the previous observation; Python leaves that order open.
\<close>

definition still_covered :: "identity list \<Rightarrow> observation \<Rightarrow> string \<Rightarrow> bool" where
  "still_covered protected rows rid \<longleftrightarrow> (case map_of rows rid of
      None \<Rightarrow> ([], [], []) \<notin> set protected
    | Some r \<Rightarrow> identity_of (ob_snapshot r) (ob_current r) \<notin> set protected)"

definition observe ::
    "(string option \<Rightarrow> string) \<Rightarrow> raw_holding list \<Rightarrow> observation \<Rightarrow> string list \<Rightarrow> instant \<Rightarrow>
     string list list \<Rightarrow> bool \<Rightarrow> py_exn + observe_plan" where
  "observe scope_of records previous accounts now groups initialize =
     (let raw_ids = map rh_record_id records;
          items = map (\<lambda>r. (rh_record_id r, project_record scope_of accounts r)) records;
          duplicates = duplicate_ids (map_of items) previous groups;
          deleted = deleted_ids now raw_ids previous;
          protected = protected_identities now raw_ids previous;
          visits = map (\<lambda>(rid, item). (rid, visit_record now initialize raw_ids duplicates previous deleted rid item)) items;
          replaced = collect (\<lambda>(rid, v). vs_replaced v) visits;
          rows = map (\<lambda>(rid, old). (rid, absent_row now old)) (absent_rows raw_ids previous) @
            collect (\<lambda>(rid, v). map_option (\<lambda>r. (rid, r)) (vs_row v)) visits;
          covered = deleted @ collect (\<lambda>(rid, v). if vs_covered v then Some rid else None) visits
      in if \<not> distinct raw_ids \<or> [] \<in> set raw_ids
         then Inl (ValueError ''holdings observation has duplicate or missing record_id'')
         else Inr \<lparr>pl_rows = rows,
           pl_changes = collect (\<lambda>(rid, v). vs_change v) visits @
             concat (map (deletion_change now previous) (filter (\<lambda>rid. rid \<notin> set replaced) deleted)),
           pl_problems = collect (\<lambda>(rid, v). map_option (\<lambda>p. (rid, p)) (vs_problem v)) visits,
           pl_covered = sort (filter (still_covered protected rows) covered),
           pl_deleted = sort deleted,
           pl_has_missing = list_ex (\<lambda>(rid, r). ob_state r = ''missing_candidate'') rows\<rparr>)"

section \<open>Lemmas\<close>

lemma in_collect: "y \<in> set (collect f xs) \<longleftrightarrow> (\<exists>x \<in> set xs. f x = Some y)"
  by (auto simp: collect_def split: option.splits) metis

lemma collect_none: "(\<And>x. x \<in> set xs \<Longrightarrow> f x = None) \<Longrightarrow> collect f xs = []"
  by (simp add: collect_def)

lemma map_of_collect:
  assumes "distinct (map fst xs)" and "(k, v) \<in> set xs"
  shows "map_of (collect (\<lambda>(k, v). map_option (\<lambda>r. (k, r)) (g v)) xs) k = g v"
  using assms
proof (induction xs)
  case (Cons kv xs)
  obtain k' v' where kv: "kv = (k', v')" by (cases kv)
  define rest where "rest = collect (\<lambda>(k, v). map_option (\<lambda>r. (k, r)) (g v)) xs"
  have step: "collect (\<lambda>(k, v). map_option (\<lambda>r. (k, r)) (g v)) (kv # xs) =
      (case g v' of None \<Rightarrow> [] | Some r \<Rightarrow> [(k', r)]) @ rest"
    by (simp add: collect_def kv rest_def split: option.splits)
  show ?case
  proof (cases "k' = k")
    case True
    then have "v' = v" "k \<notin> fst ` set xs" using Cons.prems kv by (force, auto)
    moreover from this have "map_of rest k = None"
      unfolding rest_def by (force simp: map_of_eq_None_iff in_collect)
    ultimately show ?thesis by (simp add: step True split: option.splits)
  next
    case False
    with Cons.prems kv have "map_of rest k = g v" unfolding rest_def by (intro Cons.IH) auto
    with False show ?thesis by (auto simp: step split: option.splits)
  qed
qed simp

lemma map_of_collect_None:
  "k \<notin> fst ` set xs \<Longrightarrow> map_of (collect (\<lambda>(k, v). map_option (\<lambda>r. (k, r)) (g v)) xs) k = None"
  by (force simp: map_of_eq_None_iff in_collect)

lemma map_of_filter_key: "map_of (filter (\<lambda>(k, v). p k) xs) k = (if p k then map_of xs k else None)"
  by (induction xs) auto

lemma map_of_map_value: "map_of (map (\<lambda>(k, v). (k, f v)) xs) k = map_option f (map_of xs k)"
  by (induction xs) auto

text \<open>The parts of a successful observation.\<close>

definition items_of :: "(string option \<Rightarrow> string) \<Rightarrow> string list \<Rightarrow> raw_holding list \<Rightarrow> (string \<times> projection) list" where
  "items_of scope_of accounts records = map (\<lambda>r. (rh_record_id r, project_record scope_of accounts r)) records"

definition visit_at ::
    "(string option \<Rightarrow> string) \<Rightarrow> raw_holding list \<Rightarrow> observation \<Rightarrow> string list \<Rightarrow> instant \<Rightarrow>
     string list list \<Rightarrow> bool \<Rightarrow> string \<Rightarrow> projection \<Rightarrow> visit" where
  "visit_at scope_of records previous accounts now groups initialize rid item =
     visit_record now initialize (map rh_record_id records)
       (duplicate_ids (map_of (items_of scope_of accounts records)) previous groups) previous
       (deleted_ids now (map rh_record_id records) previous) rid item"

definition visits_of ::
    "(string option \<Rightarrow> string) \<Rightarrow> raw_holding list \<Rightarrow> observation \<Rightarrow> string list \<Rightarrow> instant \<Rightarrow>
     string list list \<Rightarrow> bool \<Rightarrow> (string \<times> visit) list" where
  "visits_of scope_of records previous accounts now groups initialize =
     map (\<lambda>(rid, item). (rid, visit_at scope_of records previous accounts now groups initialize rid item))
       (items_of scope_of accounts records)"

lemma observe_parts:
  assumes "observe scope_of records previous accounts now groups initialize = Inr plan"
    and "V = visits_of scope_of records previous accounts now groups initialize"
    and "D = deleted_ids now (map rh_record_id records) previous"
  shows "distinct (map rh_record_id records)" "map fst V = map rh_record_id records"
    "pl_rows plan = map (\<lambda>(rid, old). (rid, absent_row now old)) (absent_rows (map rh_record_id records) previous) @
       collect (\<lambda>(rid, v). map_option (\<lambda>r. (rid, r)) (vs_row v)) V"
    "pl_changes plan = collect (\<lambda>(rid, v). vs_change v) V @
       concat (map (deletion_change now previous) (filter (\<lambda>rid. rid \<notin> set (collect (\<lambda>(rid, v). vs_replaced v) V)) D))"
    "pl_deleted plan = sort D"
    "pl_covered plan = sort (filter (still_covered (protected_identities now (map rh_record_id records) previous) (pl_rows plan))
       (D @ collect (\<lambda>(rid, v). if vs_covered v then Some rid else None) V))"
    "pl_has_missing plan = list_ex (\<lambda>(rid, r). ob_state r = ''missing_candidate'') (pl_rows plan)"
  using assms(1)
  by (auto simp: observe_def Let_def assms(2,3) visits_of_def visit_at_def items_of_def comp_def split: if_splits)

lemma rows_absent:
  assumes "observe scope_of records previous accounts now groups initialize = Inr plan"
    and "rid \<notin> rh_record_id ` set records"
  shows "map_of (pl_rows plan) rid = map_option (absent_row now) (map_of previous rid)"
proof -
  define V where "V = visits_of scope_of records previous accounts now groups initialize"
  note parts = observe_parts [OF assms(1) V_def refl]
  have "rid \<notin> fst ` set V" using parts(2) assms(2) by (metis image_set)
  then have "map_of (collect (\<lambda>(rid, v). map_option (\<lambda>r. (rid, r)) (vs_row v)) V) rid = None"
    by (rule map_of_collect_None)
  moreover have "map_of (absent_rows (map rh_record_id records) previous) rid = map_of previous rid"
    using assms(2) by (simp add: absent_rows_def map_of_filter_key)
  ultimately show ?thesis
    by (auto simp: parts(3) map_add_def map_of_map_value split: option.splits)
qed

lemma rows_present:
  assumes "observe scope_of records previous accounts now groups initialize = Inr plan"
    and "record \<in> set records" and "rid = rh_record_id record"
  shows "map_of (pl_rows plan) rid = vs_row (visit_at scope_of records previous accounts now groups initialize rid
      (project_record scope_of accounts record))"
proof -
  define V where "V = visits_of scope_of records previous accounts now groups initialize"
  note parts = observe_parts [OF assms(1) V_def refl]
  have "(rid, visit_at scope_of records previous accounts now groups initialize rid
      (project_record scope_of accounts record)) \<in> set V"
    using assms(2,3) by (force simp: V_def visits_of_def items_of_def)
  moreover have "distinct (map fst V)" using parts(1,2) by simp
  ultimately have "map_of (collect (\<lambda>(rid, v). map_option (\<lambda>r. (rid, r)) (vs_row v)) V) rid =
      vs_row (visit_at scope_of records previous accounts now groups initialize rid (project_record scope_of accounts record))"
    by (intro map_of_collect)
  moreover have "map_of (absent_rows (map rh_record_id records) previous) rid = None"
    using assms(2,3) by (simp add: absent_rows_def map_of_filter_key)
  ultimately show ?thesis by (auto simp: parts(3) map_add_def map_of_map_value split: option.splits)
qed

lemma absence_deleted:
  "absence_of now old = AbsentDeleted \<longleftrightarrow>
     ob_state old \<notin> set final_states \<and> (\<exists>t. ob_missing_since old = Some t \<and> seconds 2 \<le> now - t)"
  by (auto simp: absence_of_def split: option.splits)

lemma absence_final: "absence_of now old = AbsentFinal \<longleftrightarrow> ob_state old \<in> set final_states"
  by (auto simp: absence_of_def split: option.splits)

lemma in_deleted_ids:
  assumes "distinct (map fst previous)"
  shows "rid \<in> set (deleted_ids now raw_ids previous) \<longleftrightarrow>
    rid \<notin> set raw_ids \<and> (\<exists>old. map_of previous rid = Some old \<and> absence_of now old = AbsentDeleted)"
  using assms by (force simp: deleted_ids_def absent_rows_def)

text \<open>A change of a present row is a replacement of a deleted row, or one of the other kinds.\<close>

definition present_kinds :: "string list" where
  "present_kinds = [''out_of_scope'', ''first_observed'', ''back_in_scope'', ''identity_changed'',
     ''measure_changed'', ''quantity_zero'', ''quantity_restored'', ''quantity_changed'']"

lemma compared_kind_kinds: "compared_kind initialize old after = Some kind \<Longrightarrow> kind \<in> set present_kinds"
  by (auto simp: compared_kind_def present_kinds_def Let_def split: option.splits if_splits)

lemma change_of_kind [simp]: "ch_kind (change_of now kind rid b a old) = kind" "ch_record_id (change_of now kind rid b a old) = rid"
  by (simp_all add: change_of_def)

lemma visit_compared_change:
  assumes "vs_change (visit_compared now initialize deleted missing previous rid old after) = Some c"
  shows "ch_record_id c = rid \<and> (ch_kind c \<in> set present_kinds \<or>
    (ch_kind c = ''record_replaced'' \<and> (\<exists>p \<in> set deleted. ch_previous_record_id c = Some p)))"
  using assms compared_kind_kinds
  by (auto simp: visit_compared_def Let_def split: list.splits if_splits)

lemma visit_change:
  assumes "vs_change (visit_record now initialize raw_ids duplicates previous deleted rid item) = Some c"
  shows "ch_record_id c = rid \<and> (ch_kind c \<in> set present_kinds \<or>
    (ch_kind c = ''record_replaced'' \<and> (\<exists>p \<in> set deleted. ch_previous_record_id c = Some p)))"
proof -
  consider "pj_excluded item" | p where "\<not> pj_excluded item"
      "row_problem duplicates (protected_identities now raw_ids previous) rid item = Some p"
    | "\<not> pj_excluded item" "row_problem duplicates (protected_identities now raw_ids previous) rid item = None"
    by fastforce
  then show ?thesis
  proof cases
    case 1
    with assms show ?thesis
      by (auto simp: visit_record_def Let_def visit_excluded_def present_kinds_def split: if_splits)
  next
    case 2
    with assms show ?thesis by (simp add: visit_record_def Let_def visit_problem_def)
  next
    case 3
    with assms show ?thesis by (auto simp: visit_record_def Let_def dest!: visit_compared_change)
  qed
qed

section \<open>Properties\<close>

text \<open>
  C33. A missing row is not a deleted row. A row is proven deleted exactly when the reading lacks it
  and an earlier reading, at least two seconds before, lacked it too and made it a candidate; a
  deletion, or a replacement by a new row, is reported for proven rows only. A row that is missing
  for the first time becomes a candidate, keeps its last known content, and neither it nor any row
  of its business identity counts as covered.
\<close>
theorem deletion_needs_two_readings:
  assumes "observe scope_of records previous accounts now groups initialize = Inr plan"
    and "distinct (map fst previous)"
  shows "(\<forall>rid. rid \<in> set (pl_deleted plan) \<longleftrightarrow> rid \<notin> rh_record_id ` set records \<and>
      (\<exists>old t. map_of previous rid = Some old \<and> ob_state old \<notin> set final_states \<and>
        ob_missing_since old = Some t \<and> seconds 2 \<le> now - t)) \<and>
    (\<forall>c \<in> set (pl_changes plan).
      (ch_kind c = ''record_deleted'' \<longrightarrow> ch_record_id c \<in> set (pl_deleted plan)) \<and>
      (ch_kind c = ''record_replaced'' \<longrightarrow> (\<exists>p \<in> set (pl_deleted plan). ch_previous_record_id c = Some p))) \<and>
    (\<forall>rid old. map_of previous rid = Some old \<and> rid \<notin> rh_record_id ` set records \<and>
      ob_state old \<notin> set final_states \<and> rid \<notin> set (pl_deleted plan) \<longrightarrow>
      (\<exists>r. map_of (pl_rows plan) rid = Some r \<and> ob_state r = ''missing_candidate'' \<and>
        ob_snapshot r = ob_snapshot old \<and>
        ob_missing_since r = Some (case ob_missing_since old of Some t \<Rightarrow> t | None \<Rightarrow> now)) \<and>
      (\<forall>k q. k \<in> set (pl_covered plan) \<and> map_of (pl_rows plan) k = Some q \<longrightarrow>
        identity_of (ob_snapshot q) (ob_current q) \<noteq> identity_of (ob_snapshot old) (ob_current old)))"
proof -
  define V where "V = visits_of scope_of records previous accounts now groups initialize"
  define D where "D = deleted_ids now (map rh_record_id records) previous"
  define P where "P = protected_identities now (map rh_record_id records) previous"
  note parts = observe_parts [OF assms(1) V_def D_def]
  have del: "rid \<in> set (pl_deleted plan) \<longleftrightarrow> rid \<notin> rh_record_id ` set records \<and>
      (\<exists>old. map_of previous rid = Some old \<and> absence_of now old = AbsentDeleted)" for rid
    using in_deleted_ids [OF assms(2)] by (simp add: parts(5) D_def)
  have changes: "(ch_kind c = ''record_deleted'' \<longrightarrow> ch_record_id c \<in> set (pl_deleted plan)) \<and>
      (ch_kind c = ''record_replaced'' \<longrightarrow> (\<exists>p \<in> set (pl_deleted plan). ch_previous_record_id c = Some p))"
    if "c \<in> set (pl_changes plan)" for c
  proof -
    from that [unfolded parts(4)] consider rid v where "(rid, v) \<in> set V" "vs_change v = Some c"
      | rid where "rid \<in> set D" "c \<in> set (deletion_change now previous rid)"
      by (auto simp: in_collect)
    then show ?thesis
    proof cases
      case 1
      then obtain item where "v = visit_at scope_of records previous accounts now groups initialize rid item"
        by (auto simp: V_def visits_of_def)
      with 1(2) visit_change have "ch_kind c \<in> set present_kinds \<or>
          (ch_kind c = ''record_replaced'' \<and> (\<exists>p \<in> set D. ch_previous_record_id c = Some p))"
        by (fastforce simp: visit_at_def D_def)
      then show ?thesis by (auto simp: present_kinds_def parts(5))
    next
      case 2
      then show ?thesis by (auto simp: deletion_change_def parts(5) split: option.splits)
    qed
  qed
  have candidate: "(\<exists>r. map_of (pl_rows plan) rid = Some r \<and> ob_state r = ''missing_candidate'' \<and>
        ob_snapshot r = ob_snapshot old \<and>
        ob_missing_since r = Some (case ob_missing_since old of Some t \<Rightarrow> t | None \<Rightarrow> now)) \<and>
      (\<forall>k q. k \<in> set (pl_covered plan) \<and> map_of (pl_rows plan) k = Some q \<longrightarrow>
        identity_of (ob_snapshot q) (ob_current q) \<noteq> identity_of (ob_snapshot old) (ob_current old))"
    if m: "map_of previous rid = Some old" "rid \<notin> rh_record_id ` set records"
      "ob_state old \<notin> set final_states" "rid \<notin> set (pl_deleted plan)" for rid old
  proof -
    have a: "absence_of now old = AbsentCandidate"
      using m del absence_final by (cases "absence_of now old") auto
    have "map_of (pl_rows plan) rid = Some (absent_row now old)"
      using rows_absent [OF assms(1) m(2)] m(1) by simp
    then have row: "\<exists>r. map_of (pl_rows plan) rid = Some r \<and> ob_state r = ''missing_candidate'' \<and>
        ob_snapshot r = ob_snapshot old \<and>
        ob_missing_since r = Some (case ob_missing_since old of Some t \<Rightarrow> t | None \<Rightarrow> now)"
      by (simp add: absent_row_def a)
    have "identity_of (ob_snapshot old) (ob_current old) \<in> set P"
      using m(1,2) a by (force simp: P_def protected_identities_def absent_rows_def dest: map_of_SomeD)
    then have "identity_of (ob_snapshot q) (ob_current q) \<noteq> identity_of (ob_snapshot old) (ob_current old)"
      if "k \<in> set (pl_covered plan)" "map_of (pl_rows plan) k = Some q" for k q
      using that by (auto simp: parts(6) still_covered_def simp flip: P_def)
    with row show ?thesis by blast
  qed
  show ?thesis
  proof (intro conjI allI ballI)
    show "rid \<in> set (pl_deleted plan) \<longleftrightarrow> rid \<notin> rh_record_id ` set records \<and>
      (\<exists>old t. map_of previous rid = Some old \<and> ob_state old \<notin> set final_states \<and>
        ob_missing_since old = Some t \<and> seconds 2 \<le> now - t)" for rid
      unfolding del absence_deleted by blast
  qed (use changes candidate in blast)+
qed

definition demo_scope :: "string option \<Rightarrow> string" where
  "demo_scope b = ''non_futu''"

text \<open>A row that a reading at time 100 lacked.\<close>

definition demo_candidate :: observation where
  "demo_candidate = [(''r2'', \<lparr>ob_state = ''missing_candidate'', ob_snapshot = Some (raw_snapshot []),
     ob_observed_at = Some 90, ob_reason = Some ''record_absent'', ob_missing_since = Some 100, ob_current = None\<rparr>)]"

definition demo_second :: observe_plan where
  "demo_second = projr (observe demo_scope [] demo_candidate [''a''] (100 + seconds 2) [] False)"

lemma demo_second_eq:
  "observe demo_scope [] demo_candidate [''a''] (100 + seconds 2) [] False = Inr demo_second"
  by code_simp

lemma deletion_needs_two_readings_witness:
  "map ch_kind (pl_changes demo_second) = [''record_deleted''] \<and>
   ''r2'' \<in> set (pl_deleted demo_second) \<and>
   pl_deleted (projr (observe demo_scope [] demo_candidate [''a''] (99 + seconds 2) [] False)) = []"
proof (intro conjI)
  have d: "distinct (map fst demo_candidate)" by code_simp
  have e: "''r2'' \<notin> rh_record_id ` set []" by code_simp
  have old: "map_of demo_candidate ''r2'' = Some (the (map_of demo_candidate ''r2'')) \<and>
      ob_state (the (map_of demo_candidate ''r2'')) \<notin> set final_states \<and>
      ob_missing_since (the (map_of demo_candidate ''r2'')) = Some 100 \<and> seconds 2 \<le> (100 + seconds 2) - 100"
    by code_simp
  show "''r2'' \<in> set (pl_deleted demo_second)"
    by (rule deletion_needs_two_readings [OF demo_second_eq d, THEN conjunct1, THEN spec, THEN iffD2,
          OF conjI, OF e exI, OF exI, OF old])
  show "map ch_kind (pl_changes demo_second) = [''record_deleted'']"
    "pl_deleted (projr (observe demo_scope [] demo_candidate [''a''] (99 + seconds 2) [] False)) = []"
    by code_simp+
qed

end
