(* ===== verification/Receipt_Dispatch.thy ===== *)
theory Receipt_Dispatch
  imports Op_Receipts Nav_Receipts
begin

text \<open>
  The two services that deliver what the outboxes hold:
  \<open>app/operation_receipt_outbox_service.py\<close> and \<open>app/nav_receipt_outbox_service.py\<close>. They compose
  the store operations of \<open>Op_Receipts\<close> and \<open>Nav_Receipts\<close> with the remote senders, which are
  parameters: a sender sees a payload and the outside world \<open>'w\<close> and gives the delivery, or the
  message of the exception it raised. The clock is a function of the number of store calls made.
\<close>

type_synonym 'w sender = "dict \<Rightarrow> 'w \<Rightarrow> (string + dict) \<times> 'w"

text \<open>
  A value bound to a TEXT column: SQLite stores numbers as their text and refuses lists and objects.
\<close>

definition text_column :: "json option \<Rightarrow> py_exn + string option" where
  "text_column v = (case v of
      None \<Rightarrow> Inr None
    | Some JNull \<Rightarrow> Inr None
    | Some (JBool b) \<Rightarrow> Inr (Some (if b then ''1'' else ''0''))
    | Some (JArr xs) \<Rightarrow> Inl (RuntimeError ''Error binding parameter'')
    | Some (JObj d) \<Rightarrow> Inl (RuntimeError ''Error binding parameter'')
    | Some j \<Rightarrow> Inr (Some (py_str j)))"

section \<open>Operation receipts\<close>

definition delivery_failed :: "string \<Rightarrow> string \<Rightarrow> dict" where
  "delivery_failed state err = [(''success'', JBool False), (''delivery_state'', JStr state),
     (''status'', JStr state), (''error'', JStr err)]"

text \<open>The payloads of receipts are objects; \<open>dict(..)\<close> of anything else raises.\<close>

definition deliver :: "(string \<Rightarrow> 'w sender option) \<Rightarrow> op_receipt \<Rightarrow> 'w \<Rightarrow> dict \<times> 'w" where
  "deliver renderers row w = (case renderers (rc_receipt_type row) of
      None \<Rightarrow> (delivery_failed ''failed'' (''no renderer for '' @ rc_receipt_type row), w)
    | Some render \<Rightarrow> (case rc_payload_json row of
          JObj payload \<Rightarrow> (case render payload w of
              (Inl err, w1) \<Rightarrow> (delivery_failed ''unknown'' err, w1)
            | (Inr delivery, w1) \<Rightarrow> (delivery, w1))
        | _ \<Rightarrow> (delivery_failed ''unknown'' ''payload is not an object'', w)))"

definition delivery_outcome :: "dict \<Rightarrow> string" where
  "delivery_outcome delivery =
     (let state = py_lower (text_or_empty (dict_get ''delivery_state'' delivery))
      in if \<not> falsy (dict_get ''success'' delivery) \<and> state = ''accepted'' then ''sent''
         else if state = ''failed'' then ''failed'' else ''unknown'')"

definition delivery_columns :: "dict \<Rightarrow> py_exn + string option \<times> string option" where
  "delivery_columns delivery = bind_result (text_column (dict_get ''message_id'' delivery))
     (\<lambda>mid. bind_result (text_column (dict_get ''error'' delivery)) (\<lambda>err. Inr (mid, err)))"

text \<open>The row of the send is looked up before the columns are bound.\<close>

definition mark_delivery ::
    "instant \<Rightarrow> string \<Rightarrow> string \<Rightarrow> string \<Rightarrow> dict \<Rightarrow> op_store \<Rightarrow> (py_exn + unit) \<times> op_store" where
  "mark_delivery now k claim outcome delivery s = (case delivery_columns delivery of
      Inr (mid, err) \<Rightarrow> mark_operation_receipt now k claim outcome mid err s
    | Inl e \<Rightarrow> (case mark_operation_receipt now k claim outcome None None s of
          (Inl e1, _) \<Rightarrow> (Inl e1, s)
        | (Inr _, _) \<Rightarrow> (Inl e, s)))"

definition dispatch_result :: "op_receipt \<Rightarrow> dict \<Rightarrow> dict" where
  "dispatch_result row delivery = dict_merge delivery
     [(''status'', JStr (delivery_outcome delivery)), (''receipt_key'', JStr (rc_receipt_key row)),
      (''receipt_type'', JStr (rc_receipt_type row))]"

text \<open>\<open>OperationReceiptDispatchStateUnknown\<close>.\<close>

definition state_unknown :: "string \<Rightarrow> string \<Rightarrow> py_exn \<Rightarrow> py_exn" where
  "state_unknown what k cause = RuntimeError
     (what @ '' receipt delivery state is unknown after send attempt: '' @ k @ '': '' @ exn_text cause)"

fun dispatch_rows ::
    "(string \<Rightarrow> 'w sender option) \<Rightarrow> (nat \<Rightarrow> instant) \<Rightarrow> string \<Rightarrow> nat \<Rightarrow> op_receipt list \<Rightarrow> op_store \<Rightarrow> 'w \<Rightarrow>
     (py_exn + (string \<times> dict) list) \<times> op_store \<times> 'w" where
  "dispatch_rows renderers clk claim n [] s w = (Inr [], s, w)"
| "dispatch_rows renderers clk claim n (row # rows) s w =
     (case start_operation_receipt_send (clk n) (rc_receipt_key row) claim s of
        (Inl e, s1) \<Rightarrow> (Inl e, s1, w)
      | (Inr _, s1) \<Rightarrow>
          (let (delivery, w1) = deliver renderers row w; outcome = delivery_outcome delivery
           in case mark_delivery (clk (Suc n)) (rc_receipt_key row) claim outcome delivery s1 of
               (Inl e, s2) \<Rightarrow> (Inl (state_unknown ''operation'' (rc_receipt_key row) e), s2, w1)
             | (Inr _, s2) \<Rightarrow> (case dispatch_rows renderers clk claim (n + 2) rows s2 w1 of
                   (Inl e, s3, w3) \<Rightarrow> (Inl e, s3, w3)
                 | (Inr rest, s3, w3) \<Rightarrow> (Inr ((outcome, dispatch_result row delivery) # rest), s3, w3))))"

record dispatch_report =
  dp_success :: bool
  dp_attempted :: nat
  dp_sent :: nat
  dp_failed :: nat
  dp_unknown :: nat
  dp_results :: "dict list"

definition report_of :: "nat \<Rightarrow> (string \<times> dict) list \<Rightarrow> dispatch_report" where
  "report_of attempted results = (let counted = (\<lambda>st. length (filter (\<lambda>r. fst r = st) results)) in
     \<lparr>dp_success = (counted ''failed'' = 0 \<and> counted ''unknown'' = 0), dp_attempted = attempted,
      dp_sent = counted ''sent'', dp_failed = counted ''failed'', dp_unknown = counted ''unknown'',
      dp_results = map snd results\<rparr>)"

definition dispatch_pending ::
    "(string \<Rightarrow> 'w sender option) \<Rightarrow> (nat \<Rightarrow> instant) \<Rightarrow> string \<Rightarrow> int \<Rightarrow> string option \<Rightarrow> op_store \<Rightarrow> 'w \<Rightarrow>
     (py_exn + dispatch_report) \<times> op_store \<times> 'w" where
  "dispatch_pending renderers clk claim limit receipt_key s w =
     (let (rows, s1) = claim_due_operation_receipts (clk 0) claim limit receipt_key (Some claim) s
      in case dispatch_rows renderers clk claim 1 rows s1 w of
          (Inl e, s2, w2) \<Rightarrow> (Inl e, s2, w2)
        | (Inr results, s2, w2) \<Rightarrow> (Inr (report_of (length rows) results), s2, w2))"

record resolution =
  rv_receipt_key :: string
  rv_decision :: string
  rv_receipt :: "op_receipt option"

definition resolve_unknown ::
    "instant \<Rightarrow> string \<Rightarrow> string \<Rightarrow> dict \<Rightarrow> op_store \<Rightarrow> (py_exn + resolution) \<times> op_store" where
  "resolve_unknown now receipt_key decision operator_context s =
     (case resolve_operation_receipt now receipt_key decision operator_context s of
        (Inl e, s1) \<Rightarrow> (Inl e, s1)
      | (Inr _, s1) \<Rightarrow> (Inr \<lparr>rv_receipt_key = receipt_key, rv_decision = decision,
          rv_receipt = get_operation_receipt receipt_key s1\<rparr>, s1))"

section \<open>NAV receipts\<close>

definition deliver_nav :: "'w sender \<Rightarrow> json \<Rightarrow> 'w \<Rightarrow> dict \<times> 'w" where
  "deliver_nav send payload w =
     (let failed = (\<lambda>err. [(''success'', JBool False), (''status'', JStr ''failed''), (''error'', JStr err)])
      in case payload of
          JObj d \<Rightarrow> (case send d w of (Inl err, w1) \<Rightarrow> (failed err, w1) | (Inr delivery, w1) \<Rightarrow> (delivery, w1))
        | _ \<Rightarrow> (failed ''payload is not an object'', w))"

definition mark_nav_delivery ::
    "instant \<Rightarrow> string \<Rightarrow> string \<Rightarrow> dict \<Rightarrow> op_store \<Rightarrow> (py_exn + unit) \<times> op_store" where
  "mark_nav_delivery now k claim delivery s =
     (let success = \<not> falsy (dict_get ''success'' delivery)
      in case delivery_columns delivery of
          Inr (mid, err) \<Rightarrow> mark_nav_receipt now k claim success mid err s
        | Inl e \<Rightarrow> (case mark_nav_receipt now k claim success None None s of
              (Inl e1, _) \<Rightarrow> (Inl e1, s)
            | (Inr _, _) \<Rightarrow> (Inl e, s)))"

definition nav_result :: "nav_receipt \<Rightarrow> dict \<Rightarrow> dict" where
  "nav_result row delivery =
     (let result = dict_set ''receipt_key'' (JStr (nr_receipt_key row)) delivery
      in if falsy (dict_get ''success'' delivery)
         then dict_set ''queued'' (JBool True) (dict_set ''status'' (JStr ''queued'') result)
         else result)"

fun nav_dispatch_rows ::
    "'w sender \<Rightarrow> (nat \<Rightarrow> instant) \<Rightarrow> string \<Rightarrow> nat \<Rightarrow> nav_receipt list \<Rightarrow> op_store \<Rightarrow> 'w \<Rightarrow>
     (py_exn + (bool \<times> dict) list) \<times> op_store \<times> 'w" where
  "nav_dispatch_rows send clk claim n [] s w = (Inr [], s, w)"
| "nav_dispatch_rows send clk claim n (row # rows) s w =
     (let (delivery, w1) = deliver_nav send (nr_payload_json row) w
      in case mark_nav_delivery (clk n) (nr_receipt_key row) claim delivery s of
          (Inl e, s2) \<Rightarrow> (Inl (state_unknown ''NAV'' (nr_receipt_key row) e), s2, w1)
        | (Inr _, s2) \<Rightarrow> (case nav_dispatch_rows send clk claim (Suc n) rows s2 w1 of
              (Inl e, s3, w3) \<Rightarrow> (Inl e, s3, w3)
            | (Inr rest, s3, w3) \<Rightarrow>
                (Inr ((\<not> falsy (dict_get ''success'' delivery), nav_result row delivery) # rest), s3, w3)))"

record nav_report =
  np_success :: bool
  np_attempted :: nat
  np_sent :: nat
  np_failed :: nat
  np_results :: "dict list"

definition nav_report_of :: "nat \<Rightarrow> (bool \<times> dict) list \<Rightarrow> nav_report" where
  "nav_report_of attempted results =
     \<lparr>np_success = (filter (\<lambda>r. \<not> fst r) results = []), np_attempted = attempted,
      np_sent = length (filter fst results), np_failed = length (filter (\<lambda>r. \<not> fst r) results),
      np_results = map snd results\<rparr>"

definition nav_dispatch_pending ::
    "'w sender \<Rightarrow> (nat \<Rightarrow> instant) \<Rightarrow> string \<Rightarrow> int \<Rightarrow> string option \<Rightarrow> op_store \<Rightarrow> 'w \<Rightarrow>
     (py_exn + nav_report) \<times> op_store \<times> 'w" where
  "nav_dispatch_pending send clk claim limit receipt_key s w =
     (let (rows, s1) = claim_due_nav_receipts (clk 0) claim limit receipt_key (Some claim) s
      in case nav_dispatch_rows send clk claim 1 rows s1 w of
          (Inl e, s2, w2) \<Rightarrow> (Inl e, s2, w2)
        | (Inr results, s2, w2) \<Rightarrow> (Inr (nav_report_of (length rows) results), s2, w2))"

text \<open>The name of the bot, three Chinese characters, by its UTF-8 bytes.\<close>

definition bot_name :: string where
  "bot_name = map char_of [0xE5, 0x88, 0x98, 0xE7, 0x9C, 0x8B, 0xE5, 0xB1, 0xB1 :: nat]"

definition nav_row_result :: "string \<Rightarrow> nav_receipt option \<Rightarrow> dict" where
  "nav_row_result k row = (case row of
      Some r \<Rightarrow> if nr_status r = NavSent
        then [(''success'', JBool True), (''status'', JStr ''sent''), (''channel'', JStr ''feishu''),
          (''bot'', JStr bot_name), (''receipt_key'', JStr k), (''message_id'', jopt (nr_message_id r)),
          (''deduplicated'', JBool True)]
        else [(''success'', JBool False), (''status'', JStr ''queued''), (''channel'', JStr ''feishu''),
          (''bot'', JStr bot_name), (''receipt_key'', JStr k),
          (''error'', JStr (first_nonempty (nr_last_error r) ''receipt is waiting for retry''))]
    | None \<Rightarrow> [(''success'', JBool False), (''status'', JStr ''queued''), (''channel'', JStr ''feishu''),
          (''bot'', JStr bot_name), (''receipt_key'', JStr k),
          (''error'', JStr ''receipt is waiting for retry'')])"

definition nav_key_of :: "dict \<Rightarrow> string" where
  "nav_key_of job_result = ''nav:'' @ py_strip (text_or_empty (dict_get ''run_id'' job_result))"

definition enqueue_and_dispatch ::
    "'w sender \<Rightarrow> (nat \<Rightarrow> instant) \<Rightarrow> instant \<Rightarrow> string \<Rightarrow> dict \<Rightarrow> op_store \<Rightarrow> 'w \<Rightarrow>
     (py_exn + dict) \<times> op_store \<times> 'w" where
  "enqueue_and_dispatch send clk now claim job_result s w =
     (if dict_get ''dry_run'' job_result = None \<or> \<not> falsy (dict_get ''dry_run'' job_result)
      then (case send job_result w of
          (Inl err, w1) \<Rightarrow> (Inl (RuntimeError err), s, w1) | (Inr r, w1) \<Rightarrow> (Inr r, s, w1))
      else let k = nav_key_of job_result
      in if py_strip (text_or_empty (dict_get ''run_id'' job_result)) = [] then (Inl (ValueError ''real NAV receipt requires run_id''), s, w)
      else case enqueue_nav_receipt now k (JObj job_result) s of
          (Inl e, s1) \<Rightarrow> (Inl e, s1, w)
        | (Inr _, s1) \<Rightarrow> (case nav_dispatch_pending send clk claim 1 (Some k) s1 w of
              (Inl e, s2, w2) \<Rightarrow> (Inl e, s2, w2)
            | (Inr report, s2, w2) \<Rightarrow> (Inr (case np_results report of
                  r # _ \<Rightarrow> r
                | [] \<Rightarrow> nav_row_result k (get_nav_receipt k s2)), s2, w2)))"

section \<open>Lemmas: operation receipts\<close>

lemma start_send_exact:
  assumes "unique_keys rc_receipt_key (operation_receipt_outbox s)"
    and "row_of rc_receipt_key k (operation_receipt_outbox s) = Some r"
    and "rc_status r = RcClaimed" and "rc_claim_id r = Some c"
  shows "start_operation_receipt_send now k c s =
    (Inr (), s\<lparr>operation_receipt_outbox :=
       sql_update (\<lambda>q. rc_receipt_key q = k) (sending_row now) (operation_receipt_outbox s)\<rparr>)"
proof -
  define hit where "hit = (\<lambda>q :: op_receipt. rc_receipt_key q = k \<and> rc_status q = RcClaimed \<and> rc_claim_id q = Some c)"
  have r: "r \<in> set (operation_receipt_outbox s)" "rc_receipt_key r = k" using assms(2) by (auto dest: row_of_Some)
  have only: "q = r" if "q \<in> set (operation_receipt_outbox s)" "rc_receipt_key q = k" for q
    using that r by (intro unique_keys_eq [OF assms(1)]) auto
  have "rowcount hit (operation_receipt_outbox s) = 1"
  proof (subst rowcount_key_1 [OF assms(1), where k = k])
    show "\<exists>r \<in> set (operation_receipt_outbox s). hit r"
      using r assms(3,4) by (intro bexI [of _ r]) (simp_all add: hit_def)
  qed (simp add: hit_def)
  moreover have "sql_update hit f (operation_receipt_outbox s) =
      sql_update (\<lambda>q. rc_receipt_key q = k) f (operation_receipt_outbox s)" for f
    unfolding sql_update_def
  proof (rule map_cong [OF refl])
    fix q assume q: "q \<in> set (operation_receipt_outbox s)"
    show "(if hit q then f q else q) = (if rc_receipt_key q = k then f q else q)"
    proof (cases "rc_receipt_key q = k")
      case True
      with only [OF q] r assms(3,4) show ?thesis by (simp add: hit_def)
    qed (simp add: hit_def)
  qed
  moreover have "start_send_tx now k c s = (if rowcount hit (operation_receipt_outbox s) \<noteq> 1
      then Inl (KeyError (''operation receipt claim not found: '' @ k @ '' claim_id='' @ c))
      else Inr ((), s\<lparr>operation_receipt_outbox := sql_update hit (sending_row now) (operation_receipt_outbox s)\<rparr>))"
    unfolding start_send_tx_def hit_def Let_def by (rule refl)
  ultimately show ?thesis
    by (simp add: start_operation_receipt_send_def commit_def)
qed

lemma delivery_outcome_parses: "\<exists>st. parse_outcome (delivery_outcome d) = Some st \<and> st \<in> {RcSent, RcFailed, RcUnknown}"
  by (simp add: delivery_outcome_def Let_def parse_outcome_def)

text \<open>The receipt a delivery leaves behind.\<close>

definition delivered_row :: "instant \<Rightarrow> instant \<Rightarrow> dict \<Rightarrow> op_receipt \<Rightarrow> op_receipt" where
  "delivered_row started marked d r =
     (case delivery_columns d of
        Inl e \<Rightarrow> sending_row started r
      | Inr (mid, err) \<Rightarrow> marked_row marked (the (parse_outcome (delivery_outcome d))) (rc_attempt_count r + 1)
          mid err (sending_row started r))"

lemma delivered_row_key [simp]: "rc_receipt_key (delivered_row a b d r) = rc_receipt_key r"
  by (simp add: delivered_row_def marked_row_def sending_row_def split: sum.splits prod.splits)

text \<open>One turn of the loop for a receipt that the dispatcher holds.\<close>

lemma dispatch_turn:
  fixes s :: op_store and started marked :: instant
  assumes "unique_keys rc_receipt_key (operation_receipt_outbox s)"
    and "row_of rc_receipt_key k (operation_receipt_outbox s) = Some r"
    and "rc_status r = RcClaimed" and "rc_claim_id r = Some c" and "delivery_columns d = Inr cols"
  defines "s1 \<equiv> s\<lparr>operation_receipt_outbox :=
       sql_update (\<lambda>q. rc_receipt_key q = k) (sending_row started) (operation_receipt_outbox s)\<rparr>"
  defines "s2 \<equiv> s\<lparr>operation_receipt_outbox :=
       sql_update (\<lambda>q. rc_receipt_key q = k) (delivered_row started marked d) (operation_receipt_outbox s)\<rparr>"
  shows "start_operation_receipt_send started k c s = (Inr (), s1)"
    and "mark_delivery marked k c (delivery_outcome d) d s1 = (Inr (), s2)"
proof -
  show "start_operation_receipt_send started k c s = (Inr (), s1)"
    unfolding s1_def by (rule start_send_exact [OF assms(1-4)])
  obtain mid err where cols: "delivery_columns d = Inr (mid, err)" using assms(5) by (cases cols) auto
  obtain st where st: "parse_outcome (delivery_outcome d) = Some st" using delivery_outcome_parses by blast
  have key: "rc_receipt_key (sending_row started q) = rc_receipt_key q" for q by (simp add: sending_row_def)
  have u: "unique_keys rc_receipt_key (operation_receipt_outbox s1)"
    unfolding s1_def using assms(1) by (auto simp: key intro: row_intros)
  have row: "row_of rc_receipt_key k (operation_receipt_outbox s1) = Some (sending_row started r)"
    using assms(2) by (simp add: s1_def row_of_sql_update key) (auto dest: row_of_Some)
  have mark: "mark_delivery marked k c (delivery_outcome d) d s1 = (Inr (), s1\<lparr>operation_receipt_outbox :=
      sql_update (\<lambda>q. rc_receipt_key q = k) (marked_row marked st (rc_attempt_count r + 1) mid err)
        (operation_receipt_outbox s1)\<rparr>)"
    using mark_receipt_exact [OF u row] assms(4) by (simp add: mark_delivery_def cols st sending_row_def)
  have only: "q = r" if "q \<in> set (operation_receipt_outbox s)" "rc_receipt_key q = k" for q
    using that assms(2) by (intro unique_keys_eq [OF assms(1)]) (auto dest: row_of_Some)
  have "sql_update (\<lambda>q. rc_receipt_key q = k) (marked_row marked st (rc_attempt_count r + 1) mid err)
        (sql_update (\<lambda>q. rc_receipt_key q = k) (sending_row started) (operation_receipt_outbox s)) =
      sql_update (\<lambda>q. rc_receipt_key q = k) (delivered_row started marked d) (operation_receipt_outbox s)"
    unfolding sql_update_def map_map
    by (rule map_cong) (auto simp: delivered_row_def cols st key dest: only)
  with mark show "mark_delivery marked k c (delivery_outcome d) d s1 = (Inr (), s2)"
    by (simp add: s1_def s2_def)
qed

text \<open>The reference: deliver every row in order, then settle the outbox with the outcomes.\<close>

fun deliver_all :: "(string \<Rightarrow> 'w sender option) \<Rightarrow> op_receipt list \<Rightarrow> 'w \<Rightarrow> dict list \<times> 'w" where
  "deliver_all renderers [] w = ([], w)"
| "deliver_all renderers (row # rows) w =
     (let (d, w1) = deliver renderers row w; (ds, w2) = deliver_all renderers rows w1 in (d # ds, w2))"

fun settle_all :: "(nat \<Rightarrow> instant) \<Rightarrow> nat \<Rightarrow> op_receipt list \<Rightarrow> dict list \<Rightarrow> op_receipt list \<Rightarrow> op_receipt list" where
  "settle_all clk n (row # rows) (d # ds) t = settle_all clk (n + 2) rows ds
     (sql_update (\<lambda>q. rc_receipt_key q = rc_receipt_key row) (delivered_row (clk n) (clk (Suc n)) d) t)"
| "settle_all clk n _ _ t = t"

definition deliverable :: "dict \<Rightarrow> bool" where
  "deliverable d \<longleftrightarrow> (case delivery_columns d of Inr c \<Rightarrow> True | Inl e \<Rightarrow> False)"

lemma length_deliver_all: "deliver_all renderers rows w = (ds, w') \<Longrightarrow> length ds = length rows"
  by (induction rows arbitrary: w ds) (auto split: prod.splits)

lemma settle_unique:
  "unique_keys rc_receipt_key t \<Longrightarrow> unique_keys rc_receipt_key (settle_all clk n rows ds t)"
proof (induction clk n rows ds t rule: settle_all.induct)
  case (1 clk n row rows d ds t)
  have "unique_keys rc_receipt_key (sql_update (\<lambda>q. rc_receipt_key q = rc_receipt_key row)
      (delivered_row (clk n) (clk (Suc n)) d) t)"
    using "1.prems" by (intro row_intros) simp_all
  from "1.IH" [OF this] show ?case by simp
qed simp_all

lemma settle_other:
  "k \<notin> rc_receipt_key ` set rows \<Longrightarrow>
   row_of rc_receipt_key k (settle_all clk n rows ds t) = row_of rc_receipt_key k t"
  by (induction clk n rows ds t rule: settle_all.induct)
    (auto simp: row_of_sql_update dest: row_of_Some intro!: option.map_ident_strong)

lemma settle_at:
  assumes "distinct (map rc_receipt_key rows)" and "length ds = length rows" and "i < length rows"
  shows "row_of rc_receipt_key (rc_receipt_key (rows ! i)) (settle_all clk n rows ds t) =
    map_option (delivered_row (clk (n + 2 * i)) (clk (Suc (n + 2 * i))) (ds ! i))
      (row_of rc_receipt_key (rc_receipt_key (rows ! i)) t)"
  using assms
proof (induction clk n rows ds t arbitrary: i rule: settle_all.induct)
  case (1 clk n row rows d ds t)
  show ?case
  proof (cases i)
    case 0
    with "1.prems"(1) show ?thesis
      by (auto simp: settle_other row_of_sql_update dest!: row_of_Some intro!: option.map_cong0)
  next
    case (Suc j)
    with "1.prems"(3) have "rows ! j \<in> set rows" by simp
    with "1.prems"(1) have "rc_receipt_key (rows ! j) \<noteq> rc_receipt_key row"
      by (metis distinct.simps(2) imageI list.map(2) list.set_map)
    then have "row_of rc_receipt_key (rc_receipt_key (rows ! j))
        (sql_update (\<lambda>q. rc_receipt_key q = rc_receipt_key row) (delivered_row (clk n) (clk (Suc n)) d) t) =
      row_of rc_receipt_key (rc_receipt_key (rows ! j)) t"
      by (auto simp: row_of_sql_update dest: row_of_Some intro!: option.map_ident_strong)
    with "1.IH" [of j] "1.prems" Suc show ?thesis by simp
  qed
qed auto

lemma dispatch_rows_eq:
  assumes "unique_keys rc_receipt_key (operation_receipt_outbox s)" and "distinct (map rc_receipt_key rows)"
    and "\<forall>row \<in> set rows. \<exists>r. row_of rc_receipt_key (rc_receipt_key row) (operation_receipt_outbox s) = Some r \<and>
      rc_status r = RcClaimed \<and> rc_claim_id r = Some c"
    and "deliver_all renderers rows w = (ds, w')" and "list_all deliverable ds"
  shows "dispatch_rows renderers clk c n rows s w =
    (Inr (map2 (\<lambda>row d. (delivery_outcome d, dispatch_result row d)) rows ds),
     s\<lparr>operation_receipt_outbox := settle_all clk n rows ds (operation_receipt_outbox s)\<rparr>, w')"
  using assms
proof (induction rows arbitrary: n s w ds)
  case Nil
  then show ?case by simp
next
  case (Cons row rows)
  obtain d w1 where d: "deliver renderers row w = (d, w1)" by (cases "deliver renderers row w") auto
  obtain ds1 where rest: "deliver_all renderers rows w1 = (ds1, w')" and ds: "ds = d # ds1"
    using Cons.prems(4) d by (auto split: prod.splits)
  obtain cols where cols: "delivery_columns d = Inr cols"
    using Cons.prems(5) by (auto simp: ds deliverable_def split: sum.splits)
  obtain r where r: "row_of rc_receipt_key (rc_receipt_key row) (operation_receipt_outbox s) = Some r"
      "rc_status r = RcClaimed" "rc_claim_id r = Some c"
    using Cons.prems(3) by auto
  define s2 where "s2 = s\<lparr>operation_receipt_outbox :=
      sql_update (\<lambda>q. rc_receipt_key q = rc_receipt_key row) (delivered_row (clk n) (clk (Suc n)) d)
        (operation_receipt_outbox s)\<rparr>"
  note turn = dispatch_turn(1) [OF Cons.prems(1) r cols, where started = "clk n"]
    dispatch_turn(2) [OF Cons.prems(1) r cols, where started = "clk n" and marked = "clk (Suc n)", folded s2_def]
  have other: "row_of rc_receipt_key k (operation_receipt_outbox s2) = row_of rc_receipt_key k (operation_receipt_outbox s)"
    if "k \<noteq> rc_receipt_key row" for k
    using that by (auto simp: s2_def row_of_sql_update dest: row_of_Some intro!: option.map_ident_strong)
  have "dispatch_rows renderers clk c (n + 2) rows s2 w1 =
    (Inr (map2 (\<lambda>row d. (delivery_outcome d, dispatch_result row d)) rows ds1),
     s2\<lparr>operation_receipt_outbox := settle_all clk (n + 2) rows ds1 (operation_receipt_outbox s2)\<rparr>, w')"
  proof (rule Cons.IH [OF _ _ _ rest])
    show "unique_keys rc_receipt_key (operation_receipt_outbox s2)"
      using Cons.prems(1) by (auto simp: s2_def intro: row_intros)
    show "\<forall>row \<in> set rows. \<exists>r. row_of rc_receipt_key (rc_receipt_key row) (operation_receipt_outbox s2) = Some r \<and>
      rc_status r = RcClaimed \<and> rc_claim_id r = Some c"
    proof
      fix q assume q: "q \<in> set rows"
      with Cons.prems(2) have "rc_receipt_key q \<noteq> rc_receipt_key row"
        by (metis distinct.simps(2) imageI list.map(2) list.set_map)
      with q Cons.prems(3) show "\<exists>r. row_of rc_receipt_key (rc_receipt_key q) (operation_receipt_outbox s2) = Some r \<and>
          rc_status r = RcClaimed \<and> rc_claim_id r = Some c"
        by (simp add: other)
    qed
  qed (use Cons.prems(2,5) ds in auto)
  then show ?case by (simp add: turn d ds s2_def)
qed

lemma claimed_rows_held:
  assumes "unique_keys rc_receipt_key (operation_receipt_outbox s)"
    and "claim_due_operation_receipts now c limit key (Some c) s = (claimed, s1)"
  shows "unique_keys rc_receipt_key (operation_receipt_outbox s1)" and "distinct (map rc_receipt_key claimed)"
    and "row \<in> set claimed \<Longrightarrow> \<exists>r. row_of rc_receipt_key (rc_receipt_key row) (operation_receipt_outbox s1) = Some r \<and>
      rc_status r = RcClaimed \<and> rc_claim_id r = Some c \<and> rc_attempt_count r = rc_attempt_count row"
proof -
  define t where "t = map (sweep_receipt now) (operation_receipt_outbox s)"
  define due where "due = (\<lambda>r :: op_receipt. receipt_waiting r \<and> rc_next_attempt_at r \<le> now \<and>
      (first_nonempty key [] = [] \<or> rc_receipt_key r = first_nonempty key []))"
  define rows where "rows = select_due due rc_created_at limit t"
  have c: "first_nonempty (Some c) c = c" by (simp add: first_nonempty_def)
  from claim_receipt_rows [OF assms] have
    cl: "claimed = map (\<lambda>r. r\<lparr>rc_status := RcClaimed, rc_claim_id := Some c, rc_claimed_at := Some now\<rparr>) rows"
    and s1: "operation_receipt_outbox s1 =
      sql_update (\<lambda>r. rc_receipt_key r \<in> rc_receipt_key ` set rows) (take_receipt c now) t"
    by (auto simp: rows_def due_def t_def c)
  have u: "unique_keys rc_receipt_key t" unfolding t_def by (rule rcq.sweep_table [OF assms(1)])
  show "unique_keys rc_receipt_key (operation_receipt_outbox s1)"
    unfolding s1 using u by (intro row_intros) (auto simp: rcq.take_key)
  have "distinct (map rc_receipt_key (sort_key rc_created_at (filter due t)))"
    using u by (auto simp: unique_keys_def distinct_map intro: inj_on_subset)
  then show "distinct (map rc_receipt_key claimed)"
    by (simp add: cl comp_def rows_def select_due_def distinct_sql_limit)
  show "\<exists>r. row_of rc_receipt_key (rc_receipt_key row) (operation_receipt_outbox s1) = Some r \<and>
      rc_status r = RcClaimed \<and> rc_claim_id r = Some c \<and> rc_attempt_count r = rc_attempt_count row"
    if "row \<in> set claimed"
  proof -
    from that obtain q where q: "q \<in> set rows" "rc_receipt_key q = rc_receipt_key row"
        "rc_attempt_count q = rc_attempt_count row" by (auto simp: cl)
    with select_due_props(1) [OF rows_def] have "q \<in> set t" by auto
    from q(1,2) have "rc_receipt_key row \<in> rc_receipt_key ` set rows" by (metis imageI)
    with row_at [OF u \<open>q \<in> set t\<close> q(2)] q show ?thesis
      by (simp add: s1 row_of_sql_update rcq.take_key) (simp add: take_receipt_def)
  qed
qed

lemma delivered_row_settled:
  assumes "deliverable d"
  shows "parse_outcome (delivery_outcome d) = Some (rc_status (delivered_row a b d r))"
    and "rc_claim_id (delivered_row a b d r) = None"
    and "rc_attempt_count (delivered_row a b d r) = rc_attempt_count r + 1"
    and "delivery_columns d = Inr (rc_message_id (delivered_row a b d r), rc_last_error (delivered_row a b d r))"
proof -
  obtain mid err where "delivery_columns d = Inr (mid, err)"
    using assms by (auto simp: deliverable_def split: sum.splits)
  moreover obtain st where "parse_outcome (delivery_outcome d) = Some st" using delivery_outcome_parses by blast
  ultimately show "parse_outcome (delivery_outcome d) = Some (rc_status (delivered_row a b d r))"
    "rc_claim_id (delivered_row a b d r) = None"
    "rc_attempt_count (delivered_row a b d r) = rc_attempt_count r + 1"
    "delivery_columns d = Inr (rc_message_id (delivered_row a b d r), rc_last_error (delivered_row a b d r))"
    by (simp_all add: delivered_row_def marked_row_def sending_row_def)
qed

definition outcomes :: "op_receipt list \<Rightarrow> dict list \<Rightarrow> (string \<times> dict) list" where
  "outcomes rows ds = map2 (\<lambda>row d. (delivery_outcome d, dispatch_result row d)) rows ds"

lemma outcome_counts:
  "length ds = length rows \<Longrightarrow> length (filter (\<lambda>r. fst r = ''sent'') (outcomes rows ds)) +
     length (filter (\<lambda>r. fst r = ''failed'') (outcomes rows ds)) +
     length (filter (\<lambda>r. fst r = ''unknown'') (outcomes rows ds)) = length rows \<and>
   (list_all (\<lambda>d. delivery_outcome d = ''sent'') ds \<longleftrightarrow> filter (\<lambda>r. fst r = ''failed'') (outcomes rows ds) = [] \<and>
     filter (\<lambda>r. fst r = ''unknown'') (outcomes rows ds) = [])"
proof (induction ds rows rule: list_induct2)
  case (Cons d ds row rows)
  have "delivery_outcome d \<in> {''sent'', ''failed'', ''unknown''}" by (simp add: delivery_outcome_def Let_def)
  with Cons.IH show ?case by (auto simp: outcomes_def)
qed (simp add: outcomes_def)

section \<open>Properties\<close>

text \<open>
  C35. A dispatch delivers exactly what it claimed: one delivery per claimed receipt, in the order
  of the claim, and no other remote call; each of these receipts is then stored with the outcome of
  its own delivery, its message id and error, one more attempt and no holder; no other receipt, and
  nothing else in the store, changes. The counts add up, and the run is a success exactly when every
  delivery was accepted. The hypothesis on the deliveries says that their message id and error fit
  a text column.
\<close>
theorem dispatch_delivers_claimed:
  assumes "unique_keys rc_receipt_key (operation_receipt_outbox s)"
    and "claim_due_operation_receipts (clk 0) c limit key (Some c) s = (rows, s1)"
    and "deliver_all renderers rows w = (ds, w')" and "list_all deliverable ds"
  shows "\<exists>report t. dispatch_pending renderers clk c limit key s w =
        (Inr report, s1\<lparr>operation_receipt_outbox := t\<rparr>, w') \<and>
     dp_results report = map2 dispatch_result rows ds \<and> dp_attempted report = length rows \<and>
     dp_sent report + dp_failed report + dp_unknown report = length rows \<and>
     (dp_success report \<longleftrightarrow> list_all (\<lambda>d. delivery_outcome d = ''sent'') ds) \<and>
     (\<forall>i < length rows. \<exists>r. row_of rc_receipt_key (rc_receipt_key (rows ! i)) t = Some r \<and>
        parse_outcome (delivery_outcome (ds ! i)) = Some (rc_status r) \<and> rc_claim_id r = None \<and>
        rc_attempt_count r = rc_attempt_count (rows ! i) + 1 \<and>
        delivery_columns (ds ! i) = Inr (rc_message_id r, rc_last_error r)) \<and>
     (\<forall>k. k \<notin> rc_receipt_key ` set rows \<longrightarrow>
        row_of rc_receipt_key k t = row_of rc_receipt_key k (operation_receipt_outbox s1))"
proof -
  define t where "t = settle_all clk 1 rows ds (operation_receipt_outbox s1)"
  define report where "report = report_of (length rows) (outcomes rows ds)"
  note held = claimed_rows_held [OF assms(1,2)]
  have len: "length ds = length rows" using length_deliver_all [OF assms(3)] .
  have "dispatch_rows renderers clk c 1 rows s1 w = (Inr (outcomes rows ds), s1\<lparr>operation_receipt_outbox := t\<rparr>, w')"
    unfolding t_def outcomes_def using held(3) by (intro dispatch_rows_eq held(1,2) assms(3,4)) blast
  then have run: "dispatch_pending renderers clk c limit key s w = (Inr report, s1\<lparr>operation_receipt_outbox := t\<rparr>, w')"
    by (simp add: dispatch_pending_def assms(2) report_def)
  have settled: "\<exists>r. row_of rc_receipt_key (rc_receipt_key (rows ! i)) t = Some r \<and>
        parse_outcome (delivery_outcome (ds ! i)) = Some (rc_status r) \<and> rc_claim_id r = None \<and>
        rc_attempt_count r = rc_attempt_count (rows ! i) + 1 \<and>
        delivery_columns (ds ! i) = Inr (rc_message_id r, rc_last_error r)" if i: "i < length rows" for i
  proof -
    have "deliverable (ds ! i)" using assms(4) i len by (simp add: list_all_length)
    moreover obtain r where "row_of rc_receipt_key (rc_receipt_key (rows ! i)) (operation_receipt_outbox s1) = Some r"
        "rc_attempt_count r = rc_attempt_count (rows ! i)"
      using held(3) [OF nth_mem [OF i]] by blast
    ultimately show ?thesis
      using settle_at [OF held(2) len i] delivered_row_settled by (simp add: t_def)
  qed
  have results: "map snd (outcomes rows ds) = map2 dispatch_result rows ds"
    by (simp add: outcomes_def comp_def case_prod_unfold)
  show ?thesis
    using run settled outcome_counts [OF len] settle_other results
    by (intro exI [of _ report] exI [of _ t]) (simp add: report_def report_of_def t_def)
qed

definition demo_renderers :: "string \<Rightarrow> nat sender option" where
  "demo_renderers ty = (if ty = ''holding_case_closed''
     then Some (\<lambda>d n. (Inr [(''success'', JBool True), (''delivery_state'', JStr ''Accepted''),
       (''message_id'', JStr ''om_1'')], n + 1))
     else None)"

definition demo_clock :: "nat \<Rightarrow> instant" where
  "demo_clock n = 5 + int n"

definition demo_outbox :: op_store where
  "demo_outbox = empty_store\<lparr>operation_receipt_outbox :=
     [new_receipt ''b'' ''holding_case_closed'' (JObj []) 3,
      new_receipt ''a'' ''holding_case_discovered'' (JObj []) 1]\<rparr>"

lemma dispatch_delivers_claimed_witness:
  "snd (snd (dispatch_pending demo_renderers demo_clock ''w'' 10 None demo_outbox 0)) = 1 \<and>
   \<not> list_all (\<lambda>d. delivery_outcome d = ''sent'') (fst (deliver_all demo_renderers
     (fst (claim_due_operation_receipts (demo_clock 0) ''w'' 10 None (Some ''w'') demo_outbox)) 0))"
proof -
  let ?claim = "claim_due_operation_receipts (demo_clock 0) ''w'' 10 None (Some ''w'') demo_outbox"
  let ?all = "deliver_all demo_renderers (fst ?claim) 0"
  have u: "unique_keys rc_receipt_key (operation_receipt_outbox demo_outbox)"
    by (simp add: demo_outbox_def unique_keys_def)
  have c: "claim_due_operation_receipts (demo_clock 0) ''w'' 10 None (Some ''w'') demo_outbox = (fst ?claim, snd ?claim)"
    by simp
  have all: "?all = (fst ?all, snd ?all)" by simp
  have ok: "list_all deliverable (fst ?all)" by code_simp
  have "\<not> list_all (\<lambda>d. delivery_outcome d = ''sent'') (fst ?all)" "snd ?all = 1" by code_simp+
  with dispatch_delivers_claimed [where clk = demo_clock, OF u c all ok] show ?thesis by auto
qed

section \<open>Lemmas: NAV receipts\<close>

lemma enqueue_nav_present:
  assumes "enqueue_nav_receipt now k payload s = (Inr b, s')"
  shows "\<exists>r. row_of nr_receipt_key k (nav_receipt_outbox s') = Some r \<and> nr_payload_json r = canonical_json payload"
proof -
  from assms have tx: "enqueue_nav_tx now k payload s = Inr (b, s')" by (simp add: enqueue_nav_receipt_def commit_Inr)
  note out = enqueue_nav_cases [OF tx]
  show ?thesis
  proof (cases "row_of nr_receipt_key k (nav_receipt_outbox s)")
    case None
    then show ?thesis by (simp add: out row_of_insert_ignore) (simp add: new_nav_receipt_def)
  next
    case (Some r)
    with tx show ?thesis
      by (auto simp: enqueue_nav_tx_def Let_def insert_ignore_def split: if_splits option.splits dest: row_of_key)
  qed
qed

lemma enqueue_nav_again:
  assumes "row_of nr_receipt_key k (nav_receipt_outbox s) = Some r" and "nr_payload_json r = canonical_json payload"
  shows "enqueue_nav_receipt now k payload s = (Inr False, s)"
  using assms row_of_key [OF assms(1)]
  by (simp add: enqueue_nav_receipt_def commit_def enqueue_nav_tx_def insert_ignore_def)

lemma enqueue_nav_unique:
  assumes "unique_keys nr_receipt_key (nav_receipt_outbox s)" and "enqueue_nav_receipt now k payload s = (x, s')"
  shows "unique_keys nr_receipt_key (nav_receipt_outbox s')"
  using nav_step_evolves [OF assms(1), of "NavEnqueue now k payload"] assms(2) by (simp add: nav_outbox_evolves_def)

definition nav_run :: "nav_op list \<Rightarrow> op_store \<Rightarrow> op_store" where
  "nav_run ops s = fold nav_step ops s"

lemma nav_run_sent:
  assumes "unique_keys nr_receipt_key (nav_receipt_outbox s)"
    and "row_of nr_receipt_key k (nav_receipt_outbox s) = Some r" and "nr_status r = NavSent"
  shows "unique_keys nr_receipt_key (nav_receipt_outbox (nav_run ops s)) \<and>
    row_of nr_receipt_key k (nav_receipt_outbox (nav_run ops s)) = Some r"
  using assms
proof (induction ops arbitrary: s)
  case (Cons x ops)
  from nav_step_evolves [OF Cons.prems(1), of x] Cons.prems(2,3)
  have "unique_keys nr_receipt_key (nav_receipt_outbox (nav_step x s))"
    "row_of nr_receipt_key k (nav_receipt_outbox (nav_step x s)) = Some r"
    by (auto simp: nav_outbox_evolves_def nav_evolves_def)
  from Cons.IH [OF this Cons.prems(3)] show ?case by (simp add: nav_run_def)
qed (simp add: nav_run_def)

text \<open>A dispatch for one key when that receipt is sent: nothing is claimed, nothing is delivered.\<close>

lemma claim_nav_key:
  assumes "unique_keys nr_receipt_key (nav_receipt_outbox s)" and "k \<noteq> []"
    and "claim_due_nav_receipts now c limit (Some k) (Some c) s = (rows, s1)"
  shows "\<forall>row \<in> set rows. nr_receipt_key row = k" and "0 \<le> limit \<longrightarrow> length rows \<le> nat limit"
    and "row_of nr_receipt_key k (nav_receipt_outbox s) = Some r \<Longrightarrow> nr_status r = NavSent \<Longrightarrow> rows = []"
    and "unique_keys nr_receipt_key (nav_receipt_outbox s1)"
    and "row_of nr_receipt_key k (nav_receipt_outbox s) = Some r \<Longrightarrow> nr_status r = NavSent \<Longrightarrow>
      row_of nr_receipt_key k (nav_receipt_outbox s1) = Some r"
proof -
  define sel where
    "sel = select_due (nav_due now (Some k)) nr_created_at limit (map (sweep_nav now) (nav_receipt_outbox s))"
  from claim_nav_eq [OF assms(1) sel_def, of c "Some c"] assms(3)
  have rows: "rows = map (\<lambda>r. r\<lparr>nr_claim_id := Some c, nr_status := NavSending, nr_claimed_at := Some now\<rparr>) sel"
    by (simp add: first_nonempty_def split: if_splits)
  note props = select_due_props [OF sel_def]
  show "\<forall>row \<in> set rows. nr_receipt_key row = k"
    using props(1) assms(2) by (auto simp: rows nav_due_def first_nonempty_def)
  show "0 \<le> limit \<longrightarrow> length rows \<le> nat limit" using props(3) by (simp add: rows)
  from nav_step_evolves [OF assms(1), of "NavClaim now c limit (Some k) (Some c)"] assms(3)
  have ev: "nav_outbox_evolves (nav_receipt_outbox s) (nav_receipt_outbox s1)" by simp
  then show "unique_keys nr_receipt_key (nav_receipt_outbox s1)" by (simp add: nav_outbox_evolves_def)
  show "row_of nr_receipt_key k (nav_receipt_outbox s1) = Some r"
    if "row_of nr_receipt_key k (nav_receipt_outbox s) = Some r" "nr_status r = NavSent"
    using ev that by (auto simp: nav_outbox_evolves_def nav_evolves_def)
  show "rows = []" if r: "row_of nr_receipt_key k (nav_receipt_outbox s) = Some r" "nr_status r = NavSent"
  proof (rule ccontr)
    assume "rows \<noteq> []"
    then obtain q where q: "q \<in> set sel" by (cases sel) (auto simp: rows)
    with props(1) have "nav_due now (Some k) q" by auto
    then have "nr_receipt_key q = k" using assms(2) by (simp add: nav_due_def first_nonempty_def)
    with q have "k \<in> nr_receipt_key ` set sel" by force
    from navq.swept_claim_due [OF assms(1) sel_def r(1) this] r(2) show False
      by (auto simp: nav_due_def nav_waiting_def sweep_nav_def nav_lease_over_def nav_expire_row_def)
  qed
qed

lemma mark_nav_delivery_sent:
  assumes "unique_keys nr_receipt_key (nav_receipt_outbox s)"
    and "mark_nav_delivery now k c d s = (Inr (), s')" and "\<not> falsy (dict_get ''success'' d)"
  shows "unique_keys nr_receipt_key (nav_receipt_outbox s')"
    and "\<exists>r. row_of nr_receipt_key k (nav_receipt_outbox s') = Some r \<and> nr_status r = NavSent"
proof -
  obtain mid err where "mark_nav_tx now k c True mid err s = Inr ((), s')"
    using assms(2,3) by (auto simp: mark_nav_delivery_def Let_def mark_nav_receipt_def commit_Inr
        split: sum.splits prod.splits)
  note tx = this
  show "unique_keys nr_receipt_key (nav_receipt_outbox s')"
    using nav_mark_evolves [OF assms(1) tx] by (simp add: nav_outbox_evolves_def)
  from tx show "\<exists>r. row_of nr_receipt_key k (nav_receipt_outbox s') = Some r \<and> nr_status r = NavSent"
  proof (rule mark_nav_cases)
    fix row
    assume row: "row \<in> set (nav_receipt_outbox s)" "nr_receipt_key row = k" "nr_status row = NavSending" "nr_claim_id row = Some c"
      and s': "s' = s\<lparr>nav_receipt_outbox :=
      sql_update (\<lambda>r. nr_receipt_key r = k \<and> nr_status r = NavSending \<and> nr_claim_id r = Some c)
        (nav_marked_row now True (nr_attempt_count row + 1) mid err) (nav_receipt_outbox s)\<rparr>"
    from row_at [OF assms(1) row(1,2)] row(2-4) show ?thesis
      by (simp add: s' row_of_sql_update nav_marked_row_def)
  qed
qed

lemma nav_dispatch_success:
  assumes "unique_keys nr_receipt_key (nav_receipt_outbox s)" and "k \<noteq> []"
    and "nav_dispatch_pending send clk c 1 (Some k) s w = (Inr report, s2, w2)"
    and "np_results report = r # rest" and "\<not> falsy (dict_get ''success'' r)"
  shows "unique_keys nr_receipt_key (nav_receipt_outbox s2) \<and>
    (\<exists>q. row_of nr_receipt_key k (nav_receipt_outbox s2) = Some q \<and> nr_status q = NavSent)"
proof -
  obtain rows s1 where cl: "claim_due_nav_receipts (clk 0) c 1 (Some k) (Some c) s = (rows, s1)"
    by (cases "claim_due_nav_receipts (clk 0) c 1 (Some k) (Some c) s") auto
  note claim = claim_nav_key [OF assms(1,2) cl]
  from assms(3,4) cl have "rows \<noteq> []"
    by (auto simp: nav_dispatch_pending_def nav_report_of_def split: sum.splits)
  with claim(2) obtain row where rows: "rows = [row]" by (cases rows) auto
  with claim(1) have key: "nr_receipt_key row = k" by simp
  obtain d w1 where d: "deliver_nav send (nr_payload_json row) w = (d, w1)"
    by (cases "deliver_nav send (nr_payload_json row) w") auto
  from assms(3) have mark: "mark_nav_delivery (clk 1) k c d s1 = (Inr (), s2)"
    and report: "report = nav_report_of 1 [(\<not> falsy (dict_get ''success'' d), nav_result row d)]"
    by (auto simp: nav_dispatch_pending_def cl rows d key split: sum.splits prod.splits)
  from assms(4) report have r: "r = nav_result row d" by (simp add: nav_report_of_def)
  with assms(5) have "\<not> falsy (dict_get ''success'' d)"
    by (auto simp: nav_result_def Let_def dict_get_set split: if_splits)
  from mark_nav_delivery_sent [OF claim(4) mark this] show ?thesis by blast
qed

text \<open>What survives any number of operations: the payloads, and the sent receipts.\<close>

definition nav_keeps :: "op_store \<Rightarrow> op_store \<Rightarrow> bool" where
  "nav_keeps s s' \<longleftrightarrow> unique_keys nr_receipt_key (nav_receipt_outbox s') \<and>
     (\<forall>k r. row_of nr_receipt_key k (nav_receipt_outbox s) = Some r \<longrightarrow>
        (\<exists>r'. row_of nr_receipt_key k (nav_receipt_outbox s') = Some r' \<and>
           nr_payload_json r' = nr_payload_json r \<and> (nr_status r = NavSent \<longrightarrow> r' = r)))"

lemma nav_keeps_refl: "unique_keys nr_receipt_key (nav_receipt_outbox s) \<Longrightarrow> nav_keeps s s"
  by (simp add: nav_keeps_def)

lemma nav_keeps_trans: "nav_keeps s1 s2 \<Longrightarrow> nav_keeps s2 s3 \<Longrightarrow> nav_keeps s1 s3"
  unfolding nav_keeps_def by (metis (no_types, lifting))

lemma nav_keeps_step:
  assumes "unique_keys nr_receipt_key (nav_receipt_outbox s)"
  shows "nav_keeps s (nav_step x s)"
  using nav_step_evolves [OF assms, of x] unfolding nav_keeps_def nav_outbox_evolves_def nav_evolves_def
  by blast

lemma nav_keeps_mark:
  assumes "unique_keys nr_receipt_key (nav_receipt_outbox s)"
  shows "nav_keeps s (snd (mark_nav_delivery now k c d s))"
  using nav_keeps_step [OF assms, of "NavMark now k c b mid err" for b mid err] nav_keeps_refl [OF assms]
  by (auto simp: mark_nav_delivery_def Let_def split: sum.splits prod.splits)

lemma nav_dispatch_rows_keeps:
  assumes "unique_keys nr_receipt_key (nav_receipt_outbox s)"
    and "nav_dispatch_rows send clk c n rows s w = (x, s2, w2)"
  shows "nav_keeps s s2"
  using assms
proof (induction rows arbitrary: n s w x s2 w2)
  case Nil
  then show ?case by (simp add: nav_keeps_refl)
next
  case (Cons row rows)
  obtain d w1 where d: "deliver_nav send (nr_payload_json row) w = (d, w1)"
    by (cases "deliver_nav send (nr_payload_json row) w") auto
  obtain y s1 where m: "mark_nav_delivery (clk n) (nr_receipt_key row) c d s = (y, s1)"
    by (cases "mark_nav_delivery (clk n) (nr_receipt_key row) c d s") auto
  have k1: "nav_keeps s s1" using nav_keeps_mark [OF Cons.prems(1), of "clk n" "nr_receipt_key row" c d] m by simp
  show ?case
  proof (cases y)
    case (Inl e)
    with Cons.prems(2) d m k1 show ?thesis by simp
  next
    case (Inr u)
    obtain z s3 w3 where rest: "nav_dispatch_rows send clk c (Suc n) rows s1 w1 = (z, s3, w3)"
      by (cases "nav_dispatch_rows send clk c (Suc n) rows s1 w1") auto
    with Cons.prems(2) d m Inr have "s2 = s3" by (simp split: sum.splits)
    moreover from k1 have "unique_keys nr_receipt_key (nav_receipt_outbox s1)" by (simp add: nav_keeps_def)
    from Cons.IH [OF this rest] have "nav_keeps s1 s3" .
    ultimately show ?thesis using nav_keeps_trans [OF k1] by simp
  qed
qed

lemma nav_dispatch_keeps:
  assumes "unique_keys nr_receipt_key (nav_receipt_outbox s)"
    and "nav_dispatch_pending send clk c limit key s w = (x, s2, w2)"
  shows "nav_keeps s s2"
proof -
  obtain rows s1 where cl: "claim_due_nav_receipts (clk 0) c limit key (Some c) s = (rows, s1)"
    by (cases "claim_due_nav_receipts (clk 0) c limit key (Some c) s") auto
  obtain y s3 w3 where rest: "nav_dispatch_rows send clk c 1 rows s1 w = (y, s3, w3)"
    by (cases "nav_dispatch_rows send clk c 1 rows s1 w") auto
  from assms(2) cl rest have "s2 = s3" by (simp add: nav_dispatch_pending_def split: sum.splits)
  moreover have k1: "nav_keeps s s1"
    using nav_keeps_step [OF assms(1), of "NavClaim (clk 0) c limit key (Some c)"] cl by simp
  moreover have "unique_keys nr_receipt_key (nav_receipt_outbox s1)" using k1 by (simp add: nav_keeps_def)
  then have "nav_keeps s1 s3" using rest by (rule nav_dispatch_rows_keeps)
  ultimately show ?thesis using nav_keeps_trans by blast
qed

lemma nav_dispatch_sent:
  assumes "unique_keys nr_receipt_key (nav_receipt_outbox s)" and "k \<noteq> []"
    and "row_of nr_receipt_key k (nav_receipt_outbox s) = Some q" and "nr_status q = NavSent"
  shows "\<exists>s1. nav_dispatch_pending send clk c limit (Some k) s w = (Inr (nav_report_of 0 []), s1, w) \<and>
    unique_keys nr_receipt_key (nav_receipt_outbox s1) \<and>
    row_of nr_receipt_key k (nav_receipt_outbox s1) = Some q"
proof -
  obtain rows s1 where cl: "claim_due_nav_receipts (clk 0) c limit (Some k) (Some c) s = (rows, s1)"
    by (cases "claim_due_nav_receipts (clk 0) c limit (Some k) (Some c) s") auto
  note claim = claim_nav_key [OF assms(1,2) cl]
  from claim(3-5) assms(3,4) show ?thesis
    by (simp add: nav_dispatch_pending_def cl)
qed

definition real_run :: "dict \<Rightarrow> bool" where
  "real_run job_result \<longleftrightarrow> dict_get ''dry_run'' job_result \<noteq> None \<and> falsy (dict_get ''dry_run'' job_result)"

lemma nav_row_result_sent:
  "\<not> falsy (dict_get ''success'' (nav_row_result k row)) \<longleftrightarrow> (\<exists>q. row = Some q \<and> nr_status q = NavSent)"
  by (auto simp: nav_row_result_def dict_get_def falsy_def split: option.splits)

lemma enqueue_and_dispatch_success:
  assumes "unique_keys nr_receipt_key (nav_receipt_outbox s)" and "real_run job"
    and "enqueue_and_dispatch send clk now c job s w = (Inr result, s2, w2)"
    and "\<not> falsy (dict_get ''success'' result)"
  shows "unique_keys nr_receipt_key (nav_receipt_outbox s2) \<and>
    (\<exists>q. row_of nr_receipt_key (nav_key_of job) (nav_receipt_outbox s2) = Some q \<and> nr_status q = NavSent \<and>
       nr_payload_json q = canonical_json (JObj job))"
proof -
  define k where "k = nav_key_of job"
  have k: "k \<noteq> []" by (simp add: k_def nav_key_of_def)
  from assms(2,3) obtain b s1 report where
    enq: "enqueue_nav_receipt now k (JObj job) s = (Inr b, s1)"
    and disp: "nav_dispatch_pending send clk c 1 (Some k) s1 w = (Inr report, s2, w2)"
    and result: "result = (case np_results report of r # _ \<Rightarrow> r | [] \<Rightarrow> nav_row_result k (get_nav_receipt k s2))"
    by (auto simp: enqueue_and_dispatch_def real_run_def Let_def simp flip: k_def
        split: if_splits sum.splits prod.splits)
  have u1: "unique_keys nr_receipt_key (nav_receipt_outbox s1)"
    by (rule enqueue_nav_unique [OF assms(1) enq])
  obtain r1 where r1: "row_of nr_receipt_key k (nav_receipt_outbox s1) = Some r1"
      "nr_payload_json r1 = canonical_json (JObj job)"
    using enqueue_nav_present [OF enq] by blast
  have keep: "nav_keeps s1 s2" by (rule nav_dispatch_keeps [OF u1 disp])
  have sent: "\<exists>q. row_of nr_receipt_key k (nav_receipt_outbox s2) = Some q \<and> nr_status q = NavSent"
  proof (cases "np_results report")
    case Nil
    with result assms(4) show ?thesis by (simp add: nav_row_result_sent get_nav_receipt_def)
  next
    case (Cons r rest)
    with result assms(4) nav_dispatch_success [OF u1 k disp Cons] show ?thesis by simp
  qed
  moreover obtain r2 where "row_of nr_receipt_key k (nav_receipt_outbox s2) = Some r2"
      "nr_payload_json r2 = canonical_json (JObj job)"
    using keep r1 unfolding nav_keeps_def by metis
  moreover have "unique_keys nr_receipt_key (nav_receipt_outbox s2)" using keep by (simp add: nav_keeps_def)
  ultimately show ?thesis by (auto simp flip: k_def)
qed

lemma enqueue_and_dispatch_again:
  assumes "unique_keys nr_receipt_key (nav_receipt_outbox s)" and "real_run job"
    and "py_strip (text_or_empty (dict_get ''run_id'' job)) \<noteq> []"
    and "row_of nr_receipt_key (nav_key_of job) (nav_receipt_outbox s) = Some q" and "nr_status q = NavSent"
    and "nr_payload_json q = canonical_json (JObj job)"
  shows "\<exists>s1. enqueue_and_dispatch send clk now c job s w = (Inr (nav_row_result (nav_key_of job) (Some q)), s1, w) \<and>
    row_of nr_receipt_key (nav_key_of job) (nav_receipt_outbox s1) = Some q"
proof -
  have k: "nav_key_of job \<noteq> []" by (simp add: nav_key_of_def)
  obtain s1 where d: "nav_dispatch_pending send clk c 1 (Some (nav_key_of job)) s w = (Inr (nav_report_of 0 []), s1, w)"
    and q: "row_of nr_receipt_key (nav_key_of job) (nav_receipt_outbox s1) = Some q"
    using nav_dispatch_sent [OF assms(1) k assms(4,5), of send clk c 1 w] by blast
  have "enqueue_and_dispatch send clk now c job s w = (Inr (nav_row_result (nav_key_of job) (Some q)), s1, w)"
    using assms(2,3) enqueue_nav_again [OF assms(4,6)] d q
    by (auto simp: enqueue_and_dispatch_def real_run_def Let_def nav_report_of_def get_nav_receipt_def)
  with q show ?thesis by blast
qed

text \<open>
  C36. The receipt of a NAV run is delivered once: after \<open>enqueue_and_dispatch\<close> of a real run has
  reported success, and after any further enqueues, claims and marks by anyone, the same call with
  the same result sends nothing (the outside world is as it was), reports success as a duplicate
  with the message id of the delivery, and the receipt is still the sent one.
\<close>
theorem nav_receipt_delivered_once:
  assumes "unique_keys nr_receipt_key (nav_receipt_outbox s)" and "real_run job"
    and "enqueue_and_dispatch send clk now c job s w = (Inr result, s1, w1)"
    and "\<not> falsy (dict_get ''success'' result)"
  shows "\<exists>q s3. row_of nr_receipt_key (nav_key_of job) (nav_receipt_outbox s1) = Some q \<and> nr_status q = NavSent \<and>
    enqueue_and_dispatch send' clk' now' c' job (nav_run ops s1) w2 =
      (Inr (nav_row_result (nav_key_of job) (Some q)), s3, w2) \<and>
    dict_get ''deduplicated'' (nav_row_result (nav_key_of job) (Some q)) = Some (JBool True) \<and>
    dict_get ''message_id'' (nav_row_result (nav_key_of job) (Some q)) = Some (jopt (nr_message_id q)) \<and>
    row_of nr_receipt_key (nav_key_of job) (nav_receipt_outbox s3) = Some q"
proof -
  obtain q where u: "unique_keys nr_receipt_key (nav_receipt_outbox s1)"
    and q: "row_of nr_receipt_key (nav_key_of job) (nav_receipt_outbox s1) = Some q" "nr_status q = NavSent"
      "nr_payload_json q = canonical_json (JObj job)"
    using enqueue_and_dispatch_success [OF assms] by blast
  have id: "py_strip (text_or_empty (dict_get ''run_id'' job)) \<noteq> []"
    using assms(2,3) by (auto simp: enqueue_and_dispatch_def real_run_def)
  note run = nav_run_sent [OF u q(1,2), of ops]
  from enqueue_and_dispatch_again [OF conjunct1 [OF run] assms(2) id conjunct2 [OF run] q(2,3), of send' clk' now' c' w2]
  obtain s3 where "enqueue_and_dispatch send' clk' now' c' job (nav_run ops s1) w2 =
      (Inr (nav_row_result (nav_key_of job) (Some q)), s3, w2)"
    "row_of nr_receipt_key (nav_key_of job) (nav_receipt_outbox s3) = Some q" by blast
  with q show ?thesis
    by (intro exI [of _ q] exI [of _ s3]) (simp add: nav_row_result_def dict_get_def)
qed

definition demo_job :: dict where
  "demo_job = [(''dry_run'', JBool False), (''run_id'', JStr ''r1'')]"

definition demo_send :: "nat sender" where
  "demo_send d n = (Inr [(''success'', JBool True), (''message_id'', JStr ''om_1'')], n + 1)"

definition demo_first_run :: "(py_exn + dict) \<times> op_store \<times> nat" where
  "demo_first_run = enqueue_and_dispatch demo_send demo_clock 5 ''w'' demo_job empty_store 0"

lemma nav_receipt_delivered_once_witness:
  "snd (snd demo_first_run) = 1 \<and> (\<exists>x s3. enqueue_and_dispatch demo_send demo_clock 5 ''v'' demo_job
     (nav_run [NavClaim 9 ''z'' 5 None None] (fst (snd demo_first_run))) 7 = (Inr x, s3, 7) \<and>
     dict_get ''deduplicated'' x = Some (JBool True))"
proof -
  have u: "unique_keys nr_receipt_key (nav_receipt_outbox empty_store)" by (simp add: empty_store_def)
  have r: "real_run demo_job" by code_simp
  have e: "enqueue_and_dispatch demo_send demo_clock 5 ''w'' demo_job empty_store 0 =
      (Inr (projr (fst demo_first_run)), fst (snd demo_first_run), 1)" by code_simp
  have ok: "\<not> falsy (dict_get ''success'' (projr (fst demo_first_run)))" by code_simp
  from nav_receipt_delivered_once [OF u r e ok, where send' = demo_send and clk' = demo_clock and now' = 5
      and c' = "''v''" and ops = "[NavClaim 9 ''z'' 5 None None]" and ?w2.0 = "7 :: nat"] have
    "\<exists>x s3. enqueue_and_dispatch demo_send demo_clock 5 ''v'' demo_job
     (nav_run [NavClaim 9 ''z'' 5 None None] (fst (snd demo_first_run))) 7 = (Inr x, s3, 7) \<and>
     dict_get ''deduplicated'' x = Some (JBool True)" by blast
  moreover have "snd (snd demo_first_run) = 1" by code_simp
  ultimately show ?thesis by blast
qed

end
