(* ===== verification/Snapshot_Set.thy ===== *)
theory Snapshot_Set
  imports Decimals "HOL-Library.Multiset"
begin

text \<open>
  The exact-set writes of holdings snapshots: the plan of \<open>domain/snapshot_contracts.py\<close>
  (\<open>SnapshotExactSetPlan\<close>, its residual actions, the write authority), the remote table operations
  of \<open>feishu/repositories/snapshots_repository.py\<close> and \<open>apply_exact_set\<close> of
  \<open>app/snapshot_service.py\<close>. The remote table is a list of rows with record ids; a batch call creates,
  patches or deletes rows of it, and every call may fail with a part of its rows written. SHA-256 and
  the record ids the remote side gives are parameters. The readers that raise on a malformed remote
  record and the local recovery file are not modelled.
\<close>

section \<open>Rows\<close>

text \<open>\<open>HoldingSnapshot\<close>; a float is the decimal its text denotes.\<close>

record snap =
  sr_record_id :: "string option"
  sr_as_of :: string
  sr_account :: string
  sr_asset_id :: string
  sr_broker :: string
  sr_quantity :: decimal
  sr_currency :: string
  sr_price :: decimal
  sr_cny_price :: decimal
  sr_market_value_cny :: decimal
  sr_dedup_key :: string
  sr_asset_name :: "string option"
  sr_avg_cost :: "decimal option"
  sr_source :: "string option"
  sr_remark :: "string option"

text \<open>
  \<open>canonical_decimal\<close>, for numbers of at most 28 digits; beyond them \<open>quantize\<close> raises in the source.
\<close>

definition dec_integral :: "decimal \<Rightarrow> bool" where
  "dec_integral d \<longleftrightarrow> dec_exp d \<ge> 0 \<or> 10 ^ nat (- dec_exp d) dvd dec_coeff d"

definition canonical_decimal :: "decimal \<Rightarrow> string" where
  "canonical_decimal d =
     (if dec_coeff d = 0 then ''0''
      else if dec_integral d then (if dec_neg d then ''-'' else []) @
        nat_text (if dec_exp d \<ge> 0 then dec_coeff d * 10 ^ nat (dec_exp d) else dec_coeff d div 10 ^ nat (- dec_exp d))
      else rstrip_char (CHR ''0'') (format_f d))"

definition snapshot_row_payload :: "snap \<Rightarrow> dict" where
  "snapshot_row_payload r =
     [(''as_of'', JStr (sr_as_of r)), (''account'', JStr (sr_account r)), (''asset_id'', JStr (sr_asset_id r)),
      (''broker'', JStr (sr_broker r)), (''quantity'', JStr (canonical_decimal (sr_quantity r))),
      (''currency'', JStr (sr_currency r)), (''price'', JStr (canonical_decimal (sr_price r))),
      (''cny_price'', JStr (canonical_decimal (sr_cny_price r))),
      (''market_value_cny'', JStr (canonical_decimal (sr_market_value_cny r))), (''dedup_key'', JStr (sr_dedup_key r)),
      (''asset_name'', jopt (sr_asset_name r)), (''avg_cost'', jopt (map_option canonical_decimal (sr_avg_cost r))),
      (''source'', jopt (sr_source r)), (''remark'', jopt (sr_remark r))]"

type_synonym snap_key = "string \<times> string \<times> string \<times> string"

definition snapshot_business_key :: "snap \<Rightarrow> snap_key" where
  "snapshot_business_key r = (sr_as_of r, sr_account r, sr_asset_id r, sr_broker r)"

definition digest_payload :: "(string \<Rightarrow> string) \<Rightarrow> json \<Rightarrow> string" where
  "digest_payload sha v = sha (canonical_text v)"

definition payload_key :: "dict \<Rightarrow> string list" where
  "payload_key d = map (\<lambda>f. py_str (case dict_get f d of None \<Rightarrow> JNull | Some j \<Rightarrow> j))
     [''as_of'', ''account'', ''asset_id'', ''broker'']"

definition snapshot_digest :: "(string \<Rightarrow> string) \<Rightarrow> snap list \<Rightarrow> string" where
  "snapshot_digest sha rows = digest_payload sha (JObj
     [(''version'', JStr ''pm.holdings_snapshot.v2''),
      (''rows'', JArr (map JObj (sort_key payload_key (map snapshot_row_payload rows))))])"

definition comma_join :: "string list \<Rightarrow> string" where
  "comma_join names = (case names of [] \<Rightarrow> [] | n # ns \<Rightarrow> n @ concat (map (\<lambda>x. '', '' @ x) ns))"

definition snapshot_dedup_key :: "string \<Rightarrow> string \<Rightarrow> string \<Rightarrow> string \<Rightarrow> py_exn + string" where
  "snapshot_dedup_key account as_of broker asset_id =
     (let values = [(''account'', py_strip account), (''as_of'', py_strip as_of), (''asset_id'', py_strip asset_id),
          (''broker'', py_strip broker)];
          missing = filter (\<lambda>(name, v). v = []) values
      in if missing \<noteq> []
         then Inl (ValueError (''snapshot dedup key requires nonblank fields: '' @ comma_join (map fst missing)))
         else Inr (py_strip account @ '':'' @ py_strip as_of @ '':'' @ py_strip broker @ '':'' @ py_strip asset_id))"

definition assert_snapshot_scope :: "string \<Rightarrow> string \<Rightarrow> snap \<Rightarrow> py_exn + unit" where
  "assert_snapshot_scope account as_of r =
     (if sr_account r \<noteq> account \<or> sr_as_of r \<noteq> as_of
      then Inl (ValueError (''holdings snapshot row scope mismatch: expected='' @ account @ ''/'' @ as_of @
        '' actual='' @ sr_account r @ ''/'' @ sr_as_of r))
      else bind_result (snapshot_dedup_key account as_of (sr_broker r) (sr_asset_id r))
        (\<lambda>expected. if sr_dedup_key r \<noteq> expected
          then Inl (ValueError (''holdings snapshot dedup_key mismatch: expected='' @ expected @ '' actual='' @ sr_dedup_key r))
          else Inr ()))"

section \<open>The plan\<close>

record snap_plan =
  pn_account :: string
  pn_as_of :: string
  pn_target_digest :: string
  pn_before :: "snap list"
  pn_desired :: "snap list"

definition record_id_text :: "snap \<Rightarrow> string" where
  "record_id_text r = (case sr_record_id r of None \<Rightarrow> [] | Some t \<Rightarrow> t)"

definition validate_row :: "string \<Rightarrow> string \<Rightarrow> bool \<Rightarrow> string \<Rightarrow> snap \<Rightarrow> py_exn + unit" where
  "validate_row account as_of require_record_id label r =
     bind_result (assert_snapshot_scope account as_of r)
       (\<lambda>_. if require_record_id \<and> record_id_text r = []
         then Inl (ValueError (''snapshot plan '' @ label @ '' row requires record_id'')) else Inr ())"

definition validate_rows :: "string \<Rightarrow> string \<Rightarrow> bool \<Rightarrow> string \<Rightarrow> snap list \<Rightarrow> py_exn + unit" where
  "validate_rows account as_of require_record_id label rows =
     bind_result (each_tx (\<lambda>r _. validate_row account as_of require_record_id label r) rows ())
       (\<lambda>_. if \<not> distinct (map snapshot_business_key rows)
         then Inl (ValueError (''snapshot plan '' @ label @ '' set contains duplicate business keys''))
         else if \<not> distinct (filter (\<lambda>t. t \<noteq> []) (map record_id_text rows))
         then Inl (ValueError (''snapshot plan '' @ label @ '' set contains duplicate record_ids''))
         else Inr ())"

definition check_plan :: "snap_plan \<Rightarrow> py_exn + snap_plan" where
  "check_plan plan =
     (if py_strip (pn_account plan) = [] then Inl (ValueError ''snapshot_plan.account must be nonblank'')
      else case date_fromisoformat (pn_as_of plan) of
          Inl e \<Rightarrow> Inl (ValueError ''snapshot_plan.as_of must be YYYY-MM-DD'')
        | Inr d \<Rightarrow>
            if length (pn_target_digest plan) \<noteq> 64
            then Inl (ValueError ''snapshot plan target_digest must be a sha256 digest'')
            else bind_result (validate_rows (pn_account plan) (pn_as_of plan) True ''before'' (pn_before plan))
              (\<lambda>_. bind_result (validate_rows (pn_account plan) (pn_as_of plan) False ''desired'' (pn_desired plan))
                (\<lambda>_. Inr plan)))"

definition build_plan :: "string \<Rightarrow> string \<Rightarrow> string \<Rightarrow> snap list \<Rightarrow> snap list \<Rightarrow> py_exn + snap_plan" where
  "build_plan account as_of target_digest before desired =
     (let order = sort_key (\<lambda>r. (snapshot_business_key r, record_id_text r))
      in check_plan \<lparr>pn_account = account, pn_as_of = as_of, pn_target_digest = target_digest,
           pn_before = order before, pn_desired = order desired\<rparr>)"

definition row_digest :: "(string \<Rightarrow> string) \<Rightarrow> snap_plan \<Rightarrow> string" where
  "row_digest sha plan = snapshot_digest sha (pn_desired plan)"

definition plan_payload :: "(string \<Rightarrow> string) \<Rightarrow> snap_plan \<Rightarrow> json" where
  "plan_payload sha plan = JObj
     [(''contract_version'', JStr ''pm.holdings_snapshot.exact_set.v1''), (''account'', JStr (pn_account plan)),
      (''as_of'', JStr (pn_as_of plan)), (''target_digest'', JStr (pn_target_digest plan)),
      (''row_digest'', JStr (row_digest sha plan)),
      (''before'', JArr (map (\<lambda>r. JObj ((''record_id'', if record_id_text r = [] then JNull else JStr (record_id_text r)) #
         snapshot_row_payload r)) (pn_before plan))),
      (''desired'', JArr (map (\<lambda>r. JObj (snapshot_row_payload r)) (pn_desired plan)))]"

definition plan_digest :: "(string \<Rightarrow> string) \<Rightarrow> snap_plan \<Rightarrow> string" where
  "plan_digest sha plan = digest_payload sha (plan_payload sha plan)"

section \<open>Residual actions\<close>

text \<open>What the two loops of \<open>residual_actions\<close> decide for one business key.\<close>

datatype snap_step = StepCreate snap | StepUpdate string snap | StepDelete string | StepKeep

definition row_by_key :: "snap_key \<Rightarrow> snap list \<Rightarrow> snap option" where
  "row_by_key k rows = row_of snapshot_business_key k rows"

definition key_text :: "snap_key \<Rightarrow> string" where
  "key_text k = (case k of (a, b, c, d) \<Rightarrow> ''('' @ a @ '', '' @ b @ '', '' @ c @ '', '' @ d @ '')'')"

definition desired_step :: "snap option \<Rightarrow> snap option \<Rightarrow> snap_key \<Rightarrow> snap \<Rightarrow> py_exn + snap_step" where
  "desired_step before current k desired = (case current of
      None \<Rightarrow> if before \<noteq> None
        then Inl (ValueError (''bound snapshot row disappeared before target completion: '' @ key_text k))
        else Inr (StepCreate desired)
    | Some c \<Rightarrow>
        let cp = snapshot_row_payload c; dp = snapshot_row_payload desired;
            refusal = (case before of
                Some b \<Rightarrow>
                  if sr_record_id c \<noteq> sr_record_id b then Some (''bound snapshot record_id changed: '' @ key_text k)
                  else if cp \<noteq> snapshot_row_payload b \<and> cp \<noteq> dp
                  then Some (''bound snapshot row matches neither before nor target: '' @ key_text k) else None
              | None \<Rightarrow> if cp \<noteq> dp then Some (''new snapshot row does not match the bound target: '' @ key_text k) else None)
        in case refusal of
            Some m \<Rightarrow> Inl (ValueError m)
          | None \<Rightarrow> Inr (if cp = dp then StepKeep else StepUpdate (record_id_text c) desired))"

definition obsolete_step :: "snap \<Rightarrow> snap option \<Rightarrow> snap_key \<Rightarrow> py_exn + snap_step" where
  "obsolete_step before current k = (case current of
      None \<Rightarrow> Inr StepKeep
    | Some c \<Rightarrow> if sr_record_id c \<noteq> sr_record_id before \<or> snapshot_row_payload c \<noteq> snapshot_row_payload before
        then Inl (ValueError (''obsolete snapshot row changed before deletion: '' @ key_text k))
        else Inr (StepDelete (record_id_text c)))"

record snap_actions =
  ac_creates :: "snap list"
  ac_updates :: "(string \<times> snap) list"
  ac_deletes :: "string list"
  ac_unchanged :: nat

definition actions_of :: "snap_step list \<Rightarrow> snap_actions" where
  "actions_of steps =
     \<lparr>ac_creates = concat (map (\<lambda>st. case st of StepCreate r \<Rightarrow> [r] | _ \<Rightarrow> []) steps),
      ac_updates = concat (map (\<lambda>st. case st of StepUpdate i r \<Rightarrow> [(i, r)] | _ \<Rightarrow> []) steps),
      ac_deletes = concat (map (\<lambda>st. case st of StepDelete i \<Rightarrow> [i] | _ \<Rightarrow> []) steps),
      ac_unchanged = length (filter (\<lambda>st. st = StepKeep) steps)\<rparr>"

definition residual_step :: "snap_plan \<Rightarrow> snap list \<Rightarrow> snap_key \<Rightarrow> py_exn + snap_step" where
  "residual_step plan current k = (case row_by_key k (pn_desired plan) of
      Some d \<Rightarrow> desired_step (row_by_key k (pn_before plan)) (row_by_key k current) k d
    | None \<Rightarrow> (case row_by_key k (pn_before plan) of
          Some b \<Rightarrow> obsolete_step b (row_by_key k current) k
        | None \<Rightarrow> Inr StepKeep))"

text \<open>The keys in the order of the two loops: the desired ones, then the obsolete ones, each sorted.\<close>

definition plan_keys :: "snap_plan \<Rightarrow> snap_key list" where
  "plan_keys plan = (let desired = map snapshot_business_key (pn_desired plan) in
     sort desired @ sort (filter (\<lambda>k. k \<notin> set desired) (map snapshot_business_key (pn_before plan))))"

definition residual_actions :: "snap_plan \<Rightarrow> snap list \<Rightarrow> py_exn + snap_actions" where
  "residual_actions plan current =
     bind_result (validate_rows (pn_account plan) (pn_as_of plan) True ''current'' current)
       (\<lambda>_. if \<not> list_all (\<lambda>r. snapshot_business_key r \<in> set (plan_keys plan)) current
         then Inl (ValueError ''snapshot remote set contains unbound keys'')
         else bind_result (map_result (residual_step plan current) (plan_keys plan))
           (\<lambda>steps. Inr (actions_of steps)))"

definition mutation_count :: "snap_actions \<Rightarrow> nat" where
  "mutation_count a = length (ac_creates a) + length (ac_updates a) + length (ac_deletes a)"

section \<open>Authority\<close>

record write_authority =
  au_account :: string
  au_as_of :: string
  au_run_id :: string
  au_issuer :: string
  au_overwrite_existing :: bool
  au_confirmed :: bool
  au_target_digest :: string

record bound_authority = write_authority +
  ba_plan_digest :: string
  ba_authority_digest :: string

definition authority_digest :: "(string \<Rightarrow> string) \<Rightarrow> 'a write_authority_scheme \<Rightarrow> string" where
  "authority_digest sha a = digest_payload sha (JObj
     [(''contract_version'', JStr ''pm.holdings_snapshot.write_authority.v1''), (''account'', JStr (au_account a)),
      (''as_of'', JStr (au_as_of a)), (''run_id'', JStr (au_run_id a)), (''issuer'', JStr (au_issuer a)),
      (''overwrite_existing'', JBool (au_overwrite_existing a)), (''confirmed'', JBool (au_confirmed a)),
      (''target_digest'', JStr (au_target_digest a))])"

definition nonblank_fields :: "'a write_authority_scheme \<Rightarrow> py_exn + unit" where
  "nonblank_fields a = each_tx (\<lambda>(name, v) _. if py_strip v = []
       then Inl (ValueError (''snapshot_authority.'' @ name @ '' must be nonblank'')) else Inr ())
     [(''account'', au_account a), (''as_of'', au_as_of a), (''run_id'', au_run_id a), (''issuer'', au_issuer a)] ()"

definition check_authority :: "write_authority \<Rightarrow> py_exn + write_authority" where
  "check_authority a = bind_result (nonblank_fields a)
     (\<lambda>_. case date_fromisoformat (au_as_of a) of
        Inl e \<Rightarrow> Inl (ValueError ''snapshot_authority.as_of must be YYYY-MM-DD'')
      | Inr d \<Rightarrow> if length (au_target_digest a) \<noteq> 64
          then Inl (ValueError ''snapshot authority target_digest must be a sha256 digest'') else Inr a)"

definition check_bound :: "(string \<Rightarrow> string) \<Rightarrow> bound_authority \<Rightarrow> py_exn + bound_authority" where
  "check_bound sha b = bind_result (nonblank_fields b)
     (\<lambda>_. if length (au_target_digest b) \<noteq> 64 \<or> length (ba_plan_digest b) \<noteq> 64
       then Inl (ValueError ''snapshot authority digests must be sha256 digests'')
       else if ba_authority_digest b \<noteq> authority_digest sha b
       then Inl (ValueError ''snapshot authority digest mismatch'') else Inr b)"

definition bind_authority :: "(string \<Rightarrow> string) \<Rightarrow> write_authority \<Rightarrow> snap_plan \<Rightarrow> bool \<Rightarrow> py_exn + bound_authority" where
  "bind_authority sha a plan require_confirm =
     (if au_account a \<noteq> pn_account plan \<or> au_as_of a \<noteq> pn_as_of plan \<or> au_target_digest a \<noteq> pn_target_digest plan
      then Inl (ValueError ''snapshot write authority scope/digest mismatch'')
      else if require_confirm \<and> \<not> au_confirmed a
      then Inl (PermissionError ''snapshot write requires confirmed authority'')
      else if pn_before plan \<noteq> [] \<and> \<not> au_overwrite_existing a
      then Inl (PermissionError ''holdings_snapshot slice already exists; overwrite_existing=True required'')
      else check_bound sha (write_authority.extend a (bound_authority.fields (plan_digest sha plan) (authority_digest sha a))))"

definition assert_matches :: "(string \<Rightarrow> string) \<Rightarrow> bound_authority \<Rightarrow> snap_plan \<Rightarrow> py_exn + unit" where
  "assert_matches sha b plan =
     (if au_account b \<noteq> pn_account plan \<or> au_as_of b \<noteq> pn_as_of plan \<or>
         au_target_digest b \<noteq> pn_target_digest plan \<or> ba_plan_digest b \<noteq> plan_digest sha plan
      then Inl (ValueError ''snapshot authority scope/digest does not match the prepared plan'') else Inr ())"

section \<open>The remote table\<close>

definition list_holding_snapshots_fresh :: "string \<Rightarrow> string \<Rightarrow> snap list \<Rightarrow> snap list" where
  "list_holding_snapshots_fresh account as_of t =
     sort_key (\<lambda>r. (snapshot_business_key r, record_id_text r))
       (filter (\<lambda>r. sr_account r = account \<and> sr_as_of r = as_of) t)"

definition changed_field :: "snap \<Rightarrow> snap \<Rightarrow> string \<Rightarrow> bool" where
  "changed_field current desired f \<longleftrightarrow>
     dict_get f (snapshot_row_payload current) \<noteq> dict_get f (snapshot_row_payload desired)"

definition patched_row :: "snap \<Rightarrow> snap \<Rightarrow> snap \<Rightarrow> snap" where
  "patched_row current desired r =
     (let ch = changed_field current desired
      in \<lparr>sr_record_id = sr_record_id r,
          sr_as_of = (if ch ''as_of'' then sr_as_of desired else sr_as_of r),
          sr_account = (if ch ''account'' then sr_account desired else sr_account r),
          sr_asset_id = (if ch ''asset_id'' then sr_asset_id desired else sr_asset_id r),
          sr_broker = (if ch ''broker'' then sr_broker desired else sr_broker r),
          sr_quantity = (if ch ''quantity'' then sr_quantity desired else sr_quantity r),
          sr_currency = (if ch ''currency'' then sr_currency desired else sr_currency r),
          sr_price = (if ch ''price'' then sr_price desired else sr_price r),
          sr_cny_price = (if ch ''cny_price'' then sr_cny_price desired else sr_cny_price r),
          sr_market_value_cny = (if ch ''market_value_cny'' then sr_market_value_cny desired else sr_market_value_cny r),
          sr_dedup_key = (if ch ''dedup_key'' then sr_dedup_key desired else sr_dedup_key r),
          sr_asset_name = (if ch ''asset_name'' then sr_asset_name desired else sr_asset_name r),
          sr_avg_cost = (if ch ''avg_cost'' then sr_avg_cost desired else sr_avg_cost r),
          sr_source = (if ch ''source'' then sr_source desired else sr_source r),
          sr_remark = (if ch ''remark'' then sr_remark desired else sr_remark r)\<rparr>)"

definition row_with_id :: "string \<Rightarrow> snap list \<Rightarrow> snap option" where
  "row_with_id i rows = row_of sr_record_id (Some i) rows"

definition patch_for :: "snap list \<Rightarrow> (string \<times> snap) list \<Rightarrow> snap \<Rightarrow> snap" where
  "patch_for current updates r = (case sr_record_id r of
      None \<Rightarrow> r
    | Some i \<Rightarrow> (case map_of updates i of
          None \<Rightarrow> r
        | Some desired \<Rightarrow> (case row_with_id i current of None \<Rightarrow> r | Some c \<Rightarrow> patched_row c desired r)))"

definition created_rows :: "string list \<Rightarrow> snap list \<Rightarrow> snap list" where
  "created_rows ids rows = map2 (\<lambda>i r. r\<lparr>sr_record_id := Some i\<rparr>) ids rows"

record snap_result =
  sres_dry_run :: bool
  sres_created :: nat
  sres_updated :: nat
  sres_deleted :: nat
  sres_unchanged :: nat
  sres_verified :: bool

text \<open>
  The three batch calls of the table client (\<open>batch_create_records\<close>, \<open>batch_update_records\<close> and
  \<open>batch_delete_records\<close> of \<open>feishu_client.py\<close>), and the fresh reads, each of which may fail. A batch call
  goes out in chunks, and a chunk whose answer is lost or malformed raises \<open>FeishuBatchWriteError\<close>
  whatever the remote side did with it: a failed call leaves any part of its rows written
  (\<open>CreateFails\<close>, \<open>UpdateFails\<close>, \<open>DeleteFails\<close> with that part) and raises. A fresh read may raise, before
  the write (\<open>ReadFails\<close>) or after it (\<open>ReadbackFails\<close>), and the read after the write may show other
  rows than the table has (\<open>ReadbackShows\<close>). A call that answers, answers for every requested row, as
  the client checks; the record ids it gives are \<open>ids\<close>. The fields travel unchanged: \<open>feishu_storage.py\<close>
  quantises no number of this table, and a missing optional field reads back as \<open>None\<close>.
\<close>

datatype remote_fault =
    NoFault
  | ReadFails py_exn
  | CreateFails "snap list" py_exn
  | UpdateFails "(string \<times> snap) list" py_exn
  | DeleteFails "string list" py_exn
  | ReadbackFails py_exn
  | ReadbackShows "snap list"

definition batch_create_records ::
    "remote_fault \<Rightarrow> string list \<Rightarrow> snap list \<Rightarrow> snap list \<Rightarrow> (py_exn + nat) \<times> snap list" where
  "batch_create_records f ids rows t =
     (if rows = [] then (Inr 0, t)
      else case f of
          CreateFails written e \<Rightarrow> (Inl e, t @ created_rows ids (filter (\<lambda>r. r \<in> set written) rows))
        | _ \<Rightarrow> (Inr (length rows), t @ created_rows ids rows))"

definition batch_update_records ::
    "remote_fault \<Rightarrow> snap list \<Rightarrow> (string \<times> snap) list \<Rightarrow> snap list \<Rightarrow> (py_exn + nat) \<times> snap list" where
  "batch_update_records f current rows t =
     (if rows = [] then (Inr 0, t)
      else if [] \<in> fst ` set rows \<or> \<not> distinct (map fst rows)
      then (Inl (ValueError ''batch update requires unique non-empty record_id values''), t)
      else case f of
          UpdateFails written e \<Rightarrow> (Inl e, map (patch_for current (filter (\<lambda>r. r \<in> set written) rows)) t)
        | _ \<Rightarrow> (Inr (length rows), map (patch_for current rows) t))"

definition batch_delete_records ::
    "remote_fault \<Rightarrow> string list \<Rightarrow> snap list \<Rightarrow> (py_exn + nat) \<times> snap list" where
  "batch_delete_records f ids t =
     (if ids = [] then (Inr 0, t)
      else case f of
          DeleteFails written e \<Rightarrow>
            (Inl e, filter (\<lambda>r. sr_record_id r \<notin> Some ` set (filter (\<lambda>i. i \<in> set written) ids)) t)
        | _ \<Rightarrow> (Inr (length ids), filter (\<lambda>r. sr_record_id r \<notin> Some ` set ids) t))"

text \<open>
  A dry run reports the counts and leaves the table alone; updates without a changed field are left
  out. The calls go out one after the other, and the first that fails ends the run.
\<close>

definition apply_holding_snapshot_actions ::
    "remote_fault \<Rightarrow> string list \<Rightarrow> snap_actions \<Rightarrow> snap list \<Rightarrow> bool \<Rightarrow> snap list \<Rightarrow> (py_exn + snap_result) \<times> snap list" where
  "apply_holding_snapshot_actions f ids acts current dry_run t =
     (case find (\<lambda>(i, d). row_with_id i current = None) (ac_updates acts) of
        Some (i, d) \<Rightarrow> (Inl (ValueError (''snapshot update record missing from fresh base: '' @ i)), t)
      | None \<Rightarrow>
          let updates = filter (\<lambda>(i, d). snapshot_row_payload (the (row_with_id i current)) \<noteq> snapshot_row_payload d)
                (ac_updates acts)
          in if dry_run
             then (Inr \<lparr>sres_dry_run = True, sres_created = length (ac_creates acts), sres_updated = length updates,
               sres_deleted = length (ac_deletes acts), sres_unchanged = ac_unchanged acts, sres_verified = False\<rparr>, t)
             else case batch_create_records f ids (ac_creates acts) t of
                 (Inl e, t1) \<Rightarrow> (Inl e, t1)
               | (Inr created, t1) \<Rightarrow> (case batch_update_records f current updates t1 of
                   (Inl e, t2) \<Rightarrow> (Inl e, t2)
                 | (Inr updated, t2) \<Rightarrow> (case batch_delete_records f (ac_deletes acts) t2 of
                     (Inl e, t3) \<Rightarrow> (Inl e, t3)
                   | (Inr deleted, t3) \<Rightarrow>
                       (Inr \<lparr>sres_dry_run = False, sres_created = created, sres_updated = updated, sres_deleted = deleted,
                          sres_unchanged = ac_unchanged acts, sres_verified = False\<rparr>, t3))))"

definition assert_exact_readback :: "(string \<Rightarrow> string) \<Rightarrow> snap_plan \<Rightarrow> snap list \<Rightarrow> py_exn + unit" where
  "assert_exact_readback sha plan rows = bind_result (residual_actions plan rows)
     (\<lambda>acts. if mutation_count acts \<noteq> 0
       then Inl (RuntimeError ''holdings_snapshot fresh readback does not equal exact target set'')
       else if set (map (\<lambda>r. (snapshot_business_key r, snapshot_row_payload r)) rows) \<noteq>
               set (map (\<lambda>r. (snapshot_business_key r, snapshot_row_payload r)) (pn_desired plan)) \<or>
               snapshot_digest sha rows \<noteq> row_digest sha plan
       then Inl (RuntimeError ''holdings_snapshot v2 digest/readback verification failed'') else Inr ())"

definition fresh_read :: "remote_fault \<Rightarrow> string \<Rightarrow> string \<Rightarrow> snap list \<Rightarrow> py_exn + snap list" where
  "fresh_read f account as_of t = (case f of
      ReadFails e \<Rightarrow> Inl e | _ \<Rightarrow> Inr (list_holding_snapshots_fresh account as_of t))"

definition readback :: "remote_fault \<Rightarrow> string \<Rightarrow> string \<Rightarrow> snap list \<Rightarrow> py_exn + snap list" where
  "readback f account as_of t = (case f of
      ReadbackFails e \<Rightarrow> Inl e
    | ReadbackShows rows \<Rightarrow> Inr (list_holding_snapshots_fresh account as_of rows)
    | _ \<Rightarrow> Inr (list_holding_snapshots_fresh account as_of t))"

definition apply_exact_set ::
    "remote_fault \<Rightarrow> (string \<Rightarrow> string) \<Rightarrow> string list \<Rightarrow> snap_plan \<Rightarrow> bound_authority \<Rightarrow> bool \<Rightarrow> snap list \<Rightarrow>
     (py_exn + snap_result) \<times> snap list" where
  "apply_exact_set f sha ids plan b dry_run t =
     (case bind_result (assert_matches sha b plan)
        (\<lambda>_. if \<not> dry_run \<and> \<not> au_confirmed b
          then Inl (PermissionError ''snapshot exact-set write requires confirmation'')
          else bind_result (fresh_read f (pn_account plan) (pn_as_of plan) t)
            (\<lambda>current. bind_result (residual_actions plan current) (\<lambda>acts. Inr (current, acts)))) of
        Inl e \<Rightarrow> (Inl e, t)
      | Inr (current, acts) \<Rightarrow> (case apply_holding_snapshot_actions f ids acts current dry_run t of
          (Inl e, t1) \<Rightarrow> (Inl e, t1)
        | (Inr result, t1) \<Rightarrow>
            if dry_run then (Inr result, t1)
            else case bind_result (readback f (pn_account plan) (pn_as_of plan) t1) (assert_exact_readback sha plan) of
                Inl e \<Rightarrow> (Inl e, t1)
              | Inr _ \<Rightarrow> (Inr (result\<lparr>sres_verified := True\<rparr>), t1)))"

text \<open>\<open>batch_upsert_holding_snapshots\<close>: the same plan, without its deletions.\<close>

definition batch_upsert_holding_snapshots ::
    "remote_fault \<Rightarrow> string list \<Rightarrow> snap list \<Rightarrow> bool \<Rightarrow> snap list \<Rightarrow> (py_exn + snap_result) \<times> snap list" where
  "batch_upsert_holding_snapshots f ids snapshots dry_run t = (case snapshots of
      [] \<Rightarrow> (Inr \<lparr>sres_dry_run = dry_run, sres_created = 0, sres_updated = 0, sres_deleted = 0, sres_unchanged = 0,
        sres_verified = False\<rparr>, t)
    | r # _ \<Rightarrow>
        case bind_result (fresh_read f (sr_account r) (sr_as_of r) t)
          (\<lambda>current. bind_result (build_plan (sr_account r) (sr_as_of r) (replicate 64 (CHR ''0'')) current snapshots)
            (\<lambda>plan. bind_result (residual_actions plan current) (\<lambda>acts. Inr (current, acts)))) of
          Inl e \<Rightarrow> (Inl e, t)
        | Inr (current, acts) \<Rightarrow> apply_holding_snapshot_actions f ids (acts\<lparr>ac_deletes := []\<rparr>) current dry_run t)"

section \<open>Lemmas: validation and steps\<close>

lemma each_tx_unit: "each_tx (\<lambda>r _. f r) rows () = Inr () \<longleftrightarrow> (\<forall>r \<in> set rows. f r = Inr ())"
  by (induction rows) (auto simp: bind_result_Inr)

lemma validate_rows_ok:
  "validate_rows account as_of need label rows = Inr () \<longleftrightarrow>
     (\<forall>r \<in> set rows. validate_row account as_of need label r = Inr ()) \<and>
     distinct (map snapshot_business_key rows) \<and> distinct (filter (\<lambda>t. t \<noteq> []) (map record_id_text rows))"
  by (auto simp: validate_rows_def bind_result_Inr each_tx_unit)

definition valid_slice :: "snap_plan \<Rightarrow> snap list \<Rightarrow> bool" where
  "valid_slice plan current \<longleftrightarrow>
     validate_rows (pn_account plan) (pn_as_of plan) True ''current'' current = Inr () \<and>
     (\<forall>r \<in> set current. snapshot_business_key r \<in> set (plan_keys plan))"

lemma residual_Inr:
  "residual_actions plan current = Inr acts \<longleftrightarrow> valid_slice plan current \<and>
     (\<exists>steps. list_all2 (\<lambda>k st. residual_step plan current k = Inr st) (plan_keys plan) steps \<and> acts = actions_of steps)"
  by (auto simp: residual_actions_def valid_slice_def bind_result_Inr map_result_Inr list_all_iff)

lemma in_creates: "r \<in> set (ac_creates (actions_of steps)) \<longleftrightarrow> StepCreate r \<in> set steps"
  by (force simp: actions_of_def split: snap_step.splits)

lemma in_updates: "(i, r) \<in> set (ac_updates (actions_of steps)) \<longleftrightarrow> StepUpdate i r \<in> set steps"
  by (force simp: actions_of_def split: snap_step.splits)

lemma in_deletes: "i \<in> set (ac_deletes (actions_of steps)) \<longleftrightarrow> StepDelete i \<in> set steps"
  by (force simp: actions_of_def split: snap_step.splits)

definition in_scope :: "snap_plan \<Rightarrow> snap \<Rightarrow> bool" where
  "in_scope plan r \<longleftrightarrow> sr_account r = pn_account plan \<and> sr_as_of r = pn_as_of plan"

definition slice :: "snap_plan \<Rightarrow> snap list \<Rightarrow> snap list" where
  "slice plan t = list_holding_snapshots_fresh (pn_account plan) (pn_as_of plan) t"

lemma in_slice: "r \<in> set (slice plan t) \<longleftrightarrow> r \<in> set t \<and> in_scope plan r"
  by (auto simp: slice_def list_holding_snapshots_fresh_def in_scope_def)

lemma mset_slice: "mset (slice plan t) = mset (filter (in_scope plan) t)"
  by (simp add: slice_def list_holding_snapshots_fresh_def in_scope_def [abs_def])

lemma distinct_slice: "distinct (map f (slice plan t)) \<longleftrightarrow> distinct (map f (filter (in_scope plan) t))"
  by (rule mset_eq_imp_distinct_iff) (simp add: mset_slice)

text \<open>The plan: what its validation gives.\<close>

definition plan_ok :: "snap_plan \<Rightarrow> bool" where
  "plan_ok plan \<longleftrightarrow> check_plan plan = Inr plan"

lemma plan_ok_rows:
  assumes "plan_ok plan"
  shows "unique_keys snapshot_business_key (pn_before plan)" "unique_keys snapshot_business_key (pn_desired plan)"
    and "r \<in> set (pn_before plan) \<Longrightarrow> in_scope plan r \<and> record_id_text r \<noteq> []"
    and "r \<in> set (pn_desired plan) \<Longrightarrow> validate_row (pn_account plan) (pn_as_of plan) False ''desired'' r = Inr ()"
proof -
  from assms have "validate_rows (pn_account plan) (pn_as_of plan) True ''before'' (pn_before plan) = Inr ()"
    "validate_rows (pn_account plan) (pn_as_of plan) False ''desired'' (pn_desired plan) = Inr ()"
    by (auto simp: plan_ok_def check_plan_def bind_result_Inr split: if_splits sum.splits)
  then show "unique_keys snapshot_business_key (pn_before plan)" "unique_keys snapshot_business_key (pn_desired plan)"
    "r \<in> set (pn_before plan) \<Longrightarrow> in_scope plan r \<and> record_id_text r \<noteq> []"
    "r \<in> set (pn_desired plan) \<Longrightarrow> validate_row (pn_account plan) (pn_as_of plan) False ''desired'' r = Inr ()"
    by (auto simp: validate_rows_ok unique_keys_def validate_row_def bind_result_Inr assert_snapshot_scope_def in_scope_def
        split: if_splits)
qed

lemma plan_keys_distinct:
  assumes "plan_ok plan"
  shows "distinct (plan_keys plan)"
  using plan_ok_rows(1,2) [OF assms] by (auto simp: plan_keys_def Let_def unique_keys_def)

lemma set_plan_keys:
  "set (plan_keys plan) = snapshot_business_key ` set (pn_desired plan) \<union> snapshot_business_key ` set (pn_before plan)"
  by (auto simp: plan_keys_def Let_def)

lemma step_create:
  "residual_step plan current k = Inr (StepCreate r) \<longleftrightarrow>
     row_by_key k (pn_desired plan) = Some r \<and> row_by_key k current = None \<and> row_by_key k (pn_before plan) = None"
  by (auto simp: residual_step_def desired_step_def obsolete_step_def Let_def split: option.splits if_splits)

lemma step_update:
  "residual_step plan current k = Inr (StepUpdate i r) \<longleftrightarrow> row_by_key k (pn_desired plan) = Some r \<and>
     (\<exists>c b. row_by_key k current = Some c \<and> row_by_key k (pn_before plan) = Some b \<and> sr_record_id c = sr_record_id b \<and>
        snapshot_row_payload c = snapshot_row_payload b \<and> snapshot_row_payload c \<noteq> snapshot_row_payload r \<and>
        i = record_id_text c)"
  by (auto simp: residual_step_def desired_step_def obsolete_step_def Let_def split: option.splits if_splits)

lemma step_delete:
  "residual_step plan current k = Inr (StepDelete i) \<longleftrightarrow> row_by_key k (pn_desired plan) = None \<and>
     (\<exists>c b. row_by_key k current = Some c \<and> row_by_key k (pn_before plan) = Some b \<and> sr_record_id c = sr_record_id b \<and>
        snapshot_row_payload c = snapshot_row_payload b \<and> i = record_id_text c)"
  by (auto simp: residual_step_def desired_step_def obsolete_step_def Let_def split: option.splits if_splits)

lemma step_keep:
  "residual_step plan current k = Inr StepKeep \<longleftrightarrow>
     (case row_by_key k (pn_desired plan) of
        Some r \<Rightarrow> (\<exists>c. row_by_key k current = Some c \<and> snapshot_row_payload c = snapshot_row_payload r \<and>
          (\<forall>b. row_by_key k (pn_before plan) = Some b \<longrightarrow> sr_record_id c = sr_record_id b))
      | None \<Rightarrow> row_by_key k current = None \<or> row_by_key k (pn_before plan) = None)"
  by (auto simp: residual_step_def desired_step_def obsolete_step_def Let_def split: option.splits if_splits)

text \<open>The payload determines the fields, the key among them; a patched row has the payload it was patched to.\<close>

lemma payload_key_fields:
  assumes "snapshot_row_payload a = snapshot_row_payload b"
  shows "snapshot_business_key a = snapshot_business_key b" "sr_dedup_key a = sr_dedup_key b"
  using assms by (simp_all add: snapshot_row_payload_def snapshot_business_key_def)

lemma validate_row_payload:
  assumes "snapshot_row_payload a = snapshot_row_payload b"
  shows "validate_row ac ao False l a = Inr () \<longleftrightarrow> validate_row ac ao False l' b = Inr ()"
  using payload_key_fields [OF assms]
  by (auto simp: validate_row_def bind_result_Inr assert_snapshot_scope_def snapshot_business_key_def split: if_splits)

lemma validate_row_with_id:
  "validate_row ac ao True l r = Inr () \<longleftrightarrow> validate_row ac ao False l' r = Inr () \<and> record_id_text r \<noteq> []"
  by (auto simp: validate_row_def bind_result_Inr assert_snapshot_scope_def split: if_splits)

lemma jopt_inject [simp]: "jopt a = jopt b \<longleftrightarrow> a = b"
  by (auto simp: jopt_def split: option.splits)

lemma changed_field_iff:
  "changed_field c d ''as_of'' \<longleftrightarrow> sr_as_of c \<noteq> sr_as_of d"
  "changed_field c d ''account'' \<longleftrightarrow> sr_account c \<noteq> sr_account d"
  "changed_field c d ''asset_id'' \<longleftrightarrow> sr_asset_id c \<noteq> sr_asset_id d"
  "changed_field c d ''broker'' \<longleftrightarrow> sr_broker c \<noteq> sr_broker d"
  "changed_field c d ''currency'' \<longleftrightarrow> sr_currency c \<noteq> sr_currency d"
  "changed_field c d ''dedup_key'' \<longleftrightarrow> sr_dedup_key c \<noteq> sr_dedup_key d"
  "changed_field c d ''asset_name'' \<longleftrightarrow> sr_asset_name c \<noteq> sr_asset_name d"
  "changed_field c d ''source'' \<longleftrightarrow> sr_source c \<noteq> sr_source d"
  "changed_field c d ''remark'' \<longleftrightarrow> sr_remark c \<noteq> sr_remark d"
  "changed_field c d ''quantity'' \<longleftrightarrow> canonical_decimal (sr_quantity c) \<noteq> canonical_decimal (sr_quantity d)"
  "changed_field c d ''price'' \<longleftrightarrow> canonical_decimal (sr_price c) \<noteq> canonical_decimal (sr_price d)"
  "changed_field c d ''cny_price'' \<longleftrightarrow> canonical_decimal (sr_cny_price c) \<noteq> canonical_decimal (sr_cny_price d)"
  "changed_field c d ''market_value_cny'' \<longleftrightarrow> canonical_decimal (sr_market_value_cny c) \<noteq> canonical_decimal (sr_market_value_cny d)"
  "changed_field c d ''avg_cost'' \<longleftrightarrow> map_option canonical_decimal (sr_avg_cost c) \<noteq> map_option canonical_decimal (sr_avg_cost d)"
  by (simp_all add: changed_field_def snapshot_row_payload_def dict_get_def)

lemma patched_fields:
  "sr_as_of (patched_row c d c) = sr_as_of d"
  "sr_account (patched_row c d c) = sr_account d"
  "sr_asset_id (patched_row c d c) = sr_asset_id d"
  "sr_broker (patched_row c d c) = sr_broker d"
  "sr_currency (patched_row c d c) = sr_currency d"
  "sr_dedup_key (patched_row c d c) = sr_dedup_key d"
  "sr_asset_name (patched_row c d c) = sr_asset_name d"
  "sr_source (patched_row c d c) = sr_source d"
  "sr_remark (patched_row c d c) = sr_remark d"
  "canonical_decimal (sr_quantity (patched_row c d c)) = canonical_decimal (sr_quantity d)"
  "canonical_decimal (sr_price (patched_row c d c)) = canonical_decimal (sr_price d)"
  "canonical_decimal (sr_cny_price (patched_row c d c)) = canonical_decimal (sr_cny_price d)"
  "canonical_decimal (sr_market_value_cny (patched_row c d c)) = canonical_decimal (sr_market_value_cny d)"
  "map_option canonical_decimal (sr_avg_cost (patched_row c d c)) = map_option canonical_decimal (sr_avg_cost d)"
  by (simp_all only: patched_row_def Let_def snap.simps changed_field_iff) (simp_all split: if_splits)

lemma patched_payload: "snapshot_row_payload (patched_row c d c) = snapshot_row_payload d"
  by (simp add: snapshot_row_payload_def patched_fields)

lemma patched_id [simp]: "sr_record_id (patched_row c d r) = sr_record_id r"
  by (simp add: patched_row_def Let_def)

lemma scope_of_key:
  "snapshot_business_key a = snapshot_business_key b \<Longrightarrow> in_scope plan a \<longleftrightarrow> in_scope plan b"
  by (auto simp: in_scope_def snapshot_business_key_def)

definition table_ok :: "snap list \<Rightarrow> bool" where
  "table_ok t \<longleftrightarrow> list_all (\<lambda>r. record_id_text r \<noteq> []) t \<and> unique_keys sr_record_id t"

text \<open>What the three calls leave when they have written these rows.\<close>

definition apply_batches ::
    "snap list \<Rightarrow> string list \<Rightarrow> snap list \<Rightarrow> (string \<times> snap) list \<Rightarrow> string list \<Rightarrow> snap list \<Rightarrow> snap list" where
  "apply_batches current ids creates updates deletes t =
     filter (\<lambda>r. sr_record_id r \<notin> Some ` set deletes) (map (patch_for current updates) (t @ created_rows ids creates))"

text \<open>
  A run that was interrupted: of the planned actions, \<open>c\<close>, \<open>u\<close> and \<open>d\<close> have reached the table, the
  created rows under the record ids \<open>ids\<close>.
\<close>

definition interrupted ::
    "snap_plan \<Rightarrow> snap list \<Rightarrow> snap_actions \<Rightarrow> string list \<Rightarrow> snap list \<Rightarrow> (string \<times> snap) list \<Rightarrow> string list \<Rightarrow> bool" where
  "interrupted plan t acts ids c u d \<longleftrightarrow> plan_ok plan \<and> table_ok t \<and>
     residual_actions plan (slice plan t) = Inr acts \<and> distinct c \<and> set c \<subseteq> set (ac_creates acts) \<and>
     set u \<subseteq> set (ac_updates acts) \<and> set d \<subseteq> set (ac_deletes acts) \<and> length ids = length c \<and> distinct ids \<and>
     [] \<notin> set ids \<and> Some ` set ids \<inter> sr_record_id ` set t = {}"

definition after_run :: "snap_plan \<Rightarrow> snap list \<Rightarrow> string list \<Rightarrow> snap list \<Rightarrow> (string \<times> snap) list \<Rightarrow> string list \<Rightarrow> snap list" where
  "after_run plan t ids c u d = apply_batches (slice plan t) ids c u d t"

lemma valid_slice_facts:
  assumes "valid_slice plan (slice plan t)"
  shows "unique_keys snapshot_business_key (slice plan t)"
    and "r \<in> set (slice plan t) \<Longrightarrow> validate_row (pn_account plan) (pn_as_of plan) True ''current'' r = Inr ()"
    and "r \<in> set (slice plan t) \<Longrightarrow> snapshot_business_key r \<in> set (plan_keys plan)"
  using assms unfolding valid_slice_def validate_rows_ok unique_keys_def by blast+

lemma cell_Some:
  assumes "unique_keys snapshot_business_key (slice plan t)"
  shows "row_by_key k (slice plan t) = Some r \<longleftrightarrow> r \<in> set t \<and> in_scope plan r \<and> snapshot_business_key r = k"
proof
  assume "row_by_key k (slice plan t) = Some r"
  then have "r \<in> set (slice plan t) \<and> snapshot_business_key r = k" unfolding row_by_key_def by (rule row_of_Some)
  then show "r \<in> set t \<and> in_scope plan r \<and> snapshot_business_key r = k" by (simp add: in_slice)
next
  assume "r \<in> set t \<and> in_scope plan r \<and> snapshot_business_key r = k"
  then show "row_by_key k (slice plan t) = Some r"
    unfolding row_by_key_def by (intro row_at [OF assms]) (simp_all add: in_slice)
qed

lemma record_id_some: "record_id_text r \<noteq> [] \<Longrightarrow> sr_record_id r = Some (record_id_text r)"
  by (auto simp: record_id_text_def split: option.splits)

section \<open>Lemmas: an interrupted run\<close>

definition step_at :: "snap_plan \<Rightarrow> snap list \<Rightarrow> snap_key \<Rightarrow> snap_step" where
  "step_at plan current k = projr (residual_step plan current k)"

lemma residual_steps:
  assumes "residual_actions plan current = Inr acts"
  shows "k \<in> set (plan_keys plan) \<Longrightarrow> residual_step plan current k = Inr (step_at plan current k)"
    and "acts = actions_of (map (step_at plan current) (plan_keys plan))"
proof -
  obtain steps where st: "list_all2 (\<lambda>k st. residual_step plan current k = Inr st) (plan_keys plan) steps"
    and acts: "acts = actions_of steps"
    using assms by (auto simp: residual_Inr)
  from st have "steps = map (step_at plan current) (plan_keys plan)"
    by (auto simp: list_all2_conv_all_nth step_at_def intro!: nth_equalityI)
  with acts show "acts = actions_of (map (step_at plan current) (plan_keys plan))" by simp
  show "residual_step plan current k = Inr (step_at plan current k)" if "k \<in> set (plan_keys plan)"
    using st that by (auto simp: list_all2_conv_all_nth step_at_def in_set_conv_nth)
qed

lemma residual_from_steps:
  assumes "valid_slice plan current"
    and "\<And>k. k \<in> set (plan_keys plan) \<Longrightarrow> residual_step plan current k = Inr (f k)"
  shows "residual_actions plan current = Inr (actions_of (map f (plan_keys plan)))"
  using assms by (auto simp: residual_Inr list_all2_conv_all_nth intro!: exI [of _ "map f (plan_keys plan)"])

lemma row_by_key_Some: "row_by_key k rows = Some r \<Longrightarrow> r \<in> set rows \<and> snapshot_business_key r = k"
  by (auto simp: row_by_key_def dest: row_of_Some)

text \<open>Where the actions of a run come from.\<close>

lemma run_actions:
  assumes "interrupted plan t acts ids c u d"
  shows "r \<in> set c \<Longrightarrow> snapshot_business_key r \<in> set (plan_keys plan) \<and>
      residual_step plan (slice plan t) (snapshot_business_key r) = Inr (StepCreate r)"
    and "(i, r) \<in> set u \<Longrightarrow> \<exists>q \<in> set t. in_scope plan q \<and> sr_record_id q = Some i \<and>
      snapshot_business_key q \<in> set (plan_keys plan) \<and>
      residual_step plan (slice plan t) (snapshot_business_key q) = Inr (StepUpdate i r)"
    and "i \<in> set d \<Longrightarrow> \<exists>q \<in> set t. in_scope plan q \<and> sr_record_id q = Some i \<and>
      snapshot_business_key q \<in> set (plan_keys plan) \<and>
      residual_step plan (slice plan t) (snapshot_business_key q) = Inr (StepDelete i)"
proof -
  have res: "residual_actions plan (slice plan t) = Inr acts" and tab: "table_ok t"
    and sub: "set c \<subseteq> set (ac_creates acts)" "set u \<subseteq> set (ac_updates acts)" "set d \<subseteq> set (ac_deletes acts)"
    using assms by (auto simp: interrupted_def)
  note steps = residual_steps [OF res]
  have valid: "valid_slice plan (slice plan t)" using res by (simp add: residual_Inr)
  note facts = valid_slice_facts [OF valid]
  have found: "\<exists>k \<in> set (plan_keys plan). residual_step plan (slice plan t) k = Inr st"
    if "st \<in> set (map (step_at plan (slice plan t)) (plan_keys plan))" for st
    using that steps(1) by auto
  show "snapshot_business_key r \<in> set (plan_keys plan) \<and>
      residual_step plan (slice plan t) (snapshot_business_key r) = Inr (StepCreate r)" if "r \<in> set c"
  proof -
    from that sub(1) steps(2) found obtain k where k: "k \<in> set (plan_keys plan)"
        "residual_step plan (slice plan t) k = Inr (StepCreate r)"
      by (metis in_creates subsetD)
    then have "snapshot_business_key r = k" by (auto simp: step_create dest: row_by_key_Some)
    with k show ?thesis by simp
  qed
  have held: "\<exists>q \<in> set t. in_scope plan q \<and> sr_record_id q = Some i \<and> snapshot_business_key q = k"
    if "row_by_key k (slice plan t) = Some q" "i = record_id_text q" for k q i
  proof -
    from that(1) have q: "q \<in> set t" "in_scope plan q" "snapshot_business_key q = k"
      using cell_Some [OF facts(1)] by auto
    with tab have "record_id_text q \<noteq> []" by (auto simp: table_ok_def list_all_iff)
    with q that(2) show ?thesis using record_id_some by auto
  qed
  show "\<exists>q \<in> set t. in_scope plan q \<and> sr_record_id q = Some i \<and> snapshot_business_key q \<in> set (plan_keys plan) \<and>
      residual_step plan (slice plan t) (snapshot_business_key q) = Inr (StepUpdate i r)" if "(i, r) \<in> set u"
  proof -
    from that sub(2) steps(2) found obtain k where k: "k \<in> set (plan_keys plan)"
        "residual_step plan (slice plan t) k = Inr (StepUpdate i r)"
      by (metis in_updates subsetD)
    then obtain q where "row_by_key k (slice plan t) = Some q" "i = record_id_text q" by (auto simp: step_update)
    with held k show ?thesis by blast
  qed
  show "\<exists>q \<in> set t. in_scope plan q \<and> sr_record_id q = Some i \<and> snapshot_business_key q \<in> set (plan_keys plan) \<and>
      residual_step plan (slice plan t) (snapshot_business_key q) = Inr (StepDelete i)" if "i \<in> set d"
  proof -
    from that sub(3) steps(2) found obtain k where k: "k \<in> set (plan_keys plan)"
        "residual_step plan (slice plan t) k = Inr (StepDelete i)"
      by (metis in_deletes subsetD)
    then obtain q where "row_by_key k (slice plan t) = Some q" "i = record_id_text q" by (auto simp: step_delete)
    with held k show ?thesis by blast
  qed
qed

text \<open>What the run does to one row that was there before.\<close>

definition run_patch :: "snap_plan \<Rightarrow> snap list \<Rightarrow> (string \<times> snap) list \<Rightarrow> snap \<Rightarrow> snap" where
  "run_patch plan t u r = patch_for (slice plan t) u r"

lemma interrupted_table:
  assumes "interrupted plan t acts ids c u d"
  shows "plan_ok plan" "table_ok t" "valid_slice plan (slice plan t)"
    "unique_keys snapshot_business_key (slice plan t)" "unique_keys sr_record_id t"
  using assms valid_slice_facts(1) by (auto simp: interrupted_def residual_Inr table_ok_def)

lemma row_by_record_id:
  assumes "interrupted plan t acts ids c u d" and "q \<in> set t" "r \<in> set t" "sr_record_id q = sr_record_id r"
  shows "q = r"
  using unique_keys_eq [OF interrupted_table(5) [OF assms(1)] assms(2-4)] .

lemma run_patch_cases:
  assumes "interrupted plan t acts ids c u d" and "r \<in> set t"
  obtains (patched) i e where "sr_record_id r = Some i" "(i, e) \<in> set u" "in_scope plan r"
      "snapshot_business_key r \<in> set (plan_keys plan)"
      "residual_step plan (slice plan t) (snapshot_business_key r) = Inr (StepUpdate i e)"
      "run_patch plan t u r = patched_row r e r"
    | (kept) "\<And>i e. (i, e) \<in> set u \<Longrightarrow> sr_record_id r \<noteq> Some i" "run_patch plan t u r = r"
proof (cases "\<exists>i e. sr_record_id r = Some i \<and> map_of u i = Some e")
  case True
  then obtain i e where ie: "sr_record_id r = Some i" "map_of u i = Some e" by blast
  then have u: "(i, e) \<in> set u" by (simp add: map_of_SomeD)
  from run_actions(2) [OF assms(1) u] obtain q where q: "q \<in> set t" "in_scope plan q" "sr_record_id q = Some i"
    "snapshot_business_key q \<in> set (plan_keys plan)"
    "residual_step plan (slice plan t) (snapshot_business_key q) = Inr (StepUpdate i e)" by blast
  with ie have "q = r" by (intro row_by_record_id [OF assms(1) q(1) assms(2)]) simp
  moreover have "unique_keys sr_record_id (slice plan t)"
    using interrupted_table(5) [OF assms(1)] distinct_slice [of sr_record_id plan t]
    by (auto simp: unique_keys_def distinct_map_filter)
  then have "row_with_id i (slice plan t) = Some r"
    unfolding row_with_id_def using q \<open>q = r\<close> by (intro row_at) (auto simp: in_slice)
  ultimately show ?thesis
    using patched [OF ie(1) u] q ie by (auto simp: run_patch_def patch_for_def)
next
  case False
  then have "(i, e) \<notin> set u" if "sr_record_id r = Some i" for i e
  proof -
    from False that have "map_of u i = None" by (cases "map_of u i") auto
    then show ?thesis by (force simp: map_of_eq_None_iff)
  qed
  with False show ?thesis
    by (intro kept) (auto simp: run_patch_def patch_for_def split: option.splits)
qed

lemma run_patch_id [simp]: "sr_record_id (run_patch plan t u r) = sr_record_id r"
  by (auto simp: run_patch_def patch_for_def split: option.splits)

lemma run_patch_key:
  assumes "interrupted plan t acts ids c u d" and "r \<in> set t"
  shows "snapshot_business_key (run_patch plan t u r) = snapshot_business_key r"
proof (rule run_patch_cases [OF assms])
  fix i e
  assume "residual_step plan (slice plan t) (snapshot_business_key r) = Inr (StepUpdate i e)"
    and p: "run_patch plan t u r = patched_row r e r"
  then have "snapshot_business_key e = snapshot_business_key r" by (auto simp: step_update dest: row_by_key_Some)
  with p show ?thesis using payload_key_fields(1) [OF patched_payload] by simp
qed simp

lemma created_facts:
  assumes "interrupted plan t acts ids c u d" and "r \<in> set (created_rows ids c)"
  shows "\<exists>i q. i \<in> set ids \<and> q \<in> set c \<and> r = q\<lparr>sr_record_id := Some i\<rparr>"
  using assms(2) by (auto simp: created_rows_def in_set_zip) (metis nth_mem)

lemma after_run_eq:
  assumes "interrupted plan t acts ids c u d"
  shows "after_run plan t ids c u d =
    map (run_patch plan t u) (filter (\<lambda>r. sr_record_id r \<notin> Some ` set d) t) @ created_rows ids c"
proof -
  have fresh: "Some i \<notin> sr_record_id ` set t" if "i \<in> set ids" for i
    using assms that by (auto simp: interrupted_def)
  have created: "patch_for (slice plan t) u r = r \<and> sr_record_id r \<notin> Some ` set d"
    if "r \<in> set (created_rows ids c)" for r
  proof -
    from created_facts [OF assms that] obtain i q where i: "i \<in> set ids" and r: "r = q\<lparr>sr_record_id := Some i\<rparr>" by blast
    have "(i, e) \<notin> set u" "i \<notin> set d" for e
      using run_actions(2,3) [OF assms] fresh [OF i] by force+
    then have "map_of u i = None" "i \<notin> set d" by (auto simp: map_of_eq_None_iff)
    then show ?thesis by (auto simp: r patch_for_def)
  qed
  have "map (patch_for (slice plan t) u) (created_rows ids c) = created_rows ids c"
    using created by (simp add: map_idI)
  moreover have "filter (\<lambda>r. sr_record_id r \<notin> Some ` set d) (created_rows ids c) = created_rows ids c"
    using created by (simp add: filter_id_conv)
  moreover have "sr_record_id (patch_for (slice plan t) u r) = sr_record_id r" for r
    using run_patch_id [of plan t u r] by (simp add: run_patch_def)
  ultimately show ?thesis
    by (simp add: after_run_def apply_batches_def run_patch_def [abs_def] filter_map comp_def)
qed

lemma run_scope:
  assumes "interrupted plan t acts ids c u d"
  shows "r \<in> set t \<Longrightarrow> in_scope plan (run_patch plan t u r) \<longleftrightarrow> in_scope plan r"
    and "r \<in> set (created_rows ids c) \<Longrightarrow> in_scope plan r"
    and "r \<in> set t \<Longrightarrow> \<not> in_scope plan r \<Longrightarrow> run_patch plan t u r = r \<and> sr_record_id r \<notin> Some ` set d"
proof -
  show "r \<in> set t \<Longrightarrow> in_scope plan (run_patch plan t u r) \<longleftrightarrow> in_scope plan r"
    using run_patch_key [OF assms] scope_of_key by blast
  show "in_scope plan r" if r: "r \<in> set (created_rows ids c)"
  proof -
    from created_facts [OF assms r] obtain i q where q: "q \<in> set c" "r = q\<lparr>sr_record_id := Some i\<rparr>" by blast
    have "q \<in> set (pn_desired plan)"
      using run_actions(1) [OF assms q(1)] by (auto simp: step_create dest: row_by_key_Some)
    from plan_ok_rows(4) [OF interrupted_table(1) [OF assms] this] have "in_scope plan q"
      by (auto simp: validate_row_def bind_result_Inr assert_snapshot_scope_def in_scope_def split: if_splits)
    with q(2) show ?thesis by (simp add: in_scope_def)
  qed
  show "run_patch plan t u r = r \<and> sr_record_id r \<notin> Some ` set d" if r: "r \<in> set t" "\<not> in_scope plan r"
  proof
    show "run_patch plan t u r = r" by (rule run_patch_cases [OF assms r(1)]) (use r(2) in auto)
    show "sr_record_id r \<notin> Some ` set d"
    proof
      assume "sr_record_id r \<in> Some ` set d"
      then obtain i where i: "i \<in> set d" "sr_record_id r = Some i" by auto
      from run_actions(3) [OF assms i(1)] obtain q where "q \<in> set t" "in_scope plan q" "sr_record_id q = Some i" by blast
      with row_by_record_id [OF assms _ r(1)] i(2) r(2) show False by metis
    qed
  qed
qed

text \<open>Rows of other accounts and dates are left as they were.\<close>

lemma after_run_elsewhere:
  assumes "interrupted plan t acts ids c u d"
  shows "filter (\<lambda>r. \<not> in_scope plan r) (after_run plan t ids c u d) = filter (\<lambda>r. \<not> in_scope plan r) t"
proof -
  have "filter (\<lambda>r. \<not> in_scope plan r) (created_rows ids c) = []"
    using run_scope(2) [OF assms] by (simp add: filter_empty_conv)
  moreover have "filter (\<lambda>r. \<not> in_scope plan r) (map (run_patch plan t u) (filter (\<lambda>r. sr_record_id r \<notin> Some ` set d) s)) =
      filter (\<lambda>r. \<not> in_scope plan r) s" if "set s \<subseteq> set t" for s
    using that
  proof (induction s)
    case (Cons r s)
    then have r: "r \<in> set t" by simp
    show ?case
      using Cons run_scope(1) [OF assms r] run_scope(3) [OF assms r] by (cases "in_scope plan r") auto
  qed simp
  ultimately show ?thesis by (simp add: after_run_eq [OF assms])
qed

lemma keys_created: "length ids = length c \<Longrightarrow> map snapshot_business_key (created_rows ids c) = map snapshot_business_key c"
  by (induction ids c rule: list_induct2) (simp_all add: created_rows_def snapshot_business_key_def)

lemma ids_created: "length ids = length c \<Longrightarrow> map sr_record_id (created_rows ids c) = map Some ids"
  by (induction ids c rule: list_induct2) (simp_all add: created_rows_def)

lemma filter_created: "\<forall>r \<in> set rows. P r \<Longrightarrow> filter P rows = rows"
  by simp

lemma slice_keys_after:
  assumes "interrupted plan t acts ids c u d"
  shows "unique_keys snapshot_business_key (slice plan (after_run plan t ids c u d))"
proof -
  let ?key = "snapshot_business_key"
  let ?alive = "\<lambda>r. sr_record_id r \<notin> Some ` set d"
  have len: "length ids = length c" and dc: "distinct c" using assms by (auto simp: interrupted_def)
  have old: "map ?key (filter (in_scope plan) (map (run_patch plan t u) s)) = map ?key (filter (in_scope plan) s)"
    if "set s \<subseteq> set t" for s
    using that run_scope(1) [OF assms] run_patch_key [OF assms] by (induction s) auto
  define xs where "xs = filter ?alive (filter (in_scope plan) t)"
  have keys: "map ?key (filter (in_scope plan) (after_run plan t ids c u d)) =
      map ?key xs @ map ?key c"
    using run_scope(2) [OF assms] keys_created [OF len] old [of "filter ?alive t"]
    by (auto simp: after_run_eq [OF assms] filter_created conj_commute xs_def)
  have d1: "distinct (map ?key xs)"
    using interrupted_table(4) [OF assms] unfolding xs_def unique_keys_def distinct_slice by (rule distinct_map_filter)
  have d2: "distinct (map ?key c)"
    unfolding distinct_map
  proof
    show "inj_on ?key (set c)"
    proof (rule inj_onI)
      fix a b assume ab: "a \<in> set c" "b \<in> set c" "?key a = ?key b"
      from run_actions(1) [OF assms ab(1)] have "residual_step plan (slice plan t) (?key b) = Inr (StepCreate a)"
        unfolding ab(3) ..
      moreover from run_actions(1) [OF assms ab(2)]
      have "residual_step plan (slice plan t) (?key b) = Inr (StepCreate b)" ..
      ultimately show "a = b" by simp
    qed
  qed (rule dc)
  have apart: "?key r \<notin> ?key ` set xs" if "r \<in> set c" for r
  proof
    assume "?key r \<in> ?key ` set xs"
    then obtain q where "q \<in> set t" "in_scope plan q" "?key q = ?key r" by (auto simp: xs_def)
    then have "row_by_key (?key r) (slice plan t) = Some q"
      using cell_Some [OF interrupted_table(4) [OF assms]] by blast
    with run_actions(1) [OF assms that] show False by (simp add: step_create)
  qed
  have "set (map ?key xs) \<inter> set (map ?key c) = {}"
  proof (rule equals0I)
    fix x assume "x \<in> set (map ?key xs) \<inter> set (map ?key c)"
    then have x: "x \<in> ?key ` set xs" "x \<in> ?key ` set c" unfolding set_map by (rule IntD1, rule IntD2)
    from x(2) obtain r where "x = ?key r" "r \<in> set c" by (rule imageE)
    with x(1) apart show False by simp
  qed
  with d1 d2 show ?thesis unfolding unique_keys_def distinct_slice keys by (simp only: distinct_append)
qed

lemma in_after:
  assumes "interrupted plan t acts ids c u d"
  shows "r \<in> set (after_run plan t ids c u d) \<longleftrightarrow>
    (\<exists>q \<in> set t. sr_record_id q \<notin> Some ` set d \<and> r = run_patch plan t u q) \<or> r \<in> set (created_rows ids c)"
  by (auto simp: after_run_eq [OF assms])

lemma created_at:
  assumes "interrupted plan t acts ids c u d" and "q \<in> set c"
  shows "\<exists>i \<in> set ids. q\<lparr>sr_record_id := Some i\<rparr> \<in> set (created_rows ids c)"
proof -
  have len: "length ids = length c" using assms(1) by (simp add: interrupted_def)
  from assms(2) obtain n where n: "n < length c" "c ! n = q" by (auto simp: in_set_conv_nth)
  then have "created_rows ids c ! n = q\<lparr>sr_record_id := Some (ids ! n)\<rparr>" "n < length (created_rows ids c)"
    using len by (simp_all add: created_rows_def)
  then show ?thesis using n(1) len by (metis nth_mem)
qed

text \<open>The row of a key after the run.\<close>

lemma cell_after:
  assumes run: "interrupted plan t acts ids c u d"
  shows "row_by_key k (slice plan t) = Some q \<Longrightarrow> row_by_key k (slice plan (after_run plan t ids c u d)) =
      (if sr_record_id q \<in> Some ` set d then None else Some (run_patch plan t u q))"
    and "row_by_key k (slice plan t) = None \<Longrightarrow> \<forall>p \<in> set c. snapshot_business_key p \<noteq> k \<Longrightarrow>
      row_by_key k (slice plan (after_run plan t ids c u d)) = None"
    and "p \<in> set c \<Longrightarrow> \<exists>i. row_by_key (snapshot_business_key p) (slice plan (after_run plan t ids c u d)) =
      Some (p\<lparr>sr_record_id := Some i\<rparr>)"
proof -
  let ?after = "after_run plan t ids c u d"
  note before = cell_Some [OF interrupted_table(4) [OF run]] and after = cell_Some [OF slice_keys_after [OF run]]
  have no_created: "snapshot_business_key r \<noteq> k" if "row_by_key k (slice plan t) = Some q" "r \<in> set (created_rows ids c)" for k q r
  proof
    assume k: "snapshot_business_key r = k"
    from created_facts [OF run that(2)] obtain p i where "p \<in> set c" "r = p\<lparr>sr_record_id := Some i\<rparr>" by blast
    with k have p: "p \<in> set c" "snapshot_business_key p = k" by (auto simp: snapshot_business_key_def)
    from run_actions(1) [OF run p(1)] that(1) show False by (simp add: step_create p(2))
  qed
  have none: "row_by_key k (slice plan ?after) = None"
    if "\<And>r. r \<in> set ?after \<Longrightarrow> in_scope plan r \<Longrightarrow> snapshot_business_key r \<noteq> k" for k
    using that after by (cases "row_by_key k (slice plan ?after)") blast+
  show "row_by_key k (slice plan ?after) = (if sr_record_id q \<in> Some ` set d then None else Some (run_patch plan t u q))"
    if q: "row_by_key k (slice plan t) = Some q"
  proof -
    from q before have q': "q \<in> set t" "in_scope plan q" "snapshot_business_key q = k" by auto
    show ?thesis
    proof (cases "sr_record_id q \<in> Some ` set d")
      case False
      with q' show ?thesis
        using run_scope(1) [OF run q'(1)] run_patch_key [OF run q'(1)] by (auto simp: after in_after [OF run])
    next
      case True
      have "snapshot_business_key r \<noteq> k" if r: "r \<in> set ?after" "in_scope plan r" for r
      proof
        assume k: "snapshot_business_key r = k"
        with no_created [OF q] r(1) in_after [OF run] obtain p where
          p: "p \<in> set t" "sr_record_id p \<notin> Some ` set d" "r = run_patch plan t u p" by blast
        with k r(2) run_scope(1) [OF run p(1)] run_patch_key [OF run p(1)]
        have "row_by_key k (slice plan t) = Some p" by (simp add: before)
        with q p(2) True show False by simp
      qed
      from none [OF this] True show ?thesis by simp
    qed
  qed
  show "row_by_key k (slice plan ?after) = None"
    if k: "row_by_key k (slice plan t) = None" "\<forall>p \<in> set c. snapshot_business_key p \<noteq> k"
  proof (rule none)
    fix r assume r: "r \<in> set ?after" "in_scope plan r"
    show "snapshot_business_key r \<noteq> k"
    proof (cases "r \<in> set (created_rows ids c)")
      case True
      from created_facts [OF run this] k(2) show ?thesis by (auto simp: snapshot_business_key_def)
    next
      case False
      with r(1) in_after [OF run] obtain p where p: "p \<in> set t" "r = run_patch plan t u p" by blast
      then have "in_scope plan p" "snapshot_business_key p = snapshot_business_key r"
        using r(2) run_scope(1) [OF run p(1)] run_patch_key [OF run p(1)] by auto
      with k(1) p(1) before [of "snapshot_business_key r" p] show ?thesis by auto
    qed
  qed
  show "\<exists>i. row_by_key (snapshot_business_key p) (slice plan ?after) = Some (p\<lparr>sr_record_id := Some i\<rparr>)" if "p \<in> set c"
  proof -
    from created_at [OF run that] obtain i where i: "p\<lparr>sr_record_id := Some i\<rparr> \<in> set (created_rows ids c)" by blast
    with run_scope(2) [OF run i] in_after [OF run] after show ?thesis
      by (intro exI [of _ i]) (simp add: snapshot_business_key_def)
  qed
qed

lemma residual_step_cong:
  "row_by_key k current = row_by_key k current' \<Longrightarrow> residual_step plan current k = residual_step plan current' k"
  by (simp add: residual_step_def split: option.splits)

text \<open>What is left to do for a key: nothing where the action has been applied, the same elsewhere.\<close>

definition remaining_step :: "snap list \<Rightarrow> (string \<times> snap) list \<Rightarrow> string list \<Rightarrow> snap_step \<Rightarrow> snap_step" where
  "remaining_step c u d st = (case st of
      StepCreate r \<Rightarrow> if r \<in> set c then StepKeep else st
    | StepUpdate i e \<Rightarrow> if (i, e) \<in> set u then StepKeep else st
    | StepDelete i \<Rightarrow> if i \<in> set d then StepKeep else st
    | StepKeep \<Rightarrow> StepKeep)"

lemma step_after:
  assumes run: "interrupted plan t acts ids c u d"
    and st: "residual_step plan (slice plan t) k = Inr st"
  shows "residual_step plan (slice plan (after_run plan t ids c u d)) k = Inr (remaining_step c u d st)"
proof -
  let ?after = "slice plan (after_run plan t ids c u d)"
  note before = cell_Some [OF interrupted_table(4) [OF run]]
  have created: "st = StepCreate p" if "p \<in> set c" "snapshot_business_key p = k" for p
    using run_actions(1) [OF run that(1)] st that(2) by simp
  have deleted: "st = StepDelete i" if "row_by_key k (slice plan t) = Some q" "i \<in> set d" "sr_record_id q = Some i" for q i
  proof -
    from that(1) before have q: "q \<in> set t" "snapshot_business_key q = k" by auto
    from run_actions(3) [OF run that(2)] obtain p where p: "p \<in> set t" "sr_record_id p = Some i"
      "residual_step plan (slice plan t) (snapshot_business_key p) = Inr (StepDelete i)" by blast
    with row_by_record_id [OF run p(1) q(1)] that(3) q(2) st show ?thesis by auto
  qed
  have patched: "(\<exists>i e. st = StepUpdate i e \<and> (i, e) \<in> set u \<and> sr_record_id q = Some i \<and>
        snapshot_row_payload (run_patch plan t u q) = snapshot_row_payload e) \<or>
      (\<forall>i e. st = StepUpdate i e \<and> sr_record_id q = Some i \<longrightarrow> (i, e) \<notin> set u) \<and> run_patch plan t u q = q"
    if "row_by_key k (slice plan t) = Some q" for q
  proof -
    from that before have q: "q \<in> set t" "snapshot_business_key q = k" by auto
    show ?thesis by (rule run_patch_cases [OF run q(1)]) (use q(2) st patched_payload in auto)
  qed
  show ?thesis
  proof (cases "row_by_key k (slice plan t)")
    case None
    show ?thesis
    proof (cases "\<exists>p \<in> set c. snapshot_business_key p = k")
      case True
      then obtain p where p: "p \<in> set c" "snapshot_business_key p = k" by blast
      with created have stp: "st = StepCreate p" by blast
      obtain i where "row_by_key k ?after = Some (p\<lparr>sr_record_id := Some i\<rparr>)"
        using cell_after(3) [OF run p(1)] p(2) by auto
      with st stp p(1) show ?thesis
        by (simp add: remaining_step_def step_keep step_create snapshot_row_payload_def)
    next
      case False
      then have "row_by_key k ?after = None" using cell_after(2) [OF run None] by blast
      with None have "residual_step plan ?after k = Inr st" using residual_step_cong st by metis
      moreover have "remaining_step c u d st = st"
        using st None False by (cases st) (auto simp: remaining_step_def step_create step_update step_delete dest: row_by_key_Some)
      ultimately show ?thesis by simp
    qed
  next
    case (Some q)
    show ?thesis
    proof (cases "sr_record_id q \<in> Some ` set d")
      case True
      then obtain i where i: "i \<in> set d" "sr_record_id q = Some i" by auto
      with deleted [OF Some] have "st = StepDelete i" by blast
      with st i(1) show ?thesis
        using cell_after(1) [OF run Some] True by (simp add: remaining_step_def step_keep step_delete)
    next
      case False
      then have cell: "row_by_key k ?after = Some (run_patch plan t u q)" using cell_after(1) [OF run Some] by simp
      from patched [OF Some] show ?thesis
      proof (elim disjE exE conjE)
        fix i e assume ie: "st = StepUpdate i e" "(i, e) \<in> set u"
          "snapshot_row_payload (run_patch plan t u q) = snapshot_row_payload e"
        from st ie Some cell show ?thesis by (auto simp: remaining_step_def step_keep step_update)
      next
        assume no: "\<forall>i e. st = StepUpdate i e \<and> sr_record_id q = Some i \<longrightarrow> (i, e) \<notin> set u" "run_patch plan t u q = q"
        have "q \<in> set t" using Some before by blast
        then have rid: "sr_record_id q = Some (record_id_text q)"
          using interrupted_table(2) [OF run] by (intro record_id_some) (auto simp: table_ok_def list_all_iff)
        have "remaining_step c u d st = st"
          using st Some no(1) False rid
          by (cases st) (auto simp: remaining_step_def step_create step_update step_delete)
        moreover have "residual_step plan ?after k = Inr st"
          using residual_step_cong [of k ?after "slice plan t" plan] cell no(2) Some st by simp
        ultimately show ?thesis by simp
      qed
    qed
  qed
qed

lemma distinct_id_texts:
  assumes "list_all (\<lambda>r. record_id_text r \<noteq> []) rows" and "distinct (map sr_record_id rows)"
  shows "distinct (filter (\<lambda>t. t \<noteq> []) (map record_id_text rows))"
proof -
  have "map Some (map record_id_text rows) = map sr_record_id rows"
    using assms(1) record_id_some by (auto simp: list_all_iff)
  with assms(2) show ?thesis by (metis distinct_filter distinct_map)
qed

lemma table_after:
  assumes "interrupted plan t acts ids c u d"
  shows "table_ok (after_run plan t ids c u d)"
proof -
  let ?kept = "filter (\<lambda>r. sr_record_id r \<notin> Some ` set d) t"
  have len: "length ids = length c" and ids: "distinct ids" "[] \<notin> set ids" "Some ` set ids \<inter> sr_record_id ` set t = {}"
    using assms by (auto simp: interrupted_def)
  note tab = interrupted_table(2,5) [OF assms]
  have m: "map sr_record_id (after_run plan t ids c u d) = map sr_record_id ?kept @ map Some ids"
    by (simp add: after_run_eq [OF assms] ids_created [OF len] comp_def)
  have "distinct (map sr_record_id ?kept)" using tab(2) by (simp add: unique_keys_def distinct_map_filter)
  moreover have "distinct (map Some ids)" using ids(1) by (simp add: distinct_map)
  moreover have "set (map sr_record_id ?kept) \<inter> set (map Some ids) = {}" using ids(3) by auto
  ultimately have u: "unique_keys sr_record_id (after_run plan t ids c u d)"
    by (simp only: unique_keys_def m distinct_append)
  have "record_id_text r \<noteq> []" if "r \<in> set (after_run plan t ids c u d)" for r
    using that unfolding in_after [OF assms]
  proof
    assume "\<exists>q \<in> set t. sr_record_id q \<notin> Some ` set d \<and> r = run_patch plan t u q"
    then obtain q where "q \<in> set t" "record_id_text r = record_id_text q" by (auto simp: record_id_text_def)
    with tab(1) show ?thesis by (auto simp: table_ok_def list_all_iff)
  next
    assume "r \<in> set (created_rows ids c)"
    from created_facts [OF assms this] ids(2) show ?thesis by (auto simp: record_id_text_def)
  qed
  with u show ?thesis by (simp add: table_ok_def list_all_iff)
qed

lemma valid_after:
  assumes run: "interrupted plan t acts ids c u d"
  shows "valid_slice plan (slice plan (after_run plan t ids c u d))"
proof -
  let ?after = "after_run plan t ids c u d"
  note facts = valid_slice_facts [OF interrupted_table(3) [OF run]]
  note tab = table_after [OF run]
  have id_text: "record_id_text r \<noteq> []" if "r \<in> set ?after" for r
    using tab that by (auto simp: table_ok_def list_all_iff)
  have desired: "validate_row (pn_account plan) (pn_as_of plan) False ''x'' e = Inr ()" if "e \<in> set (pn_desired plan)" for e
    using plan_ok_rows(4) [OF interrupted_table(1) [OF run] that] validate_row_payload by blast
  have row: "validate_row (pn_account plan) (pn_as_of plan) False ''x'' r = Inr () \<and>
      snapshot_business_key r \<in> set (plan_keys plan)"
    if r: "r \<in> set ?after" "in_scope plan r" for r
  proof (cases "r \<in> set (created_rows ids c)")
    case True
    from created_facts [OF run this] obtain i p where p: "p \<in> set c" "r = p\<lparr>sr_record_id := Some i\<rparr>" by blast
    have "p \<in> set (pn_desired plan)" "snapshot_business_key p \<in> set (plan_keys plan)"
      using run_actions(1) [OF run p(1)] by (auto simp: step_create dest: row_by_key_Some)
    moreover have "snapshot_row_payload r = snapshot_row_payload p" by (simp add: p(2) snapshot_row_payload_def)
    ultimately show ?thesis
      using desired validate_row_payload payload_key_fields(1) by metis
  next
    case False
    with r(1) obtain q where q: "q \<in> set t" "r = run_patch plan t u q" by (auto simp: in_after [OF run])
    with r(2) run_scope(1) [OF run q(1)] have "q \<in> set (slice plan t)" by (simp add: in_slice)
    note old = facts(2,3) [OF this]
    show ?thesis
    proof (rule run_patch_cases [OF run q(1)])
      fix i e assume "residual_step plan (slice plan t) (snapshot_business_key q) = Inr (StepUpdate i e)"
        and p: "run_patch plan t u q = patched_row q e q"
      then have e: "e \<in> set (pn_desired plan)" "snapshot_business_key e = snapshot_business_key q"
        by (auto simp: step_update dest: row_by_key_Some)
      have "snapshot_row_payload r = snapshot_row_payload e" by (simp add: q(2) p patched_payload)
      with e old(2) show ?thesis using desired validate_row_payload payload_key_fields(1) by metis
    next
      assume "run_patch plan t u q = q"
      with old q(2) show ?thesis
        using validate_row_with_id [of "pn_account plan" "pn_as_of plan" "''current''" q "''x''"] by simp
    qed
  qed
  show ?thesis
    unfolding valid_slice_def validate_rows_ok
  proof (intro conjI ballI)
    fix r assume "r \<in> set (slice plan ?after)"
    then have r: "r \<in> set ?after" "in_scope plan r" by (simp_all add: in_slice)
    with row id_text show "validate_row (pn_account plan) (pn_as_of plan) True ''current'' r = Inr ()"
      using validate_row_with_id by blast
    from row [OF r] show "snapshot_business_key r \<in> set (plan_keys plan)" ..
  next
    show "distinct (map snapshot_business_key (slice plan ?after))"
      using slice_keys_after [OF run] by (simp add: unique_keys_def)
    show "distinct (filter (\<lambda>t. t \<noteq> []) (map record_id_text (slice plan ?after)))"
    proof (rule distinct_id_texts)
      show "list_all (\<lambda>r. record_id_text r \<noteq> []) (slice plan ?after)"
        using id_text by (auto simp: list_all_iff in_slice)
      show "distinct (map sr_record_id (slice plan ?after))"
        using tab unfolding distinct_slice table_ok_def unique_keys_def by (blast intro: distinct_map_filter)
    qed
  qed
qed

lemma residual_after:
  assumes run: "interrupted plan t acts ids c u d"
  shows "residual_actions plan (slice plan (after_run plan t ids c u d)) =
    Inr (actions_of (map (\<lambda>k. remaining_step c u d (step_at plan (slice plan t) k)) (plan_keys plan)))"
proof (rule residual_from_steps [OF valid_after [OF run]])
  fix k assume "k \<in> set (plan_keys plan)"
  moreover have "residual_actions plan (slice plan t) = Inr acts" using run by (simp add: interrupted_def)
  ultimately show "residual_step plan (slice plan (after_run plan t ids c u d)) k =
      Inr (remaining_step c u d (step_at plan (slice plan t) k))"
    by (intro step_after [OF run] residual_steps(1))
qed

section \<open>Lemmas: reaching the target\<close>

lemma no_mutation: "mutation_count (actions_of steps) = 0 \<longleftrightarrow> list_all (\<lambda>st. st = StepKeep) steps"
  by (induction steps) (auto simp: mutation_count_def actions_of_def split: snap_step.splits)

lemma target_reached:
  assumes "plan_ok plan" and "residual_actions plan rows = Inr acts" and "mutation_count acts = 0"
  shows "set (map (\<lambda>r. (snapshot_business_key r, snapshot_row_payload r)) rows) =
    set (map (\<lambda>r. (snapshot_business_key r, snapshot_row_payload r)) (pn_desired plan))"
proof -
  have valid: "valid_slice plan rows" using assms(2) by (simp add: residual_Inr)
  then have rows: "unique_keys snapshot_business_key rows" "\<And>r. r \<in> set rows \<Longrightarrow> snapshot_business_key r \<in> set (plan_keys plan)"
    unfolding valid_slice_def validate_rows_ok unique_keys_def by blast+
  have keep: "residual_step plan rows k = Inr StepKeep" if k: "k \<in> set (plan_keys plan)" for k
  proof -
    have "mutation_count (actions_of (map (step_at plan rows) (plan_keys plan))) = 0"
      using residual_steps(2) [OF assms(2)] assms(3) by simp
    with k have "step_at plan rows k = StepKeep" unfolding no_mutation by (auto simp: list_all_iff)
    with residual_steps(1) [OF assms(2) k] show ?thesis by simp
  qed
  have found: "\<exists>e \<in> set (pn_desired plan). snapshot_business_key e = snapshot_business_key r \<and> snapshot_row_payload e = snapshot_row_payload r"
    if r: "r \<in> set rows" for r
  proof -
    let ?k = "snapshot_business_key r"
    have cell: "row_by_key ?k rows = Some r" unfolding row_by_key_def by (rule row_of_unique [OF rows(1) r])
    have "row_by_key ?k (pn_desired plan) \<noteq> None \<or> row_by_key ?k (pn_before plan) \<noteq> None"
      using rows(2) [OF r] by (auto simp: set_plan_keys row_by_key_def row_of_None)
    with keep [OF rows(2) [OF r]] cell obtain e where
      "row_by_key ?k (pn_desired plan) = Some e" "snapshot_row_payload e = snapshot_row_payload r"
      by (auto simp: step_keep split: option.splits)
    then show ?thesis by (auto dest: row_by_key_Some)
  qed
  have present: "\<exists>r \<in> set rows. snapshot_business_key r = snapshot_business_key e \<and> snapshot_row_payload r = snapshot_row_payload e"
    if e: "e \<in> set (pn_desired plan)" for e
  proof -
    let ?k = "snapshot_business_key e"
    have "row_by_key ?k (pn_desired plan) = Some e"
      unfolding row_by_key_def by (rule row_of_unique [OF plan_ok_rows(2) [OF assms(1)] e])
    moreover have "?k \<in> set (plan_keys plan)" using e by (auto simp: set_plan_keys)
    ultimately show ?thesis using keep [of ?k] by (auto simp: step_keep dest: row_by_key_Some)
  qed
  show ?thesis
  proof (intro equalityI subsetI)
    fix x assume "x \<in> set (map (\<lambda>r. (snapshot_business_key r, snapshot_row_payload r)) rows)"
    then obtain r where r: "r \<in> set rows" "x = (snapshot_business_key r, snapshot_row_payload r)" by auto
    from found [OF r(1)] obtain e where "e \<in> set (pn_desired plan)" "x = (snapshot_business_key e, snapshot_row_payload e)"
      unfolding r(2) by metis
    then show "x \<in> set (map (\<lambda>r. (snapshot_business_key r, snapshot_row_payload r)) (pn_desired plan))" by simp
  next
    fix x assume "x \<in> set (map (\<lambda>r. (snapshot_business_key r, snapshot_row_payload r)) (pn_desired plan))"
    then obtain e where e: "e \<in> set (pn_desired plan)" "x = (snapshot_business_key e, snapshot_row_payload e)" by auto
    from present [OF e(1)] obtain r where "r \<in> set rows" "x = (snapshot_business_key r, snapshot_row_payload r)"
      unfolding e(2) by metis
    then show "x \<in> set (map (\<lambda>r. (snapshot_business_key r, snapshot_row_payload r)) rows)" by simp
  qed
qed

lemma sort_key_of_set:
  assumes "distinct (map f xs)" and "distinct (map f ys)" and "set xs = set ys"
  shows "sort_key f xs = sort_key f ys"
proof -
  have "distinct xs" "distinct ys" using assms(1,2) by (auto simp: distinct_map)
  with assms(3) have "mset xs = mset (sort_key f ys)" by (simp add: set_eq_iff_mset_eq_distinct [symmetric])
  moreover have "inj_on f (set xs)" using assms(1) by (simp add: distinct_map)
  ultimately show ?thesis by (rule sort_key_inj_key_eq) simp
qed

lemma payload_key_inj: "payload_key (snapshot_row_payload a) = payload_key (snapshot_row_payload b) \<longleftrightarrow>
    snapshot_business_key a = snapshot_business_key b"
  by (simp add: payload_key_def snapshot_row_payload_def dict_get_def py_str_def snapshot_business_key_def)

lemma same_digest:
  assumes "unique_keys snapshot_business_key xs" and "unique_keys snapshot_business_key ys"
    and "snapshot_row_payload ` set xs = snapshot_row_payload ` set ys"
  shows "snapshot_digest sha xs = snapshot_digest sha ys"
proof -
  have d: "distinct (map payload_key (map snapshot_row_payload rows))" if "unique_keys snapshot_business_key rows" for rows
    using that by (induction rows) (auto simp: unique_keys_def payload_key_inj)
  from sort_key_of_set [OF d [OF assms(1)] d [OF assms(2)]] assms(3) show ?thesis
    by (simp add: snapshot_digest_def)
qed

text \<open>Record ids the remote side may give to \<open>n\<close> new rows of \<open>t\<close>.\<close>

definition fresh_ids :: "string list \<Rightarrow> nat \<Rightarrow> snap list \<Rightarrow> bool" where
  "fresh_ids ids n t \<longleftrightarrow> length ids = n \<and> distinct ids \<and> [] \<notin> set ids \<and> Some ` set ids \<inter> sr_record_id ` set t = {}"

lemma distinct_creates:
  assumes "distinct ks" and "\<And>k r. k \<in> set ks \<Longrightarrow> f k = StepCreate r \<Longrightarrow> snapshot_business_key r = k"
  shows "distinct (ac_creates (actions_of (map f ks)))"
  using assms
proof (induction ks)
  case (Cons k ks)
  have "distinct (ac_creates (actions_of (map f ks)))" using Cons by auto
  moreover have "r \<notin> set (ac_creates (actions_of (map f ks)))" if "f k = StepCreate r" for r
  proof
    assume "r \<in> set (ac_creates (actions_of (map f ks)))"
    then obtain k' where "k' \<in> set ks" "f k' = StepCreate r" unfolding in_creates by auto
    with Cons.prems that show False by (metis distinct.simps(2) list.set_intros(1,2))
  qed
  ultimately show ?case by (auto simp: actions_of_def split: snap_step.splits)
qed (simp add: actions_of_def)

text \<open>A run that is not interrupted.\<close>

lemma full_run:
  assumes "plan_ok plan" and "table_ok t" and "residual_actions plan (slice plan t) = Inr acts"
    and "fresh_ids ids (length (ac_creates acts)) t"
  shows "interrupted plan t acts ids (ac_creates acts) (ac_updates acts) (ac_deletes acts)"
proof -
  note steps = residual_steps [OF assms(3)]
  have "distinct (ac_creates acts)"
    unfolding steps(2)
  proof (rule distinct_creates [OF plan_keys_distinct [OF assms(1)]])
    fix k r assume "k \<in> set (plan_keys plan)" "step_at plan (slice plan t) k = StepCreate r"
    with steps(1) [of k] show "snapshot_business_key r = k" by (auto simp: step_create dest: row_by_key_Some)
  qed
  with assms show ?thesis by (simp add: interrupted_def fresh_ids_def)
qed

text \<open>What each call leaves: all of its rows when it answers, some of them when it fails.\<close>

lemma created_rows_take: "created_rows (take (length c) ids) c = created_rows ids c"
  unfolding created_rows_def by (induction c arbitrary: ids) (simp, case_tac ids, simp_all)

lemma patch_nil [simp]: "patch_for current [] = (\<lambda>r. r)"
  by (rule ext) (simp add: patch_for_def split: option.splits)

lemma create_outcome:
  assumes "distinct rows" and "length ids = length rows"
  shows "\<exists>res c. batch_create_records f ids rows t = (res, t @ created_rows (take (length c) ids) c) \<and>
    set c \<subseteq> set rows \<and> distinct c \<and> length c \<le> length rows \<and> (res \<noteq> Inr (length rows) \<longrightarrow> isl res \<and> f \<noteq> NoFault) \<and>
    (\<not> isl res \<longrightarrow> c = rows)"
proof (cases "rows \<noteq> [] \<and> (\<exists>written e. f = CreateFails written e)")
  case True
  then obtain written e where "f = CreateFails written e" by blast
  with True assms show ?thesis
    by (intro exI [of _ "Inl e"] exI [of _ "filter (\<lambda>r. r \<in> set written) rows"])
      (simp add: batch_create_records_def created_rows_take)
next
  case False
  with assms show ?thesis
    by (intro exI [of _ "Inr (length rows)"] exI [of _ rows])
      (auto simp: batch_create_records_def created_rows_take created_rows_def split: remote_fault.splits)
qed

lemma update_outcome:
  assumes "distinct (map fst rows)" and "[] \<notin> fst ` set rows"
  shows "\<exists>res u. batch_update_records f current rows t = (res, map (patch_for current u) t) \<and> set u \<subseteq> set rows \<and>
    (res \<noteq> Inr (length rows) \<longrightarrow> isl res \<and> f \<noteq> NoFault) \<and> (\<not> isl res \<longrightarrow> u = rows)"
proof (cases "rows \<noteq> [] \<and> (\<exists>written e. f = UpdateFails written e)")
  case True
  then obtain written e where "f = UpdateFails written e" by blast
  with True assms show ?thesis
    by (intro exI [of _ "Inl e"] exI [of _ "filter (\<lambda>r. r \<in> set written) rows"]) (simp add: batch_update_records_def)
next
  case False
  with assms show ?thesis
    by (intro exI [of _ "Inr (length rows)"] exI [of _ rows])
      (auto simp: batch_update_records_def split: remote_fault.splits)
qed

lemma delete_outcome:
  "\<exists>res d. batch_delete_records f ids t = (res, filter (\<lambda>r. sr_record_id r \<notin> Some ` set d) t) \<and> set d \<subseteq> set ids \<and>
    (res \<noteq> Inr (length ids) \<longrightarrow> isl res \<and> f \<noteq> NoFault) \<and> (\<not> isl res \<longrightarrow> d = ids)"
proof (cases "ids \<noteq> [] \<and> (\<exists>written e. f = DeleteFails written e)")
  case True
  then obtain written e where "f = DeleteFails written e" by blast
  with True show ?thesis
    by (intro exI [of _ "Inl e"] exI [of _ "filter (\<lambda>i. i \<in> set written) ids"]) (simp add: batch_delete_records_def)
next
  case False
  then show ?thesis
    by (intro exI [of _ "Inr (length ids)"] exI [of _ ids])
      (auto simp: batch_delete_records_def split: remote_fault.splits)
qed

text \<open>The three calls one after the other.\<close>

lemma distinct_updates:
  assumes "distinct ks" and "\<And>k i e. k \<in> set ks \<Longrightarrow> f k = StepUpdate i e \<Longrightarrow> \<exists>q \<in> Q. snapshot_business_key q = k \<and> sr_record_id q = Some i"
    and "\<And>q q'. q \<in> Q \<Longrightarrow> q' \<in> Q \<Longrightarrow> sr_record_id q = sr_record_id q' \<Longrightarrow> q = q'"
  shows "distinct (map fst (ac_updates (actions_of (map f ks))))"
  using assms(1,2)
proof (induction ks)
  case (Cons k ks)
  have "distinct (map fst (ac_updates (actions_of (map f ks))))" using Cons by auto
  moreover have "i \<notin> fst ` set (ac_updates (actions_of (map f ks)))" if st: "f k = StepUpdate i e" for i e
  proof
    assume "i \<in> fst ` set (ac_updates (actions_of (map f ks)))"
    then obtain e' where "(i, e') \<in> set (ac_updates (actions_of (map f ks)))" by auto
    then obtain k' where k': "k' \<in> set ks" "f k' = StepUpdate i e'" unfolding in_updates by auto
    obtain q where q: "q \<in> Q" "snapshot_business_key q = k" "sr_record_id q = Some i"
      using Cons.prems(2) [of k i e] st by auto
    obtain q' where q': "q' \<in> Q" "snapshot_business_key q' = k'" "sr_record_id q' = Some i"
      using Cons.prems(2) [of k' i e'] k' by auto
    have "q = q'" using assms(3) q q' by simp
    with q q' k'(1) Cons.prems(1) show False by auto
  qed
  ultimately show ?case by (auto simp: actions_of_def split: snap_step.splits)
qed (simp add: actions_of_def)

lemma update_targets:
  assumes "interrupted plan t acts ids c u d"
  shows "distinct (map fst (ac_updates acts))" and "[] \<notin> fst ` set (ac_updates acts)"
proof -
  have res: "residual_actions plan (slice plan t) = Inr acts" and tab: "table_ok t"
    using assms by (auto simp: interrupted_def)
  note steps = residual_steps [OF res]
  have full: "interrupted plan t acts [] [] (ac_updates acts) []" using assms by (simp add: interrupted_def)
  have held: "\<exists>q \<in> set t. snapshot_business_key q = k \<and> sr_record_id q = Some i \<and> i \<noteq> []"
    if "k \<in> set (plan_keys plan)" "step_at plan (slice plan t) k = StepUpdate i e" for k i e
  proof -
    from steps(1) [OF that(1)] that(2) obtain q where q: "row_by_key k (slice plan t) = Some q" "i = record_id_text q"
      by (auto simp: step_update)
    then have "q \<in> set t" "snapshot_business_key q = k" using cell_Some [OF interrupted_table(4) [OF full]] by auto
    moreover have "record_id_text q \<noteq> []" using tab calculation by (auto simp: table_ok_def list_all_iff)
    ultimately show ?thesis using q(2) record_id_some by auto
  qed
  show "distinct (map fst (ac_updates acts))"
    unfolding steps(2)
  proof (rule distinct_updates [where Q = "set t"])
    show "distinct (plan_keys plan)" by (rule plan_keys_distinct [OF interrupted_table(1) [OF full]])
    show "q = q'" if "q \<in> set t" "q' \<in> set t" "sr_record_id q = sr_record_id q'" for q q'
      by (rule row_by_record_id [OF full that])
  qed (use held in blast)
  show "[] \<notin> fst ` set (ac_updates acts)"
  proof
    assume "[] \<in> fst ` set (ac_updates acts)"
    then obtain e where "([], e) \<in> set (ac_updates acts)" by auto
    then have "StepUpdate [] e \<in> set (map (step_at plan (slice plan t)) (plan_keys plan))"
      using steps(2) in_updates by metis
    then obtain k where "k \<in> set (plan_keys plan)" "step_at plan (slice plan t) k = StepUpdate [] e" by auto
    with held show False by blast
  qed
qed

lemma sent_updates:
  assumes "interrupted plan t acts ids c u d"
  shows "find (\<lambda>(i, e). row_with_id i (slice plan t) = None) (ac_updates acts) = None"
    and "filter (\<lambda>(i, e). snapshot_row_payload (the (row_with_id i (slice plan t))) \<noteq> snapshot_row_payload e)
      (ac_updates acts) = ac_updates acts"
proof -
  have run: "interrupted plan t acts [] [] (ac_updates acts) []" using assms by (simp add: interrupted_def)
  have row: "\<exists>q. row_with_id i (slice plan t) = Some q \<and> snapshot_row_payload q \<noteq> snapshot_row_payload e"
    if up: "(i, e) \<in> set (ac_updates acts)" for i e
  proof -
    from run_actions(2) [OF run up] obtain q where q: "q \<in> set t" "in_scope plan q" "sr_record_id q = Some i"
      "residual_step plan (slice plan t) (snapshot_business_key q) = Inr (StepUpdate i e)" by blast
    have "unique_keys sr_record_id (slice plan t)"
      using interrupted_table(5) [OF run] distinct_slice [of sr_record_id plan t]
      by (auto simp: unique_keys_def distinct_map_filter)
    then have "row_with_id i (slice plan t) = Some q"
      unfolding row_with_id_def using q by (intro row_at) (auto simp: in_slice)
    moreover have "row_by_key (snapshot_business_key q) (slice plan t) = Some q"
      using q cell_Some [OF interrupted_table(4) [OF run]] by blast
    ultimately show ?thesis using q(4) by (auto simp: step_update)
  qed
  show "find (\<lambda>(i, e). row_with_id i (slice plan t) = None) (ac_updates acts) = None"
    unfolding find_None_iff using row by fastforce
  show "filter (\<lambda>(i, e). snapshot_row_payload (the (row_with_id i (slice plan t))) \<noteq> snapshot_row_payload e)
      (ac_updates acts) = ac_updates acts"
    unfolding filter_id_conv using row by fastforce
qed

lemma part_of_run:
  assumes "interrupted plan t acts ids (ac_creates acts) (ac_updates acts) (ac_deletes acts)"
    and "distinct c" "set c \<subseteq> set (ac_creates acts)" "length c \<le> length (ac_creates acts)"
    and "set u \<subseteq> set (ac_updates acts)" "set d \<subseteq> set (ac_deletes acts)"
  shows "interrupted plan t acts (take (length c) ids) c u d"
proof -
  have "set (take (length c) ids) \<subseteq> set ids" by (rule set_take_subset)
  moreover have "Some ` set (take (length c) ids) \<inter> sr_record_id ` set t = {}"
    using assms(1) calculation unfolding interrupted_def by fast
  ultimately show ?thesis using assms unfolding interrupted_def by auto
qed

lemma dry_run_outcome:
  assumes "interrupted plan t acts ids c u d"
  shows "\<exists>r. apply_holding_snapshot_actions f ids' acts (slice plan t) True t = (Inr r, t)"
  by (simp add: apply_holding_snapshot_actions_def sent_updates [OF assms])

lemma run_outcome:
  assumes run: "interrupted plan t acts ids (ac_creates acts) (ac_updates acts) (ac_deletes acts)"
  shows "\<exists>res ids' c u d. apply_holding_snapshot_actions f ids acts (slice plan t) False t =
      (res, after_run plan t ids' c u d) \<and> interrupted plan t acts ids' c u d \<and> (isl res \<longrightarrow> f \<noteq> NoFault) \<and>
      (\<not> isl res \<longrightarrow> ids' = ids \<and> c = ac_creates acts \<and> u = ac_updates acts \<and> d = ac_deletes acts)"
proof -
  let ?cur = "slice plan t"
  have len: "distinct (ac_creates acts)" "length ids = length (ac_creates acts)" using run by (auto simp: interrupted_def)
  obtain rc c where c: "batch_create_records f ids (ac_creates acts) t = (rc, t @ created_rows (take (length c) ids) c)"
    "set c \<subseteq> set (ac_creates acts)" "distinct c" "length c \<le> length (ac_creates acts)"
    "rc \<noteq> Inr (length (ac_creates acts)) \<longrightarrow> isl rc \<and> f \<noteq> NoFault" "\<not> isl rc \<longrightarrow> c = ac_creates acts"
    using create_outcome [OF len, of f t] by blast
  define t1 where "t1 = t @ created_rows (take (length c) ids) c"
  obtain ru u where u: "batch_update_records f ?cur (ac_updates acts) t1 = (ru, map (patch_for ?cur u) t1)"
    "set u \<subseteq> set (ac_updates acts)" "ru \<noteq> Inr (length (ac_updates acts)) \<longrightarrow> isl ru \<and> f \<noteq> NoFault"
    "\<not> isl ru \<longrightarrow> u = ac_updates acts"
    using update_outcome [OF update_targets [OF run], of f ?cur t1] by blast
  define t2 where "t2 = map (patch_for ?cur u) t1"
  obtain rd d where d: "batch_delete_records f (ac_deletes acts) t2 = (rd, filter (\<lambda>r. sr_record_id r \<notin> Some ` set d) t2)"
    "set d \<subseteq> set (ac_deletes acts)" "rd \<noteq> Inr (length (ac_deletes acts)) \<longrightarrow> isl rd \<and> f \<noteq> NoFault"
    "\<not> isl rd \<longrightarrow> d = ac_deletes acts"
    using delete_outcome [of f "ac_deletes acts" t2] by blast
  note part = part_of_run [OF run c(3,2,4)]
  note eqs = apply_holding_snapshot_actions_def sent_updates [OF run] c(1) [folded t1_def] u(1) d(1) [unfolded t2_def]
  have left: "after_run plan t (take (length c) ids) c u' d' = filter (\<lambda>r. sr_record_id r \<notin> Some ` set d') (map (patch_for ?cur u') t1)" for u' d'
    by (simp add: after_run_def apply_batches_def t1_def)
  have failed: ?thesis
    if "apply_holding_snapshot_actions f ids acts ?cur False t = (Inl e, after_run plan t ids' c' u' d') \<and>
        interrupted plan t acts ids' c' u' d' \<and> f \<noteq> NoFault" for e ids' c' u' d'
    using that by (metis sum.disc(1))
  show ?thesis
  proof (cases rc)
    case (Inl e)
    with c(5) have "apply_holding_snapshot_actions f ids acts ?cur False t = (Inl e, after_run plan t (take (length c) ids) c [] []) \<and>
        interrupted plan t acts (take (length c) ids) c [] [] \<and> f \<noteq> NoFault"
      by (simp add: eqs left part)
    then show ?thesis by (rule failed)
  next
    case rc: (Inr n)
    show ?thesis
    proof (cases ru)
      case (Inl e)
      with u(3) rc have "apply_holding_snapshot_actions f ids acts ?cur False t = (Inl e, after_run plan t (take (length c) ids) c u []) \<and>
        interrupted plan t acts (take (length c) ids) c u [] \<and> f \<noteq> NoFault"
        by (simp add: eqs left part [OF u(2)])
      then show ?thesis by (rule failed)
    next
      case ru: (Inr m)
      show ?thesis
      proof (cases rd)
        case (Inl e)
        with d(3) rc ru have "apply_holding_snapshot_actions f ids acts ?cur False t = (Inl e, after_run plan t (take (length c) ids) c u d) \<and>
        interrupted plan t acts (take (length c) ids) c u d \<and> f \<noteq> NoFault"
          by (simp add: eqs left part [OF u(2) d(2)])
        then show ?thesis by (rule failed)
      next
        case rd: (Inr l)
        have full: "c = ac_creates acts" "u = ac_updates acts" "d = ac_deletes acts" using c(6) u(4) d(4) rc ru rd by simp_all
        moreover have ids: "take (length (ac_creates acts)) ids = ids" using len(2) by simp
        ultimately have "filter (\<lambda>r. sr_record_id r \<notin> Some ` set d) t2 =
            after_run plan t ids (ac_creates acts) (ac_updates acts) (ac_deletes acts)"
          using left [of u d] by (simp add: t2_def)
        then have "filter (\<lambda>r. sr_record_id r \<notin> Some ` set d) (map (patch_for ?cur u) t1) =
            after_run plan t ids (ac_creates acts) (ac_updates acts) (ac_deletes acts)" by (simp add: t2_def)
        then show ?thesis
          using rc ru rd run by (simp add: eqs)
      qed
    qed
  qed
qed

lemma full_run_target:
  assumes "plan_ok plan" and "table_ok t" and "residual_actions plan (slice plan t) = Inr acts"
    and "fresh_ids ids (length (ac_creates acts)) t"
    and "t' = after_run plan t ids (ac_creates acts) (ac_updates acts) (ac_deletes acts)"
  shows "\<exists>acts'. residual_actions plan (slice plan t') = Inr acts' \<and> mutation_count acts' = 0"
    and "snapshot_row_payload ` set (slice plan t') = snapshot_row_payload ` set (pn_desired plan)"
    and "assert_exact_readback sha plan (slice plan t') = Inr ()"
proof -
  note run = full_run [OF assms(1-4)]
  note steps = residual_steps(2) [OF assms(3)]
  let ?left = "map (\<lambda>k. remaining_step (ac_creates acts) (ac_updates acts) (ac_deletes acts)
      (step_at plan (slice plan t) k)) (plan_keys plan)"
  have res: "residual_actions plan (slice plan t') = Inr (actions_of ?left)"
    unfolding assms(5) by (rule residual_after [OF run])
  have "remaining_step (ac_creates acts) (ac_updates acts) (ac_deletes acts) (step_at plan (slice plan t) k) = StepKeep"
    if "k \<in> set (plan_keys plan)" for k
  proof -
    have "step_at plan (slice plan t) k \<in> set (map (step_at plan (slice plan t)) (plan_keys plan))" using that by simp
    then show ?thesis
      unfolding remaining_step_def steps by (auto simp: in_creates in_updates in_deletes split: snap_step.split)
  qed
  then have zero: "mutation_count (actions_of ?left) = 0" unfolding no_mutation by (simp add: list_all_iff)
  from res zero show "\<exists>acts'. residual_actions plan (slice plan t') = Inr acts' \<and> mutation_count acts' = 0" by blast
  note target = target_reached [OF assms(1) res zero]
  have "snd ` set (map (\<lambda>r. (snapshot_business_key r, snapshot_row_payload r)) (slice plan t')) =
      snd ` set (map (\<lambda>r. (snapshot_business_key r, snapshot_row_payload r)) (pn_desired plan))"
    by (simp only: target)
  then show p: "snapshot_row_payload ` set (slice plan t') = snapshot_row_payload ` set (pn_desired plan)"
    by (simp add: image_image)
  have "snapshot_digest sha (slice plan t') = row_digest sha plan"
    unfolding row_digest_def
  proof (rule same_digest [OF _ plan_ok_rows(2) [OF assms(1)] p])
    show "unique_keys snapshot_business_key (slice plan t')" unfolding assms(5) by (rule slice_keys_after [OF run])
  qed
  then show "assert_exact_readback sha plan (slice plan t') = Inr ()"
    using res zero target by (simp add: assert_exact_readback_def)
qed

lemma plan_ok_build:
  "build_plan account as_of target_digest before desired = Inr plan \<Longrightarrow> plan_ok plan"
  by (auto simp: build_plan_def plan_ok_def check_plan_def Let_def bind_result_Inr split: if_splits sum.splits)

text \<open>Everything a call can do to the table.\<close>

lemma apply_exact_set_wet:
  assumes "plan_ok plan" and "table_ok t" and "residual_actions plan (slice plan t) = Inr acts"
    and "fresh_ids ids (length (ac_creates acts)) t" and "assert_matches sha b plan = Inr ()" and "au_confirmed b"
    and "\<And>e. f \<noteq> ReadFails e"
  shows "\<exists>res ids' c u d. apply_exact_set f sha ids plan b False t = (res, after_run plan t ids' c u d) \<and>
      interrupted plan t acts ids' c u d \<and> (isl res \<longrightarrow> f \<noteq> NoFault) \<and>
      (\<not> isl res \<longrightarrow> sres_verified (projr res) \<and>
        ids' = ids \<and> c = ac_creates acts \<and> u = ac_updates acts \<and> d = ac_deletes acts)"
proof -
  note run = full_run [OF assms(1-4)]
  obtain r ids' c u d where out: "apply_holding_snapshot_actions f ids acts (slice plan t) False t =
      (r, after_run plan t ids' c u d)" "interrupted plan t acts ids' c u d" "isl r \<longrightarrow> f \<noteq> NoFault"
      "\<not> isl r \<longrightarrow> ids' = ids \<and> c = ac_creates acts \<and> u = ac_updates acts \<and> d = ac_deletes acts"
    using run_outcome [OF run, of f] by blast
  define t1 where "t1 = after_run plan t ids' c u d"
  have read: "fresh_read f (pn_account plan) (pn_as_of plan) t = Inr (slice plan t)"
    using assms(7) by (simp add: fresh_read_def slice_def split: remote_fault.splits)
  have eq: "apply_exact_set f sha ids plan b False t =
      (case r of Inl e \<Rightarrow> (Inl e, t1)
       | Inr result \<Rightarrow> (case bind_result (readback f (pn_account plan) (pn_as_of plan) t1) (assert_exact_readback sha plan) of
           Inl e \<Rightarrow> (Inl e, t1) | Inr x \<Rightarrow> (Inr (result\<lparr>sres_verified := True\<rparr>), t1)))"
    by (cases r) (simp_all add: apply_exact_set_def read assms(3,5,6) out(1) flip: t1_def)
  show ?thesis
  proof (cases r)
    case (Inl e)
    with eq out show ?thesis unfolding t1_def by (metis isl_def sum.case(1))
  next
    case r: (Inr result)
    with out(4) have full: "ids' = ids" "c = ac_creates acts" "u = ac_updates acts" "d = ac_deletes acts" by simp_all
    have exact: "assert_exact_readback sha plan (slice plan t1) = Inr ()"
      by (rule full_run_target(3) [OF assms(1-4)]) (simp add: t1_def full)
    have shown: "bind_result (readback f (pn_account plan) (pn_as_of plan) t1) (assert_exact_readback sha plan) = Inr ()"
      if "f = NoFault"
      using that exact by (simp add: readback_def slice_def)
    show ?thesis
    proof (cases "bind_result (readback f (pn_account plan) (pn_as_of plan) t1) (assert_exact_readback sha plan)")
      case (Inl e)
      with shown have "f \<noteq> NoFault" by auto
      with eq r Inl out(2) show ?thesis unfolding t1_def by (intro exI [of _ "Inl e"]) auto
    next
      case (Inr x)
      with eq r out(2) full show ?thesis
        unfolding t1_def by (intro exI [of _ "Inr (result\<lparr>sres_verified := True\<rparr>)"]) auto
    qed
  qed
qed

lemma apply_exact_set_run:
  assumes "plan_ok plan" and "table_ok t" and "residual_actions plan (slice plan t) = Inr acts"
    and "fresh_ids ids (length (ac_creates acts)) t" and "assert_matches sha b plan = Inr ()" and "au_confirmed b"
  shows "\<exists>r. sres_verified r \<and> apply_exact_set NoFault sha ids plan b False t =
    (Inr r, after_run plan t ids (ac_creates acts) (ac_updates acts) (ac_deletes acts))"
proof -
  obtain res ids' c u d where "apply_exact_set NoFault sha ids plan b False t = (res, after_run plan t ids' c u d)"
      "\<not> isl res" "\<not> isl res \<longrightarrow> sres_verified (projr res) \<and>
        ids' = ids \<and> c = ac_creates acts \<and> u = ac_updates acts \<and> d = ac_deletes acts"
    using apply_exact_set_wet [OF assms, of NoFault] by auto
  then show ?thesis by (cases res) auto
qed

lemma apply_exact_set_dry:
  assumes "plan_ok plan" and "table_ok t" and "residual_actions plan (slice plan t) = Inr acts"
    and "fresh_ids ids (length (ac_creates acts)) t" and "assert_matches sha b plan = Inr ()"
    and "\<And>e. f \<noteq> ReadFails e"
  shows "\<exists>res. apply_exact_set f sha ids plan b True t = (Inr res, t)"
proof -
  have "fresh_read f (pn_account plan) (pn_as_of plan) t = Inr (slice plan t)"
    using assms(6) by (simp add: fresh_read_def slice_def split: remote_fault.splits)
  then show ?thesis
    using dry_run_outcome [OF full_run [OF assms(1-4)], of f ids] assms(3,5)
    by (auto simp: apply_exact_set_def)
qed

lemma apply_exact_set_refused:
  assumes "assert_matches sha b plan \<noteq> Inr () \<or> \<not> dry \<and> \<not> au_confirmed b \<or> (\<exists>e. f = ReadFails e) \<or>
      (\<forall>acts. residual_actions plan (slice plan t) \<noteq> Inr acts)"
  shows "\<exists>e. apply_exact_set f sha ids plan b dry t = (Inl e, t)"
proof (cases "assert_matches sha b plan")
  case (Inr x)
  have "fresh_read f (pn_account plan) (pn_as_of plan) t = Inr (slice plan t)" if "\<And>e. f \<noteq> ReadFails e"
    using that by (simp add: fresh_read_def slice_def split: remote_fault.splits)
  with Inr show ?thesis
    using assms
    by (cases "\<exists>e. f = ReadFails e"; cases "residual_actions plan (slice plan t)")
      (auto simp: apply_exact_set_def fresh_read_def)
qed (simp add: apply_exact_set_def)

text \<open>A row that a replay accepts holds the content the plan found, or the target's.\<close>

definition bound_row :: "snap_plan \<Rightarrow> snap \<Rightarrow> bool" where
  "bound_row plan r \<longleftrightarrow> snapshot_row_payload r \<in> snapshot_row_payload ` set (pn_desired plan) \<or>
     list_ex (\<lambda>q. sr_record_id q = sr_record_id r \<and> snapshot_row_payload q = snapshot_row_payload r) (pn_before plan)"

lemma replay_bound:
  assumes "residual_actions plan (slice plan t) = Inr acts" and "r \<in> set (slice plan t)"
  shows "bound_row plan r"
proof -
  let ?k = "snapshot_business_key r"
  have valid: "valid_slice plan (slice plan t)" using assms(1) by (simp add: residual_Inr)
  note facts = valid_slice_facts [OF valid]
  have cell: "row_by_key ?k (slice plan t) = Some r"
    unfolding row_by_key_def by (rule row_of_unique [OF facts(1) assms(2)])
  have "residual_step plan (slice plan t) ?k = Inr (step_at plan (slice plan t) ?k)"
    using residual_steps(1) [OF assms(1) facts(3) [OF assms(2)]] .
  moreover have "row_by_key ?k (pn_desired plan) \<noteq> None \<or> row_by_key ?k (pn_before plan) \<noteq> None"
    using facts(3) [OF assms(2)] by (auto simp: set_plan_keys row_by_key_def row_of_None)
  ultimately show ?thesis
    using cell
    by (cases "step_at plan (slice plan t) ?k")
      (auto simp: step_create step_update step_delete step_keep bound_row_def list_ex_iff
         dest!: row_by_key_Some split: option.splits)
qed

lemma remaining_creates:
  "ac_creates (actions_of (map (remaining_step c u d) steps)) = filter (\<lambda>r. r \<notin> set c) (ac_creates (actions_of steps))"
  by (induction steps) (auto simp: actions_of_def remaining_step_def split: snap_step.splits)

section \<open>Properties\<close>

text \<open>
  C13. An exact-set write is guarded, and a write that breaks off can be resumed. Whatever the table
  holds and whichever remote call fails at whatever point: rows of other accounts and dates never
  change. A call that fails either left the table as it was, or broke off in the middle of a confirmed
  write of this very plan because a remote call failed: then the table holds some of the planned
  creations, updates and deletions and nothing else, so that the same call can complete it. A call
  that succeeds was made with an authority bound to this plan; when it is a dry run it changed nothing,
  otherwise the authority was confirmed and the slice holds exactly the target rows, verified by the
  fresh read. In every case but the refusal, every row of the slice held what the plan had found in that
  record or target content already, so that no foreign change is overwritten.
\<close>
theorem snapshot_write_guarded:
  assumes "build_plan account as_of target_digest before desired = Inr plan" and "table_ok t"
    and "\<forall>acts. residual_actions plan (slice plan t) = Inr acts \<longrightarrow> fresh_ids ids (length (ac_creates acts)) t"
    and "apply_exact_set f sha ids plan b dry t = (res, t')"
  shows "filter (\<lambda>r. \<not> in_scope plan r) t' = filter (\<lambda>r. \<not> in_scope plan r) t \<and> table_ok t' \<and>
    (case res of
       Inl e \<Rightarrow> t' = t \<or>
         (f \<noteq> NoFault \<and> \<not> dry \<and> assert_matches sha b plan = Inr () \<and> au_confirmed b \<and>
          list_all (bound_row plan) (slice plan t) \<and>
          (\<exists>acts ids' c u d. interrupted plan t acts ids' c u d \<and> t' = after_run plan t ids' c u d))
     | Inr r \<Rightarrow> assert_matches sha b plan = Inr () \<and> list_all (bound_row plan) (slice plan t) \<and>
         (if dry then t' = t
          else au_confirmed b \<and> sres_verified r \<and>
            snapshot_row_payload ` set (slice plan t') = snapshot_row_payload ` set (pn_desired plan)))"
proof (cases "assert_matches sha b plan = Inr () \<and> (dry \<or> au_confirmed b) \<and> (\<forall>e. f \<noteq> ReadFails e) \<and>
    (\<exists>acts. residual_actions plan (slice plan t) = Inr acts)")
  case False
  then obtain e where "apply_exact_set f sha ids plan b dry t = (Inl e, t)"
    using apply_exact_set_refused by blast
  with assms(2,4) show ?thesis by (cases res) simp_all
next
  case True
  then obtain acts where res: "residual_actions plan (slice plan t) = Inr acts" by blast
  note ok = plan_ok_build [OF assms(1)]
  have ids: "fresh_ids ids (length (ac_creates acts)) t" using assms(3) res by blast
  have bound: "list_all (bound_row plan) (slice plan t)" using replay_bound [OF res] by (simp add: list_all_iff)
  show ?thesis
  proof (cases dry)
    case dry: True
    with True obtain r where "apply_exact_set f sha ids plan b dry t = (Inr r, t)"
      using apply_exact_set_dry [OF ok assms(2) res ids, of sha b f] by auto
    with assms(2,4) True bound dry show ?thesis by simp
  next
    case wet: False
    from True have auth: "assert_matches sha b plan = Inr ()" "au_confirmed b" and f: "f \<noteq> ReadFails e" for e
      using wet by auto
    obtain res' ids' c u d where out: "apply_exact_set f sha ids plan b False t = (res', after_run plan t ids' c u d)"
        "interrupted plan t acts ids' c u d" "isl res' \<longrightarrow> f \<noteq> NoFault"
        "\<not> isl res' \<longrightarrow> sres_verified (projr res') \<and>
          ids' = ids \<and> c = ac_creates acts \<and> u = ac_updates acts \<and> d = ac_deletes acts"
      using apply_exact_set_wet [OF ok assms(2) res ids auth f] by blast
    from out(1) assms(4) wet have eq: "res' = res" "t' = after_run plan t ids' c u d" by simp_all
    show ?thesis
    proof (cases res)
      case (Inl e)
      with out(2,3) eq wet auth bound show ?thesis
        using after_run_elsewhere [OF out(2)] table_after [OF out(2)] by simp blast
    next
      case (Inr r)
      with out(4) eq have "sres_verified r"
          "t' = after_run plan t ids (ac_creates acts) (ac_updates acts) (ac_deletes acts)" by simp_all
      with Inr eq wet auth bound show ?thesis
        using after_run_elsewhere [OF out(2)] table_after [OF out(2)] full_run_target(2) [OF ok assms(2) res ids] by simp
    qed
  qed
qed

text \<open>
  C14. An interrupted write can be resumed. After any part of the planned actions has reached the
  table (some of the creations, updates and deletions, whichever), the same call with the same plan
  and authority, when no remote call fails this time, succeeds, leaves exactly the target rows, and a further call finds nothing to do and
  leaves the table alone.
\<close>
theorem snapshot_run_resumes:
  assumes "build_plan account as_of target_digest before desired = Inr plan"
    and "interrupted plan t acts ids c u d"
    and "fresh_ids ids2 (length (filter (\<lambda>r. r \<notin> set c) (ac_creates acts))) (after_run plan t ids c u d)"
    and "assert_matches sha b plan = Inr ()" and "au_confirmed b"
  shows "\<exists>r t2. apply_exact_set NoFault sha ids2 plan b False (after_run plan t ids c u d) = (Inr r, t2) \<and> sres_verified r \<and>
    snapshot_row_payload ` set (slice plan t2) = snapshot_row_payload ` set (pn_desired plan) \<and>
    filter (\<lambda>r. \<not> in_scope plan r) t2 = filter (\<lambda>r. \<not> in_scope plan r) t \<and>
    (\<exists>r3. apply_exact_set NoFault sha [] plan b False t2 = (Inr r3, t2))"
proof -
  note ok = plan_ok_build [OF assms(1)]
  let ?t1 = "after_run plan t ids c u d"
  define acts2 where "acts2 = actions_of (map (\<lambda>k. remaining_step c u d (step_at plan (slice plan t) k)) (plan_keys plan))"
  have res2: "residual_actions plan (slice plan ?t1) = Inr acts2"
    unfolding acts2_def by (rule residual_after [OF assms(2)])
  have tab1: "table_ok ?t1" by (rule table_after [OF assms(2)])
  have "acts = actions_of (map (step_at plan (slice plan t)) (plan_keys plan))"
    using assms(2) by (intro residual_steps(2)) (simp add: interrupted_def)
  then have "ac_creates acts2 = filter (\<lambda>r. r \<notin> set c) (ac_creates acts)"
    using remaining_creates [of c u d "map (step_at plan (slice plan t)) (plan_keys plan)"]
    by (simp add: acts2_def comp_def)
  with assms(3) have ids2: "fresh_ids ids2 (length (ac_creates acts2)) ?t1" by simp
  define t2 where "t2 = after_run plan ?t1 ids2 (ac_creates acts2) (ac_updates acts2) (ac_deletes acts2)"
  note run2 = full_run [OF ok tab1 res2 ids2]
  obtain r where r: "sres_verified r" "apply_exact_set NoFault sha ids2 plan b False ?t1 = (Inr r, t2)"
    unfolding t2_def using apply_exact_set_run [OF ok tab1 res2 ids2 assms(4,5)] by blast
  note target = full_run_target(1,2) [OF ok tab1 res2 ids2 t2_def]
  obtain acts3 where res3: "residual_actions plan (slice plan t2) = Inr acts3" "mutation_count acts3 = 0"
    using target(1) by blast
  then have none: "ac_creates acts3 = []" "ac_updates acts3 = []" "ac_deletes acts3 = []"
    by (simp_all add: mutation_count_def)
  have tab2: "table_ok t2" unfolding t2_def by (rule table_after [OF run2])
  have "fresh_ids [] (length (ac_creates acts3)) t2" by (simp add: fresh_ids_def none)
  from apply_exact_set_run [OF ok tab2 res3(1) this assms(4,5)] obtain r3 where
    r3: "apply_exact_set NoFault sha [] plan b False t2 = (Inr r3, after_run plan t2 [] [] [] [])"
    by (auto simp: none)
  have "after_run plan t2 [] [] [] [] = t2"
    by (simp add: after_run_def apply_batches_def created_rows_def map_idI)
  with r r3 target(2) show ?thesis
    using after_run_elsewhere [OF run2] after_run_elsewhere [OF assms(2)] by (auto simp flip: t2_def)
qed


section \<open>Witnesses\<close>

definition demo_row :: "string option \<Rightarrow> string \<Rightarrow> string \<Rightarrow> nat \<Rightarrow> snap" where
  "demo_row i account asset quantity =
     \<lparr>sr_record_id = i, sr_as_of = ''2026-01-05'', sr_account = account, sr_asset_id = asset, sr_broker = ''b'',
      sr_quantity = \<lparr>dec_neg = False, dec_coeff = quantity, dec_exp = 0\<rparr>, sr_currency = ''CNY'',
      sr_price = \<lparr>dec_neg = False, dec_coeff = 1, dec_exp = 0\<rparr>,
      sr_cny_price = \<lparr>dec_neg = False, dec_coeff = 1, dec_exp = 0\<rparr>,
      sr_market_value_cny = \<lparr>dec_neg = False, dec_coeff = quantity, dec_exp = 0\<rparr>,
      sr_dedup_key = account @ '':2026-01-05:b:'' @ asset, sr_asset_name = None, sr_avg_cost = None, sr_source = None,
      sr_remark = None\<rparr>"

definition demo_plan :: snap_plan where
  "demo_plan = \<lparr>pn_account = ''a'', pn_as_of = ''2026-01-05'', pn_target_digest = replicate 64 (CHR ''d''),
     pn_before = [demo_row (Some ''r1'') ''a'' ''X'' 5],
     pn_desired = [demo_row None ''a'' ''X'' 7, demo_row None ''a'' ''Y'' 2]\<rparr>"

definition demo_slice :: "snap list" where
  "demo_slice = [demo_row (Some ''r1'') ''a'' ''X'' 5]"

definition demo_remote :: "snap list" where
  "demo_remote = [demo_row (Some ''r1'') ''a'' ''X'' 5, demo_row (Some ''r9'') ''z'' ''X'' 1]"

definition demo_acts :: snap_actions where
  "demo_acts = \<lparr>ac_creates = [demo_row None ''a'' ''Y'' 2], ac_updates = [(''r1'', demo_row None ''a'' ''X'' 7)],
     ac_deletes = [], ac_unchanged = 0\<rparr>"

definition demo_bound :: "(string \<Rightarrow> string) \<Rightarrow> bound_authority" where
  "demo_bound sha = \<lparr>au_account = ''a'', au_as_of = ''2026-01-05'', au_run_id = ''run'', au_issuer = ''i'',
     au_overwrite_existing = True, au_confirmed = True, au_target_digest = replicate 64 (CHR ''d''),
     ba_plan_digest = plan_digest sha demo_plan, ba_authority_digest = []\<rparr>"

lemma demo_matches: "assert_matches sha (demo_bound sha) demo_plan = Inr ()"
  by (simp add: assert_matches_def demo_bound_def demo_plan_def)

lemma demo_built:
  "build_plan ''a'' ''2026-01-05'' (replicate 64 (CHR ''d'')) demo_slice
     [demo_row None ''a'' ''X'' 7, demo_row None ''a'' ''Y'' 2] = Inr demo_plan"
  by code_simp

lemma demo_slice_of: "slice demo_plan demo_remote = demo_slice"
  by code_simp

lemma demo_residual: "residual_actions demo_plan demo_slice = Inr demo_acts"
  by code_simp

lemma demo_table: "table_ok demo_remote"
  by code_simp


lemma demo_target: "snapshot_row_payload ` set (pn_desired demo_plan) =
    {snapshot_row_payload (demo_row None ''a'' ''X'' 7), snapshot_row_payload (demo_row None ''a'' ''Y'' 2)}"
  by (simp add: demo_plan_def)

lemma demo_ids: "fresh_ids [''r2''] 1 demo_remote"
  by (simp add: fresh_ids_def demo_remote_def demo_row_def)

lemma demo_created: "length (ac_creates demo_acts) = 1"
  by (simp add: demo_acts_def)

lemma demo_confirmed: "au_confirmed (demo_bound sha)"
  by (simp add: demo_bound_def)

definition demo_sha :: "string \<Rightarrow> string" where
  "demo_sha t = replicate 64 (CHR ''x'')"

text \<open>A call whose update breaks off after the creation went through.\<close>

definition demo_fault :: remote_fault where
  "demo_fault = UpdateFails [] (RuntimeError ''lost'')"

lemma demo_sent:
  "apply_holding_snapshot_actions demo_fault [''r2''] demo_acts demo_slice False demo_remote =
     (Inl (RuntimeError ''lost''), demo_remote @ [demo_row (Some ''r2'') ''a'' ''Y'' 2])"
  by code_simp

lemma demo_broken:
  "apply_exact_set demo_fault demo_sha [''r2''] demo_plan (demo_bound demo_sha) False demo_remote =
     (Inl (RuntimeError ''lost''), demo_remote @ [demo_row (Some ''r2'') ''a'' ''Y'' 2])"
proof -
  have "fresh_read demo_fault (pn_account demo_plan) (pn_as_of demo_plan) demo_remote = Inr demo_slice"
    using demo_slice_of by (simp add: fresh_read_def demo_fault_def slice_def)
  then show ?thesis
    by (simp add: apply_exact_set_def demo_matches demo_confirmed demo_residual demo_sent)
qed

theorem snapshot_write_guarded_witness:
  "fst (apply_exact_set demo_fault demo_sha [''r2''] demo_plan (demo_bound demo_sha) False demo_remote) =
      Inl (RuntimeError ''lost'') \<and>
    (\<exists>acts ids c u d. interrupted demo_plan demo_remote acts ids c u d \<and>
      demo_remote @ [demo_row (Some ''r2'') ''a'' ''Y'' 2] = after_run demo_plan demo_remote ids c u d)"
proof -
  have "\<forall>acts. residual_actions demo_plan (slice demo_plan demo_remote) = Inr acts \<longrightarrow>
      fresh_ids [''r2''] (length (ac_creates acts)) demo_remote"
    using demo_ids demo_created by (simp add: demo_slice_of demo_residual)
  from snapshot_write_guarded [OF demo_built demo_table this demo_broken]
  show ?thesis by (simp add: demo_broken)
qed

lemma demo_interrupted:
  "interrupted demo_plan demo_remote demo_acts [''r2''] [demo_row None ''a'' ''Y'' 2] [] []"
  using plan_ok_build [OF demo_built]
  by (simp add: interrupted_def demo_table demo_slice_of demo_residual)
    (simp add: demo_acts_def demo_remote_def demo_row_def)

theorem snapshot_run_resumes_witness:
  "\<exists>r t2. apply_exact_set NoFault demo_sha [] demo_plan (demo_bound demo_sha) False
       (after_run demo_plan demo_remote [''r2''] [demo_row None ''a'' ''Y'' 2] [] []) = (Inr r, t2) \<and>
     snapshot_row_payload ` set (slice demo_plan t2) =
       {snapshot_row_payload (demo_row None ''a'' ''X'' 7), snapshot_row_payload (demo_row None ''a'' ''Y'' 2)}"
proof -
  have "fresh_ids [] (length (filter (\<lambda>r. r \<notin> set [demo_row None ''a'' ''Y'' 2]) (ac_creates demo_acts)))
      (after_run demo_plan demo_remote [''r2''] [demo_row None ''a'' ''Y'' 2] [] [])"
    by (simp add: fresh_ids_def demo_acts_def)
  from snapshot_run_resumes [OF demo_built demo_interrupted this demo_matches demo_confirmed]
  show ?thesis unfolding demo_target by blast
qed

end
