(* ===== verification/Floats.thy ===== *)
theory Floats
  imports Complex_Main "HOL-Library.Log_Nat"
begin

text \<open>
  The two number systems of Python that the NAV calculation uses, at the level of values. A float is
  the rational value of a double, a \<open>Decimal\<close> the rational value of a decimal number; both round the
  exact result of an operation to a fixed number of significant digits, half to even: 53 binary
  digits (with the exponent bounded below, for denormal numbers), and the 28 decimal digits of the
  default context. \<open>repr_float\<close> is the number that \<open>str(f)\<close> denotes, the shortest decimal that
  reads back as \<open>f\<close>, so \<open>Decimal(str(f))\<close> is \<open>repr_float f\<close> and \<open>float(d)\<close> is \<open>double d\<close>. The
  largest double and the exponent limits of the context, both beyond \<open>10^300\<close>, are not modelled.
\<close>

section \<open>Rounding to significant digits\<close>

text \<open>The number of digits of \<open>n\<close> in base \<open>b\<close>, and the exponent of the leading digit of \<open>x\<close>.\<close>

function digit_count :: "int \<Rightarrow> int \<Rightarrow> int" where
  "digit_count b n = (if n \<le> 0 \<or> b \<le> 1 then 0 else 1 + digit_count b (n div b))"
  by auto
termination
  by (relation "measure (\<lambda>(b, n). nat n)") (auto simp: zdiv_mono2 int_div_less_self)

declare digit_count.simps [simp del]

definition log_floor :: "nat \<Rightarrow> rat \<Rightarrow> int" where
  "log_floor b x = (let (n, d) = quotient_of x; e = digit_count (int b) n - digit_count (int b) d
     in if of_nat b powi e \<le> x then e else e - 1)"

definition round_even :: "rat \<Rightarrow> int" where
  "round_even x = (let f = \<lfloor>x\<rfloor>; r = x - of_int f
     in if r > 1 / 2 \<or> (r = 1 / 2 \<and> odd f) then f + 1 else f)"

definition round_at :: "nat \<Rightarrow> int \<Rightarrow> rat \<Rightarrow> rat" where
  "round_at b q x = of_int (round_even (x / of_nat b powi q)) * of_nat b powi q"

definition double_exponent :: "rat \<Rightarrow> int" where
  "double_exponent x = max (-1074) (log_floor 2 \<bar>x\<bar> - 52)"

definition double :: "rat \<Rightarrow> rat" where
  "double x = (if x = 0 then 0 else round_at 2 (double_exponent x) x)"

definition ctx :: "rat \<Rightarrow> rat" where
  "ctx x = (if x = 0 then 0 else round_at 10 (log_floor 10 \<bar>x\<bar> - 27) x)"

text \<open>The candidates with \<open>n\<close> digits: the nearest one first, then its neighbours.\<close>

definition short_candidates :: "rat \<Rightarrow> nat \<Rightarrow> rat list" where
  "short_candidates x n = (let q = log_floor 10 \<bar>x\<bar> - int n + 1; y = x / 10 powi q
     in [round_at 10 q x, of_int \<lfloor>y\<rfloor> * 10 powi q, of_int \<lceil>y\<rceil> * 10 powi q])"

definition repr_float :: "rat \<Rightarrow> rat" where
  "repr_float x = (if x = 0 then 0
     else case find (\<lambda>d. double d = x) (concat (map (short_candidates x) [1..<18])) of
         Some d \<Rightarrow> d | None \<Rightarrow> x)"

section \<open>Lemmas: the exponent of a number\<close>

lemma digit_count_floorlog: "1 < b \<Longrightarrow> digit_count (int b) n = int (floorlog b (nat n))"
proof (induction "int b" n rule: digit_count.induct)
  case (1 n)
  show ?case
  proof (cases "n \<le> 0")
    case False
    with 1 have "digit_count (int b) (n div int b) = int (floorlog b (nat (n div int b)))" by simp
    moreover have "nat (n div int b) = nat n div b" using False by (simp add: nat_div_distrib)
    ultimately show ?thesis
      using False 1(2) by (subst digit_count.simps, subst compute_floorlog) simp
  qed (simp add: digit_count.simps floorlog_def)
qed

lemma log_floor_bounds:
  assumes "0 < x" and "1 < b"
  shows "of_nat b powi log_floor b x \<le> x" and "x < of_nat b powi (log_floor b x + 1)"
proof -
  obtain n d where nd: "quotient_of x = (n, d)" by fastforce
  have d: "0 < d" using quotient_of_denom_pos [OF nd] .
  have x: "x = of_int n / of_int d" using quotient_of_div [OF nd] .
  with assms(1) d have n: "0 < n" by (simp add: zero_less_divide_iff)
  define ln ld where "ln = floorlog b (nat n)" and "ld = floorlog b (nat d)"
  let ?b = "of_nat b :: rat"
  have pos: "0 < ?b powi k" for k using assms(2) by simp
  have bn: "b ^ (ln - 1) \<le> nat n" "nat n < b ^ ln" and bd: "b ^ (ld - 1) \<le> nat d" "nat d < b ^ ld"
    using floorlog_bounds [of "nat n" b] floorlog_bounds [of "nat d" b] n d assms(2) by (simp_all add: ln_def ld_def)
  have l1: "1 \<le> ln" "1 \<le> ld"
    using floorlog_eq_zero_iff [of b "nat n"] floorlog_eq_zero_iff [of b "nat d"] n d assms(2)
    by (simp_all add: ln_def ld_def)
  have rn: "?b ^ (ln - 1) \<le> of_int n" "of_int n < ?b ^ ln"
    using bn n by (metis of_nat_le_iff of_nat_power of_nat_nat less_imp_le, metis of_nat_less_iff of_nat_power of_nat_nat less_imp_le)
  have rd: "?b ^ (ld - 1) \<le> of_int d" "of_int d < ?b ^ ld"
    using bd d by (metis of_nat_le_iff of_nat_power of_nat_nat less_imp_le, metis of_nat_less_iff of_nat_power of_nat_nat less_imp_le)
  define e where "e = int ln - int ld"
  have lf: "log_floor b x = (if ?b powi e \<le> x then e else e - 1)"
    using assms(2) by (simp add: log_floor_def nd ln_def ld_def e_def digit_count_floorlog)
  have bnz: "?b \<noteq> 0" using assms(2) by simp
  have up: "x < ?b powi (e + 1)"
  proof -
    have "of_int n < ?b ^ ln" by (rule rn)
    also have "?b ^ ln = ?b powi (e + 1) * ?b ^ (ld - 1)"
      using l1 bnz by (simp add: e_def power_int_add [symmetric] flip: power_int_of_nat)
    also have "\<dots> \<le> ?b powi (e + 1) * of_int d" using rd(1) pos by simp
    finally show ?thesis using d by (simp add: x divide_less_eq)
  qed
  have low: "?b powi (e - 1) \<le> x"
  proof -
    have "?b powi (e - 1) * of_int d \<le> ?b powi (e - 1) * ?b ^ ld" using rd(2) pos by simp
    also have "\<dots> = ?b ^ (ln - 1)"
      using l1 bnz by (simp add: e_def power_int_add [symmetric] flip: power_int_of_nat)
    also have "\<dots> \<le> of_int n" by (rule rn)
    finally show ?thesis using d by (simp add: x le_divide_eq)
  qed
  show "?b powi log_floor b x \<le> x" using low by (simp add: lf)
  show "x < ?b powi (log_floor b x + 1)" using up by (simp add: lf)
qed


lemma log_floor_less:
  assumes "0 < x" "1 < b" "x < of_nat b powi k"
  shows "log_floor b x < k"
proof (rule ccontr)
  assume "\<not> log_floor b x < k"
  then have "(of_nat b :: rat) powi k \<le> of_nat b powi log_floor b x" using assms(2) by (intro power_int_increasing) auto
  with log_floor_bounds(1) [OF assms(1,2)] assms(3) show False by simp
qed

lemma log_floor_ge:
  assumes "0 < x" "1 < b" "of_nat b powi k \<le> x"
  shows "k \<le> log_floor b x"
proof (rule ccontr)
  assume "\<not> k \<le> log_floor b x"
  then have "(of_nat b :: rat) powi (log_floor b x + 1) \<le> of_nat b powi k" using assms(2) by (intro power_int_increasing) auto
  with log_floor_bounds(2) [OF assms(1,2)] assms(3) show False by simp
qed

section \<open>Lemmas: the error of a rounding\<close>

lemma round_even_error: "2 * \<bar>of_int (round_even x) - x\<bar> \<le> 1"
proof -
  have "of_int \<lfloor>x\<rfloor> \<le> x" "x < of_int \<lfloor>x\<rfloor> + 1" using floor_correct [of x] by simp_all
  then show ?thesis by (auto simp: round_even_def Let_def)
qed

lemma round_even_int [simp]: "round_even (of_int n) = n"
  by (simp add: round_even_def Let_def)

lemma round_even_near: "2 * \<bar>of_int n - x\<bar> < 1 \<Longrightarrow> round_even x = n"
proof -
  assume a: "2 * \<bar>of_int n - x\<bar> < 1"
  have "\<bar>of_int (round_even x) - x\<bar> \<le> 1 / 2" "\<bar>of_int n - x\<bar> < 1 / 2" using round_even_error [of x] a by simp_all
  then have "\<bar>of_int (round_even x) - of_int n\<bar> < (1 :: rat)" by linarith
  then have "of_int \<bar>round_even x - n\<bar> < (of_int 1 :: rat)" by simp
  then have "\<bar>round_even x - n\<bar> < 1" by (simp only: of_int_less_iff)
  then show ?thesis by simp
qed

lemma round_at_error: "1 < b \<Longrightarrow> 2 * \<bar>round_at b q x - x\<bar> \<le> of_nat b powi q"
proof -
  assume b: "1 < b"
  define p where "p = (of_nat b :: rat) powi q"
  have p: "0 < p" using b by (simp add: p_def)
  have "round_at b q x - x = (of_int (round_even (x / p)) - x / p) * p"
    using p by (simp add: round_at_def p_def [symmetric] algebra_simps)
  then have "2 * \<bar>round_at b q x - x\<bar> = 2 * \<bar>of_int (round_even (x / p)) - x / p\<bar> * p"
    using p by (simp add: abs_mult)
  also have "\<dots> \<le> 1 * p" using round_even_error [of "x / p"] p by (intro mult_right_mono) simp_all
  finally show ?thesis by (simp add: p_def)
qed

lemma round_at_near:
  assumes "1 < b" and "2 * \<bar>of_int n * of_nat b powi q - x\<bar> < of_nat b powi q"
  shows "round_at b q x = of_int n * of_nat b powi q"
proof -
  define p where "p = (of_nat b :: rat) powi q"
  have p: "0 < p" using assms(1) by (simp add: p_def)
  have "of_int n * p - x = (of_int n - x / p) * p" using p by (simp add: algebra_simps)
  with assms(2) p have "2 * \<bar>of_int n - x / p\<bar> * p < 1 * p" by (simp add: abs_mult flip: p_def)
  with p have "2 * \<bar>of_int n - x / p\<bar> < 1" by (simp only: mult_less_cancel_right_pos)
  then show ?thesis by (simp add: round_at_def p_def [symmetric] round_even_near)
qed

lemma round_at_exact [simp]: "1 < b \<Longrightarrow> round_at b q (of_int n * of_nat b powi q) = of_int n * of_nat b powi q"
  by (rule round_at_near) simp_all

lemma power_int_split: "(x::rat) \<noteq> 0 \<Longrightarrow> x powi (m + n) = x powi m * x powi n"
  by (rule power_int_add) simp

lemma log_scale: "x \<noteq> 0 \<Longrightarrow> 1 < b \<Longrightarrow> of_nat b powi (log_floor b \<bar>x\<bar> + k) \<le> \<bar>x\<bar> * of_nat b powi k"
  using log_floor_bounds(1) [of "\<bar>x\<bar>" b] by (simp add: power_int_split)

lemma ctx_error: "2 * \<bar>ctx x - x\<bar> \<le> \<bar>x\<bar> * 10 powi (-27)"
proof (cases "x = 0")
  case False
  then have "2 * \<bar>ctx x - x\<bar> \<le> 10 powi (log_floor 10 \<bar>x\<bar> + -27)"
    using round_at_error [of 10 "log_floor 10 \<bar>x\<bar> + -27" x] by (simp add: ctx_def)
  also have "\<dots> \<le> \<bar>x\<bar> * 10 powi (-27)" using log_scale [of x 10 "-27"] False by simp
  finally show ?thesis .
qed (simp add: ctx_def)

lemma powi_max_le: "(2::rat) powi (max a b) \<le> 2 powi b + 2 powi a"
  by (cases "a \<le> b") (simp_all add: max_def)

lemma double_error: "2 * \<bar>double x - x\<bar> \<le> \<bar>x\<bar> * 2 powi (-52) + 2 powi (-1074)"
proof (cases "x = 0")
  case False
  then have "2 * \<bar>double x - x\<bar> \<le> 2 powi (max (-1074) (log_floor 2 \<bar>x\<bar> + -52))"
    using round_at_error [of 2 "double_exponent x" x] by (simp add: double_def double_exponent_def)
  also have "\<dots> \<le> \<bar>x\<bar> * 2 powi (-52) + 2 powi (-1074)"
    using powi_max_le [of "-1074" "log_floor 2 \<bar>x\<bar> + -52"] log_scale [of x 2 "-52"] False
    by (simp del: power_int_minus power_int_numeral_neg_numeral power_int_numeral power_int_minus_left)
  finally show ?thesis .
qed (simp add: double_def)


section \<open>Lemmas: reading back a short decimal\<close>

definition decimal_digits :: "nat \<Rightarrow> rat \<Rightarrow> bool" where
  "decimal_digits k d \<longleftrightarrow> (\<exists>n e. d = of_int n * 10 powi e \<and> \<bar>n\<bar> < 10 ^ k)"

lemma tiny: "(2::rat) powi (-1074) \<le> 10 powi (-291) * (1 / 10 ^ 30)"
  by simp

lemma near_double:
  assumes "double y = x" and "10 powi (-291) \<le> \<bar>x\<bar>"
  shows "\<bar>y - x\<bar> \<le> \<bar>x\<bar> * (12 / 10 ^ 17)"
proof -
  define t where "t = (2::rat) powi (-1074)"
  define a where "a = (10::rat) powi (-291)"
  define dist where "dist = \<bar>y - x\<bar>"
  have "2 * \<bar>x - y\<bar> \<le> \<bar>y\<bar> * 2 powi (-52) + t" using double_error [of y] assms(1) by (simp only: t_def)
  then have "2 * dist \<le> \<bar>y\<bar> / 4503599627370496 + t" by (simp add: dist_def abs_minus_commute)
  moreover have "t \<le> a / 10 ^ 30" using tiny unfolding t_def a_def by (simp only: times_divide_eq_right mult_1_right)
  moreover have "a \<le> \<bar>x\<bar>" unfolding a_def by (rule assms(2))
  moreover have "\<bar>y\<bar> \<le> \<bar>x\<bar> + dist" unfolding dist_def by simp
  ultimately have "dist \<le> \<bar>x\<bar> * 12 / 10 ^ 17" unfolding power_numeral by simp
  then show ?thesis by (simp add: dist_def)
qed

lemma near_double_of:
  assumes "10 powi (-290) \<le> \<bar>d\<bar>"
  shows "\<bar>double d - d\<bar> \<le> \<bar>d\<bar> * (12 / 10 ^ 17)" and "10 powi (-291) \<le> \<bar>double d\<bar>" and "double d \<noteq> 0"
proof -
  define t where "t = (2::rat) powi (-1074)"
  define a where "a = (10::rat) powi (-291)"
  have e: "2 * \<bar>double d - d\<bar> \<le> \<bar>d\<bar> * 2 powi (-52) + t" unfolding t_def by (rule double_error)
  have t: "t \<le> a * (1 / 10 ^ 30)" unfolding t_def a_def by (rule tiny)
  have "(10::rat) powi (-290) = 10 powi (-291) * 10" using power_int_split [of "10::rat" "-291" 1] by simp
  then have d: "a * 10 \<le> \<bar>d\<bar>" using assms by (simp only: a_def)
  have a: "0 < a" by (simp add: a_def)
  have "2 * \<bar>double d - d\<bar> \<le> \<bar>d\<bar> * (1 / 4503599627370496) + t" using e by simp
  with t d a show k: "\<bar>double d - d\<bar> \<le> \<bar>d\<bar> * (12 / 10 ^ 17)" by (simp add: field_simps)
  have "\<bar>d\<bar> \<le> \<bar>double d\<bar> + \<bar>double d - d\<bar>" by simp
  with k d a have "a \<le> \<bar>double d\<bar>" by simp
  then show "10 powi (-291) \<le> \<bar>double d\<bar>" unfolding a_def .
  with a show "double d \<noteq> 0" unfolding a_def by auto
qed

lemma candidate_multiple:
  assumes "d \<in> set (short_candidates x n)" and "n \<le> 15"
  shows "\<exists>m. d = of_int m * 10 powi (log_floor 10 \<bar>x\<bar> - 14)"
proof -
  let ?q = "log_floor 10 \<bar>x\<bar> - int n + 1"
  obtain m where d: "d = of_int m * 10 powi ?q"
    using assms(1) by (auto simp: short_candidates_def Let_def round_at_def)
  have "?q = int (15 - n) + (log_floor 10 \<bar>x\<bar> - 14)" using assms(2) by simp
  then have "(10::rat) powi ?q = 10 ^ (15 - n) * 10 powi (log_floor 10 \<bar>x\<bar> - 14)"
    by (simp only: power_int_split [of "10::rat"] power_int_of_nat)
  then have "d = of_int (m * 10 ^ (15 - n)) * 10 powi (log_floor 10 \<bar>x\<bar> - 14)"
    by (simp add: d)
  then show ?thesis by blast
qed

lemma digits_multiple:
  assumes "decimal_digits 15 d" and "10 powi (-290) \<le> \<bar>d\<bar>"
  shows "\<exists>m. d = of_int m * 10 powi (log_floor 10 \<bar>double d\<bar> - 14)"
proof -
  obtain n e where d: "d = of_int n * 10 powi e" and n: "\<bar>n\<bar> < 10 ^ 15"
    using assms(1) by (auto simp: decimal_digits_def)
  define x where "x = double d"
  define q where "q = log_floor 10 \<bar>x\<bar> - 14"
  note near = near_double_of [OF assms(2), folded x_def]
  have "q \<le> e"
  proof (rule ccontr)
    assume "\<not> q \<le> e"
    then have "e + 15 \<le> log_floor 10 \<bar>x\<bar>" by (simp add: q_def)
    then have "(10::rat) powi (e + 15) \<le> 10 powi log_floor 10 \<bar>x\<bar>" by (intro power_int_increasing) simp_all
    also have "\<dots> \<le> \<bar>x\<bar>" using log_floor_bounds(1) [of "\<bar>x\<bar>" 10] near(3) by simp
    finally have low: "10 powi e * 10 ^ 15 \<le> \<bar>x\<bar>"
      using power_int_split [of "10::rat" e 15] by simp
    define p where "p = (10::rat) powi e"
    have p: "0 < p" by (simp add: p_def)
    have "\<bar>n\<bar> \<le> 10 ^ 15 - 1" using n by simp
    then have "of_int \<bar>n\<bar> \<le> (of_int (10 ^ 15 - 1) :: rat)" by (simp only: of_int_le_iff)
    then have "\<bar>d\<bar> \<le> (10 ^ 15 - 1) * p" using p by (simp add: d abs_mult flip: p_def)
    moreover have "\<bar>x\<bar> \<le> \<bar>d\<bar> + \<bar>x - d\<bar>" by simp
    ultimately show False using near(1) low p by (simp flip: p_def)
  qed
  then have e: "e = int (nat (e - q)) + q" by simp
  have "(10::rat) powi e = 10 ^ nat (e - q) * 10 powi q"
    by (subst e) (simp only: power_int_split [of "10::rat"] power_int_of_nat)
  then have "d = of_int (n * 10 ^ nat (e - q)) * 10 powi q" by (simp add: d)
  then show ?thesis unfolding q_def x_def by blast
qed

lemma find_append: "find p (xs @ ys) = (case find p xs of None \<Rightarrow> find p ys | Some x \<Rightarrow> Some x)"
  by (induction xs) auto

lemma find_hit: "find p xs = Some y \<Longrightarrow> y \<in> set xs \<and> p y"
  by (induction xs) (auto split: if_splits)

text \<open>A decimal of at most 15 digits survives the way through a float.\<close>

lemma repr_double:
  assumes "decimal_digits 15 d" and "d = 0 \<or> 10 powi (-290) \<le> \<bar>d\<bar>"
  shows "repr_float (double d) = d"
proof (cases "d = 0")
  case False
  then have big: "10 powi (-290) \<le> \<bar>d\<bar>" using assms(2) by simp
  define x where "x = double d"
  note near = near_double_of [OF big, folded x_def]
  define p where "p = (10::rat) powi (log_floor 10 \<bar>x\<bar> - 14)"
  have p: "0 < p" by (simp add: p_def)
  have x: "\<bar>x\<bar> < p * 10 ^ 15"
    using log_floor_bounds(2) [of "\<bar>x\<bar>" 10] near(3) power_int_split [of "10::rat" "log_floor 10 \<bar>x\<bar> - 14" 15]
    by (simp add: p_def add.commute)
  have close: "\<bar>y - x\<bar> < p / 2" if "double y = x" for y
  proof -
    have "\<bar>y - x\<bar> \<le> \<bar>x\<bar> * (12 / 10 ^ 17)" by (rule near_double [OF that near(2)])
    with x p show ?thesis by simp
  qed
  obtain m where m: "d = of_int m * p" using digits_multiple [OF assms(1) big] by (auto simp: p_def x_def)
  have dx: "double d = x" by (simp add: x_def)
  have "round_at 10 (log_floor 10 \<bar>x\<bar> - 14) x = of_int m * p"
    using round_at_near [of 10 m "log_floor 10 \<bar>x\<bar> - 14" x] close [OF dx] by (simp add: m p_def)
  then have "d \<in> set (short_candidates x 15)" by (simp add: short_candidates_def Let_def m)
  then have ex: "\<exists>y \<in> set (concat (map (short_candidates x) [1..<16])). double y = x" using dx by auto
  define found where "found = find (\<lambda>d. double d = x) (concat (map (short_candidates x) [1..<16]))"
  obtain y where y: "found = Some y" using ex by (cases found) (auto simp: found_def find_None_iff)
  then have y': "y \<in> set (concat (map (short_candidates x) [1..<16]))" "double y = x"
    using find_hit [OF y [unfolded found_def]] by simp_all
  then obtain n where "n < 16" "y \<in> set (short_candidates x n)" by auto
  then obtain k where k: "y = of_int k * p" using candidate_multiple [of y x n] by (auto simp: p_def)
  have "\<bar>y - d\<bar> < p" using close [OF dx] close [OF y'(2)] by linarith
  then have "of_int \<bar>k - m\<bar> * p < 1 * p" using p by (simp add: k m abs_mult flip: left_diff_distrib)
  then have "of_int \<bar>k - m\<bar> < (of_int 1 :: rat)" using p by simp
  then have "k = m" by (simp only: of_int_less_iff)
  then have "y = d" by (simp add: k m)
  moreover have "[1..<18] = [1..<16] @ [16, 17]" by code_simp
  then have "find (\<lambda>d. double d = x) (concat (map (short_candidates x) [1..<18])) = Some y"
    using y by (simp only: map_append concat_append find_append found_def) simp
  ultimately show ?thesis using near(3) by (simp add: repr_float_def flip: x_def)
qed (simp add: repr_float_def double_def)


lemma ctx_digits:
  assumes "decimal_digits 28 x"
  shows "ctx x = x"
proof (cases "x = 0")
  case False
  obtain n e where x: "x = of_int n * 10 powi e" and n: "\<bar>n\<bar> < 10 ^ 28"
    using assms by (auto simp: decimal_digits_def)
  define q where "q = log_floor 10 \<bar>x\<bar> - 27"
  have "of_int \<bar>n\<bar> < (of_int (10 ^ 28) :: rat)" using n by (simp only: of_int_less_iff)
  then have "\<bar>x\<bar> < 10 ^ 28 * 10 powi e" by (simp add: x abs_mult)
  also have "\<dots> = 10 powi (e + 28)" using power_int_split [of "10::rat" e 28] by simp
  finally have "log_floor 10 \<bar>x\<bar> < e + 28" using False by (intro log_floor_less) simp_all
  then have e: "e = int (nat (e - q)) + q" by (simp add: q_def)
  have "(10::rat) powi e = 10 ^ nat (e - q) * 10 powi q"
    by (subst e) (simp only: power_int_split [of "10::rat"] power_int_of_nat)
  then have "x = of_int (n * 10 ^ nat (e - q)) * of_nat 10 powi q" by (simp add: x)
  then have "round_at 10 q x = x" using round_at_exact [of 10 q "n * 10 ^ nat (e - q)"] by simp
  with False show ?thesis by (simp add: ctx_def q_def)
qed (simp add: ctx_def)

text \<open>The text of a float is a number next to it.\<close>

lemma repr_near:
  assumes "x = 0 \<or> 10 powi (-291) \<le> \<bar>x\<bar>"
  shows "\<bar>repr_float x - x\<bar> \<le> \<bar>x\<bar> * (12 / 10 ^ 17)"
proof (cases "x = 0")
  case False
  then show ?thesis
  proof (cases "find (\<lambda>d. double d = x) (concat (map (short_candidates x) [1..<18]))")
    case (Some y)
    then have "double y = x" using find_hit by fast
    then show ?thesis using near_double [of y x] Some False assms by (simp add: repr_float_def)
  qed (simp add: repr_float_def)
qed (simp add: repr_float_def)

lemma decimal_places:
  assumes "\<bar>n\<bar> < 10 ^ k"
  shows "decimal_digits k (of_int n / 10 ^ m)"
proof -
  have "of_int n / 10 ^ m = of_int n * (10::rat) powi (- int m)" by (simp add: power_int_minus divide_inverse)
  with assms show ?thesis unfolding decimal_digits_def by blast
qed

lemma places_size: "n \<noteq> 0 \<Longrightarrow> m \<le> 200 \<Longrightarrow> 10 powi (-290) \<le> \<bar>of_int n / (10::rat) ^ m\<bar>"
proof -
  assume n: "n \<noteq> 0" and m: "m \<le> 200"
  have "(10::rat) powi (-290) \<le> 10 powi (- int m)" using m by (intro power_int_increasing) simp_all
  also have "\<dots> = 1 / 10 ^ m" by (simp add: power_int_minus divide_inverse)
  also have "1 / 10 ^ m \<le> \<bar>of_int n\<bar> / (10::rat) ^ m"
  proof (rule divide_right_mono)
    have "1 \<le> \<bar>n\<bar>" using n by simp
    then show "1 \<le> \<bar>of_int n :: rat\<bar>" by (metis of_int_abs of_int_1_le_iff)
  qed simp
  finally show ?thesis by simp
qed

lemma repr_places: "\<bar>n\<bar> < 10 ^ 15 \<Longrightarrow> m \<le> 200 \<Longrightarrow> repr_float (double (of_int n / 10 ^ m)) = of_int n / 10 ^ m"
  using decimal_places [of n 15 m] places_size [of n m] by (cases "n = 0") (auto intro!: repr_double)

lemma ctx_places: "\<bar>n\<bar> < 10 ^ 28 \<Longrightarrow> ctx (of_int n / 10 ^ m) = of_int n / 10 ^ m"
  by (intro ctx_digits decimal_places)


lemma round_even_ge: "of_int n \<le> x \<Longrightarrow> n \<le> round_even x"
proof -
  assume "of_int n \<le> x"
  then have "n \<le> \<lfloor>x\<rfloor>" by (simp add: le_floor_iff)
  then show ?thesis by (simp add: round_even_def Let_def)
qed

lemma round_even_le: "x \<le> of_int n \<Longrightarrow> round_even x \<le> n"
proof -
  assume a: "x \<le> of_int n"
  show ?thesis
  proof (cases "x = of_int n")
    case False
    with a have "\<lfloor>x\<rfloor> < n" by (simp add: floor_less_iff)
    then show ?thesis by (simp add: round_even_def Let_def)
  qed simp
qed

text \<open>A number at or above a power of ten stays there.\<close>

lemma ctx_power:
  assumes "10 powi k \<le> \<bar>x\<bar>"
  shows "10 powi k \<le> \<bar>ctx x\<bar>"
proof -
  have "(0::rat) < 10 powi k" by simp
  with assms have x: "x \<noteq> 0" by (metis abs_zero not_le)
  define l where "l = log_floor 10 \<bar>x\<bar>"
  define p where "p = (10::rat) powi (l - 27)"
  have p: "0 < p" by (simp add: p_def)
  have k: "k \<le> l" using assms x unfolding l_def by (intro log_floor_ge) simp_all
  have l10: "(10::rat) powi l = 10 ^ 27 * p" using power_int_split [of "10::rat" "l - 27" 27] by (simp add: p_def)
  have ge: "10 ^ 27 * p \<le> \<bar>x\<bar>" using log_floor_bounds(1) [of "\<bar>x\<bar>" 10] x unfolding l10 [symmetric] l_def by simp
  have c: "ctx x = of_int (round_even (x / p)) * p" using x by (simp add: ctx_def round_at_def p_def l_def)
  have "10 ^ 27 \<le> \<bar>round_even (x / p)\<bar>"
  proof (cases "0 < x")
    case True
    with ge p have "of_int (10 ^ 27) \<le> x / p" by (simp add: le_divide_eq)
    from round_even_ge [OF this] show ?thesis by simp
  next
    case False
    with ge p have "x / p \<le> of_int (- (10 ^ 27))" by (simp add: divide_le_eq)
    from round_even_le [OF this] show ?thesis by simp
  qed
  then have "of_int (10 ^ 27) \<le> (of_int \<bar>round_even (x / p)\<bar> :: rat)" by (simp only: of_int_le_iff)
  then have "10 ^ 27 * p \<le> \<bar>ctx x\<bar>" using p by (simp add: c abs_mult)
  moreover have "(10::rat) powi k \<le> 10 powi l" using k by (intro power_int_increasing) simp_all
  ultimately show ?thesis using l10 by simp
qed

section \<open>Lemmas: doubles are kept\<close>

lemma round_even_bound: "\<bar>x\<bar> \<le> of_int n \<Longrightarrow> \<bar>round_even x\<bar> \<le> n"
  using round_even_le [of x n] round_even_ge [of "- n" x] by (simp add: abs_le_iff)

text \<open>A double is a multiple of a power of two with at most 53 digits, and rounding keeps it.\<close>

lemma round_at_multiple:
  assumes "q \<le> p"
  shows "round_at 2 q (of_int m * 2 powi p) = of_int m * 2 powi p"
proof -
  have "(2::rat) powi p = of_int (2 ^ nat (p - q)) * 2 powi q"
    using assms power_int_split [of "2::rat" "p - q" q] by (simp add: power_int_def)
  then have "of_int m * (2::rat) powi p = of_int (m * 2 ^ nat (p - q)) * 2 powi q" by simp
  then show ?thesis using round_at_exact [of 2 q "m * 2 ^ nat (p - q)"] by (simp only: of_nat_numeral)
qed

lemma double_form:
  assumes "x \<noteq> 0"
  obtains n where "double x = of_int n * 2 powi double_exponent x" "\<bar>n\<bar> \<le> 2 ^ 53"
proof -
  define e where "e = double_exponent x"
  have L: "log_floor 2 \<bar>x\<bar> + 1 \<le> 53 + e" by (simp add: e_def double_exponent_def)
  have "\<bar>x\<bar> < 2 powi (log_floor 2 \<bar>x\<bar> + 1)" using log_floor_bounds(2) [of "\<bar>x\<bar>" 2] assms by simp
  also have "\<dots> \<le> 2 powi (53 + e)" using L by (intro power_int_increasing) auto
  also have "\<dots> = 2 ^ 53 * 2 powi e" by (simp add: power_int_split)
  finally have "\<bar>x / 2 powi e\<bar> \<le> of_int (2 ^ 53)" by (simp add: divide_le_eq)
  then have "\<bar>round_even (x / 2 powi e)\<bar> \<le> 2 ^ 53" by (rule round_even_bound)
  moreover have "double x = of_int (round_even (x / 2 powi e)) * 2 powi e"
    using assms by (simp add: double_def round_at_def flip: e_def)
  ultimately show ?thesis using that unfolding e_def by blast
qed

lemma double_multiple:
  assumes "double_exponent y \<le> p" "y = of_int m * 2 powi p"
  shows "double y = y"
proof (cases "y = 0")
  case False
  then have "double y = round_at 2 (double_exponent y) y" by (simp add: double_def)
  also have "\<dots> = y" unfolding assms(2) using assms(1) by (intro round_at_multiple) (simp add: assms(2))
  finally show ?thesis .
qed (simp add: double_def)

lemma double_double: "double (double x) = double x"
proof (cases "x = 0")
  case False
  define e where "e = double_exponent x"
  obtain n where n: "double x = of_int n * 2 powi e" "\<bar>n\<bar> \<le> 2 ^ 53" using double_form [OF False] unfolding e_def .
  have e: "-1074 \<le> e" by (simp add: e_def double_exponent_def)
  show ?thesis
  proof (cases "n = 0 \<or> \<bar>n\<bar> = 2 ^ 53")
    case True
    show ?thesis
    proof (cases "n = 0")
      case False
      with True have abs: "\<bar>n\<bar> = 2 ^ 53" by simp
      then obtain m where m: "n = 2 * m" by (metis abs_of_nonneg abs_of_neg evenE even_numeral even_power minus_minus not_le dvd_minus_iff zero_less_numeral)
      have y: "double x = of_int m * 2 powi (e + 1)" using n(1) m by (simp add: power_int_split)
      have "\<bar>double x\<bar> = of_int \<bar>n\<bar> * 2 powi e" using n(1) by (simp add: abs_mult)
      also have "\<dots> < 2 powi (54 + e)" unfolding abs by (simp add: power_int_split)
      finally have "log_floor 2 \<bar>double x\<bar> < 54 + e" using n(1) False by (intro log_floor_less) auto
      then have "double_exponent (double x) \<le> e + 1" using e by (simp add: double_exponent_def)
      then show ?thesis using y by (rule double_multiple)
    next
      case True
      then have "double x = 0" using n(1) by simp
      then show ?thesis by (simp add: double_def)
    qed
  next
    case False
    then have lt: "\<bar>n\<bar> < 2 ^ 53" using n(2) by simp
    have "\<bar>double x\<bar> = of_int \<bar>n\<bar> * 2 powi e" using n(1) by (simp add: abs_mult)
    also have "\<dots> < of_int (2 ^ 53) * 2 powi e" using lt by (intro mult_strict_right_mono) (simp_all only: of_int_less_iff, simp)
    also have "\<dots> = 2 powi (53 + e)" by (simp add: power_int_split)
    finally have "log_floor 2 \<bar>double x\<bar> < 53 + e" using n(1) False by (intro log_floor_less) auto
    then have "double_exponent (double x) \<le> e" using e by (simp add: double_exponent_def)
    then show ?thesis using n(1) by (rule double_multiple)
  qed
qed (simp add: double_def)

text \<open>\<open>float(str(f))\<close> is \<open>f\<close>.\<close>

lemma double_repr: "double x = x \<Longrightarrow> double (repr_float x) = x"
  by (auto simp: repr_float_def split: option.splits dest: find_hit)

end
