(* ===== verification/Quantize.thy ===== *)
theory Quantize
  imports Prelude Floats
begin

text \<open>
  Quantization with ROUND_HALF_UP on the numbers of Floats, as \<open>domain/nav_calculator.py\<close>,
  \<open>models.py\<close> and \<open>domain/cash_flow_contracts.py\<close> use it: to cents, or to six decimal places. The
  lemmas bound its error and show that quantized values of at most 15 digits go through floats, texts
  and model fields unchanged.
\<close>

section \<open>Quantization\<close>

text \<open>\<open>to_decimal\<close> of a float, and \<open>quantize\<close> with ROUND_HALF_UP to \<open>e\<close> decimal places.\<close>

definition to_decimal :: "rat \<Rightarrow> rat" where
  "to_decimal f = repr_float f"

definition half_up :: "rat \<Rightarrow> int" where
  "half_up x = (if x < 0 then - \<lfloor>- x + 1 / 2\<rfloor> else \<lfloor>x + 1 / 2\<rfloor>)"

definition quantize :: "nat \<Rightarrow> rat \<Rightarrow> py_exn + rat" where
  "quantize places x = (let n = half_up (x * 10 ^ places)
     in if \<bar>n\<bar> \<ge> 10 ^ 28 then Inl (ValueError ''quantize result has too many digits'') else Inr (of_int n / 10 ^ places))"

definition quantize_money :: "rat \<Rightarrow> py_exn + rat" where
  "quantize_money = quantize 2"

definition quantize_nav :: "rat \<Rightarrow> py_exn + rat" where
  "quantize_nav = quantize 6"

definition quantize_weight :: "rat \<Rightarrow> py_exn + rat" where
  "quantize_weight = quantize 6"

text \<open>\<open>float(quantize(v))\<close>, and the value a model field takes, which its validator quantizes again.\<close>

definition float_quantized :: "nat \<Rightarrow> rat \<Rightarrow> py_exn + rat" where
  "float_quantized places v = bind_result (quantize places (to_decimal v)) (\<lambda>q. Inr (double q))"

definition field_value :: "nat \<Rightarrow> rat \<Rightarrow> py_exn + rat" where
  "field_value places v = bind_result (float_quantized places v) (float_quantized places)"

definition optional_field :: "nat \<Rightarrow> rat option \<Rightarrow> py_exn + rat option" where
  "optional_field places v = (case v of None \<Rightarrow> Inr None | Some x \<Rightarrow> bind_result (field_value places x) (\<lambda>y. Inr (Some y)))"

definition float_of_quantized :: "nat \<Rightarrow> rat \<Rightarrow> py_exn + rat" where
  "float_of_quantized places d = bind_result (quantize places d) (\<lambda>q. Inr (double q))"

section \<open>Lemmas: quantization\<close>

lemma half_up_error: "2 * \<bar>of_int (half_up x) - x\<bar> \<le> 1"
proof -
  have near: "\<bar>of_int \<lfloor>y + 1 / 2\<rfloor> - y\<bar> \<le> 1 / 2" for y :: rat
    using of_int_floor_le [of "y + 1 / 2"] floor_correct [of "y + 1 / 2"] by linarith
  show ?thesis
  proof (cases "x < 0")
    case True
    have "of_int (half_up x) - x = - (of_int \<lfloor>- x + 1 / 2\<rfloor> - (- x))" using True by (simp add: half_up_def)
    then have "\<bar>of_int (half_up x) - x\<bar> = \<bar>of_int \<lfloor>- x + 1 / 2\<rfloor> - (- x)\<bar>" by (simp only: abs_minus_cancel)
    also have "\<dots> \<le> 1 / 2" by (rule near)
    finally show ?thesis by simp
  next
    case False
    with near [of x] show ?thesis by (simp add: half_up_def)
  qed
qed

lemma half_up_near: "2 * \<bar>of_int n - x\<bar> < 1 \<Longrightarrow> half_up x = n"
proof -
  assume a: "2 * \<bar>of_int n - x\<bar> < 1"
  have "\<bar>of_int (half_up x) - x\<bar> \<le> 1 / 2" "\<bar>of_int n - x\<bar> < 1 / 2" using half_up_error [of x] a by simp_all
  then have "\<bar>of_int (half_up x) - of_int n\<bar> < (1 :: rat)" by linarith
  then have "of_int \<bar>half_up x - n\<bar> < (of_int 1 :: rat)" by simp
  then have "\<bar>half_up x - n\<bar> < 1" by (simp only: of_int_less_iff)
  then show ?thesis by simp
qed

lemma half_up_mono:
  assumes "x \<le> y"
  shows "half_up x \<le> half_up y"
proof (cases "x < 0 \<and> \<not> y < 0")
  case True
  then have "half_up x = - \<lfloor>- x + 1 / 2\<rfloor>" "half_up y = \<lfloor>y + 1 / 2\<rfloor>" by (simp_all only: half_up_def) simp_all
  moreover have "0 \<le> \<lfloor>- x + 1 / 2\<rfloor>" "0 \<le> \<lfloor>y + 1 / 2\<rfloor>" using True by simp_all
  ultimately show ?thesis by linarith
next
  case False
  with assms have "x < 0 \<and> y < 0 \<or> \<not> x < 0 \<and> \<not> y < 0" by auto
  then show ?thesis
  proof
    assume a: "x < 0 \<and> y < 0"
    have "\<lfloor>- y + 1 / 2\<rfloor> \<le> \<lfloor>- x + 1 / 2\<rfloor>" using assms by (intro floor_mono) simp
    with a show ?thesis by (simp add: half_up_def)
  next
    assume a: "\<not> x < 0 \<and> \<not> y < 0"
    have "\<lfloor>x + 1 / 2\<rfloor> \<le> \<lfloor>y + 1 / 2\<rfloor>" using assms by (intro floor_mono) simp
    with a show ?thesis by (simp add: half_up_def)
  qed
qed

lemma quantize_Inr:
  assumes "quantize k x = Inr q"
  obtains n where "q = of_int n / 10 ^ k" "\<bar>n\<bar> < 10 ^ 28" "n = half_up (x * 10 ^ k)" "2 * \<bar>q - x\<bar> \<le> 1 / 10 ^ k"
proof -
  define n where "n = half_up (x * 10 ^ k)"
  have q: "q = of_int n / 10 ^ k" "\<bar>n\<bar> < 10 ^ 28"
    using assms by (auto simp: quantize_def Let_def n_def split: if_splits)
  have "q - x = (of_int n - x * 10 ^ k) / 10 ^ k" by (simp add: q field_simps)
  then have "2 * \<bar>q - x\<bar> = 2 * \<bar>of_int n - x * 10 ^ k\<bar> / 10 ^ k" by simp
  also have "\<dots> \<le> 1 / 10 ^ k" using half_up_error [of "x * 10 ^ k"] by (intro divide_right_mono) (simp_all add: n_def)
  finally show ?thesis using that q n_def by blast
qed

lemma quantize_near:
  assumes "2 * \<bar>of_int n - x * 10 ^ k\<bar> < 1" and "\<bar>n\<bar> < 10 ^ 28"
  shows "quantize k x = Inr (of_int n / 10 ^ k)"
  using assms half_up_near [of n "x * 10 ^ k"] by (simp add: quantize_def)

lemma quantize_places: "\<bar>n\<bar> < 10 ^ 28 \<Longrightarrow> quantize k (of_int n / 10 ^ k) = Inr (of_int n / 10 ^ k)"
  by (intro quantize_near) simp_all

text \<open>Quantized values of at most 15 digits go through floats, texts and fields unchanged.\<close>

lemma to_decimal_places: "\<bar>n\<bar> < 10 ^ 15 \<Longrightarrow> k \<le> 6 \<Longrightarrow> to_decimal (double (of_int n / 10 ^ k)) = of_int n / 10 ^ k"
  unfolding to_decimal_def by (intro repr_places) simp_all

lemma float_quantized_places:
  "\<bar>n\<bar> < 10 ^ 15 \<Longrightarrow> k \<le> 6 \<Longrightarrow> float_quantized k (double (of_int n / 10 ^ k)) = Inr (double (of_int n / 10 ^ k))"
  by (simp add: float_quantized_def to_decimal_places quantize_places)

lemma field_value_places:
  "\<bar>n\<bar> < 10 ^ 15 \<Longrightarrow> k \<le> 6 \<Longrightarrow> field_value k (double (of_int n / 10 ^ k)) = Inr (double (of_int n / 10 ^ k))"
  by (simp add: field_value_def float_quantized_places)


text \<open>A sum that equals a quantized number was not rounded.\<close>

lemma exact_sum:
  assumes "ctx (of_int a / 100) = of_int t / 100" and "\<bar>t\<bar> < 10 ^ 28"
  shows "ctx (of_int a / 100) = of_int a / 100"
proof (cases "\<bar>a\<bar> < 10 ^ 28")
  case True
  then show ?thesis using ctx_places [of a 2] by simp
next
  case False
  then have "of_int (10 ^ 28) \<le> (of_int \<bar>a\<bar> :: rat)" by (simp only: of_int_le_iff)
  then have "(10::rat) powi 26 \<le> \<bar>of_int a / 100\<bar>" by simp
  from ctx_power [OF this] have "10 ^ 28 \<le> \<bar>of_int t :: rat\<bar>" by (simp add: assms(1))
  then have "of_int (10 ^ 28) \<le> (of_int \<bar>t\<bar> :: rat)" by simp
  with assms(2) show ?thesis by (simp only: of_int_le_iff)
qed

section \<open>Lemmas: amounts in cents\<close>

definition cents :: "rat \<Rightarrow> bool" where
  "cents x \<longleftrightarrow> (\<exists>n. x = of_int n / 10 ^ 2 \<and> \<bar>n\<bar> < 10 ^ 15)"

lemma cents_facts:
  assumes "cents x"
  shows "to_decimal (double x) = x" "quantize 2 x = Inr x" "field_value 2 (double x) = Inr (double x)"
    "float_quantized 2 (double x) = Inr (double x)" "float_of_quantized 2 x = Inr (double x)" "ctx x = x"
proof -
  obtain n where x: "x = of_int n / 10 ^ 2" and n: "\<bar>n\<bar> < 10 ^ 15" using assms by (auto simp: cents_def)
  have n': "\<bar>n\<bar> < 10 ^ 28" using n by simp
  show "to_decimal (double x) = x" unfolding x by (rule to_decimal_places [OF n]) simp
  show q: "quantize 2 x = Inr x" unfolding x by (rule quantize_places [OF n'])
  show "field_value 2 (double x) = Inr (double x)" unfolding x by (rule field_value_places [OF n]) simp
  show "float_quantized 2 (double x) = Inr (double x)" unfolding x by (rule float_quantized_places [OF n]) simp
  show "float_of_quantized 2 x = Inr (double x)" by (simp add: float_of_quantized_def q)
  show "ctx x = x" unfolding x by (rule ctx_places [OF n'])
qed

lemma millionths_facts:
  assumes "x = of_int n / 10 ^ 6" and "\<bar>n\<bar> < 10 ^ 15"
  shows "to_decimal (double x) = x" "quantize 6 x = Inr x" "field_value 6 (double x) = Inr (double x)"
    "float_quantized 6 (double x) = Inr (double x)" "float_of_quantized 6 x = Inr (double x)"
proof -
  have n': "\<bar>n\<bar> < 10 ^ 28" using assms(2) by simp
  show "to_decimal (double x) = x" unfolding assms(1) by (rule to_decimal_places [OF assms(2)]) simp
  show q: "quantize 6 x = Inr x" unfolding assms(1) by (rule quantize_places [OF n'])
  show "field_value 6 (double x) = Inr (double x)" unfolding assms(1) by (rule field_value_places [OF assms(2)]) simp
  show "float_quantized 6 (double x) = Inr (double x)" unfolding assms(1) by (rule float_quantized_places [OF assms(2)]) simp
  show "float_of_quantized 6 x = Inr (double x)" by (simp add: float_of_quantized_def q)
qed

lemma ctx_0 [simp]: "ctx 0 = 0"
  by (simp add: ctx_def)

lemma double_0 [simp]: "double 0 = 0"
  by (simp add: double_def)

lemma one_double: "double 1 = 1"
  by code_simp

lemma to_decimal_1: "to_decimal 1 = 1"
  using to_decimal_places [of 1 0] one_double by simp

lemma ctx_small:
  assumes "\<bar>x\<bar> \<le> b"
  shows "\<bar>ctx x\<bar> \<le> 2 * b"
proof -
  define d where "d = \<bar>ctx x - x\<bar>"
  define s where "s = \<bar>x\<bar>"
  have "2 * d \<le> s * 10 powi (-27)" unfolding d_def s_def by (rule ctx_error)
  also have "\<dots> \<le> s * 1" by (intro mult_left_mono) (simp_all add: power_int_minus s_def)
  finally have "2 * d \<le> s" by simp
  moreover have "\<bar>ctx x\<bar> \<le> d + s" unfolding d_def s_def by simp
  moreover have "0 \<le> s" "s \<le> b" using assms by (simp_all add: s_def)
  ultimately show ?thesis by simp
qed

lemma cents_bounded: "\<exists>n. x = of_int n / 100 \<Longrightarrow> \<bar>x\<bar> < 10 ^ 13 \<Longrightarrow> cents x"
proof -
  assume "\<exists>n. x = of_int n / 100" and b: "\<bar>x\<bar> < 10 ^ 13"
  then obtain n where x: "x = of_int n / 100" by blast
  with b have "of_int \<bar>n\<bar> < (of_int (10 ^ 15) :: rat)" by simp
  then have "\<bar>n\<bar> < 10 ^ 15" by (simp only: of_int_less_iff)
  with x show ?thesis unfolding cents_def by (intro exI [of _ n]) simp
qed

text \<open>The text of a float is near the number the float stands for.\<close>

lemma through_float:
  assumes "10 powi (-290) \<le> \<bar>x\<bar>"
  shows "\<bar>to_decimal (double x) - x\<bar> \<le> \<bar>x\<bar> * (1 / 10 ^ 15)"
proof -
  define s where "s = \<bar>x\<bar>"
  define d where "d = double x"
  note near = near_double_of [OF assms, folded s_def d_def]
  have "\<bar>repr_float d - d\<bar> \<le> \<bar>d\<bar> * (12 / 10 ^ 17)" using near(2) by (intro repr_near) simp
  moreover have "\<bar>d\<bar> \<le> s + \<bar>d - x\<bar>" unfolding s_def by simp
  moreover have "0 \<le> s" by (simp add: s_def)
  ultimately have "\<bar>repr_float d - d\<bar> \<le> s * (13 / 10 ^ 17)" using near(1) by simp
  moreover have "\<bar>repr_float d - x\<bar> \<le> \<bar>repr_float d - d\<bar> + \<bar>d - x\<bar>" by simp
  ultimately show ?thesis using near(1) \<open>0 \<le> s\<close> unfolding to_decimal_def s_def [symmetric] d_def [symmetric] by simp
qed

end
