(* ===== verification/Nav_Values.thy ===== *)
theory Nav_Values
  imports Quantize
begin

text \<open>
  The NAV calculation of \<open>domain/nav_calculator.py\<close> on the numbers of Floats: the projection of a
  valuation to the persisted columns, shares and net value per share, returns and profits, the record
  that is built from them with the quantization its model applies (\<open>models.py\<close>), the final
  invariant check, and their composition in \<open>app/nav_record_service.py\<close>. A date is its day number.
  Of the \<open>details\<close> of a record, the cumulative appreciation and the cash-flow basis are modelled, with
  their checks. Not modelled are the yearly table, the growth rate and the provenance entries; of the
  check, the constants and the dataset fingerprints of the cash-flow basis, which the record copies
  from where the check takes them, the finality entry (writer, status, reason), and the tests that
  numbers are finite, which every rational is.
\<close>

section \<open>Projection of a valuation\<close>

record valuation =
  va_total :: rat
  va_cash :: rat
  va_stock :: rat
  va_fund :: rat
  va_cn :: rat
  va_us :: rat
  va_hk :: rat

record nav_projection =
  np_cash :: rat
  np_non_cash :: rat
  np_fund :: rat
  np_total :: rat
  np_cn :: rat
  np_us :: rat
  np_hk :: rat
  np_stock_weight :: rat
  np_cash_weight :: rat

definition weight_of :: "rat \<Rightarrow> rat \<Rightarrow> rat" where
  "weight_of part whole = (if whole > 0 then ctx (part / whole) else 0)"

definition project_valuation :: "valuation \<Rightarrow> py_exn + nav_projection" where
  "project_valuation v =
     bind_result (quantize_money (to_decimal (va_cash v))) (\<lambda>cash.
     bind_result (quantize_money (ctx (to_decimal (va_stock v) + to_decimal (va_fund v)))) (\<lambda>non_cash.
     bind_result (quantize_money (to_decimal (va_fund v))) (\<lambda>fund.
     let total = ctx (cash + non_cash) in
     bind_result (quantize_money (to_decimal (va_total v))) (\<lambda>observed.
     if observed \<noteq> total
     then Inl (ValueError ''valuation decomposition mismatch: total_value_cny must equal cash_value_cny + stock_value_cny + fund_value_cny'')
     else
       bind_result (quantize_money (to_decimal (va_cn v))) (\<lambda>cn.
       bind_result (quantize_money (to_decimal (va_us v))) (\<lambda>us.
       bind_result (quantize_money (to_decimal (va_hk v))) (\<lambda>hk.
       bind_result (quantize_weight (weight_of non_cash total)) (\<lambda>sw.
       bind_result (quantize_weight (weight_of cash total)) (\<lambda>cw.
         Inr \<lparr>np_cash = cash, np_non_cash = non_cash, np_fund = fund, np_total = total, np_cn = cn, np_us = us,
           np_hk = hk, np_stock_weight = sw, np_cash_weight = cw\<rparr>)))))))))"

text \<open>\<open>ClosedNavTarget.build\<close>; a given number is the decimal its text denotes.\<close>

record closed_target =
  ct_total :: rat
  ct_cash :: rat
  ct_non_cash :: rat
  ct_shares :: rat
  ct_nav :: rat

definition closed_value :: "string \<Rightarrow> rat option \<Rightarrow> py_exn + rat" where
  "closed_value name v = (case v of
      None \<Rightarrow> Inl (ValueError (''CLOSED NAV '' @ name @ '' is required'')) | Some x \<Rightarrow> Inr x)"

definition build_closed_target :: "rat option \<Rightarrow> rat option \<Rightarrow> rat option \<Rightarrow> py_exn + closed_target" where
  "build_closed_target total_value cash non_cash =
     bind_result (closed_value ''total_value'' total_value) (\<lambda>t.
     bind_result (closed_value ''cash_value'' cash) (\<lambda>c.
     bind_result (closed_value ''non_cash_value'' non_cash) (\<lambda>n.
     if t \<noteq> ctx (c + n)
     then Inl (ValueError ''CLOSED NAV decomposition mismatch: total_value must equal cash_value + non_cash_value'')
     else
       bind_result (quantize_money t) (\<lambda>qt.
       bind_result (quantize_money c) (\<lambda>qc.
       bind_result (quantize_money n) (\<lambda>qn.
       if qt \<noteq> ctx (qc + qn)
       then Inl (ValueError ''CLOSED NAV decomposition is not stable at persisted money precision'')
       else if qt \<le> 0 then Inl (ValueError ''CLOSED NAV total_value must be > 0'')
       else Inr \<lparr>ct_total = qt, ct_cash = qc, ct_non_cash = qn, ct_shares = 0, ct_nav = 1\<rparr>))))))"

section \<open>Shares, net value and returns\<close>

text \<open>
  A row of the NAV history. From its details it has the cumulative appreciation, the cash-flow basis
  and a flag that says whether they declare it closed.
\<close>

record flow_basis =
  fb_daily_cash_flow :: rat
  fb_gap_cash_flow :: rat
  fb_previous_nav_date :: "int option"
  fb_start :: int
  fb_end :: int
  fb_start_inclusive :: bool

record nav_row =
  nr_date :: int
  nr_total_value :: rat
  nr_cash_value :: "rat option"
  nr_stock_value :: "rat option"
  nr_fund_value :: "rat option"
  nr_cn_stock_value :: "rat option"
  nr_us_stock_value :: "rat option"
  nr_hk_stock_value :: "rat option"
  nr_stock_weight :: "rat option"
  nr_cash_weight :: "rat option"
  nr_shares :: "rat option"
  nr_nav :: "rat option"
  nr_cash_flow :: "rat option"
  nr_share_change :: "rat option"
  nr_mtd_nav_change :: "rat option"
  nr_ytd_nav_change :: "rat option"
  nr_pnl :: "rat option"
  nr_mtd_pnl :: "rat option"
  nr_ytd_pnl :: "rat option"
  nr_cumulative :: "rat option"
  nr_basis :: "flow_basis option"
  nr_closed :: bool

definition calc_period_return :: "rat \<Rightarrow> rat option \<Rightarrow> rat" where
  "calc_period_return current base = (case base of
      None \<Rightarrow> 0
    | Some b \<Rightarrow> if to_decimal b \<le> 0 then 0
        else double (ctx (ctx (to_decimal current - to_decimal b) / to_decimal b)))"

text \<open>The month-to-date and the year-to-date figures are computed alike.\<close>

definition calc_nav_change :: "rat \<Rightarrow> nav_row option \<Rightarrow> rat option" where
  "calc_nav_change nav base = (case Option.bind base nr_nav of
      None \<Rightarrow> None | Some b \<Rightarrow> if b \<le> 0 then None else Some (calc_period_return nav (Some b)))"

definition calc_pnl :: "rat \<Rightarrow> nav_row option \<Rightarrow> rat \<Rightarrow> rat option" where
  "calc_pnl total_value base cash_flow = (case base of
      None \<Rightarrow> None
    | Some b \<Rightarrow> Some (double (ctx (ctx (to_decimal total_value - to_decimal (nr_total_value b)) - to_decimal cash_flow))))"

record nav_metrics =
  nm_shares :: rat
  nm_shares_change :: rat
  nm_nav :: rat
  nm_month_nav_change :: "rat option"
  nm_year_nav_change :: "rat option"
  nm_daily_appreciation :: "rat option"
  nm_month_appreciation :: "rat option"
  nm_year_appreciation :: "rat option"
  nm_cumulative_appreciation :: rat

record nav_inputs =
  ni_today :: int
  ni_last :: "nav_row option"
  ni_prev_month_end :: "nav_row option"
  ni_prev_year_end :: "nav_row option"
  ni_mtd_base :: "nav_row option"
  ni_ytd_base :: "nav_row option"
  ni_daily_cash_flow :: rat
  ni_monthly_cash_flow :: rat
  ni_yearly_cash_flow :: rat
  ni_gap_cash_flow :: "rat option"
  ni_initial_value :: "rat option"
  ni_cumulative_cash_flow :: rat

definition first_some :: "'a option \<Rightarrow> 'a option \<Rightarrow> 'a option" where
  "first_some a b = (case a of None \<Rightarrow> b | Some x \<Rightarrow> Some x)"

definition effective_cash_flow :: "nav_inputs \<Rightarrow> rat" where
  "effective_cash_flow i = (case ni_gap_cash_flow i of None \<Rightarrow> ni_daily_cash_flow i | Some g \<Rightarrow> g)"

text \<open>The shares after the cash flow, and the change: new money buys shares at the last net value.\<close>

definition share_count :: "rat \<Rightarrow> rat \<Rightarrow> nav_row option \<Rightarrow> py_exn + rat \<times> rat" where
  "share_count total_value cf prev = (case prev of
      None \<Rightarrow> Inr (total_value, cf)
    | Some l \<Rightarrow> (case (nr_nav l, nr_shares l) of
        (Some nav, Some shares) \<Rightarrow>
          if to_decimal nav \<le> 0 \<or> to_decimal shares < 0
          then Inl (ValueError ''historical_evidence_required: previous NAV requires nav > 0 and shares >= 0'')
          else let change = ctx (cf / to_decimal nav) in Inr (ctx (to_decimal shares + change), change)
      | _ \<Rightarrow> Inl (ValueError ''historical_evidence_required: previous NAV requires nav and shares'')))"

definition day_after :: "int \<Rightarrow> nav_row option \<Rightarrow> bool" where
  "day_after today prev = (case prev of None \<Rightarrow> False | Some p \<Rightarrow> today - nr_date p = 1)"

text \<open>The subtractions are those of floats. An initial value of zero counts as none.\<close>

definition calc_cumulative :: "nav_inputs \<Rightarrow> rat \<Rightarrow> rat" where
  "calc_cumulative i total_value = (case ni_initial_value i of
      None \<Rightarrow> 0
    | Some v \<Rightarrow> if v = 0 then 0 else double (double (total_value - v) - ni_cumulative_cash_flow i))"

definition calc_nav_metrics :: "nav_inputs \<Rightarrow> rat \<Rightarrow> py_exn + nav_metrics" where
  "calc_nav_metrics i total_value =
     (let cf = to_decimal (effective_cash_flow i); total = to_decimal total_value in
      bind_result (share_count total cf (ni_last i)) (\<lambda>(shares, change).
      bind_result (quantize_nav (if shares > 0 then ctx (total / shares) else 1)) (\<lambda>nav.
      let nav_float = double nav in
      Inr \<lparr>nm_shares = double shares, nm_shares_change = double change, nm_nav = nav_float,
        nm_month_nav_change = calc_nav_change nav_float (first_some (ni_mtd_base i) (ni_prev_month_end i)),
        nm_year_nav_change = calc_nav_change nav_float (first_some (ni_ytd_base i) (ni_prev_year_end i)),
        nm_daily_appreciation = (if day_after (ni_today i) (ni_last i)
          then calc_pnl total_value (ni_last i) (effective_cash_flow i) else None),
        nm_month_appreciation = calc_pnl total_value (ni_prev_month_end i) (ni_monthly_cash_flow i),
        nm_year_appreciation = calc_pnl total_value (ni_prev_year_end i) (ni_yearly_cash_flow i),
        nm_cumulative_appreciation = calc_cumulative i total_value\<rparr>)))"


section \<open>The record\<close>

text \<open>
  \<open>build_cash_flow_basis\<close>, which \<open>_record_nav_impl\<close> puts into the details of the record it has built; a
  missing gap is written as zero.
\<close>

definition build_cash_flow_basis :: "nav_inputs \<Rightarrow> py_exn + flow_basis" where
  "build_cash_flow_basis i =
     bind_result (float_quantized 2 (ni_daily_cash_flow i)) (\<lambda>d.
     bind_result (float_quantized 2 (case ni_gap_cash_flow i of None \<Rightarrow> 0 | Some g \<Rightarrow> g)) (\<lambda>g.
       Inr \<lparr>fb_daily_cash_flow = d, fb_gap_cash_flow = g, fb_previous_nav_date = map_option nr_date (ni_last i),
         fb_start = (case ni_last i of None \<Rightarrow> ni_today i | Some l \<Rightarrow> nr_date l), fb_end = ni_today i,
         fb_start_inclusive = (ni_last i = None)\<rparr>))"

definition build_nav_record :: "nav_inputs \<Rightarrow> nav_projection \<Rightarrow> nav_metrics \<Rightarrow> py_exn + nav_row" where
  "build_nav_record i p m =
     bind_result (float_quantized 2 (nm_cumulative_appreciation m)) (\<lambda>cumulative.
     bind_result (field_value 2 (double (np_total p))) (\<lambda>total_value.
     bind_result (field_value 2 (double (np_cash p))) (\<lambda>cash.
     bind_result (field_value 2 (double (np_non_cash p))) (\<lambda>stock.
     bind_result (field_value 2 (double (np_fund p))) (\<lambda>fund.
     bind_result (field_value 2 (double (np_cn p))) (\<lambda>cn.
     bind_result (field_value 2 (double (np_us p))) (\<lambda>us.
     bind_result (field_value 2 (double (np_hk p))) (\<lambda>hk.
     bind_result (field_value 6 (double (np_stock_weight p))) (\<lambda>sw.
     bind_result (field_value 6 (double (np_cash_weight p))) (\<lambda>cw.
     bind_result (field_value 2 (nm_shares m)) (\<lambda>shares.
     bind_result (field_value 6 (nm_nav m)) (\<lambda>nav.
     bind_result (field_value 2 (ni_daily_cash_flow i)) (\<lambda>cash_flow.
     bind_result (field_value 2 (nm_shares_change m)) (\<lambda>change.
     bind_result (optional_field 6 (nm_month_nav_change m)) (\<lambda>mtd.
     bind_result (optional_field 6 (nm_year_nav_change m)) (\<lambda>ytd.
     bind_result (optional_field 2 (nm_daily_appreciation m)) (\<lambda>pnl.
     bind_result (optional_field 2 (nm_month_appreciation m)) (\<lambda>mtd_pnl.
     bind_result (optional_field 2 (nm_year_appreciation m)) (\<lambda>ytd_pnl.
     bind_result (build_cash_flow_basis i) (\<lambda>basis.
       Inr \<lparr>nr_date = ni_today i, nr_total_value = total_value, nr_cash_value = Some cash, nr_stock_value = Some stock,
         nr_fund_value = Some fund, nr_cn_stock_value = Some cn, nr_us_stock_value = Some us, nr_hk_stock_value = Some hk,
         nr_stock_weight = Some sw, nr_cash_weight = Some cw, nr_shares = Some shares, nr_nav = Some nav,
         nr_cash_flow = Some cash_flow, nr_share_change = Some change, nr_mtd_nav_change = mtd, nr_ytd_nav_change = ytd,
         nr_pnl = pnl, nr_mtd_pnl = mtd_pnl, nr_ytd_pnl = ytd_pnl, nr_cumulative = Some cumulative, nr_basis = Some basis,
         nr_closed = False\<rparr>))))))))))))))))))))"

section \<open>The invariant check\<close>

datatype nav_error =
    ReferenceMissing string
  | ReferenceNotPositive string
  | ReferenceNegative string
  | ComponentsMissing
  | TotalMismatch
  | FundNotSubset
  | WeightsMissing
  | StockWeightMismatch
  | CashWeightMismatch
  | WeightsSumMismatch
  | ClosedSharesNonzero
  | ClosedNavNotOne
  | ClosedShareChangeNonzero
  | NavMismatch
  | SharesOrNavMissing
  | CashFlowMismatch
  | ShareChangeMismatch
  | SharesMismatch
  | FirstShareChangeMismatch
  | FirstSharesMismatch
  | PnlMismatch
  | BasisMissing
  | BasisDailyMismatch
  | BasisGapMismatch
  | BasisPreviousDateMismatch
  | BasisWindowMismatch
  | MtdChangeMismatch
  | YtdChangeMismatch
  | MtdPnlMismatch
  | YtdPnlMismatch
  | CumulativeMismatch

text \<open>\<open>approx_equal\<close>; and the equality after quantization, \<open>money_equal\<close> and \<open>nav_equal\<close>.\<close>

definition approx_equal :: "rat \<Rightarrow> rat \<Rightarrow> rat \<Rightarrow> bool" where
  "approx_equal a b tolerance \<longleftrightarrow> \<bar>ctx (to_decimal a - to_decimal b)\<bar> \<le> to_decimal tolerance"

definition quantized_equal :: "nat \<Rightarrow> rat option \<Rightarrow> rat option \<Rightarrow> py_exn + bool" where
  "quantized_equal places a b = (case (a, b) of
      (Some x, Some y) \<Rightarrow> bind_result (quantize places (to_decimal x)) (\<lambda>qx.
        bind_result (quantize places (to_decimal y)) (\<lambda>qy. Inr (qx = qy)))
    | (None, None) \<Rightarrow> Inr True
    | _ \<Rightarrow> Inr False)"

definition money_equal :: "rat option \<Rightarrow> rat option \<Rightarrow> py_exn + bool" where
  "money_equal = quantized_equal 2"

definition nav_equal :: "rat option \<Rightarrow> rat option \<Rightarrow> py_exn + bool" where
  "nav_equal = quantized_equal 6"

definition unless_equal :: "nav_error \<Rightarrow> py_exn + bool \<Rightarrow> py_exn + nav_error list" where
  "unless_equal e r = bind_result r (\<lambda>b. Inr (if b then [] else [e]))"

definition reference_errors :: "string \<Rightarrow> bool \<Rightarrow> nav_row option \<Rightarrow> (nav_row \<Rightarrow> rat option) \<Rightarrow> nav_error list" where
  "reference_errors label strict ref f = (case ref of
      None \<Rightarrow> []
    | Some r \<Rightarrow> (case f r of
        None \<Rightarrow> [ReferenceMissing label]
      | Some x \<Rightarrow> if strict then (if to_decimal x \<le> 0 then [ReferenceNotPositive label] else [])
          else (if to_decimal x < 0 then [ReferenceNegative label] else [])))"

definition total_errors :: "nav_row \<Rightarrow> py_exn + nav_error list" where
  "total_errors r = (case (nr_cash_value r, nr_stock_value r) of
      (Some cash, Some stock) \<Rightarrow>
        bind_result (float_of_quantized 2 (ctx (to_decimal stock + to_decimal cash)))
          (\<lambda>expected. unless_equal TotalMismatch (money_equal (Some (nr_total_value r)) (Some expected)))
    | _ \<Rightarrow> Inr [ComponentsMissing])"

definition fund_errors :: "nav_row \<Rightarrow> py_exn + nav_error list" where
  "fund_errors r = (case (nr_fund_value r, nr_stock_value r) of
      (Some fund, Some stock) \<Rightarrow>
        if fund \<ge> 0 \<and> stock \<ge> 0
        then bind_result (quantize_money (to_decimal fund)) (\<lambda>qf. bind_result (quantize_money (to_decimal stock)) (\<lambda>qs.
          Inr (if qf > qs then [FundNotSubset] else [])))
        else Inr []
    | _ \<Rightarrow> Inr [])"

definition weight_errors :: "nav_row \<Rightarrow> py_exn + nav_error list" where
  "weight_errors r =
     (if nr_total_value r \<le> 0 then Inr []
      else case (nr_stock_weight r, nr_cash_weight r) of
        (Some sw, Some cw) \<Rightarrow> (case (nr_stock_value r, nr_cash_value r) of
          (Some stock, Some cash) \<Rightarrow>
            bind_result (float_of_quantized 6 (ctx (to_decimal stock / to_decimal (nr_total_value r)))) (\<lambda>es.
            bind_result (float_of_quantized 6 (ctx (to_decimal cash / to_decimal (nr_total_value r)))) (\<lambda>ec.
              Inr ((if approx_equal sw es (double (1 / 10 ^ 6)) then [] else [StockWeightMismatch]) @
                (if approx_equal cw ec (double (1 / 10 ^ 6)) then [] else [CashWeightMismatch]) @
                (if approx_equal (double (sw + cw)) 1 (double (1 / 10 ^ 4)) then [] else [WeightsSumMismatch]))))
        | _ \<Rightarrow> Inr [])
      | _ \<Rightarrow> Inr [WeightsMissing])"

definition nav_value_errors :: "nav_row \<Rightarrow> py_exn + nav_error list" where
  "nav_value_errors r =
     (if nr_closed r
      then bind_result (unless_equal ClosedSharesNonzero (money_equal (nr_shares r) (Some 0))) (\<lambda>e1.
        bind_result (unless_equal ClosedNavNotOne (nav_equal (nr_nav r) (Some 1))) (\<lambda>e2.
        bind_result (unless_equal ClosedShareChangeNonzero (money_equal (nr_share_change r) (Some 0))) (\<lambda>e3.
          Inr (e1 @ e2 @ e3))))
      else case (nr_shares r, nr_nav r) of
        (Some shares, Some nav) \<Rightarrow>
          if shares > 0
          then bind_result (float_of_quantized 6 (ctx (to_decimal (nr_total_value r) / to_decimal shares))) (\<lambda>expected.
            Inr (if approx_equal nav expected (double (1 / 10 ^ 6)) then [] else [NavMismatch]))
          else Inr [SharesOrNavMissing]
      | _ \<Rightarrow> Inr [SharesOrNavMissing])"

definition share_errors :: "nav_inputs \<Rightarrow> nav_row \<Rightarrow> py_exn + nav_error list" where
  "share_errors i r =
     (let cf = effective_cash_flow i in
      if nr_closed r then Inr []
      else case ni_last i of
        None \<Rightarrow>
          bind_result (unless_equal FirstShareChangeMismatch (money_equal (nr_share_change r) (Some cf))) (\<lambda>e1.
          bind_result (unless_equal FirstSharesMismatch (money_equal (nr_shares r) (Some (nr_total_value r)))) (\<lambda>e2.
            Inr (e1 @ e2)))
      | Some l \<Rightarrow> (case (nr_nav l, nr_shares l) of
          (Some nav, Some shares) \<Rightarrow>
            if nav > 0
            then
              bind_result (float_of_quantized 2 (ctx (to_decimal cf / to_decimal nav))) (\<lambda>change.
              bind_result (float_of_quantized 2 (ctx (to_decimal shares + ctx (to_decimal cf / to_decimal nav)))) (\<lambda>count.
              bind_result (unless_equal ShareChangeMismatch (money_equal (nr_share_change r) (Some change))) (\<lambda>e1.
              bind_result (unless_equal SharesMismatch (money_equal (nr_shares r) (Some count))) (\<lambda>e2.
                Inr (e1 @ e2)))))
            else Inr []
        | _ \<Rightarrow> Inr []))"

definition expected_profit :: "rat option \<Rightarrow> py_exn + rat option" where
  "expected_profit v = (case v of None \<Rightarrow> Inr None | Some x \<Rightarrow> bind_result (float_quantized 2 x) (\<lambda>y. Inr (Some y)))"

definition pnl_errors :: "bool \<Rightarrow> nav_inputs \<Rightarrow> nav_row \<Rightarrow> py_exn + nav_error list" where
  "pnl_errors strict i r =
     bind_result
       (case ni_last i of
          None \<Rightarrow> Inr None
        | Some l \<Rightarrow>
            if nr_closed r \<or> nr_date r - nr_date l \<noteq> 1 then Inr None
            else bind_result (float_of_quantized 2 (ctx (ctx (to_decimal (nr_total_value r) - to_decimal (nr_total_value l)) -
                to_decimal (effective_cash_flow i)))) (\<lambda>x. Inr (Some x)))
       (\<lambda>expected. if nr_pnl r = None \<and> \<not> strict then Inr [] else unless_equal PnlMismatch (money_equal (nr_pnl r) expected))"

text \<open>The cash-flow basis; only the check of an official record needs one.\<close>

definition basis_errors :: "bool \<Rightarrow> nav_inputs \<Rightarrow> nav_row \<Rightarrow> py_exn + nav_error list" where
  "basis_errors strict i r = (case nr_basis r of
      None \<Rightarrow> Inr (if strict then [BasisMissing] else [])
    | Some b \<Rightarrow>
        bind_result (unless_equal BasisDailyMismatch (money_equal (Some (fb_daily_cash_flow b)) (Some (ni_daily_cash_flow i)))) (\<lambda>e1.
        bind_result (unless_equal BasisGapMismatch (money_equal (Some (fb_gap_cash_flow b)) (Some (effective_cash_flow i)))) (\<lambda>e2.
          Inr (e1 @ e2 @
            (if fb_previous_nav_date b \<noteq> map_option nr_date (ni_last i) then [BasisPreviousDateMismatch] else []) @
            (if fb_start b \<noteq> (case ni_last i of None \<Rightarrow> nr_date r | Some l \<Rightarrow> nr_date l) \<or> fb_end b \<noteq> nr_date r \<or>
                fb_start_inclusive b \<noteq> (ni_last i = None)
             then [BasisWindowMismatch] else [])))))"

text \<open>The cumulative appreciation, computed again with decimals.\<close>

definition cumulative_errors :: "nav_inputs \<Rightarrow> nav_row \<Rightarrow> py_exn + nav_error list" where
  "cumulative_errors i r = (case ni_initial_value i of
      None \<Rightarrow> Inr []
    | Some v \<Rightarrow>
        bind_result (float_of_quantized 2 (ctx (ctx (to_decimal (nr_total_value r) - to_decimal v) -
            to_decimal (ni_cumulative_cash_flow i)))) (\<lambda>expected.
          case nr_cumulative r of
            None \<Rightarrow> Inr []
          | Some x \<Rightarrow> unless_equal CumulativeMismatch (money_equal (Some x) (Some expected))))"

definition return_errors :: "nav_inputs \<Rightarrow> nav_row \<Rightarrow> py_exn + nav_error list" where
  "return_errors i r =
     (let change = (\<lambda>base. case nr_nav r of None \<Rightarrow> None | Some nav \<Rightarrow> calc_nav_change nav base) in
      bind_result (unless_equal MtdChangeMismatch
        (nav_equal (nr_mtd_nav_change r) (change (first_some (ni_mtd_base i) (ni_prev_month_end i))))) (\<lambda>e1.
      bind_result (unless_equal YtdChangeMismatch
        (nav_equal (nr_ytd_nav_change r) (change (first_some (ni_ytd_base i) (ni_prev_year_end i))))) (\<lambda>e2.
      bind_result (expected_profit (calc_pnl (nr_total_value r) (ni_prev_month_end i) (ni_monthly_cash_flow i))) (\<lambda>mp.
      bind_result (unless_equal MtdPnlMismatch (money_equal (nr_mtd_pnl r) mp)) (\<lambda>e3.
      bind_result (expected_profit (calc_pnl (nr_total_value r) (ni_prev_year_end i) (ni_yearly_cash_flow i))) (\<lambda>yp.
      bind_result (unless_equal YtdPnlMismatch (money_equal (nr_ytd_pnl r) yp)) (\<lambda>e4.
        Inr (e1 @ e2 @ e3 @ e4))))))))"

definition nav_errors :: "bool \<Rightarrow> nav_inputs \<Rightarrow> nav_row \<Rightarrow> py_exn + nav_error list" where
  "nav_errors strict i r =
     bind_result (total_errors r) (\<lambda>e1.
     bind_result (fund_errors r) (\<lambda>e2.
     bind_result (weight_errors r) (\<lambda>e3.
     bind_result (nav_value_errors r) (\<lambda>e4.
     bind_result (unless_equal CashFlowMismatch (money_equal (nr_cash_flow r) (Some (ni_daily_cash_flow i)))) (\<lambda>e5.
     bind_result (share_errors i r) (\<lambda>e6.
     bind_result (pnl_errors strict i r) (\<lambda>e7.
     bind_result (basis_errors strict i r) (\<lambda>e8.
     bind_result (return_errors i r) (\<lambda>e9.
     bind_result (cumulative_errors i r) (\<lambda>e10.
       Inr ((if nr_closed r then [] else
           reference_errors ''last_nav.nav'' True (ni_last i) nr_nav @
           reference_errors ''last_nav.shares'' False (ni_last i) nr_shares @
           reference_errors ''mtd_return_base_nav.nav'' True (ni_mtd_base i) nr_nav @
           reference_errors ''ytd_return_base_nav.nav'' True (ni_ytd_base i) nr_nav) @
         e1 @ e2 @ e3 @ e4 @ e5 @ e6 @ e7 @ e8 @ e9 @ e10)))))))))))"

definition assert_nav_invariants :: "bool \<Rightarrow> nav_inputs \<Rightarrow> nav_row \<Rightarrow> py_exn + unit" where
  "assert_nav_invariants strict i r = bind_result (nav_errors strict i r)
     (\<lambda>errors. if errors \<noteq> [] then Inl (ValueError ''NAV record self-check failed'') else Inr ())"

text \<open>The calculation of \<open>_record_nav_impl\<close>, from the valuation to the checked record.\<close>

definition record_nav :: "nav_inputs \<Rightarrow> valuation \<Rightarrow> py_exn + nav_row" where
  "record_nav i v =
     bind_result (project_valuation v) (\<lambda>p.
     bind_result (calc_nav_metrics i (double (np_total p))) (\<lambda>m.
     bind_result (build_nav_record i p m) (\<lambda>r.
     bind_result (assert_nav_invariants True i r) (\<lambda>_. Inr r))))"


section \<open>Lemmas: the projection\<close>

lemma projection_facts:
  assumes "project_valuation v = Inr p"
  obtains c n f t where "np_cash p = of_int c / 100" "np_non_cash p = of_int n / 100" "np_fund p = of_int f / 100"
    "np_total p = of_int t / 100" "t = c + n" "\<bar>c\<bar> < 10 ^ 28" "\<bar>n\<bar> < 10 ^ 28" "\<bar>t\<bar> < 10 ^ 28"
    "quantize 6 (weight_of (np_non_cash p) (np_total p)) = Inr (np_stock_weight p)"
    "quantize 6 (weight_of (np_cash p) (np_total p)) = Inr (np_cash_weight p)"
proof -
  have q: "quantize_money (to_decimal (va_cash v)) = Inr (np_cash p)"
    "quantize_money (ctx (to_decimal (va_stock v) + to_decimal (va_fund v))) = Inr (np_non_cash p)"
    "quantize_money (to_decimal (va_fund v)) = Inr (np_fund p)"
    "quantize_money (to_decimal (va_total v)) = Inr (np_total p)" "np_total p = ctx (np_cash p + np_non_cash p)"
    "quantize_weight (weight_of (np_non_cash p) (np_total p)) = Inr (np_stock_weight p)"
    "quantize_weight (weight_of (np_cash p) (np_total p)) = Inr (np_cash_weight p)"
    using assms by (auto simp: project_valuation_def bind_result_Inr Let_def split: if_splits)
  from q(1) obtain c where c: "np_cash p = of_int c / 10 ^ 2" "\<bar>c\<bar> < 10 ^ 28"
    unfolding quantize_money_def by (rule quantize_Inr)
  from q(2) obtain n where n: "np_non_cash p = of_int n / 10 ^ 2" "\<bar>n\<bar> < 10 ^ 28"
    unfolding quantize_money_def by (rule quantize_Inr)
  from q(3) obtain f where f: "np_fund p = of_int f / 10 ^ 2"
    unfolding quantize_money_def by (rule quantize_Inr)
  from q(4) obtain t where t: "np_total p = of_int t / 10 ^ 2" "\<bar>t\<bar> < 10 ^ 28"
    unfolding quantize_money_def by (rule quantize_Inr)
  have "ctx (of_int (c + n) / 100) = of_int t / 100" using q(5) c n t by (simp add: add_divide_distrib)
  with exact_sum [OF this t(2)] have "of_int t = (of_int (c + n) :: rat)" by simp
  then have "t = c + n" by (simp only: of_int_eq_iff)
  with c n f t q(6,7) show ?thesis using that by (simp add: quantize_weight_def)
qed

lemma projection_regions:
  assumes "project_valuation v = Inr p"
  shows "\<exists>m. np_cn p = of_int m / 100" "\<exists>m. np_us p = of_int m / 100" "\<exists>m. np_hk p = of_int m / 100"
    "\<exists>m. np_fund p = of_int m / 100"
proof -
  have places: "\<exists>m. y = of_int m / 100" if "quantize_money x = Inr y" for x y
    using that unfolding quantize_money_def by (rule quantize_Inr) auto
  have q: "quantize_money (to_decimal (va_cn v)) = Inr (np_cn p)" "quantize_money (to_decimal (va_us v)) = Inr (np_us p)"
    "quantize_money (to_decimal (va_hk v)) = Inr (np_hk p)" "quantize_money (to_decimal (va_fund v)) = Inr (np_fund p)"
    using assms by (auto simp: project_valuation_def bind_result_Inr Let_def split: if_splits)
  from q [THEN places] show "\<exists>m. np_cn p = of_int m / 100" "\<exists>m. np_us p = of_int m / 100"
    "\<exists>m. np_hk p = of_int m / 100" "\<exists>m. np_fund p = of_int m / 100" .
qed

lemma weight_bounds:
  assumes "quantize 6 (weight_of (of_int a / 100) (of_int t / 100)) = Inr w" and "0 \<le> a" "a \<le> t" "0 < t"
  obtains k where "w = of_int k / 10 ^ 6" "0 \<le> k" "k \<le> 10 ^ 6"
    "2 * \<bar>of_int k - of_int a / of_int t * 10 ^ 6\<bar> \<le> (1 :: rat) + 1 / 10 ^ 20"
proof -
  define x where "x = (of_int a / of_int t :: rat)"
  have x: "0 \<le> x" "x \<le> 1" using assms(2-4) by (simp_all add: x_def)
  have wo: "weight_of (of_int a / 100) (of_int t / 100) = ctx x" using assms(4) by (simp add: weight_of_def x_def)
  have e: "2 * \<bar>ctx x - x\<bar> \<le> 1 / 10 ^ 27"
  proof -
    have "2 * \<bar>ctx x - x\<bar> \<le> \<bar>x\<bar> * 10 powi (-27)" by (rule ctx_error)
    also have "\<dots> \<le> 1 * 10 powi (-27)" using x by (intro mult_right_mono) simp_all
    finally show ?thesis by (simp add: power_int_minus)
  qed
  from assms(1) obtain k where k: "w = of_int k / 10 ^ 6" "k = half_up (ctx x * 10 ^ 6)"
    unfolding wo by (rule quantize_Inr)
  have h: "2 * \<bar>of_int k - ctx x * 10 ^ 6\<bar> \<le> (1 :: rat)" unfolding k(2) by (rule half_up_error)
  have near: "2 * \<bar>of_int k - x * 10 ^ 6\<bar> \<le> (1 :: rat) + 1 / 10 ^ 20"
  proof -
    have "of_int k - x * 10 ^ 6 = (of_int k - ctx x * 10 ^ 6) + (ctx x - x) * 10 ^ 6" by (simp add: algebra_simps)
    then have "\<bar>of_int k - x * 10 ^ 6\<bar> \<le> \<bar>of_int k - ctx x * 10 ^ 6\<bar> + \<bar>(ctx x - x) * 10 ^ 6\<bar>"
      by (simp only: abs_triangle_ineq)
    moreover have "\<bar>(ctx x - x) * 10 ^ 6\<bar> = \<bar>ctx x - x\<bar> * 10 ^ 6" by (simp only: abs_mult) simp
    ultimately have "\<bar>of_int k - x * 10 ^ 6\<bar> \<le> \<bar>of_int k - ctx x * 10 ^ 6\<bar> + \<bar>ctx x - x\<bar> * 10 ^ 6" by simp
    with h e show ?thesis by simp
  qed
  define y where "y = x * 10 ^ 6"
  have y: "0 \<le> y" "y \<le> 10 ^ 6" using x by (simp_all add: y_def)
  have "\<bar>of_int k - y\<bar> < 1" using near unfolding y_def [symmetric] by simp
  with y have "of_int (- 1) < (of_int k :: rat)" "of_int k < (of_int (10 ^ 6 + 1) :: rat)"
    unfolding abs_less_iff of_int_minus of_int_add of_int_1 of_int_power of_int_numeral by linarith+
  then have "- 1 < k" "k < 10 ^ 6 + 1" by (simp_all only: of_int_less_iff)
  then show ?thesis using that [OF k(1)] near by (simp add: x_def)
qed

lemma weights_sum:
  assumes "quantize 6 (weight_of (of_int a / 100) (of_int t / 100)) = Inr w1"
    and "quantize 6 (weight_of (of_int b / 100) (of_int t / 100)) = Inr w2"
    and "0 \<le> a" "0 \<le> b" "t = a + b" "0 < t"
  obtains k l where "w1 = of_int k / 10 ^ 6" "w2 = of_int l / 10 ^ 6" "0 \<le> k" "k \<le> 10 ^ 6" "0 \<le> l" "l \<le> 10 ^ 6"
    "\<bar>k + l - 10 ^ 6\<bar> \<le> 1"
proof -
  from assms(1,3-6) obtain k where k: "w1 = of_int k / 10 ^ 6" "0 \<le> k" "k \<le> 10 ^ 6"
    "2 * \<bar>of_int k - of_int a / of_int t * 10 ^ 6\<bar> \<le> (1 :: rat) + 1 / 10 ^ 20"
    using weight_bounds [of a t w1] by auto
  from assms(2-6) obtain l where l: "w2 = of_int l / 10 ^ 6" "0 \<le> l" "l \<le> 10 ^ 6"
    "2 * \<bar>of_int l - of_int b / of_int t * 10 ^ 6\<bar> \<le> (1 :: rat) + 1 / 10 ^ 20"
    using weight_bounds [of b t w2] by auto
  have "of_int b / of_int t = (1 :: rat) - of_int a / of_int t" using assms(5,6) by (simp add: field_simps)
  then have lb: "2 * \<bar>of_int l - (1 - of_int a / of_int t) * 10 ^ 6\<bar> \<le> (1 :: rat) + 1 / 10 ^ 20" using l(4) by simp
  define y where "y = (of_int a / of_int t * 10 ^ 6 :: rat)"
  have "(1 - of_int a / of_int t) * 10 ^ 6 = 10 ^ 6 - y" by (simp add: y_def algebra_simps)
  with lb have "\<bar>of_int l - (10 ^ 6 - y)\<bar> \<le> 51 / 100" by simp
  moreover have "\<bar>of_int k - y\<bar> \<le> 51 / 100" using k(4) unfolding y_def [symmetric] by simp
  ultimately have "\<bar>of_int (k + l - 10 ^ 6)\<bar> < (of_int 2 :: rat)"
    unfolding of_int_diff of_int_add of_int_power of_int_numeral abs_le_iff abs_less_iff by safe linarith+
  then have "\<bar>k + l - 10 ^ 6\<bar> < 2" by (metis of_int_abs of_int_less_iff)
  with k l show ?thesis using that by simp
qed


section \<open>Lemmas: a first record\<close>

lemma tolerances: "to_decimal (double (1 / 10 ^ 6)) = 1 / 10 ^ 6" "to_decimal (double (1 / 10 ^ 4)) = 1 / 10 ^ 4"
  using repr_places [of 1 6] repr_places [of 1 4] by (simp_all add: to_decimal_def)

lemma approx_refl: "approx_equal a a (double (1 / 10 ^ 6))"
  unfolding approx_equal_def tolerances by simp

lemma cents_equal: "cents x \<Longrightarrow> money_equal (Some (double x)) (Some (double x)) = Inr True"
  by (simp add: money_equal_def quantized_equal_def cents_facts)

lemma double_close:
  assumes "1 / 2 \<le> \<bar>x\<bar>" "\<bar>x\<bar> \<le> 2"
  shows "\<bar>double x - x\<bar> \<le> 1 / 10 ^ 15"
proof -
  have "(10::rat) powi (-290) \<le> 10 powi (-1)" by (intro power_int_increasing) simp_all
  also have "\<dots> \<le> 1 / 2" by (simp add: power_int_minus)
  finally have "(10::rat) powi (-290) \<le> \<bar>x\<bar>" using assms(1) by linarith
  from near_double_of(1) [OF this] have "\<bar>double x - x\<bar> \<le> \<bar>x\<bar> * (12 / 10 ^ 17)" .
  with assms(2) show ?thesis by simp
qed


lemma sum_millionths:
  assumes "\<bar>k + l - 10 ^ 6\<bar> \<le> 1"
  shows "\<bar>of_int k / 10 ^ 6 + of_int l / 10 ^ 6 - 1\<bar> \<le> (1 / 10 ^ 6 :: rat)"
proof -
  define m where "m = k + l - 10 ^ 6"
  have "of_int k / 10 ^ 6 + of_int l / 10 ^ 6 - 1 = (of_int m / 10 ^ 6 :: rat)" by (simp add: m_def field_simps)
  moreover have "\<bar>of_int m / 10 ^ 6\<bar> = (of_int \<bar>m\<bar> / 10 ^ 6 :: rat)" by simp
  moreover have "of_int \<bar>m\<bar> \<le> (of_int 1 :: rat)" using assms by (simp only: m_def of_int_le_iff)
  then have "of_int \<bar>m\<bar> / 10 ^ 6 \<le> (1 / 10 ^ 6 :: rat)" by (intro divide_right_mono) simp_all
  ultimately show ?thesis by (simp only:)
qed

lemma weight_double:
  assumes "0 \<le> k" "k \<le> 10 ^ 6"
  shows "\<bar>double (of_int k / 10 ^ 6) - of_int k / 10 ^ 6\<bar> \<le> 1 / 10 ^ 15"
proof (cases "k = 0")
  case False
  have "(of_int k :: rat) \<le> of_int (10 ^ 6)" using assms(2) by (simp only: of_int_le_iff)
  then have b: "\<bar>of_int k / (10::rat) ^ 6\<bar> \<le> 1" using assms(1) by simp
  from near_double_of(1) [OF places_size [OF False, of 6]]
  have "\<bar>double (of_int k / 10 ^ 6) - of_int k / 10 ^ 6\<bar> \<le> \<bar>of_int k / 10 ^ 6\<bar> * (12 / 10 ^ 17)" by simp
  also have "\<dots> \<le> 1 * (12 / 10 ^ 17)" using b by (intro mult_right_mono) simp_all
  finally show ?thesis by simp
qed simp

lemma weights_sum_check:
  assumes "0 \<le> k" "k \<le> 10 ^ 6" "0 \<le> l" "l \<le> 10 ^ 6" "\<bar>k + l - 10 ^ 6\<bar> \<le> 1"
  shows "approx_equal (double (double (of_int k / 10 ^ 6) + double (of_int l / 10 ^ 6))) 1 (double (1 / 10 ^ 4))"
proof -
  define a b where "a = (of_int k / 10 ^ 6 :: rat)" and "b = (of_int l / 10 ^ 6 :: rat)"
  have ab: "\<bar>double a - a\<bar> \<le> 1 / 10 ^ 15" "\<bar>double b - b\<bar> \<le> 1 / 10 ^ 15"
    unfolding a_def b_def using assms by (intro weight_double; simp)+
  have "\<bar>a + b - 1\<bar> \<le> 1 / 10 ^ 6" unfolding a_def b_def by (rule sum_millionths [OF assms(5)])
  define s where "s = double a + double b"
  have s: "\<bar>s - 1\<bar> \<le> 2 / 10 ^ 6"
  proof -
    have "s - 1 = (double a - a) + (double b - b) + (a + b - 1)" by (simp add: s_def)
    with ab \<open>\<bar>a + b - 1\<bar> \<le> 1 / 10 ^ 6\<close> show ?thesis unfolding abs_le_iff by simp
  qed
  then have "1 / 2 \<le> \<bar>s\<bar>" "\<bar>s\<bar> \<le> 2" unfolding abs_le_iff by simp_all
  then have d: "\<bar>double s - s\<bar> \<le> 1 / 10 ^ 15" by (rule double_close)
  with s have ds: "\<bar>double s - 1\<bar> \<le> 3 / 10 ^ 6" unfolding abs_le_iff by simp
  have "(10::rat) powi (-291) \<le> 10 powi (-1)" by (intro power_int_increasing) simp_all
  also have "\<dots> \<le> \<bar>double s\<bar>" using ds unfolding abs_le_iff by (simp add: power_int_minus)
  finally have "\<bar>repr_float (double s) - double s\<bar> \<le> \<bar>double s\<bar> * (12 / 10 ^ 17)" by (intro repr_near) simp
  moreover have "\<bar>double s\<bar> \<le> 2" using ds unfolding abs_le_iff by simp
  ultimately have "\<bar>repr_float (double s) - double s\<bar> \<le> 1 / 10 ^ 15" by simp
  with ds have "\<bar>to_decimal (double s) - to_decimal 1\<bar> \<le> 4 / 10 ^ 6"
    unfolding to_decimal_1 unfolding to_decimal_def abs_le_iff by simp
  then have "\<bar>ctx (to_decimal (double s) - to_decimal 1)\<bar> \<le> 2 * (4 / 10 ^ 6)" by (rule ctx_small)
  also have "\<dots> \<le> 1 / 10 ^ 4" by simp
  finally show ?thesis unfolding approx_equal_def tolerances s_def a_def b_def .
qed

lemma cents_sign:
  assumes "cents x"
  shows "0 < double x \<longleftrightarrow> 0 < x" and "0 \<le> double x \<longleftrightarrow> 0 \<le> x" and "double x \<le> 0 \<longleftrightarrow> x \<le> 0"
proof -
  have main: "0 < double x \<longleftrightarrow> 0 < x" "double x = 0 \<longleftrightarrow> x = 0"
  proof (atomize (full), cases "x = 0")
    case False
    obtain n where x: "x = of_int n / 10 ^ 2" using assms by (auto simp: cents_def)
    with False have "n \<noteq> 0" by auto
    from places_size [OF this, of 2] have "10 powi (-290) \<le> \<bar>x\<bar>" by (simp add: x)
    note near = near_double_of [OF this]
    have "\<bar>x\<bar> * (12 / 10 ^ 17) < \<bar>x\<bar> * 1" using False by (intro mult_strict_left_mono) simp_all
    from le_less_trans [OF near(1) this] have "\<bar>double x - x\<bar> < \<bar>x\<bar>" by (simp only: mult_1_right)
    then have "0 < double x \<longleftrightarrow> 0 < x" unfolding abs_if by (auto split: if_splits)
    with near(3) False show "(0 < double x \<longleftrightarrow> 0 < x) \<and> (double x = 0 \<longleftrightarrow> x = 0)" by simp
  qed simp
  then show "0 < double x \<longleftrightarrow> 0 < x" "0 \<le> double x \<longleftrightarrow> 0 \<le> x" "double x \<le> 0 \<longleftrightarrow> x \<le> 0"
    by (auto simp: le_less not_less [symmetric])
qed

lemma millionths_sign: "0 < n \<Longrightarrow> \<bar>n\<bar> < 10 ^ 15 \<Longrightarrow> 0 < double (of_int n / 10 ^ 6)"
proof -
  assume n: "0 < n"
  then have x: "0 < (of_int n / 10 ^ 6 :: rat)" by simp
  from n have "n \<noteq> 0" by simp
  note near = near_double_of [OF places_size [OF this, of 6]]
  have "\<bar>of_int n / 10 ^ 6\<bar> * (12 / 10 ^ 17) < \<bar>of_int n / 10 ^ 6\<bar> * (1 :: rat)"
    using x by (intro mult_strict_left_mono) simp_all
  with near(1) have "\<bar>double (of_int n / 10 ^ 6) - of_int n / 10 ^ 6\<bar> < \<bar>of_int n / 10 ^ 6\<bar>"
    by (simp only: mult_1_right) simp
  with x show ?thesis unfolding abs_if by (auto split: if_splits)
qed

text \<open>Differences of floats that stand for cents are near enough to round to the exact cents.\<close>

lemma least_double: "(2::rat) powi (-1074) \<le> 1 / 10 ^ 20"
proof -
  have "(2::rat) powi (-1074) \<le> 2 powi (-70)" by (intro power_int_increasing) simp_all
  also have "\<dots> \<le> 1 / 10 ^ 20" by (simp add: power_int_minus)
  finally show ?thesis .
qed

lemma text_of_double:
  assumes "double x = x"
  shows "\<bar>to_decimal x - x\<bar> \<le> \<bar>x\<bar> / 10 ^ 15 + 1 / 10 ^ 20"
proof -
  define r where "r = repr_float x"
  define d where "d = \<bar>r - x\<bar>"
  have "double r = x" using double_repr [OF assms] by (simp add: r_def)
  with double_error [of r] have "2 * d \<le> \<bar>r\<bar> * 2 powi (-52) + 2 powi (-1074)" unfolding d_def by (simp add: abs_minus_commute)
  moreover note least_double
  moreover have "\<bar>r\<bar> \<le> \<bar>x\<bar> + d" unfolding d_def by simp
  ultimately have "d \<le> \<bar>x\<bar> / 10 ^ 15 + 1 / 10 ^ 20" by (simp add: power_int_minus)
  then show ?thesis by (simp add: d_def r_def to_decimal_def)
qed

lemma double_of_near: "\<bar>double x - x\<bar> \<le> \<bar>x\<bar> / 10 ^ 15 + 1 / 10 ^ 20"
proof -
  define d where "d = \<bar>double x - x\<bar>"
  have "2 * d \<le> \<bar>x\<bar> * 2 powi (-52) + 2 powi (-1074)" unfolding d_def by (rule double_error)
  moreover note least_double
  ultimately have "d \<le> \<bar>x\<bar> / 10 ^ 15 + 1 / 10 ^ 20" by (simp add: power_int_minus)
  then show ?thesis by (simp add: d_def)
qed

lemma difference_of_floats:
  assumes "\<bar>t\<bar> < 10 ^ 11" "\<bar>v\<bar> < 10 ^ 11" "\<bar>c\<bar> < 10 ^ 11"
  shows "\<bar>to_decimal (double (double (double t - double v) - double c)) - (t - v - c)\<bar> \<le> 4 / 1000"
proof -
  have rel: "\<bar>double x - x\<bar> \<le> 1 / 2000" if "\<bar>x\<bar> \<le> 4 * 10 ^ 11" for x
    using double_of_near [of x] that by simp
  define T V C where "T = double t" and "V = double v" and "C = double c"
  have ins: "\<bar>T - t\<bar> \<le> 1 / 2000" "\<bar>V - v\<bar> \<le> 1 / 2000" "\<bar>C - c\<bar> \<le> 1 / 2000"
    unfolding T_def V_def C_def using assms by (intro rel; simp)+
  define D where "D = double (T - V)"
  have "\<bar>T - V\<bar> \<le> 4 * 10 ^ 11" using ins assms unfolding abs_le_iff abs_less_iff by simp
  then have D: "\<bar>D - (T - V)\<bar> \<le> 1 / 2000" unfolding D_def by (rule rel)
  define E where "E = double (D - C)"
  have "\<bar>D - C\<bar> \<le> 4 * 10 ^ 11" using ins D assms unfolding abs_le_iff abs_less_iff by simp
  then have E: "\<bar>E - (D - C)\<bar> \<le> 1 / 2000" unfolding E_def by (rule rel)
  have e: "\<bar>E\<bar> \<le> 4 * 10 ^ 11" using ins D E assms unfolding abs_le_iff abs_less_iff by simp
  have "double E = E" unfolding E_def by (rule double_double)
  from text_of_double [OF this] e have "\<bar>to_decimal E - E\<bar> \<le> 1 / 2000" by simp
  with ins D E show ?thesis unfolding E_def [symmetric] D_def [symmetric] T_def [symmetric] V_def [symmetric] C_def [symmetric] abs_le_iff by simp
qed

lemma cumulative_cents:
  assumes "cents t" "cents v" "cents c" "\<bar>t\<bar> < 10 ^ 11" "\<bar>v\<bar> < 10 ^ 11" "\<bar>c\<bar> < 10 ^ 11"
  shows "cents (t - v - c)" and "float_quantized 2 (double (double (double t - double v) - double c)) = Inr (double (t - v - c))"
    and "ctx (ctx (t - v) - c) = t - v - c"
proof -
  obtain a b d where n: "t = of_int a / 10 ^ 2" "v = of_int b / 10 ^ 2" "c = of_int d / 10 ^ 2"
    using assms(1-3) unfolding cents_def by blast
  have w: "t - v - c = of_int (a - b - d) / 100" "t - v = of_int (a - b) / 100"
    by (simp_all add: n diff_divide_distrib)
  have "\<bar>t - v - c\<bar> < 10 ^ 13" "\<bar>t - v\<bar> < 10 ^ 13" using assms(4-6) unfolding abs_less_iff by simp_all
  note small = this
  have c: "cents (t - v - c)" by (rule cents_bounded [OF exI small(1)]) (rule w(1))
  moreover have "cents (t - v)" by (rule cents_bounded [OF exI small(2)]) (rule w(2))
  ultimately show "cents (t - v - c)" "ctx (ctx (t - v) - c) = t - v - c" by (simp_all only: cents_facts(6))
  define y where "y = to_decimal (double (double (double t - double v) - double c))"
  have "\<bar>y - (t - v - c)\<bar> \<le> 4 / 1000" unfolding y_def by (rule difference_of_floats [OF assms(4-6)])
  moreover define e where "e = t - v - c - y"
  ultimately have "\<bar>e\<bar> \<le> 4 / 1000" by (simp add: abs_minus_commute)
  then have "2 * \<bar>e * 100\<bar> < 1" by (simp add: abs_mult)
  then have "2 * \<bar>(t - v - c - y) * 100\<bar> < 1" by (simp only: e_def)
  moreover have "(t - v - c - y) * 100 = of_int (a - b - d) - y * 10 ^ 2" unfolding n by (simp add: algebra_simps)
  ultimately have "2 * \<bar>of_int (a - b - d) - y * 10 ^ 2\<bar> < 1" by (simp only:)
  moreover have "\<bar>a - b - d\<bar> < 10 ^ 28"
  proof -
    obtain n where "of_int (a - b - d) / 100 = (of_int n / 10 ^ 2 :: rat)" "\<bar>n\<bar> < 10 ^ 15"
      using c unfolding cents_def w(1) by blast
    moreover define k where "k = a - b - d"
    ultimately have "of_int k = (of_int n :: rat)" by simp
    then have "k = n" by (simp only: of_int_eq_iff)
    then have "a - b - d = n" by (simp only: k_def)
    then show ?thesis using \<open>\<bar>n\<bar> < 10 ^ 15\<close> by simp
  qed
  ultimately have "quantize 2 y = Inr (of_int (a - b - d) / 10 ^ 2)" by (rule quantize_near)
  then show "float_quantized 2 (double (double (double t - double v) - double c)) = Inr (double (t - v - c))"
    unfolding float_quantized_def y_def [symmetric] w(1) by simp
qed

section \<open>Lemmas: shares and net value\<close>

lemma metrics_Inr:
  "calc_nav_metrics i tv = Inr m \<Longrightarrow> \<exists>sh ch nv.
     share_count (to_decimal tv) (to_decimal (effective_cash_flow i)) (ni_last i) = Inr (sh, ch) \<and>
     quantize 6 (if sh > 0 then ctx (to_decimal tv / sh) else 1) = Inr nv \<and> nm_nav m = double nv \<and>
     nm_shares m = double sh \<and> nm_shares_change m = double ch"
  by (fastforce simp: calc_nav_metrics_def Let_def bind_result_Inr quantize_nav_def split del: if_split)

text \<open>The shares after a cash flow, in the context, are the exact ones up to a tiny error.\<close>

lemma share_count_near:
  assumes "u = s + c" and "0 < u" and "\<bar>c\<bar> \<le> 10 ^ 9 * u"
  shows "\<bar>ctx (s + ctx c) - u\<bar> \<le> u * (1 / 10 ^ 17)"
proof -
  define x where "x = ctx c"
  define e where "e = \<bar>x - c\<bar>"
  have "2 * e \<le> \<bar>c\<bar> * 10 powi (-27)" unfolding e_def x_def by (rule ctx_error)
  also have "\<dots> \<le> 10 ^ 9 * u * 10 powi (-27)" using assms(3) by (intro mult_right_mono) simp_all
  finally have e: "2 * e \<le> u * (1 / 10 ^ 18)" by (simp add: power_int_minus)
  define y where "y = s + x"
  have yu: "\<bar>y - u\<bar> \<le> e" unfolding y_def e_def assms(1) by simp
  have "2 * \<bar>ctx y - y\<bar> \<le> \<bar>y\<bar> * 10 powi (-27)" by (rule ctx_error)
  moreover have "\<bar>y\<bar> \<le> u + e" using yu assms(2) by simp
  ultimately have "2 * \<bar>ctx y - y\<bar> \<le> u * (1 / 10 ^ 26)" using e assms(2) by (simp add: power_int_minus)
  moreover have "\<bar>ctx y - u\<bar> \<le> \<bar>ctx y - y\<bar> + \<bar>y - u\<bar>" by simp
  ultimately show ?thesis using yu e assms(2) unfolding y_def x_def by simp
qed

lemma quotient_near:
  assumes "\<bar>s - u\<bar> \<le> u * (1 / 10 ^ 17)" and "0 < u" and "0 \<le> t" and "t \<le> 10 ^ 6 * u"
  shows "\<bar>ctx (t / s) - t / u\<bar> \<le> 1 / 10 ^ 10" and "0 < s"
proof -
  have lo: "u * (1 / 2) \<le> s" using assms(1,2) unfolding abs_le_iff by simp
  with assms(2) show s: "0 < s" by linarith
  have tu: "0 \<le> t / u" "t / u \<le> 10 ^ 6" using assms(2-4) by (simp_all add: divide_le_eq)
  have "t / s - t / u = t / u * ((u - s) / s)" using s assms(2) by (simp add: field_simps)
  then have "\<bar>t / s - t / u\<bar> = \<bar>t / u\<bar> * (\<bar>u - s\<bar> / \<bar>s\<bar>)" by (simp only: abs_mult abs_divide)
  moreover have "\<bar>t / u\<bar> = t / u" "\<bar>s\<bar> = s" using tu(1) s by (simp_all only: abs_of_nonneg abs_of_pos)
  ultimately have "\<bar>t / s - t / u\<bar> = t / u * (\<bar>u - s\<bar> / s)" by (simp only:)
  moreover have "\<bar>u - s\<bar> / s \<le> 2 / 10 ^ 17"
  proof -
    have "\<bar>u - s\<bar> \<le> u * (1 / 10 ^ 17)" using assms(1) by (simp add: abs_minus_commute)
    also have "\<dots> \<le> 2 / 10 ^ 17 * s" using lo by simp
    finally show ?thesis using s by (simp add: divide_le_eq)
  qed
  then have "t / u * (\<bar>u - s\<bar> / s) \<le> 10 ^ 6 * (2 / 10 ^ 17)"
    using tu s by (intro mult_mono) (simp_all add: zero_le_divide_iff)
  ultimately have q: "\<bar>t / s - t / u\<bar> \<le> 2 / 10 ^ 11" by simp
  define v x where "v = t / s" and "x = t / u"
  have vx: "\<bar>v - x\<bar> \<le> 2 / 10 ^ 11" and x: "x \<le> 10 ^ 6" using q tu by (simp_all only: v_def x_def)
  have "0 \<le> v" using assms(3) s by (simp add: v_def)
  moreover have "v \<le> 10 ^ 6 + 1" using vx x unfolding abs_le_iff by simp
  moreover have "2 * \<bar>ctx v - v\<bar> \<le> \<bar>v\<bar> * 10 powi (-27)" by (rule ctx_error)
  ultimately have "\<bar>ctx v - v\<bar> \<le> 1 / 10 ^ 11" by (simp add: power_int_minus)
  moreover have "\<bar>ctx v - x\<bar> \<le> \<bar>ctx v - v\<bar> + \<bar>v - x\<bar>" by simp
  ultimately have "\<bar>ctx v - x\<bar> \<le> 1 / 10 ^ 10" using vx by simp
  then show "\<bar>ctx (t / s) - t / u\<bar> \<le> 1 / 10 ^ 10" by (simp only: v_def x_def)
qed

lemma quantized_value_near:
  assumes "quantize 6 v = Inr q" and "\<bar>v - x\<bar> \<le> 1 / 10 ^ 10" and "0 \<le> x" "x \<le> 10 ^ 6"
  obtains n where "q = of_int n / 10 ^ 6" "\<bar>n\<bar> < 10 ^ 15" "\<bar>q - x\<bar> \<le> 6 / 10 ^ 7" "to_decimal (double q) = q"
proof -
  from assms(1) obtain n where n: "q = of_int n / 10 ^ 6" "2 * \<bar>q - v\<bar> \<le> 1 / 10 ^ 6" by (rule quantize_Inr)
  have "\<bar>q - x\<bar> \<le> \<bar>q - v\<bar> + \<bar>v - x\<bar>" by simp
  with n(2) assms(2) have near: "\<bar>q - x\<bar> \<le> 6 / 10 ^ 7" by simp
  with assms(3,4) have "\<bar>q\<bar> < 10 ^ 7" unfolding abs_le_iff by (simp add: abs_less_iff)
  then have "of_int \<bar>n\<bar> < (of_int (10 ^ 13) :: rat)" by (simp add: n(1))
  then have "\<bar>n\<bar> < 10 ^ 13" by (simp only: of_int_less_iff)
  then have b: "\<bar>n\<bar> < 10 ^ 15" by simp
  from millionths_facts(1) [OF n(1) b] show ?thesis using that [OF n(1) b near] by blast
qed

lemma millionths_equal:
  assumes "x = of_int n / 10 ^ 6" "y = of_int k / 10 ^ 6" "\<bar>x - y\<bar> < (1 / 10 ^ 6 :: rat)"
  shows "x = y"
proof -
  have "x - y = of_int (n - k) / 10 ^ 6" by (simp add: assms(1,2) field_simps)
  with assms(3) have "of_int \<bar>n - k\<bar> < (of_int 1 :: rat)" by simp
  then have "n = k" by (simp only: of_int_less_iff)
  with assms(1,2) show ?thesis by simp
qed

lemma nav_near:
  assumes "calc_nav_metrics i total_value = Inr m" and "ni_last i = Some l" and "nr_nav l = Some nav" and "nr_shares l = Some shares"
    and "n = to_decimal nav" "s = to_decimal shares" "cf = to_decimal (effective_cash_flow i)" "t = to_decimal total_value"
    and "u = s + cf / n" "0 < u" "\<bar>cf / n\<bar> \<le> 10 ^ 9 * u" "0 \<le> t" "t \<le> 10 ^ 6 * u"
  obtains nv k where "nm_nav m = double nv" "to_decimal (double nv) = nv" "nv = of_int k / 10 ^ 6"
    "\<bar>nv - t / u\<bar> \<le> 6 / 10 ^ 7" "0 < n"
proof -
  from metrics_Inr [OF assms(1)] obtain sh ch nv where
    count: "share_count t cf (Some l) = Inr (sh, ch)" and q6: "quantize 6 (if sh > 0 then ctx (t / sh) else 1) = Inr nv"
    and m: "nm_nav m = double nv" unfolding assms(2,7,8) by blast
  from count have n: "0 < n" and sh: "sh = ctx (s + ctx (cf / n))"
    by (auto simp: share_count_def assms(3-6) Let_def split: if_splits)
  have near: "\<bar>sh - u\<bar> \<le> u * (1 / 10 ^ 17)" unfolding sh by (rule share_count_near [OF assms(9-11)])
  note q = quotient_near [OF near assms(10,12,13)]
  have nv: "quantize 6 (ctx (t / sh)) = Inr nv" using q6 q(2) by simp
  have tu: "0 \<le> t / u" "t / u \<le> 10 ^ 6" using assms(10,12,13) by (simp_all add: divide_le_eq)
  from nv q(1) tu show ?thesis
    by (rule quantized_value_near) (rule that [OF m _ _ _ n])
qed

section \<open>A small account\<close>

text \<open>An account of 1000 shares at 1.10055 that receives 100 while its holdings do not move.\<close>

definition demo_value :: rat where
  "demo_value = 120055 / 100"

definition demo_before :: rat where
  "demo_before = 110055 / 100"

definition demo_nav_value :: rat where
  "demo_nav_value = 1100550 / 10 ^ 6"

definition demo_last :: nav_row where
  "demo_last = \<lparr>nr_date = 10, nr_total_value = double demo_before, nr_cash_value = Some 0,
     nr_stock_value = Some (double demo_before), nr_fund_value = Some 0, nr_cn_stock_value = Some 0,
     nr_us_stock_value = Some 0, nr_hk_stock_value = Some 0, nr_stock_weight = Some 1, nr_cash_weight = Some 0,
     nr_shares = Some 1000, nr_nav = Some (double demo_nav_value), nr_cash_flow = Some 0, nr_share_change = Some 0,
     nr_mtd_nav_change = None, nr_ytd_nav_change = None, nr_pnl = None, nr_mtd_pnl = None, nr_ytd_pnl = None,
     nr_cumulative = None, nr_basis = None, nr_closed = False\<rparr>"

definition demo_inputs :: nav_inputs where
  "demo_inputs = \<lparr>ni_today = 11, ni_last = Some demo_last, ni_prev_month_end = None, ni_prev_year_end = None,
     ni_mtd_base = None, ni_ytd_base = None, ni_daily_cash_flow = 100, ni_monthly_cash_flow = 100,
     ni_yearly_cash_flow = 100, ni_gap_cash_flow = Some 100,
     ni_initial_value = None, ni_cumulative_cash_flow = 100\<rparr>"

definition demo_valuation :: valuation where
  "demo_valuation = \<lparr>va_total = double demo_value, va_cash = 0, va_stock = double demo_value, va_fund = 0,
     va_cn = 0, va_us = 0, va_hk = 0\<rparr>"

definition demo_projection :: nav_projection where
  "demo_projection = \<lparr>np_cash = 0, np_non_cash = demo_value, np_fund = 0, np_total = demo_value, np_cn = 0, np_us = 0,
     np_hk = 0, np_stock_weight = 1, np_cash_weight = 0\<rparr>"

lemma demo_cents: "cents demo_value" "cents 0" "cents 100" "cents demo_before" "cents 1000"
proof -
  show "cents demo_value" "cents demo_before" "cents 0" unfolding demo_value_def demo_before_def
    by (intro cents_bounded, (auto intro: exI [of _ 120055] exI [of _ 110055] exI [of _ 0]) [2])+
  show "cents 100" by (intro cents_bounded exI [of _ 10000]) simp_all
  show "cents 1000" by (intro cents_bounded exI [of _ 100000]) simp_all
qed

lemma double_ints: "double 100 = 100" "double 1000 = 1000"
  by code_simp+

lemma to_decimal_ints: "to_decimal 0 = 0" "to_decimal 100 = 100" "to_decimal 1000 = 1000"
  using cents_facts(1) [OF demo_cents(2)] cents_facts(1) [OF demo_cents(3)] cents_facts(1) [OF demo_cents(5)]
  by (simp_all add: double_ints)

lemma unit_facts: "quantize 6 1 = Inr 1" "field_value 6 1 = Inr 1" "float_of_quantized 6 1 = Inr 1" "ctx 1 = 1"
  "quantize 6 0 = Inr 0" "field_value 6 0 = Inr 0" "float_of_quantized 6 0 = Inr 0"
  using millionths_facts [of 1 "10 ^ 6"] millionths_facts [of 0 0] ctx_places [of 1 0] by (simp_all add: one_double)

lemma demo_project: "project_valuation demo_valuation = Inr demo_projection"
proof -
  have "0 < demo_value" by (simp add: demo_value_def)
  then show ?thesis
    by (simp add: project_valuation_def demo_valuation_def demo_projection_def Let_def to_decimal_ints quantize_money_def
        cents_facts [OF demo_cents(1)] cents_facts [OF demo_cents(2), simplified] weight_of_def quantize_weight_def unit_facts)
qed

definition demo_change :: rat where
  "demo_change = ctx (100 / demo_nav_value)"

definition demo_shares :: rat where
  "demo_shares = ctx (1000 + demo_change)"

lemma demo_unit_facts: "to_decimal (double demo_nav_value) = demo_nav_value" "quantize 6 demo_nav_value = Inr demo_nav_value"
  "field_value 6 (double demo_nav_value) = Inr (double demo_nav_value)" "0 < demo_nav_value"
proof -
  have v: "demo_nav_value = of_int 1100550 / 10 ^ 6" by (simp add: demo_nav_value_def)
  have "\<bar>1100550\<bar> < (10 ^ 15 :: int)" by simp
  note f = millionths_facts [OF v this]
  show "to_decimal (double demo_nav_value) = demo_nav_value" "quantize 6 demo_nav_value = Inr demo_nav_value"
    "field_value 6 (double demo_nav_value) = Inr (double demo_nav_value)" by (rule f)+
  show "0 < demo_nav_value" by (simp add: demo_nav_value_def)
qed

lemma demo_near:
  "\<bar>demo_change - 100 / demo_nav_value\<bar> \<le> 1 / 10 ^ 20"
  "\<bar>demo_shares - demo_value / demo_nav_value\<bar> \<le> 1 / 10 ^ 10" "0 < demo_shares"
  "\<bar>ctx (demo_value / demo_shares) - demo_nav_value\<bar> \<le> 1 / 10 ^ 10"
proof -
  define u where "u = demo_value / demo_nav_value"
  have u: "u = 1000 + 100 / demo_nav_value" "0 < u" "\<bar>100 / demo_nav_value\<bar> \<le> 10 ^ 9 * u" "0 \<le> demo_value"
    "demo_value \<le> 10 ^ 6 * u" "u * (1 / 10 ^ 17) \<le> 1 / 10 ^ 10" "demo_value / u = demo_nav_value"
    by (simp_all add: u_def demo_value_def demo_nav_value_def)
  have "2 * \<bar>demo_change - 100 / demo_nav_value\<bar> \<le> \<bar>100 / demo_nav_value\<bar> * 10 powi (-27)"
    unfolding demo_change_def by (rule ctx_error)
  also have "\<dots> \<le> 1 / 10 ^ 20" by (simp add: demo_nav_value_def power_int_minus)
  finally show "\<bar>demo_change - 100 / demo_nav_value\<bar> \<le> 1 / 10 ^ 20" by simp
  have near: "\<bar>demo_shares - u\<bar> \<le> u * (1 / 10 ^ 17)"
    using share_count_near [OF u(1-3)] by (simp only: demo_shares_def demo_change_def)
  then show "\<bar>demo_shares - demo_value / demo_nav_value\<bar> \<le> 1 / 10 ^ 10" using u(6) unfolding u_def by (rule order_trans)
  show "0 < demo_shares" "\<bar>ctx (demo_value / demo_shares) - demo_nav_value\<bar> \<le> 1 / 10 ^ 10"
    using quotient_near [OF near u(2,4,5)] by (simp_all only: u(7))
qed

lemma quantize_of_near:
  assumes "\<bar>y - x\<bar> \<le> 1 / 10 ^ 8" and "\<bar>of_int n - x * 10 ^ k\<bar> \<le> 4 / 10" and "k \<le> 6" "\<bar>n\<bar> < 10 ^ 15"
  shows "quantize k y = Inr (of_int n / 10 ^ k)"
proof (rule quantize_near)
  have "(10::rat) ^ k \<le> 10 ^ 6" using assms(3) by (intro power_increasing) simp_all
  then have "\<bar>y - x\<bar> * 10 ^ k \<le> 1 / 10 ^ 8 * 10 ^ 6" using assms(1) by (intro mult_mono) simp_all
  then have d: "\<bar>(y - x) * 10 ^ k\<bar> \<le> 1 / 100" by (simp add: abs_mult)
  have "of_int n - y * 10 ^ k = (of_int n - x * 10 ^ k) - (y - x) * 10 ^ k" by (simp add: algebra_simps)
  then have "\<bar>of_int n - y * 10 ^ k\<bar> \<le> \<bar>of_int n - x * 10 ^ k\<bar> + \<bar>(y - x) * 10 ^ k\<bar>"
    by (simp only: abs_triangle_ineq4)
  with d assms(2) show "2 * \<bar>of_int n - y * 10 ^ k\<bar> < 1" by simp
  show "\<bar>n\<bar> < 10 ^ 28" using assms(4) by simp
qed

text \<open>A long float rounds like the number it stands for, unless that is close to half a cent.\<close>

lemma field_of_near:
  assumes "\<bar>y - x\<bar> \<le> 1 / 10 ^ 9" and "1 \<le> y" "y \<le> 10 ^ 5" and "\<bar>of_int n - x * 100\<bar> \<le> 4 / 10" "\<bar>n\<bar> < 10 ^ 15"
  shows "quantize 2 y = Inr (of_int n / 100)" "field_value 2 (double y) = Inr (double (of_int n / 100))"
proof -
  have "\<bar>y - x\<bar> \<le> 1 / 10 ^ 8" using assms(1) by simp
  from quantize_of_near [OF this, of n 2] assms(4,5) show "quantize 2 y = Inr (of_int n / 100)" by simp
  have "(10::rat) powi (-290) \<le> 10 powi 0" by (intro power_int_increasing) simp_all
  with assms(2) have "(10::rat) powi (-290) \<le> \<bar>y\<bar>" by simp
  from through_float [OF this] have "\<bar>to_decimal (double y) - y\<bar> \<le> \<bar>y\<bar> * (1 / 10 ^ 15)" .
  also have "\<dots> \<le> 10 ^ 5 * (1 / 10 ^ 15)" using assms(2,3) by (intro mult_right_mono) simp_all
  finally have "\<bar>to_decimal (double y) - y\<bar> \<le> 1 / 10 ^ 10" by simp
  moreover have "\<bar>to_decimal (double y) - x\<bar> \<le> \<bar>to_decimal (double y) - y\<bar> + \<bar>y - x\<bar>" by simp
  ultimately have "\<bar>to_decimal (double y) - x\<bar> \<le> 1 / 10 ^ 8" using assms(1) by simp
  from quantize_of_near [OF this, of n 2] assms(4,5) have "quantize 2 (to_decimal (double y)) = Inr (of_int n / 100)" by simp
  then show "field_value 2 (double y) = Inr (double (of_int n / 100))"
    using float_quantized_places [OF assms(5), of 2] by (simp add: field_value_def float_quantized_def)
qed

definition demo_stored_shares :: rat where
  "demo_stored_shares = 109086 / 100"

definition demo_stored_change :: rat where
  "demo_stored_change = 9086 / 100"

definition demo_expected :: rat where
  "demo_expected = 1100554 / 10 ^ 6"

lemma demo_fields: "quantize 2 demo_shares = Inr demo_stored_shares" "field_value 2 (double demo_shares) = Inr (double demo_stored_shares)"
  "quantize 2 demo_change = Inr demo_stored_change" "field_value 2 (double demo_change) = Inr (double demo_stored_change)"
proof -
  have v: "demo_value / demo_nav_value = 24011000 / 22011" "100 / demo_nav_value = 2000000 / 22011"
    by (simp_all add: demo_value_def demo_nav_value_def)
  have s: "\<bar>demo_shares - 24011000 / 22011\<bar> \<le> 1 / 10 ^ 9" using demo_near(2) unfolding v by simp
  have b: "1 \<le> demo_shares" "demo_shares \<le> 10 ^ 5" using s unfolding abs_le_iff by simp_all
  show "quantize 2 demo_shares = Inr demo_stored_shares"
      "field_value 2 (double demo_shares) = Inr (double demo_stored_shares)"
    using field_of_near [OF s b, of 109086] by (simp_all add: demo_stored_shares_def)
  have c: "\<bar>demo_change - 2000000 / 22011\<bar> \<le> 1 / 10 ^ 9" using demo_near(1) unfolding v by simp
  have b: "1 \<le> demo_change" "demo_change \<le> 10 ^ 5" using c unfolding abs_le_iff by simp_all
  show "quantize 2 demo_change = Inr demo_stored_change"
      "field_value 2 (double demo_change) = Inr (double demo_stored_change)"
    using field_of_near [OF c b, of 9086] by (simp_all add: demo_stored_change_def)
qed

definition demo_metrics :: nav_metrics where
  "demo_metrics = \<lparr>nm_shares = double demo_shares, nm_shares_change = double demo_change, nm_nav = double demo_nav_value,
     nm_month_nav_change = None, nm_year_nav_change = None, nm_daily_appreciation = Some 0,
     nm_month_appreciation = None, nm_year_appreciation = None, nm_cumulative_appreciation = 0\<rparr>"

lemma demo_gain: "calc_pnl (double demo_value) (Some demo_last) 100 = Some 0"
  using cents_facts(6) [OF demo_cents(3)]
    by (simp add: calc_pnl_def demo_last_def cents_facts [OF demo_cents(1)] cents_facts [OF demo_cents(4)]
        to_decimal_ints) (simp add: demo_value_def demo_before_def)

lemma demo_calculated: "calc_nav_metrics demo_inputs (double demo_value) = Inr demo_metrics"
proof -
  have cf: "effective_cash_flow demo_inputs = 100" by (simp add: effective_cash_flow_def demo_inputs_def)
  have count: "share_count demo_value 100 (Some demo_last) = Inr (demo_shares, demo_change)"
    using demo_unit_facts(4) by (simp add: share_count_def demo_last_def demo_unit_facts(1) to_decimal_ints Let_def not_le
        flip: demo_shares_def demo_change_def)
  have "\<bar>ctx (demo_value / demo_shares) - demo_nav_value\<bar> \<le> 1 / 10 ^ 8" using demo_near(4) by simp
  from quantize_of_near [OF this, of 1100550 6]
  have q: "quantize 6 (ctx (demo_value / demo_shares)) = Inr demo_nav_value" by (simp add: demo_nav_value_def)
  show ?thesis
    using demo_near(3) unfolding calc_nav_metrics_def cf
    by (simp add: demo_metrics_def demo_inputs_def to_decimal_ints cents_facts [OF demo_cents(1)] count q quantize_nav_def
        calc_nav_change_def first_some_def day_after_def demo_gain calc_pnl_def [where base = None] calc_cumulative_def)
      (simp add: demo_last_def)
qed

text \<open>The cumulative appreciation of a first record, and its check.\<close>

definition sound_initial :: "nav_inputs \<Rightarrow> rat \<Rightarrow> bool" where
  "sound_initial i t \<longleftrightarrow> (case ni_initial_value i of
      None \<Rightarrow> True
    | Some x \<Rightarrow> \<exists>v c. x = double v \<and> cents v \<and> v \<noteq> 0 \<and> \<bar>v\<bar> < 10 ^ 11 \<and>
        ni_cumulative_cash_flow i = double c \<and> cents c \<and> \<bar>c\<bar> < 10 ^ 11 \<and> \<bar>t\<bar> < 10 ^ 11)"

lemma first_cumulative:
  assumes "cents t" "sound_initial i t"
  obtains q where "q = (case ni_initial_value i of None \<Rightarrow> 0 | Some x \<Rightarrow> t - to_decimal x - to_decimal (ni_cumulative_cash_flow i))"
    "float_quantized 2 (calc_cumulative i (double t)) = Inr (double q)"
    "\<And>r. nr_total_value r = double t \<Longrightarrow> nr_cumulative r = Some (double q) \<Longrightarrow> cumulative_errors i r = Inr []"
proof (cases "ni_initial_value i")
  case None
  have "float_quantized 2 0 = Inr (double 0)" using cents_facts(4) [of 0] cents_bounded [of 0] by (auto intro: exI [of _ 0])
  with None show ?thesis by (intro that [of 0]) (simp_all add: calc_cumulative_def cumulative_errors_def)
next
  case (Some x)
  with assms(2) obtain v c where v: "x = double v" "cents v" "v \<noteq> 0" "\<bar>v\<bar> < 10 ^ 11"
      and c: "ni_cumulative_cash_flow i = double c" "cents c" "\<bar>c\<bar> < 10 ^ 11" and t: "\<bar>t\<bar> < 10 ^ 11"
    by (auto simp: sound_initial_def)
  note w = cumulative_cents [OF assms(1) v(2) c(2) t v(4) c(3)]
  have d: "to_decimal x = v" "to_decimal (ni_cumulative_cash_flow i) = c" "to_decimal (double t) = t"
    using cents_facts(1) assms(1) v(1,2) c(1,2) by simp_all
  have "double v \<noteq> 0" using cents_sign [OF v(2)] v(3) by auto
  then have "calc_cumulative i (double t) = double (double (double t - double v) - double c)"
    by (simp add: calc_cumulative_def Some v(1) c(1))
  moreover have "cumulative_errors i r = Inr []" if "nr_total_value r = double t" "nr_cumulative r = Some (double (t - v - c))" for r
    using that by (simp add: cumulative_errors_def Some d w(3) cents_facts [OF w(1)] unless_equal_def cents_equal [OF w(1)])
  ultimately show ?thesis using w(2) by (intro that [of "t - v - c"]) (simp_all add: Some d)
qed

section \<open>Properties\<close>

text \<open>
  C37. The projection keeps the books balanced. When it succeeds, the persisted total is exactly the
  sum of the persisted cash and non-cash values, to the cent and without rounding, whatever
  precision the runtime figures had. For an account with a positive total and no negative
  component the two weights lie between zero and one and add up to one within one millionth.
\<close>
theorem projection_balanced:
  assumes "project_valuation v = Inr p"
  shows "np_total p = np_cash p + np_non_cash p \<and>
    (0 < np_total p \<and> 0 \<le> np_cash p \<and> 0 \<le> np_non_cash p \<longrightarrow>
       0 \<le> np_stock_weight p \<and> np_stock_weight p \<le> 1 \<and> 0 \<le> np_cash_weight p \<and> np_cash_weight p \<le> 1 \<and>
       \<bar>np_stock_weight p + np_cash_weight p - 1\<bar> \<le> 1 / 10 ^ 6)"
proof -
  from assms obtain c n f t where p: "np_cash p = of_int c / 100" "np_non_cash p = of_int n / 100"
      "np_total p = of_int t / 100" "t = c + n"
    and w: "quantize 6 (weight_of (np_non_cash p) (np_total p)) = Inr (np_stock_weight p)"
      "quantize 6 (weight_of (np_cash p) (np_total p)) = Inr (np_cash_weight p)"
    by (rule projection_facts)
  have "np_total p = np_cash p + np_non_cash p" by (simp add: p add_divide_distrib)
  moreover have "0 \<le> np_stock_weight p \<and> np_stock_weight p \<le> 1 \<and> 0 \<le> np_cash_weight p \<and> np_cash_weight p \<le> 1 \<and>
      \<bar>np_stock_weight p + np_cash_weight p - 1\<bar> \<le> 1 / 10 ^ 6"
    if "0 < np_total p" "0 \<le> np_cash p" "0 \<le> np_non_cash p"
  proof -
    have "0 \<le> n" "0 \<le> c" "t = n + c" "0 < t" using that p by simp_all
    then obtain k l where kl: "np_stock_weight p = of_int k / 10 ^ 6" "np_cash_weight p = of_int l / 10 ^ 6"
        "0 \<le> k" "k \<le> 10 ^ 6" "0 \<le> l" "l \<le> 10 ^ 6" "\<bar>k + l - 10 ^ 6\<bar> \<le> 1"
      using weights_sum w unfolding p by metis
    have r: "(of_int k :: rat) \<le> of_int (10 ^ 6)" "(of_int l :: rat) \<le> of_int (10 ^ 6)"
      using kl by (simp_all only: of_int_le_iff)
    with kl(3,5) sum_millionths [OF kl(7)] show ?thesis unfolding kl(1,2) by simp
  qed
  ultimately show ?thesis by blast
qed


text \<open>
  C38. The first record of an account is accepted. For a valuation that projects to a positive total
  with no negative part, fund inside the non-cash value, amounts below ten trillion, and no history,
  the calculation passes the modelled final check, the check of the cumulative appreciation and of
  the cash-flow basis included, and yields shares equal to the total value, a net value of exactly
  one and the exact cumulative appreciation, whatever the cash flows of the day. This needs an initial
  value that is not configured, or one that is a nonzero number of cents, with it, the total and the
  cumulative flows below a hundred billion. The condition is not idle: the record rounds the difference
  of the floats to cents and the check the difference of the decimals, which for an initial value
  of half a cent can fall on different sides. The finality entry is not part of the model.
\<close>
theorem first_nav_accepted:
  assumes "project_valuation v = Inr p" and "0 < np_total p" and "0 \<le> np_cash p" and "0 \<le> np_non_cash p"
    and "np_fund p \<le> np_non_cash p" and "list_all (\<lambda>x. \<bar>x\<bar> < 10 ^ 13) [np_total p, np_fund p, np_cn p, np_us p, np_hk p]"
    and "ni_last i = None" "ni_prev_month_end i = None" "ni_prev_year_end i = None" "ni_mtd_base i = None"
      "ni_ytd_base i = None"
    and "cents d" "ni_daily_cash_flow i = double d" "cents g" "ni_gap_cash_flow i = Some (double g)"
    and "sound_initial i (np_total p)"
  shows "\<exists>r. record_nav i v = Inr r \<and> nr_nav r = Some 1 \<and> nr_shares r = Some (double (np_total p)) \<and>
    nr_total_value r = double (np_total p) \<and> nr_cash_flow r = Some (double d) \<and> nr_share_change r = Some (double g) \<and>
    nr_cumulative r = Some (double (case ni_initial_value i of None \<Rightarrow> 0
      | Some x \<Rightarrow> np_total p - to_decimal x - to_decimal (ni_cumulative_cash_flow i)))"
proof -
  from assms(1) obtain c n f t where p: "np_cash p = of_int c / 100" "np_non_cash p = of_int n / 100"
      "np_fund p = of_int f / 100" "np_total p = of_int t / 100" "t = c + n"
    and w: "quantize 6 (weight_of (np_non_cash p) (np_total p)) = Inr (np_stock_weight p)"
      "quantize 6 (weight_of (np_cash p) (np_total p)) = Inr (np_cash_weight p)"
    by (rule projection_facts)
  have whole: "np_total p = np_non_cash p + np_cash p" by (simp add: p add_divide_distrib)
  have small: "\<bar>np_cash p\<bar> < 10 ^ 13" "\<bar>np_non_cash p\<bar> < 10 ^ 13" using assms(2-6) whole by simp_all
  have cents: "cents (np_total p)" "cents (np_cash p)" "cents (np_non_cash p)" "cents (np_fund p)" "cents (np_cn p)"
    "cents (np_us p)" "cents (np_hk p)"
  proof -
    have "\<exists>m. np_total p = of_int m / 100" "\<exists>m. np_cash p = of_int m / 100" "\<exists>m. np_non_cash p = of_int m / 100"
      using p(1,2,4) by blast+
    note ex = this projection_regions [OF assms(1)]
    have b: "\<bar>np_total p\<bar> < 10 ^ 13" "\<bar>np_fund p\<bar> < 10 ^ 13" "\<bar>np_cn p\<bar> < 10 ^ 13" "\<bar>np_us p\<bar> < 10 ^ 13"
      "\<bar>np_hk p\<bar> < 10 ^ 13" using assms(6) by simp_all
    show "cents (np_total p)" by (rule cents_bounded [OF ex(1) b(1)])
    show "cents (np_cash p)" by (rule cents_bounded [OF ex(2) small(1)])
    show "cents (np_non_cash p)" by (rule cents_bounded [OF ex(3) small(2)])
    show "cents (np_cn p)" by (rule cents_bounded [OF ex(4) b(3)])
    show "cents (np_us p)" by (rule cents_bounded [OF ex(5) b(4)])
    show "cents (np_hk p)" by (rule cents_bounded [OF ex(6) b(5)])
    show "cents (np_fund p)" by (rule cents_bounded [OF ex(7) b(2)])
  qed
  note cf = cents_facts [OF cents(1)] cents_facts [OF cents(2)] cents_facts [OF cents(3)] cents_facts [OF cents(4)]
    cents_facts [OF cents(5)] cents_facts [OF cents(6)] cents_facts [OF cents(7)] cents_facts [OF assms(12)]
    cents_facts [OF assms(14)]
  have "0 \<le> n" "0 \<le> c" "t = n + c" "0 < t" using assms(2-4) p by simp_all
  then obtain k l where kl: "np_stock_weight p = of_int k / 10 ^ 6" "np_cash_weight p = of_int l / 10 ^ 6"
      "0 \<le> k" "k \<le> 10 ^ 6" "0 \<le> l" "l \<le> 10 ^ 6" "\<bar>k + l - 10 ^ 6\<bar> \<le> 1"
    using weights_sum w unfolding p by metis
  have kb: "\<bar>k\<bar> < 10 ^ 15" "\<bar>l\<bar> < 10 ^ 15" using kl(3-6) by simp_all
  note wf = millionths_facts [OF kl(1) kb(1)] millionths_facts [OF kl(2) kb(2)]
  have one: "quantize 6 1 = Inr 1" "field_value 6 1 = Inr 1" "float_of_quantized 6 1 = Inr 1" "ctx 1 = 1"
    using millionths_facts [of 1 "10 ^ 6"] ctx_places [of 1 0] by (simp_all add: one_double)
  have tw: "weight_of (np_non_cash p) (np_total p) = ctx (np_non_cash p / np_total p)"
    "weight_of (np_cash p) (np_total p) = ctx (np_cash p / np_total p)"
    using assms(2) by (simp_all add: weight_of_def)
  have qw: "float_of_quantized 6 (ctx (np_non_cash p / np_total p)) = Inr (double (np_stock_weight p))"
    "float_of_quantized 6 (ctx (np_cash p / np_total p)) = Inr (double (np_cash_weight p))"
    using w unfolding tw by (simp_all add: float_of_quantized_def)
  obtain q where q: "q = (case ni_initial_value i of None \<Rightarrow> 0
        | Some x \<Rightarrow> np_total p - to_decimal x - to_decimal (ni_cumulative_cash_flow i))"
      and cu: "float_quantized 2 (calc_cumulative i (double (np_total p))) = Inr (double q)"
      and ce: "\<And>r. nr_total_value r = double (np_total p) \<Longrightarrow> nr_cumulative r = Some (double q) \<Longrightarrow> cumulative_errors i r = Inr []"
    using first_cumulative [OF cents(1) assms(16)] by metis
  let ?m = "\<lparr>nm_shares = double (np_total p), nm_shares_change = double g, nm_nav = 1, nm_month_nav_change = None,
      nm_year_nav_change = None, nm_daily_appreciation = None, nm_month_appreciation = None, nm_year_appreciation = None,
      nm_cumulative_appreciation = calc_cumulative i (double (np_total p))\<rparr>"
  have m: "calc_nav_metrics i (double (np_total p)) = Inr ?m"
    using assms(2,7-11,15) by (simp add: calc_nav_metrics_def Let_def cf share_count_def effective_cash_flow_def one
        quantize_nav_def one_double calc_nav_change_def first_some_def calc_pnl_def day_after_def)
  let ?b = "\<lparr>fb_daily_cash_flow = double d, fb_gap_cash_flow = double g, fb_previous_nav_date = None, fb_start = ni_today i,
      fb_end = ni_today i, fb_start_inclusive = True\<rparr>"
  let ?r = "\<lparr>nr_date = ni_today i, nr_total_value = double (np_total p), nr_cash_value = Some (double (np_cash p)),
      nr_stock_value = Some (double (np_non_cash p)), nr_fund_value = Some (double (np_fund p)),
      nr_cn_stock_value = Some (double (np_cn p)), nr_us_stock_value = Some (double (np_us p)),
      nr_hk_stock_value = Some (double (np_hk p)), nr_stock_weight = Some (double (np_stock_weight p)),
      nr_cash_weight = Some (double (np_cash_weight p)), nr_shares = Some (double (np_total p)), nr_nav = Some 1,
      nr_cash_flow = Some (double d), nr_share_change = Some (double g), nr_mtd_nav_change = None,
      nr_ytd_nav_change = None, nr_pnl = None, nr_mtd_pnl = None, nr_ytd_pnl = None, nr_cumulative = Some (double q),
      nr_basis = Some ?b, nr_closed = False\<rparr>"
  have b: "build_cash_flow_basis i = Inr ?b"
    by (simp add: build_cash_flow_basis_def assms(7,13,15) cf)
  have r: "build_nav_record i p ?m = Inr ?r"
    by (simp add: build_nav_record_def cf wf one assms(13) optional_field_def b cu)
  have sum: "ctx (np_non_cash p + np_cash p) = np_total p" by (simp add: cf flip: whole)
  have e: "total_errors ?r = Inr []" "fund_errors ?r = Inr []" "weight_errors ?r = Inr []" "nav_value_errors ?r = Inr []"
    "unless_equal CashFlowMismatch (money_equal (nr_cash_flow ?r) (Some (ni_daily_cash_flow i))) = Inr []"
    "share_errors i ?r = Inr []" "pnl_errors True i ?r = Inr []" "basis_errors True i ?r = Inr []"
    "return_errors i ?r = Inr []" "cumulative_errors i ?r = Inr []"
  proof -
    show "cumulative_errors i ?r = Inr []" by (rule ce) simp_all
    show "basis_errors True i ?r = Inr []"
      by (simp add: basis_errors_def assms(7,13,15) effective_cash_flow_def unless_equal_def cents_equal [OF assms(12)]
          cents_equal [OF assms(14)])
    show "total_errors ?r = Inr []" by (simp add: total_errors_def cf sum unless_equal_def cents_equal [OF cents(1)])
    show "fund_errors ?r = Inr []" using assms(5) by (simp add: fund_errors_def cf quantize_money_def)
    show "weight_errors ?r = Inr []"
      using weights_sum_check [OF kl(3-7)] by (simp add: weight_errors_def cf qw approx_refl [simplified] kl(1,2))
    show "nav_value_errors ?r = Inr []"
      using assms(2) cents_sign(1) [OF cents(1)] approx_refl [of 1, simplified] by (simp add: nav_value_errors_def cf one)
    show "unless_equal CashFlowMismatch (money_equal (nr_cash_flow ?r) (Some (ni_daily_cash_flow i))) = Inr []"
      by (simp add: unless_equal_def assms(13) cents_equal [OF assms(12)])
    show "share_errors i ?r = Inr []"
      by (simp add: share_errors_def assms(7) effective_cash_flow_def assms(15) unless_equal_def
          cents_equal [OF cents(1)] cents_equal [OF assms(14)])
    show "pnl_errors True i ?r = Inr []" "return_errors i ?r = Inr []"
      by (simp_all add: pnl_errors_def return_errors_def assms(7-11) unless_equal_def money_equal_def nav_equal_def
          quantized_equal_def calc_nav_change_def first_some_def calc_pnl_def expected_profit_def)
  qed
  have "nav_errors True i ?r = Inr []"
    unfolding nav_errors_def e by (simp add: reference_errors_def assms(7-11))
  then have "record_nav i v = Inr ?r"
    by (simp only: record_nav_def assms(1) bind_result_simps m r assert_nav_invariants_def) simp
  then show ?thesis by (simp add: q)
qed


text \<open>
  C15. New money buys shares at the last net value and so does not move it. From a last record with
  net value \<open>n\<close> and \<open>s\<close> shares, the net value of the day is the total divided by the exact share
  count \<open>s + cf / n\<close>, within six ten-millionths, although every step rounds; and when the
  portfolio has not moved since (the total is its old value plus the cash flow), the net value
  is exactly the last one. The bounds exclude a flow a billion times what remains and a net
  value above one million.
\<close>
theorem cash_flow_neutral:
  assumes "calc_nav_metrics i total_value = Inr m" and "ni_last i = Some l" and "nr_nav l = Some nav" and "nr_shares l = Some shares"
    and "n = to_decimal nav" "s = to_decimal shares" "cf = to_decimal (effective_cash_flow i)" "t = to_decimal total_value"
    and "u = s + cf / n" "0 < u" "\<bar>cf / n\<bar> \<le> 10 ^ 9 * u" "0 \<le> t" "t \<le> 10 ^ 6 * u"
  shows "\<bar>to_decimal (nm_nav m) - t / u\<bar> \<le> 6 / 10 ^ 7 \<and>
    (t = s * n + cf \<and> (\<exists>k. n = of_int k / 10 ^ 6) \<longrightarrow> to_decimal (nm_nav m) = n)"
proof -
  obtain nv k where m: "nm_nav m = double nv" and k: "nv = of_int k / 10 ^ 6" "\<bar>nv - t / u\<bar> \<le> 6 / 10 ^ 7"
      "to_decimal (double nv) = nv" and n: "0 < n"
    using nav_near [OF assms] by metis
  have "nv = n" if t: "t = s * n + cf" and places: "\<exists>k. n = of_int k / 10 ^ 6"
  proof -
    have "t = u * n" using n by (simp add: t assms(9) field_simps)
    then have "t / u = n" using assms(10) by simp
    with k(2) have "\<bar>nv - n\<bar> < 1 / 10 ^ 6" by simp
    with places k(1) show ?thesis by (auto intro: millionths_equal)
  qed
  then show ?thesis unfolding m k(3) using k(2) by blast
qed


text \<open>
  C40. A closing target is consistent and stable. When it is accepted its total is exactly its cash
  plus its other value, positive and within half a cent of the given total; the account closes
  with no shares at a net value of one; and building the target again from its own numbers gives
  the same target.
\<close>
theorem closed_target_stable:
  assumes "build_closed_target (Some t) (Some c) (Some n) = Inr ct"
  shows "ct_total ct = ct_cash ct + ct_non_cash ct \<and> 0 < ct_total ct \<and> ct_shares ct = 0 \<and> ct_nav ct = 1 \<and>
    2 * \<bar>ct_total ct - t\<bar> \<le> 1 / 100 \<and> 2 * \<bar>ct_cash ct - c\<bar> \<le> 1 / 100 \<and>
    2 * \<bar>ct_non_cash ct - n\<bar> \<le> 1 / 100 \<and>
    build_closed_target (Some (ct_total ct)) (Some (ct_cash ct)) (Some (ct_non_cash ct)) = Inr ct"
proof -
  from assms have q: "quantize 2 t = Inr (ct_total ct)" "quantize 2 c = Inr (ct_cash ct)" "quantize 2 n = Inr (ct_non_cash ct)"
    and eq: "ct_total ct = ctx (ct_cash ct + ct_non_cash ct)" "0 < ct_total ct" "ct_shares ct = 0" "ct_nav ct = 1"
    by (auto simp: build_closed_target_def closed_value_def bind_result_Inr quantize_money_def split: if_splits)
  obtain a where a: "ct_total ct = of_int a / 10 ^ 2" "\<bar>a\<bar> < 10 ^ 28" "2 * \<bar>ct_total ct - t\<bar> \<le> 1 / 10 ^ 2"
    using q(1) by (rule quantize_Inr)
  obtain b where b: "ct_cash ct = of_int b / 10 ^ 2" "\<bar>b\<bar> < 10 ^ 28" "2 * \<bar>ct_cash ct - c\<bar> \<le> 1 / 10 ^ 2"
    using q(2) by (rule quantize_Inr)
  obtain d where d: "ct_non_cash ct = of_int d / 10 ^ 2" "\<bar>d\<bar> < 10 ^ 28" "2 * \<bar>ct_non_cash ct - n\<bar> \<le> 1 / 10 ^ 2"
    using q(3) by (rule quantize_Inr)
  have "ctx (of_int (b + d) / 100) = of_int a / 100" using eq(1) by (simp add: a(1) b(1) d(1) add_divide_distrib)
  from exact_sum [OF this a(2)] have whole: "ct_total ct = ct_cash ct + ct_non_cash ct"
    using eq(1) by (simp add: b(1) d(1) add_divide_distrib)
  have "quantize 2 (ct_total ct) = Inr (ct_total ct)" "quantize 2 (ct_cash ct) = Inr (ct_cash ct)"
    "quantize 2 (ct_non_cash ct) = Inr (ct_non_cash ct)"
    unfolding a(1) b(1) d(1) by (rule quantize_places [OF a(2)], rule quantize_places [OF b(2)], rule quantize_places [OF d(2)])
  then have "build_closed_target (Some (ct_total ct)) (Some (ct_cash ct)) (Some (ct_non_cash ct)) = Inr ct"
    using eq by (simp add: build_closed_target_def closed_value_def quantize_money_def)
  with whole eq(2-4) a(3) b(3) d(3) show ?thesis by simp
qed


text \<open>
  C39. The final check refuses correct records of small accounts. An account of 1000 shares, whose last
  record is consistent (its net value is its total divided by its shares), receives 100 while its
  holdings do not move. The calculation finds the right net value, the last one; but shares are
  stored with two decimals, and the check divides the total by the stored shares and allows a
  difference of one millionth, less than that rounding makes. So the day's record is refused, by
  this comparison alone.
\<close>
theorem small_account_refused:
  shows "nav_value_errors demo_last = Inr [] \<and> project_valuation demo_valuation = Inr demo_projection \<and>
    (\<exists>m r. calc_nav_metrics demo_inputs (double (np_total demo_projection)) = Inr m \<and>
       to_decimal (nm_nav m) = to_decimal (the (nr_nav demo_last)) \<and>
       build_nav_record demo_inputs demo_projection m = Inr r \<and> nav_errors True demo_inputs r = Inr [NavMismatch]) \<and>
    record_nav demo_inputs demo_valuation = Inl (ValueError ''NAV record self-check failed'')"
proof -
  have cf: "effective_cash_flow demo_inputs = 100" by (simp add: effective_cash_flow_def demo_inputs_def)
  note m = demo_calculated
  let ?r = "\<lparr>nr_date = 11, nr_total_value = double demo_value, nr_cash_value = Some 0, nr_stock_value = Some (double demo_value),
      nr_fund_value = Some 0, nr_cn_stock_value = Some 0, nr_us_stock_value = Some 0, nr_hk_stock_value = Some 0,
      nr_stock_weight = Some 1, nr_cash_weight = Some 0, nr_shares = Some (double demo_stored_shares),
      nr_nav = Some (double demo_nav_value), nr_cash_flow = Some 100, nr_share_change = Some (double demo_stored_change),
      nr_mtd_nav_change = None, nr_ytd_nav_change = None, nr_pnl = Some 0, nr_mtd_pnl = None, nr_ytd_pnl = None,
      nr_cumulative = Some 0, nr_basis = Some \<lparr>fb_daily_cash_flow = 100, fb_gap_cash_flow = 100,
        fb_previous_nav_date = Some 10, fb_start = 10, fb_end = 11, fb_start_inclusive = False\<rparr>, nr_closed = False\<rparr>"
  note c1 = cents_facts [OF demo_cents(1)]
  note c0 = cents_facts [OF demo_cents(2), simplified]
  note c100 = cents_facts [OF demo_cents(3), unfolded double_ints]
  have r: "build_nav_record demo_inputs demo_projection demo_metrics = Inr ?r"
    by (simp add: build_nav_record_def demo_metrics_def demo_projection_def c1 c0 one_double unit_facts demo_fields demo_unit_facts
        optional_field_def demo_inputs_def c100 build_cash_flow_basis_def) (simp add: demo_last_def)
  have pos: "0 < demo_value" "0 < double demo_value" using cents_sign(1) [OF demo_cents(1)] by (simp_all add: demo_value_def)
  have shares: "to_decimal (double demo_stored_shares) = demo_stored_shares" "0 < double demo_stored_shares"
  proof -
    have "cents demo_stored_shares" by (intro cents_bounded exI [of _ 109086]) (simp_all add: demo_stored_shares_def)
    moreover have "0 < demo_stored_shares" by (simp add: demo_stored_shares_def)
    ultimately show "to_decimal (double demo_stored_shares) = demo_stored_shares" "0 < double demo_stored_shares"
      using cents_facts(1) cents_sign(1) by blast+
  qed
  have e1: "total_errors ?r = Inr []"
    by (simp add: total_errors_def c1 to_decimal_ints unless_equal_def cents_equal [OF demo_cents(1)])
  have e2: "fund_errors ?r = Inr []" using pos by (simp add: fund_errors_def c1 to_decimal_ints quantize_money_def c0)
  have e3: "weight_errors ?r = Inr []"
    using pos approx_refl [simplified] weights_sum_check [of "10 ^ 6" 0]
    by (simp add: weight_errors_def c1 to_decimal_ints unit_facts one_double)
  have expected: "float_of_quantized 6 (ctx (demo_value / demo_stored_shares)) = Inr (double demo_expected)"
  proof -
    have "2 * \<bar>ctx (demo_value / demo_stored_shares) - demo_value / demo_stored_shares\<bar> \<le>
        \<bar>demo_value / demo_stored_shares\<bar> * 10 powi (-27)" by (rule ctx_error)
    also have "\<dots> \<le> 1 / 10 ^ 8" by (simp add: demo_value_def demo_stored_shares_def power_int_minus)
    finally have "\<bar>ctx (demo_value / demo_stored_shares) - demo_value / demo_stored_shares\<bar> \<le> 1 / 10 ^ 8" by simp
    from quantize_of_near [OF this, of 1100554 6]
    have "quantize 6 (ctx (demo_value / demo_stored_shares)) = Inr demo_expected" by (simp add: demo_value_def demo_stored_shares_def demo_expected_def)
    then show ?thesis by (simp add: float_of_quantized_def)
  qed
  have apart: "\<not> approx_equal (double demo_nav_value) (double demo_expected) (double (1 / 10 ^ 6))"
  proof -
    have "to_decimal (double demo_expected) = demo_expected"
      using to_decimal_places [of 1100554 6] by (simp add: demo_expected_def)
    moreover have "demo_nav_value - demo_expected = of_int (- 4) / 10 ^ 6" by (simp add: demo_nav_value_def demo_expected_def)
    moreover have "ctx (of_int (- 4) / 10 ^ 6) = of_int (- 4) / 10 ^ 6" by (rule ctx_places) simp
    ultimately show ?thesis unfolding approx_equal_def tolerances demo_unit_facts(1) by (simp only:) simp
  qed
  have e4: "nav_value_errors ?r = Inr [NavMismatch]"
    unfolding nav_value_errors_def using shares expected apart
    by (simp add: c1)
  have e5: "unless_equal CashFlowMismatch (money_equal (nr_cash_flow ?r) (Some (ni_daily_cash_flow demo_inputs))) = Inr []"
    using cents_equal [OF demo_cents(3)] by (simp add: demo_inputs_def unless_equal_def double_ints)
  have last: "ni_last demo_inputs = Some demo_last" "nr_nav demo_last = Some (double demo_nav_value)"
    "nr_shares demo_last = Some 1000" "nr_total_value demo_last = double demo_before" "nr_date demo_last = 10"
    by (simp_all add: demo_inputs_def demo_last_def)
  have e6: "share_errors demo_inputs ?r = Inr []"
  proof -
    have "0 < double demo_nav_value"
      using millionths_sign [of 1100550] demo_unit_facts(4) by (simp add: demo_nav_value_def)
    moreover have "cents demo_stored_shares" "cents demo_stored_change"
      by (intro cents_bounded exI [of _ 109086] exI [of _ 9086]; simp add: demo_stored_shares_def demo_stored_change_def)+
    note eq = this [THEN cents_equal]
    ultimately show ?thesis
      using eq by (simp add: share_errors_def last cf to_decimal_ints demo_unit_facts(1) float_of_quantized_def demo_fields
          unless_equal_def flip: demo_change_def demo_shares_def)
  qed
  have e7: "pnl_errors True demo_inputs ?r = Inr []"
    using cents_equal [OF demo_cents(2)] c100(6)
    by (simp add: pnl_errors_def last cf to_decimal_ints cents_facts [OF demo_cents(1)] cents_facts [OF demo_cents(4)]
        float_of_quantized_def unless_equal_def) (simp add: demo_value_def demo_before_def c0)
  have e8: "basis_errors True demo_inputs ?r = Inr []"
    using cents_equal [OF demo_cents(3)]
    by (simp add: basis_errors_def demo_inputs_def effective_cash_flow_def unless_equal_def double_ints) (simp add: demo_last_def)
  have e10: "cumulative_errors demo_inputs ?r = Inr []" by (simp add: cumulative_errors_def demo_inputs_def)
  have e9: "return_errors demo_inputs ?r = Inr []"
    by (simp add: return_errors_def demo_inputs_def unless_equal_def money_equal_def nav_equal_def quantized_equal_def
        calc_nav_change_def first_some_def calc_pnl_def expected_profit_def)
  have errors: "nav_errors True demo_inputs ?r = Inr [NavMismatch]"
    unfolding nav_errors_def e1 e2 e3 e4 e5 e6 e7 e8 e9 e10 using demo_unit_facts(4)
    by (simp add: reference_errors_def last demo_unit_facts(1) to_decimal_ints not_le) (simp add: demo_inputs_def)
  have before: "nav_value_errors demo_last = Inr []"
  proof -
    have "ctx (demo_before / 1000) = demo_nav_value"
      using ctx_places [of 110055 5] by (simp add: demo_before_def demo_nav_value_def)
    then show ?thesis
      using approx_refl [simplified] by (simp add: nav_value_errors_def demo_last_def cents_facts [OF demo_cents(4)]
          to_decimal_ints float_of_quantized_def demo_unit_facts)
  qed
  have "record_nav demo_inputs demo_valuation = Inl (ValueError ''NAV record self-check failed'')"
    using m r errors by (simp add: record_nav_def demo_project assert_nav_invariants_def) (simp add: demo_projection_def)
  moreover have "np_total demo_projection = demo_value" by (simp add: demo_projection_def)
  ultimately show ?thesis using before demo_project m r errors last(2) by (simp add: demo_metrics_def)
qed


section \<open>Witnesses\<close>

theorem projection_balanced_witness:
  "np_total demo_projection = np_cash demo_projection + np_non_cash demo_projection \<and> np_stock_weight demo_projection \<le> 1"
proof -
  have "0 < np_total demo_projection \<and> 0 \<le> np_cash demo_projection \<and> 0 \<le> np_non_cash demo_projection"
    by (simp add: demo_projection_def demo_value_def)
  with projection_balanced [OF demo_project] show ?thesis by blast
qed

text \<open>The first record of an account with an initial value of 1000 and flows of 100.\<close>

definition demo_first :: nav_inputs where
  "demo_first = demo_inputs\<lparr>ni_last := None, ni_initial_value := Some 1000\<rparr>"

theorem first_nav_accepted_witness:
  "\<exists>r. record_nav demo_first demo_valuation = Inr r \<and> nr_nav r = Some 1 \<and> nr_shares r = Some (double demo_value) \<and>
    nr_cumulative r = Some (double (demo_value - 1000 - 100))"
proof -
  have p: "0 < np_total demo_projection" "0 \<le> np_cash demo_projection" "0 \<le> np_non_cash demo_projection"
    "np_fund demo_projection \<le> np_non_cash demo_projection"
    "list_all (\<lambda>x. \<bar>x\<bar> < 10 ^ 13) [np_total demo_projection, np_fund demo_projection, np_cn demo_projection,
       np_us demo_projection, np_hk demo_projection]" "np_total demo_projection = demo_value"
    by (simp_all add: demo_projection_def demo_value_def)
  have i: "ni_last demo_first = None" "ni_prev_month_end demo_first = None" "ni_prev_year_end demo_first = None"
    "ni_mtd_base demo_first = None" "ni_ytd_base demo_first = None" "ni_daily_cash_flow demo_first = double 100"
    "ni_gap_cash_flow demo_first = Some (double 100)"
    by (simp_all add: demo_first_def demo_inputs_def double_ints)
  have "sound_initial demo_first (np_total demo_projection)"
    unfolding sound_initial_def using demo_cents(3,5) double_ints p(6)
    by (simp add: demo_first_def demo_inputs_def demo_value_def) (rule exI [of _ 1000], simp, rule exI [of _ 100], simp)
  from first_nav_accepted [OF demo_project p(1-5) i(1-5) demo_cents(3) i(6) demo_cents(3) i(7) this] p(6)
  show ?thesis by (auto simp: demo_first_def demo_inputs_def to_decimal_ints)
qed

theorem cash_flow_neutral_witness:
  "\<exists>m. calc_nav_metrics demo_inputs (double demo_value) = Inr m \<and> to_decimal (nm_nav m) = demo_nav_value"
proof -
  note m = demo_calculated
  have l: "ni_last demo_inputs = Some demo_last" "nr_nav demo_last = Some (double demo_nav_value)"
    "nr_shares demo_last = Some 1000" "effective_cash_flow demo_inputs = 100"
    by (simp_all add: demo_inputs_def demo_last_def effective_cash_flow_def)
  have v: "demo_nav_value = to_decimal (double demo_nav_value)" "1000 = to_decimal 1000"
    "100 = to_decimal (effective_cash_flow demo_inputs)" "demo_value = to_decimal (double demo_value)"
    by (simp_all add: demo_unit_facts(1) to_decimal_ints l(4) cents_facts(1) [OF demo_cents(1)])
  have u: "0 < 1000 + 100 / demo_nav_value" "\<bar>100 / demo_nav_value\<bar> \<le> 10 ^ 9 * (1000 + 100 / demo_nav_value)" "0 \<le> demo_value"
    "demo_value \<le> 10 ^ 6 * (1000 + 100 / demo_nav_value)"
    by (simp_all add: demo_value_def demo_nav_value_def)
  have "demo_value = 1000 * demo_nav_value + 100 \<and> (\<exists>k. demo_nav_value = of_int k / 10 ^ 6)"
    by (intro conjI exI [of _ 1100550]) (simp_all add: demo_value_def demo_nav_value_def)
  with cash_flow_neutral [OF m l(1-3) v refl u] m show ?thesis by blast
qed

theorem closed_target_stable_witness:
  "build_closed_target (Some 3) (Some 1) (Some 2) = Inr \<lparr>ct_total = 3, ct_cash = 1, ct_non_cash = 2, ct_shares = 0, ct_nav = 1\<rparr> \<and>
   build_closed_target (Some 3) (Some 1) (Some 2) =
     build_closed_target (Some (ct_total (projr (build_closed_target (Some 3) (Some 1) (Some 2))))) (Some 1) (Some 2)"
proof -
  have "ctx 3 = 3" "quantize 2 3 = Inr 3" "quantize 2 1 = Inr 1" "quantize 2 2 = Inr 2"
    using ctx_places [of 3 0] quantize_places [of 300 2] quantize_places [of 100 2] quantize_places [of 200 2] by simp_all
  then have b: "build_closed_target (Some 3) (Some 1) (Some 2) =
      Inr \<lparr>ct_total = 3, ct_cash = 1, ct_non_cash = 2, ct_shares = 0, ct_nav = 1\<rparr>"
    by (simp add: build_closed_target_def closed_value_def quantize_money_def)
  from closed_target_stable [OF b] b show ?thesis by simp
qed

end
