(* ===== verification/Calendar.thy ===== *)
theory Calendar
  imports Decimals Floats
begin

text \<open>
  The calendar arithmetic of \<open>datetime\<close> that turns a timestamp or a date with a time into a day in
  Beijing: ordinals, counted from the first day of year 1, with the lemma that the date of the
  ordinal of a date is that date; wall-clock readings in microseconds since 1970; and the texts of
  dates.
\<close>

section \<open>Ordinals\<close>

definition days_before_year :: "int \<Rightarrow> int" where
  "days_before_year y = (let z = y - 1 in 365 * z + z div 4 - z div 100 + z div 400)"

definition adjust_year :: "int \<Rightarrow> int \<Rightarrow> int" where
  "adjust_year n y = (if n \<le> days_before_year y then y - 1 else if n > days_before_year (y + 1) then y + 1 else y)"

definition year_of_ordinal :: "int \<Rightarrow> int" where
  "year_of_ordinal n = adjust_year n ((n - 1) * 400 div 146097 + 1)"

definition days_before_month :: "nat \<Rightarrow> nat \<Rightarrow> int" where
  "days_before_month y m = int (sum_list (map (month_days y) [1..<m]))"

definition toordinal :: "py_date \<Rightarrow> int" where
  "toordinal d = days_before_year (int (dt_year d)) + days_before_month (dt_year d) (dt_month d) + int (dt_day d)"

definition fromordinal :: "int \<Rightarrow> py_date option" where
  "fromordinal n = (let y = year_of_ordinal n; k = n - days_before_year y
     in if y < 1 \<or> 9999 < y then None
        else map_option (\<lambda>m. \<lparr>dt_year = nat y, dt_month = m, dt_day = nat (k - days_before_month (nat y) m)\<rparr>)
          (find (\<lambda>m. k \<le> days_before_month (nat y) (Suc m)) [1..<13]))"

section \<open>Wall clocks and timestamps\<close>

text \<open>
  A \<open>datetime\<close>: the microseconds its own clock shows since the start of 1970, and the offset from UTC,
  in microseconds, when it has a timezone. \<open>None\<close> for a date is an overflow, which Python raises.
\<close>

record py_datetime =
  pd_clock :: int
  pd_offset :: "int option"

definition day_us :: int where
  "day_us = 86400000000"

definition beijing_offset :: int where
  "beijing_offset = 28800000000"

definition date_of_us :: "int \<Rightarrow> py_date option" where
  "date_of_us us = fromordinal (us div day_us + 719163)"

definition utc_to_beijing :: "int \<Rightarrow> py_date option" where
  "utc_to_beijing us = (case date_of_us us of None \<Rightarrow> None | Some d \<Rightarrow> date_of_us (us + beijing_offset))"

definition beijing_date :: "py_datetime \<Rightarrow> py_date option" where
  "beijing_date t = (case pd_offset t of
      None \<Rightarrow> date_of_us (pd_clock t)
    | Some off \<Rightarrow> utc_to_beijing (pd_clock t - off))"

text \<open>
  \<open>datetime.fromtimestamp(float(ms) / 1000, tz)\<close>: the quotient is a double, its fractional part is
  rounded to microseconds.
\<close>

definition truncate_rat :: "rat \<Rightarrow> int" where
  "truncate_rat x = (if x < 0 then - \<lfloor>- x\<rfloor> else \<lfloor>x\<rfloor>)"

definition timestamp_us :: "rat \<Rightarrow> int" where
  "timestamp_us ms = (let t = double (double ms / 1000); whole = truncate_rat t
     in whole * 1000000 + round_even (double ((t - of_int whole) * 1000000)))"

definition timestamp_date :: "rat \<Rightarrow> py_date option" where
  "timestamp_date ms = utc_to_beijing (timestamp_us ms)"

section \<open>Texts\<close>

text \<open>
  \<open>date.fromisoformat\<close> on a text of ten characters: \<open>YYYY-MM-DD\<close>, or the week form \<open>YYYY-Www-D\<close>.
\<close>

definition iso_week_date :: "nat \<Rightarrow> nat \<Rightarrow> nat \<Rightarrow> py_date option" where
  "iso_week_date y w k =
     (let first = days_before_year (int y) + 1; weekday = (first + 6) mod 7;
          monday = first - weekday + (if weekday > 3 then 7 else 0);
          long = (first mod 7 = 4 \<or> first mod 7 = 3 \<and> leap_year y)
      in if y < 1 \<or> w < 1 \<or> (if long then 53 else 52) < w \<or> k < 1 \<or> 7 < k then None
         else fromordinal (monday + (int w - 1) * 7 + (int k - 1)))"

definition iso_date :: "string \<Rightarrow> py_date option" where
  "iso_date t =
     (if length t = 10 \<and> t ! 4 = CHR ''-'' \<and> t ! 5 = CHR ''W'' then
        (if t ! 8 = CHR ''-'' then
           (case (digits_value 0 (take 4 t), digits_value 0 (take 2 (drop 6 t)), digits_value 0 (drop 9 t)) of
              (Some y, Some w, Some k) \<Rightarrow> iso_week_date y w k | _ \<Rightarrow> None)
         else None)
      else (case date_fromisoformat t of Inl e \<Rightarrow> None | Inr d \<Rightarrow> Some d))"

definition padded :: "nat \<Rightarrow> nat \<Rightarrow> string" where
  "padded k n = (let t = nat_text n in replicate (k - length t) (CHR ''0'') @ t)"

definition date_text :: "py_date \<Rightarrow> string" where
  "date_text d = padded 4 (dt_year d) @ ''-'' @ padded 2 (dt_month d) @ ''-'' @ padded 2 (dt_day d)"

section \<open>Lemmas: the date of an ordinal\<close>

lemma year_step: "days_before_year y < days_before_year (y + 1)"
proof -
  define z where "z = y - 1"
  have "z div 4 \<le> (z + 1) div 4" "(z + 1) div 100 \<le> z div 100 + 1" "z div 400 \<le> (z+1) div 400" by linarith+
  then show ?thesis by (simp add: days_before_year_def Let_def flip: z_def) (simp add: z_def)
qed

lemma year_mono: "x \<le> y \<Longrightarrow> days_before_year x \<le> days_before_year y"
proof (induction y rule: int_ge_induct)
  case (step i) then show ?case using year_step [of i] by linarith
qed simp

lemma year_estimate:
  assumes "days_before_year y < n" "n \<le> days_before_year (y + 1)"
  shows "y - 2 \<le> (n - 1) * 400 div 146097" "(n - 1) * 400 div 146097 \<le> y"
proof -
  define z q where "z = y - 1" and "q = (n - 1) * 400 div 146097"
  have y: "y = z + 1" by (simp add: z_def)
  have *: "365 * z + z div 4 - z div 100 + z div 400 < n" "n \<le> 365 * (z + 1) + (z + 1) div 4 - (z + 1) div 100 + (z + 1) div 400"
    using assms by (simp_all add: days_before_year_def Let_def y add.commute)
  obtain a where a: "z div 4 = a" "4 * a \<le> z" "z \<le> 4 * a + 3" by fastforce
  obtain b where b: "z div 100 = b" "100 * b \<le> z" "z \<le> 100 * b + 99" by fastforce
  obtain c where c: "z div 400 = c" "400 * c \<le> z" "z \<le> 400 * c + 399" by fastforce
  obtain a' where a': "(z + 1) div 4 = a'" "4 * a' \<le> z + 1" by fastforce
  obtain b' where b': "(z + 1) div 100 = b'" "z + 1 \<le> 100 * b' + 99" by fastforce
  obtain c' where c': "(z + 1) div 400 = c'" "400 * c' \<le> z + 1" by fastforce
  have q: "q * 146097 \<le> (n - 1) * 400" "(n - 1) * 400 < (q + 1) * 146097"
  proof -
    define m where "m = (n - 1) * 400"
    have "q = m div 146097" by (simp only: q_def m_def)
    then have "m = q * 146097 + m mod 146097" by simp
    moreover have "0 \<le> m mod 146097" "m mod 146097 < 146097" by simp_all
    ultimately show "q * 146097 \<le> (n - 1) * 400" "(n - 1) * 400 < (q + 1) * 146097"
      unfolding m_def [symmetric] distrib_right by linarith+
  qed
  have "365 * z + a - b + c \<le> n - 1" using *(1) [unfolded a(1) b(1) c(1)] by simp
  then have lo: "400 * (n - 1) \<ge> 400 * 365 * z + 100 * z - 300 - 4 * z + z - 399"
    using a(3) b(2) c(3) by simp
  have "n - 1 \<le> 365 * z + 364 + a' - b' + c'" using *(2) [unfolded a'(1) b'(1) c'(1)] by simp
  then have hi: "400 * (n - 1) \<le> 400 * 365 * z + 400 * 364 + 100 * (z + 1) - 4 * (z + 1) + 396 + (z + 1)"
    using a'(2) b'(2) c'(2) by simp
  have "z - 1 \<le> q"
  proof (rule ccontr)
    assume "\<not> z - 1 \<le> q"
    then have "q + 2 \<le> z" by simp
    with lo q show False by simp
  qed
  moreover have "q \<le> z + 1"
  proof (rule ccontr)
    assume "\<not> q \<le> z + 1"
    then have "z + 2 \<le> q" by simp
    with hi q show False by simp
  qed
  ultimately show "y - 2 \<le> (n - 1) * 400 div 146097" "(n - 1) * 400 div 146097 \<le> y" by (simp_all add: q_def y)
qed

lemma year_of_ordinal_eq:
  assumes "days_before_year y < n" "n \<le> days_before_year (y + 1)"
  shows "year_of_ordinal n = y"
proof -
  define q where "q = (n - 1) * 400 div 146097"
  note est = year_estimate [OF assms, folded q_def]
  have "year_of_ordinal n = adjust_year n (q + 1)" by (simp only: year_of_ordinal_def q_def)
  moreover consider "q = y" | "q = y - 1" | "q = y - 2" using est by linarith
  then have "adjust_year n (q + 1) = y"
    using assms year_mono [of "y - 1" y] by cases (auto simp: adjust_year_def)
  ultimately show ?thesis by simp
qed


lemma days_before_month_Suc: "1 \<le> m \<Longrightarrow> days_before_month y (Suc m) = days_before_month y m + int (month_days y m)"
  by (simp add: days_before_month_def)

lemma days_before_month_mono: "1 \<le> m \<Longrightarrow> m \<le> n \<Longrightarrow> days_before_month y m \<le> days_before_month y n"
proof (induction n)
  case (Suc n)
  then show ?case by (cases "m = Suc n") (auto simp: days_before_month_Suc)
qed simp

lemma month_of_day:
  assumes "1 \<le> m" "m \<le> 12" "1 \<le> d" "d \<le> month_days y m"
  shows "find (\<lambda>i. days_before_month y m + int d \<le> days_before_month y (Suc i)) [1..<13] = Some m"
  unfolding find_Some_iff
proof (intro exI [of _ "m - 1"] conjI allI impI)
  fix j assume "j < m - 1"
  then have "days_before_month y (Suc (Suc j)) \<le> days_before_month y m" by (intro days_before_month_mono) simp_all
  then show "\<not> days_before_month y m + int d \<le> days_before_month y (Suc ([1..<13] ! j))"
    using assms \<open>j < m - 1\<close> by simp
qed (use assms in \<open>simp_all add: days_before_month_Suc\<close>)

lemma months_of_year: "1 \<le> m \<Longrightarrow> m \<le> 12 \<Longrightarrow> days_before_month y (Suc m) \<le> (if leap_year y then 366 else 365)"
proof -
  assume m: "1 \<le> m" "m \<le> 12"
  have l: "[1..<13] = [1, 2, 3, 4, 5, 6, 7, 8, 9, 10, 11, 12 :: nat]" by code_simp
  have "days_before_month y (Suc m) \<le> days_before_month y 13" using m by (intro days_before_month_mono) simp_all
  also have "\<dots> = (if leap_year y then 366 else 365)"
    unfolding days_before_month_def l by (simp add: month_days_def)
  finally show ?thesis .
qed

lemma year_length: "1 \<le> y \<Longrightarrow> days_before_year (int y + 1) = days_before_year (int y) + (if leap_year y then 366 else 365)"
proof -
  assume "1 \<le> y"
  then obtain z where y: "y = Suc z" by (cases y) auto
  have d: "days_before_year (int (Suc x)) = 365 * int x + int (x div 4) - int (x div 100) + int (x div 400)" for x
    by (simp add: days_before_year_def Let_def zdiv_int)
  have div: "Suc z div k = z div k + (if Suc z mod k = 0 then 1 else 0)" if "k \<in> {4, 100, 400}" for k
    using that by (auto simp: div_Suc)
  have m: "Suc z mod 400 = 0 \<Longrightarrow> Suc z mod 100 = 0" "Suc z mod 100 = 0 \<Longrightarrow> Suc z mod 4 = 0"
    using dvd_trans [of 100 400 "Suc z"] dvd_trans [of 4 100 "Suc z"] by (simp_all add: mod_eq_0_iff_dvd)
  have "int y + 1 = int (Suc (Suc z))" by (simp add: y)
  moreover have "days_before_year (int (Suc (Suc z))) = days_before_year (int (Suc z)) + 365 +
      (int (Suc z div 4) - int (z div 4)) - (int (Suc z div 100) - int (z div 100)) + (int (Suc z div 400) - int (z div 400))"
    unfolding d by simp
  moreover have "(int (Suc z div 4) - int (z div 4)) - (int (Suc z div 100) - int (z div 100)) + (int (Suc z div 400) - int (z div 400))
      = (if leap_year y then 1 else 0)"
    using m by (simp add: div leap_year_def y)
  ultimately show ?thesis by (simp add: y split: if_splits)
qed

lemma fromordinal_toordinal:
  assumes "valid_date d"
  shows "fromordinal (toordinal d) = Some d"
proof -
  have v: "1 \<le> dt_year d" "dt_year d \<le> 9999" "1 \<le> dt_month d" "dt_month d \<le> 12" "1 \<le> dt_day d"
      "dt_day d \<le> month_days (dt_year d) (dt_month d)" using assms by (auto simp: valid_date_def)
  have s: "days_before_month (dt_year d) (dt_month d) + int (dt_day d) \<le> days_before_month (dt_year d) (Suc (dt_month d))"
    using v by (simp add: days_before_month_def)
  have y: "year_of_ordinal (toordinal d) = int (dt_year d)"
  proof (rule year_of_ordinal_eq)
    show "days_before_year (int (dt_year d)) < toordinal d" using v(5) by (simp add: toordinal_def days_before_month_def)
    show "toordinal d \<le> days_before_year (int (dt_year d) + 1)"
      using s months_of_year [OF v(3,4), of "dt_year d"] year_length [OF v(1)] by (simp add: toordinal_def)
  qed
  have "toordinal d - days_before_year (int (dt_year d)) = days_before_month (dt_year d) (dt_month d) + int (dt_day d)"
    by (simp add: toordinal_def)
  then show ?thesis
    using v month_of_day [OF v(3,4,5,6)] by (simp add: fromordinal_def y Let_def)
qed

end
