(* ===== verification/Cash_Flow_Facts.thy ===== *)
theory Cash_Flow_Facts
  imports Quantize Calendar
begin

text \<open>
  The row contract of the cash-flow table, \<open>domain/cash_flow_contracts.py\<close>: how an untyped row becomes
  the facts an operator owns (\<open>ManualCashFlowFacts\<close>) and the completed facts that may be written and
  summed (\<open>CompletedCashFlowFacts\<close>), with one issue for every field that cannot be used; the identity
  key of a row; and the building of completed facts from values. Amounts are rationals as in
  Quantize: \<open>_money\<close> is \<open>cf_money\<close>, a product of decimals is rounded to the context, and one
  beyond its largest exponent raises \<open>decimal.Overflow\<close>, which validation does not catch. SHA-256
  and \<open>datetime.fromisoformat\<close>, for texts that carry a time, are arguments. The message of an issue is
  not modelled; its record, field, reason and raw value are.
\<close>

section \<open>Values of a row\<close>

text \<open>
  A raw value, with the text \<open>str\<close> gives for it where the rules below only print it: a float is its
  value; \<open>VNonFinite\<close> and \<open>VDecimalNonFinite\<close> are the infinities and quiet NaNs of the two number
  types; a list and a dictionary with text keys keep their items; \<open>VOther\<close> is any other object.
\<close>

datatype cf_value =
    VNull
  | VBool bool
  | VInt int
  | VFloat rat
  | VDecimal decimal string
  | VNonFinite string
  | VDecimalNonFinite string
  | VStr string
  | VDate py_date
  | VDateTime py_datetime string
  | VList "cf_value list" string
  | VDict "(string \<times> cf_value) list" string
  | VOther string

text \<open>\<open>str(f)\<close> of a float: the shortest digits, with Python's choice between the two notations.\<close>

definition shortest_digits :: "rat \<Rightarrow> string" where
  "shortest_digits v = rstrip_char (CHR ''0'') (nat_text (nat \<lfloor>v * 10 powi (16 - log_floor 10 v)\<rfloor>))"

definition positional_text :: "string \<Rightarrow> int \<Rightarrow> string" where
  "positional_text ds e =
     (if e < 0 then ''0.'' @ replicate (nat (- e - 1)) (CHR ''0'') @ ds
      else if int (length ds) \<le> e + 1 then ds @ replicate (nat (e + 1) - length ds) (CHR ''0'') @ ''.0''
      else take (nat (e + 1)) ds @ ''.'' @ drop (nat (e + 1)) ds)"

definition scientific_text :: "string \<Rightarrow> int \<Rightarrow> string" where
  "scientific_text ds e =
     take 1 ds @ (if length ds = 1 then [] else ''.'' @ drop 1 ds) @ ''e'' @ (if e < 0 then ''-'' else ''+'') @
     padded 2 (nat \<bar>e\<bar>)"

definition float_text :: "rat \<Rightarrow> string" where
  "float_text x =
     (if x = 0 then ''0.0''
      else let v = \<bar>repr_float x\<bar>; e = log_floor 10 v; ds = shortest_digits v
        in (if x < 0 then ''-'' else []) @
           (if -4 \<le> e \<and> e < 16 then positional_text ds e else scientific_text ds e))"

definition value_text :: "cf_value \<Rightarrow> string" where
  "value_text v = (case v of
      VNull \<Rightarrow> ''None''
    | VBool b \<Rightarrow> (if b then ''True'' else ''False'')
    | VInt i \<Rightarrow> int_text i
    | VFloat f \<Rightarrow> float_text f
    | VDecimal d t \<Rightarrow> t
    | VNonFinite t \<Rightarrow> t
    | VDecimalNonFinite t \<Rightarrow> t
    | VStr t \<Rightarrow> t
    | VDate d \<Rightarrow> date_text d
    | VDateTime d t \<Rightarrow> t
    | VList vs t \<Rightarrow> t
    | VDict kvs t \<Rightarrow> t
    | VOther t \<Rightarrow> t)"

text \<open>\<open>RawCashFlowRecord\<close>; the fields are a dictionary.\<close>

record raw_row =
  rw_id :: string
  rw_fields :: "(string \<times> cf_value) list"

definition raw_row_of :: "string \<Rightarrow> (string \<times> cf_value) list \<Rightarrow> raw_row" where
  "raw_row_of record_id fs = \<lparr>rw_id = py_strip record_id, rw_fields = fs\<rparr>"

definition raw_field :: "string \<Rightarrow> raw_row \<Rightarrow> cf_value" where
  "raw_field k row = (case map_of (rw_fields row) k of None \<Rightarrow> VNull | Some v \<Rightarrow> v)"

record cf_issue =
  ci_record :: string
  ci_field :: string
  ci_reason :: string
  ci_raw :: cf_value

text \<open>The outside of the contract: the hash and the reader of texts with a time.\<close>

record cf_env =
  ce_sha :: "string \<Rightarrow> string"
  ce_datetime :: "string \<Rightarrow> py_datetime option"

section \<open>Reading one field\<close>

text \<open>Every reader returns a value or an issue.\<close>

definition issue_of :: "raw_row \<Rightarrow> string \<Rightarrow> string \<Rightarrow> cf_issue" where
  "issue_of row k reason = \<lparr>ci_record = rw_id row, ci_field = k, ci_reason = reason, ci_raw = raw_field k row\<rparr>"

definition required_text :: "raw_row \<Rightarrow> string \<Rightarrow> cf_issue + string" where
  "required_text row k = (case raw_field k row of
      VStr t \<Rightarrow> if py_strip t = [] then Inl (issue_of row k (py_upper k @ ''_MISSING'')) else Inr (py_strip t)
    | _ \<Rightarrow> Inl (issue_of row k (py_upper k @ ''_MISSING'')))"

definition optional_text :: "cf_value \<Rightarrow> string option" where
  "optional_text v = (if v = VNull then None else Some (value_text v))"

definition cash_flow_currencies :: "string list" where
  "cash_flow_currencies = [''CNY'', ''USD'', ''HKD'']"

definition supported_currency :: "raw_row \<Rightarrow> cf_issue + string" where
  "supported_currency row = (case raw_field ''currency'' row of
      VStr t \<Rightarrow> if py_strip t = [] then Inl (issue_of row ''currency'' ''CURRENCY_MISSING'')
        else if py_upper (py_strip t) \<in> set cash_flow_currencies then Inr (py_upper (py_strip t))
        else Inl (issue_of row ''currency'' ''CURRENCY_UNSUPPORTED'')
    | _ \<Rightarrow> Inl (issue_of row ''currency'' ''CURRENCY_MISSING''))"

text \<open>The number a value denotes: \<open>Decimal(str(raw).strip())\<close>, when it is finite.\<close>

definition number_of :: "cf_value \<Rightarrow> rat option" where
  "number_of v = (case v of
      VBool b \<Rightarrow> None
    | VInt i \<Rightarrow> Some (of_int i)
    | VFloat f \<Rightarrow> Some (to_decimal f)
    | VDecimal d t \<Rightarrow> Some (dec_value d)
    | VNonFinite t \<Rightarrow> None
    | VDecimalNonFinite t \<Rightarrow> None
    | v \<Rightarrow> map_option dec_value (parse_decimal (value_text v)))"

definition finite_decimal :: "raw_row \<Rightarrow> string \<Rightarrow> bool \<Rightarrow> bool \<Rightarrow> cf_issue + rat" where
  "finite_decimal row k nonzero positive =
     (let raw = raw_field k row; up = py_upper k in
      if raw = VNull \<or> raw = VStr [] then Inl (issue_of row k (up @ ''_MISSING''))
      else case number_of raw of
          None \<Rightarrow> Inl (issue_of row k (up @ ''_INVALID''))
        | Some x \<Rightarrow>
            if nonzero \<and> x = 0 then Inl (issue_of row k (up @ ''_ZERO''))
            else if positive \<and> x \<le> 0 then Inl (issue_of row k (up @ ''_NOT_POSITIVE''))
            else Inr x)"

definition replace_zulu :: "string \<Rightarrow> string" where
  "replace_zulu t = concat (map (\<lambda>c. if c = CHR ''Z'' then ''+00:00'' else [c]) t)"

definition date_of_value :: "cf_env \<Rightarrow> cf_value \<Rightarrow> py_date option" where
  "date_of_value env v = (case v of
      VDateTime d t \<Rightarrow> beijing_date d
    | VDate d \<Rightarrow> Some d
    | VInt i \<Rightarrow> timestamp_date (of_int i)
    | VFloat f \<Rightarrow> timestamp_date (to_decimal f)
    | VDecimal d t \<Rightarrow> timestamp_date (dec_value d)
    | VStr t \<Rightarrow> (let u = py_strip t in
        if length u = 10 then iso_date u
        else case ce_datetime env (replace_zulu u) of None \<Rightarrow> None | Some d \<Rightarrow> beijing_date d)
    | _ \<Rightarrow> None)"

definition parse_flow_date :: "cf_env \<Rightarrow> raw_row \<Rightarrow> cf_issue + py_date" where
  "parse_flow_date env row =
     (let raw = raw_field ''flow_date'' row in
      if raw = VNull \<or> raw = VStr [] then Inl (issue_of row ''flow_date'' ''FLOW_DATE_MISSING'')
      else case date_of_value env raw of
          None \<Rightarrow> Inl (issue_of row ''flow_date'' ''FLOW_DATE_INVALID'')
        | Some d \<Rightarrow> Inr d)"


section \<open>Manual facts\<close>

record manual_facts =
  mf_record_id :: string
  mf_flow_date :: py_date
  mf_account :: string
  mf_broker :: string
  mf_amount :: rat
  mf_currency :: string
  mf_remark :: "string option"

definition collect :: "'e + 'a \<Rightarrow> 'e list" where
  "collect r = (case r of Inl e \<Rightarrow> [e] | Inr a \<Rightarrow> [])"

definition cf_money :: "rat \<Rightarrow> py_exn + rat" where
  "cf_money = quantize 2"

text \<open>The amount at money precision, and the issues of taking it there.\<close>

definition quantized_amount :: "raw_row \<Rightarrow> cf_issue + rat \<Rightarrow> cf_issue + rat" where
  "quantized_amount row amount = bind_result amount (\<lambda>a. case cf_money a of
      Inl e \<Rightarrow> Inl (issue_of row ''amount'' ''AMOUNT_INVALID'')
    | Inr q \<Rightarrow> if q = 0 then Inl (issue_of row ''amount'' ''AMOUNT_ZERO'') else Inr q)"

text \<open>
  \<open>ManualCashFlowFacts.validate\<close>. An issue of the amount is appended after those of the other fields when
  it is one of quantization, in the place of the field otherwise.
\<close>

definition manual_issues :: "cf_env \<Rightarrow> raw_row \<Rightarrow> cf_issue list" where
  "manual_issues env row =
     (let amount = finite_decimal row ''amount'' True False
      in collect (parse_flow_date env row) @ collect (required_text row ''account'') @ collect (required_text row ''broker'') @
         collect amount @ collect (supported_currency row) @
         (case amount of Inl e \<Rightarrow> [] | Inr a \<Rightarrow> collect (quantized_amount row amount)))"

definition manual_validate :: "cf_env \<Rightarrow> raw_row \<Rightarrow> cf_issue list + manual_facts" where
  "manual_validate env row =
     (case (parse_flow_date env row, required_text row ''account'', required_text row ''broker'',
         quantized_amount row (finite_decimal row ''amount'' True False), supported_currency row) of
        (Inr fd, Inr account, Inr broker, Inr q, Inr cur) \<Rightarrow>
          Inr \<lparr>mf_record_id = rw_id row, mf_flow_date = fd, mf_account = account, mf_broker = broker, mf_amount = q,
            mf_currency = cur, mf_remark = optional_text (raw_field ''remark'' row)\<rparr>
      | _ \<Rightarrow> Inl (manual_issues env row))"

definition cash_flow_types :: "string list" where
  "cash_flow_types = [''DEPOSIT'', ''WITHDRAW'']"

definition expected_flow_type :: "manual_facts \<Rightarrow> string" where
  "expected_flow_type m = (if mf_amount m > 0 then ''DEPOSIT'' else ''WITHDRAW'')"

text \<open>
  The identity of a row. Its amount is at money precision, so taking it there again cannot fail; its
  text is the one of the float. The digest of a text is never empty.
\<close>

definition money_value :: "rat \<Rightarrow> rat" where
  "money_value x = of_int (half_up (x * 10 ^ 2)) / 10 ^ 2"

definition amount_text :: "rat \<Rightarrow> string" where
  "amount_text x = float_text (double (money_value x))"

definition dedup_text :: "manual_facts \<Rightarrow> string \<Rightarrow> string" where
  "dedup_text m flow_type = mf_account m @ ''|'' @ mf_broker m @ ''|'' @ date_text (mf_flow_date m) @ ''|'' @
     flow_type @ ''|'' @ amount_text (mf_amount m) @ ''|'' @ mf_currency m"

definition dedup_key_of :: "cf_env \<Rightarrow> manual_facts \<Rightarrow> string \<Rightarrow> py_exn + string" where
  "dedup_key_of env m flow_type =
     (let ft = py_upper (py_strip flow_type) in
      if ft \<notin> set cash_flow_types then Inl (ValueError (''unsupported cash_flow flow_type: '' @ ft))
      else Inr (take 16 (ce_sha env (dedup_text m ft))))"

definition expected_dedup_key :: "cf_env \<Rightarrow> manual_facts \<Rightarrow> string" where
  "expected_dedup_key env m = take 16 (ce_sha env (dedup_text m (expected_flow_type m)))"

section \<open>Completed facts\<close>

record completed_facts =
  cp_manual :: manual_facts
  cp_flow_type :: string
  cp_cny_amount :: rat
  cp_exchange_rate :: rat
  cp_dedup_key :: string
  cp_source :: string
  cp_updated_at :: cf_value
  cp_replayed :: bool

definition flow_type_of :: "raw_row \<Rightarrow> manual_facts \<Rightarrow> cf_issue + string" where
  "flow_type_of row m = (case raw_field ''flow_type'' row of
      VStr t \<Rightarrow>
        if py_strip t = [] then Inl (issue_of row ''flow_type'' ''FLOW_TYPE_MISSING'')
        else if py_upper (py_strip t) \<notin> set cash_flow_types then Inl (issue_of row ''flow_type'' ''FLOW_TYPE_UNSUPPORTED'')
        else if py_upper (py_strip t) \<noteq> expected_flow_type m
        then Inl (issue_of row ''flow_type'' ''FLOW_TYPE_SIGN_MISMATCH'')
        else Inr (py_upper (py_strip t))
    | _ \<Rightarrow> Inl (issue_of row ''flow_type'' ''FLOW_TYPE_MISSING''))"

text \<open>The checks that relate the fields, each an issue list of its own.\<close>

definition cny_rate_issues :: "raw_row \<Rightarrow> manual_facts \<Rightarrow> cf_issue + rat \<Rightarrow> cf_issue list" where
  "cny_rate_issues row m rate = (case rate of
      Inl e \<Rightarrow> []
    | Inr r \<Rightarrow> if mf_currency m = ''CNY'' \<and> r \<noteq> 1 then [issue_of row ''exchange_rate'' ''CNY_RATE_NOT_ONE''] else [])"

definition quantized_cny :: "raw_row \<Rightarrow> cf_issue + rat \<Rightarrow> cf_issue + rat" where
  "quantized_cny row cny = bind_result cny (\<lambda>a. case cf_money a of
      Inl e \<Rightarrow> Inl (issue_of row ''cny_amount'' ''CNY_AMOUNT_INVALID'')
    | Inr q \<Rightarrow> Inr q)"

text \<open>
  The product of amount and rate, which is taken when both rate and yuan amount can be used, leaves
  the decimal context when its exponent is above 999999. Then it raises \<open>Overflow\<close>; the handler
  around it takes only \<open>InvalidOperation\<close>, and the exception leaves the validation.
\<close>

definition decimal_limit :: rat where
  "decimal_limit = 10 powi 1000000"

definition product_overflows :: "raw_row \<Rightarrow> manual_facts \<Rightarrow> bool" where
  "product_overflows row m =
     (case (finite_decimal row ''exchange_rate'' False True, quantized_cny row (finite_decimal row ''cny_amount'' False False)) of
        (Inr r, Inr q) \<Rightarrow> decimal_limit \<le> \<bar>ctx (mf_amount m * r)\<bar>
      | _ \<Rightarrow> False)"

definition product_issues :: "raw_row \<Rightarrow> manual_facts \<Rightarrow> cf_issue + rat \<Rightarrow> cf_issue + rat \<Rightarrow> cf_issue list" where
  "product_issues row m rate quantized = (case (rate, quantized) of
      (Inr r, Inr q) \<Rightarrow> (case cf_money (ctx (mf_amount m * r)) of
          Inl e \<Rightarrow> [issue_of row ''exchange_rate'' ''EXCHANGE_RATE_INVALID'']
        | Inr expected \<Rightarrow> if q \<noteq> expected then [issue_of row ''cny_amount'' ''CNY_AMOUNT_MISMATCH''] else [])
    | _ \<Rightarrow> [])"

definition dedup_issues :: "cf_env \<Rightarrow> raw_row \<Rightarrow> manual_facts \<Rightarrow> cf_issue + string \<Rightarrow> cf_issue + string \<Rightarrow> cf_issue list" where
  "dedup_issues env row m flow_type key = (case (flow_type, key) of
      (Inr ft, Inr k) \<Rightarrow>
        if k \<noteq> expected_dedup_key env m then [issue_of row ''dedup_key'' ''DEDUP_KEY_MISMATCH''] else []
    | _ \<Rightarrow> [])"

text \<open>
  \<open>CompletedCashFlowFacts.validate\<close> with the manual facts of the row: it raises, or it ends with
  issues, or with the completed facts.
\<close>

datatype cf_refusal = Issues "cf_issue list" | Raised py_exn

definition completed_issues :: "cf_env \<Rightarrow> raw_row \<Rightarrow> manual_facts \<Rightarrow> cf_issue list" where
  "completed_issues env row m =
     (let ft = flow_type_of row m; rate = finite_decimal row ''exchange_rate'' False True;
          cny = finite_decimal row ''cny_amount'' False False; quantized = quantized_cny row cny;
          key = required_text row ''dedup_key''
      in collect ft @ collect rate @ collect cny @ cny_rate_issues row m rate @
         (case cny of Inl e \<Rightarrow> [] | Inr a \<Rightarrow> collect quantized) @ product_issues row m rate quantized @
         collect key @ dedup_issues env row m ft key @ collect (required_text row ''source''))"

definition completed_validate :: "cf_env \<Rightarrow> raw_row \<Rightarrow> manual_facts \<Rightarrow> cf_refusal + completed_facts" where
  "completed_validate env row m =
     (if product_overflows row m then Inl (Raised DecimalOverflow)
      else if completed_issues env row m \<noteq> [] then Inl (Issues (completed_issues env row m))
      else case (flow_type_of row m, finite_decimal row ''exchange_rate'' False True,
          quantized_cny row (finite_decimal row ''cny_amount'' False False), required_text row ''dedup_key'',
          required_text row ''source'') of
        (Inr t, Inr r, Inr q, Inr k, Inr s) \<Rightarrow>
          Inr \<lparr>cp_manual = m, cp_flow_type = t, cp_cny_amount = q, cp_exchange_rate = r, cp_dedup_key = k,
            cp_source = s, cp_updated_at = raw_field ''updated_at'' row, cp_replayed = False\<rparr>
      | _ \<Rightarrow> Inl (Issues []))"

definition manual_checked :: "cf_env \<Rightarrow> raw_row \<Rightarrow> cf_refusal + manual_facts" where
  "manual_checked env row = (case manual_validate env row of Inl is \<Rightarrow> Inl (Issues is) | Inr m \<Rightarrow> Inr m)"

text \<open>Without given manual facts they are validated first.\<close>

definition validate_cash_row :: "cf_env \<Rightarrow> raw_row \<Rightarrow> cf_refusal + completed_facts" where
  "validate_cash_row env row = bind_result (manual_checked env row) (completed_validate env row)"

text \<open>
  \<open>CompletedCashFlowFacts.build\<close>; issues are those of the contract error it raises.
\<close>

record cf_request =
  cq_flow_date :: py_date
  cq_account :: string
  cq_broker :: string
  cq_amount :: cf_value
  cq_currency :: string
  cq_cny_amount :: cf_value
  cq_exchange_rate :: cf_value
  cq_source :: string
  cq_remark :: "string option"
  cq_record_id :: string
  cq_updated_at :: cf_value

definition text_value :: "string option \<Rightarrow> cf_value" where
  "text_value t = (case t of None \<Rightarrow> VNull | Some s \<Rightarrow> VStr s)"

definition decimal_of_money :: "rat \<Rightarrow> decimal" where
  "decimal_of_money x = (let n = half_up (x * 10 ^ 2) in \<lparr>dec_neg = n < 0, dec_coeff = nat \<bar>n\<bar>, dec_exp = -2\<rparr>)"

definition money_decimal :: "rat \<Rightarrow> cf_value" where
  "money_decimal x = VDecimal (decimal_of_money x) (format_f (decimal_of_money x))"

definition one_decimal :: cf_value where
  "one_decimal = VDecimal \<lparr>dec_neg = False, dec_coeff = 1, dec_exp = 0\<rparr> ''1''"

definition manual_fields :: "cf_request \<Rightarrow> (string \<times> cf_value) list" where
  "manual_fields q = [(''flow_date'', VDate (cq_flow_date q)), (''account'', VStr (cq_account q)), (''broker'', VStr (cq_broker q)),
     (''amount'', cq_amount q), (''currency'', VStr (cq_currency q)), (''remark'', text_value (cq_remark q))]"

definition build_completed :: "cf_env \<Rightarrow> cf_request \<Rightarrow> cf_refusal + completed_facts" where
  "build_completed env q =
     bind_result (manual_checked env (raw_row_of (cq_record_id q) (manual_fields q))) (\<lambda>m.
       let cny = mf_currency m = ''CNY'';
           rate = (if cny \<and> cq_exchange_rate q = VNull then one_decimal else cq_exchange_rate q);
           amount = (if cny \<and> cq_cny_amount q = VNull then money_decimal (mf_amount m) else cq_cny_amount q)
       in validate_cash_row env (raw_row_of (cq_record_id q) (manual_fields q @
            [(''flow_type'', VStr (expected_flow_type m)), (''cny_amount'', amount), (''exchange_rate'', rate),
             (''dedup_key'', VStr (expected_dedup_key env m)), (''source'', VStr (cq_source q)),
             (''updated_at'', cq_updated_at q)])))"

text \<open>\<open>with_record_id\<close>, and \<open>to_fields\<close>: what is written, with floats for the numbers.\<close>

definition with_record_id :: "string \<Rightarrow> bool \<Rightarrow> completed_facts \<Rightarrow> completed_facts" where
  "with_record_id record_id replayed f =
     f\<lparr>cp_manual := (cp_manual f)\<lparr>mf_record_id := py_strip record_id\<rparr>, cp_replayed := replayed\<rparr>"

definition to_fields :: "completed_facts \<Rightarrow> (string \<times> cf_value) list" where
  "to_fields f = (let m = cp_manual f in
     [(''flow_date'', VDate (mf_flow_date m)), (''account'', VStr (mf_account m)), (''broker'', VStr (mf_broker m)),
      (''amount'', VFloat (double (mf_amount m))), (''currency'', VStr (mf_currency m)),
      (''flow_type'', VStr (cp_flow_type f)), (''cny_amount'', VFloat (double (cp_cny_amount f))),
      (''dedup_key'', VStr (cp_dedup_key f)), (''exchange_rate'', VFloat (double (cp_exchange_rate f))),
      (''source'', VStr (cp_source f)), (''remark'', text_value (mf_remark m))])"


section \<open>Lemmas: what validation accepts\<close>

lemma strip_strip [simp]: "py_strip (py_strip s) = py_strip s"
proof -
  define t where "t = dropWhile py_space s"
  define u where "u = dropWhile py_space (rev t)"
  have s: "py_strip s = rev u" by (simp add: py_strip_def t_def u_def)
  have keep: "dropWhile py_space (rev u) = rev u"
  proof (cases u rule: rev_cases)
    case (snoc v c)
    have "u \<noteq> []" using snoc by simp
    obtain w where "rev t = w @ u" using takeWhile_dropWhile_id [of py_space "rev t"] unfolding u_def by metis
    then have "rev (w @ u) = t" by (metis rev_rev_ident)
    then have "t \<noteq> []" "hd t = c" using snoc by auto
    then have "\<not> py_space c" unfolding t_def using hd_dropWhile [of py_space s] by simp
    with snoc show ?thesis by simp
  qed simp
  have "dropWhile py_space u = u" by (simp add: u_def dropWhile_idem)
  then show ?thesis unfolding s by (simp add: py_strip_def keep)
qed

lemmas bind_cases = bind_result_def sum.split_asm

definition wf_manual :: "manual_facts \<Rightarrow> bool" where
  "wf_manual m \<longleftrightarrow> py_strip (mf_account m) = mf_account m \<and> mf_account m \<noteq> [] \<and> py_strip (mf_broker m) = mf_broker m \<and>
     mf_broker m \<noteq> [] \<and> mf_currency m \<in> set cash_flow_currencies \<and> mf_amount m \<noteq> 0 \<and>
     cf_money (mf_amount m) = Inr (mf_amount m)"

definition wf_completed :: "cf_env \<Rightarrow> completed_facts \<Rightarrow> bool" where
  "wf_completed env f \<longleftrightarrow> wf_manual (cp_manual f) \<and> cp_flow_type f = expected_flow_type (cp_manual f) \<and>
     0 < cp_exchange_rate f \<and> (mf_currency (cp_manual f) = ''CNY'' \<longrightarrow> cp_exchange_rate f = 1) \<and>
     cf_money (ctx (mf_amount (cp_manual f) * cp_exchange_rate f)) = Inr (cp_cny_amount f) \<and>
     cp_dedup_key f = expected_dedup_key env (cp_manual f) \<and> py_strip (cp_dedup_key f) = cp_dedup_key f \<and>
     cp_dedup_key f \<noteq> [] \<and> py_strip (cp_source f) = cp_source f \<and> cp_source f \<noteq> []"

lemma required_text_Inr: "required_text row k = Inr t \<Longrightarrow> py_strip t = t \<and> t \<noteq> []"
  by (auto simp: required_text_def split: cf_value.splits if_splits)

lemma supported_currency_Inr: "supported_currency row = Inr c \<Longrightarrow> c \<in> set cash_flow_currencies"
  by (auto simp: supported_currency_def split: cf_value.splits if_splits)

lemma cf_money_idem:
  assumes "cf_money x = Inr q"
  shows "cf_money q = Inr q"
proof -
  obtain n where "q = of_int n / 10 ^ 2" "\<bar>n\<bar> < 10 ^ 28" using quantize_Inr [OF assms [unfolded cf_money_def]] by metis
  then show ?thesis unfolding cf_money_def by (simp only: quantize_places)
qed

lemma quantized_amount_Inr: "quantized_amount row a = Inr q \<Longrightarrow> q \<noteq> 0 \<and> cf_money q = Inr q"
  by (auto simp: quantized_amount_def bind_result_def cf_money_idem split: sum.splits if_splits)

lemma manual_validate_Inr:
  assumes "manual_validate env row = Inr m"
  shows "wf_manual m" and "mf_record_id m = rw_id row"
  using assms
  by (auto simp: manual_validate_def wf_manual_def dest: required_text_Inr supported_currency_Inr
      quantized_amount_Inr split: sum.splits)

lemma quantized_Inl [simp]: "quantized_amount row (Inl e) = Inl e" "quantized_cny row (Inl e) = Inl e"
  by (simp_all add: quantized_amount_def quantized_cny_def)

lemma collect_simps [simp]: "collect (Inl e) = [e]" "collect (Inr a) = []"
  by (simp_all add: collect_def)

lemma manual_validate_Inl: "manual_validate env row = Inl is \<Longrightarrow> is = manual_issues env row"
  by (auto simp: manual_validate_def split: sum.splits)

lemma manual_issues_Nil: "manual_issues env row = [] \<longleftrightarrow> (\<exists>m. manual_validate env row = Inr m)"
  by (auto simp: manual_validate_def manual_issues_def Let_def split: sum.splits)

lemma flow_type_of_Inr: "flow_type_of row m = Inr t \<Longrightarrow> t = expected_flow_type m"
  by (auto simp: flow_type_of_def split: cf_value.splits if_splits)

lemma finite_decimal_positive: "finite_decimal row k nz True = Inr x \<Longrightarrow> 0 < x"
  by (auto simp: finite_decimal_def Let_def split: option.splits if_splits)

lemma completed_validate_Inr:
  assumes "completed_validate env row m = Inr f" and "wf_manual m"
  shows "wf_completed env f" and "cp_manual f = m" and "\<not> cp_replayed f" and "cp_updated_at f = raw_field ''updated_at'' row"
proof -
  have none: "completed_issues env row m = []" "\<not> product_overflows row m" using assms(1) by (auto simp: completed_validate_def split: if_splits)
  with assms(1) obtain t r q k s where
    parts: "flow_type_of row m = Inr t" "finite_decimal row ''exchange_rate'' False True = Inr r"
      "quantized_cny row (finite_decimal row ''cny_amount'' False False) = Inr q"
      "required_text row ''dedup_key'' = Inr k" "required_text row ''source'' = Inr s"
    and f: "f = \<lparr>cp_manual = m, cp_flow_type = t, cp_cny_amount = q, cp_exchange_rate = r, cp_dedup_key = k,
      cp_source = s, cp_updated_at = raw_field ''updated_at'' row, cp_replayed = False\<rparr>"
    by (auto simp: completed_validate_def split: sum.splits)
  have issues: "cny_rate_issues row m (Inr r) = []" "product_issues row m (Inr r) (Inr q) = []"
      "dedup_issues env row m (Inr t) (Inr k) = []"
    using none(1) by (simp_all add: completed_issues_def Let_def parts)
  have "mf_currency m = ''CNY'' \<longrightarrow> r = 1" using issues(1) by (auto simp: cny_rate_issues_def split: if_splits)
  moreover have "cf_money (ctx (mf_amount m * r)) = Inr q"
    using issues(2) by (auto simp: product_issues_def split: sum.splits if_splits)
  moreover have "k = expected_dedup_key env m" using issues(3) by (auto simp: dedup_issues_def split: if_splits)
  ultimately show "wf_completed env f"
    using assms(2) flow_type_of_Inr [OF parts(1)] finite_decimal_positive [OF parts(2)] required_text_Inr [OF parts(4)]
      required_text_Inr [OF parts(5)]
    by (simp add: f wf_completed_def)
  show "cp_manual f = m" "\<not> cp_replayed f" "cp_updated_at f = raw_field ''updated_at'' row" by (simp_all add: f)
qed

lemma completed_validate_Inl:
  "completed_validate env row m = Inl e \<Longrightarrow> (if product_overflows row m then e = Raised DecimalOverflow
     else e = Issues (completed_issues env row m) \<and> completed_issues env row m \<noteq> [])"
  by (auto simp: completed_validate_def completed_issues_def Let_def split: sum.splits if_splits)

lemma completed_no_overflow: "completed_validate env row m = Inr f \<Longrightarrow> \<not> product_overflows row m"
  by (auto simp: completed_validate_def)

text \<open>A product that is within half a cent of an amount with 28 digits does not overflow.\<close>

lemma representable_no_overflow:
  assumes "cf_money (ctx x) = Inr q"
  shows "\<not> decimal_limit \<le> \<bar>ctx x\<bar>"
proof
  assume big: "decimal_limit \<le> \<bar>ctx x\<bar>"
  obtain n where n: "q = of_int n / 10 ^ 2" "\<bar>n\<bar> < 10 ^ 28" "2 * \<bar>q - ctx x\<bar> \<le> 1 / 10 ^ 2"
    using quantize_Inr [OF assms [unfolded cf_money_def]] by metis
  have "(10::rat) powi 27 \<le> decimal_limit" unfolding decimal_limit_def by (intro power_int_increasing) simp_all
  from order_trans [OF this big] have b: "(10::rat) ^ 27 \<le> \<bar>ctx x\<bar>" by (simp only: power_int_numeral)
  have "of_int \<bar>n\<bar> < (of_int (10 ^ 28) :: rat)" using n(2) by (simp only: of_int_less_iff)
  then have "\<bar>q\<bar> < 10 ^ 26" unfolding n(1) by (simp add: abs_divide)
  moreover have "\<bar>ctx x\<bar> \<le> \<bar>q\<bar> + \<bar>q - ctx x\<bar>" by simp
  ultimately show False using n(3) b by simp
qed

text \<open>Every issue names the row it is about.\<close>

definition of_row :: "raw_row \<Rightarrow> cf_issue list \<Rightarrow> bool" where
  "of_row row is \<longleftrightarrow> list_all (\<lambda>i. ci_record i = rw_id row) is"

lemma of_row_simps [simp]: "of_row row []" "of_row row (issue_of row k r # is) \<longleftrightarrow> of_row row is"
  "of_row row (is @ js) \<longleftrightarrow> of_row row is \<and> of_row row js"
  by (simp_all add: of_row_def issue_of_def)

lemma of_row_collect [simp]: "of_row row (collect (required_text row k))" "of_row row (collect (supported_currency row))"
  "of_row row (collect (finite_decimal row k nz pos))" "of_row row (collect (parse_flow_date env row))"
  "of_row row (collect (flow_type_of row m))"
  by (auto simp: collect_def required_text_def supported_currency_def finite_decimal_def parse_flow_date_def
      flow_type_of_def Let_def split: cf_value.splits option.splits)

lemma of_row_quantized [simp]:
  "of_row row (collect a) \<Longrightarrow> of_row row (collect (quantized_amount row a))"
  "of_row row (collect a) \<Longrightarrow> of_row row (collect (quantized_cny row a))"
  by (auto simp: collect_def quantized_amount_def quantized_cny_def bind_result_def split: sum.splits)

lemma of_row_checks [simp]: "of_row row (cny_rate_issues row m r)" "of_row row (product_issues row m r q)"
  "of_row row (dedup_issues env row m t k)"
  by (auto simp: cny_rate_issues_def product_issues_def dedup_issues_def split: sum.splits)

lemma of_row_late [simp]: "of_row row (collect q) \<Longrightarrow> of_row row (case a of Inl e \<Rightarrow> [] | Inr b \<Rightarrow> collect q)"
  by (simp split: sum.splits)

lemma manual_issues_row: "of_row row (manual_issues env row)"
  by (simp add: manual_issues_def Let_def)

lemma completed_issues_row: "of_row row (completed_issues env row m)"
  by (simp add: completed_issues_def Let_def)

lemma validate_cash_row_cases:
  obtains (refused) "is" where "validate_cash_row env row = Inl (Issues is)" "is \<noteq> []" "of_row row is"
      "manual_validate env row = Inl is"
  | (incomplete) m where "validate_cash_row env row = Inl (Issues (completed_issues env row m))"
      "completed_issues env row m \<noteq> []" "manual_validate env row = Inr m" "\<not> product_overflows row m"
  | (raised) m where "validate_cash_row env row = Inl (Raised DecimalOverflow)" "manual_validate env row = Inr m"
      "product_overflows row m"
  | (accepted) f where "validate_cash_row env row = Inr f" "wf_completed env f" "mf_record_id (cp_manual f) = rw_id row"
      "manual_validate env row = Inr (cp_manual f)" "\<not> product_overflows row (cp_manual f)"
proof (cases "manual_validate env row")
  case (Inl "is")
  then have "validate_cash_row env row = Inl (Issues is)" by (simp add: validate_cash_row_def manual_checked_def)
  moreover have "is \<noteq> []" "of_row row is"
    using manual_validate_Inl [OF Inl] manual_issues_Nil [of env row] manual_issues_row [of row env] by (auto simp: Inl)
  ultimately show ?thesis using refused Inl by blast
next
  case (Inr m)
  then have v: "validate_cash_row env row = completed_validate env row m"
    by (simp add: validate_cash_row_def manual_checked_def)
  show ?thesis
  proof (cases "completed_validate env row m")
    case (Inl e)
    then show ?thesis
      using raised [of m] incomplete [of m] v completed_validate_Inl [OF Inl] \<open>manual_validate env row = Inr m\<close>
      by (auto split: if_splits)
  next
    case c: (Inr f)
    note wf = completed_validate_Inr [OF c manual_validate_Inr(1) [OF Inr]]
    then show ?thesis using accepted v c Inr manual_validate_Inr(2) [OF Inr] completed_no_overflow [OF c] by metis
  qed
qed

section \<open>Lemmas: amounts and their floats\<close>

lemma money_form:
  assumes "cf_money x = Inr x"
  obtains n where "x = of_int n / 10 ^ 2" "\<bar>n\<bar> < 10 ^ 28"
  using quantize_Inr [OF assms [unfolded cf_money_def]] by metis

lemma money_cents:
  assumes "cf_money x = Inr q" and "\<bar>q\<bar> < 10 ^ 13"
  shows "cents q"
proof -
  obtain n where "q = of_int n / 10 ^ 2" using quantize_Inr [OF assms(1) [unfolded cf_money_def]] by metis
  then have "\<exists>n. q = of_int n / 100" by auto
  then show ?thesis using assms(2) by (rule cents_bounded)
qed

lemma money_ctx: "cf_money x = Inr x \<Longrightarrow> ctx x = x"
  by (metis money_form ctx_places)

lemma raw_field_simps [simp]:
  "raw_field k (raw_row_of i ((k', v) # fs)) = (if k = k' then v else raw_field k (raw_row_of i fs))"
  "raw_field k (raw_row_of i []) = VNull"
  by (simp_all add: raw_field_def raw_row_of_def)

lemma raw_row_id [simp]: "rw_id (raw_row_of i fs) = py_strip i"
  by (simp add: raw_row_of_def)

lemma text_value_simps [simp]: "optional_text (text_value t) = t"
  by (cases t) (simp_all add: text_value_def optional_text_def value_text_def)

lemma currency_upper: "c \<in> set cash_flow_currencies \<Longrightarrow> py_strip c = c \<and> py_upper c = c \<and> c \<noteq> []"
proof -
  have "list_all (\<lambda>c. py_strip c = c \<and> py_upper c = c \<and> c \<noteq> []) cash_flow_currencies" by code_simp
  then show "c \<in> set cash_flow_currencies \<Longrightarrow> ?thesis" by (simp add: list_all_iff)
qed

lemma flow_type_upper: "py_strip (expected_flow_type m) = expected_flow_type m" "py_upper (expected_flow_type m) = expected_flow_type m"
  "expected_flow_type m \<noteq> []" "expected_flow_type m \<in> set cash_flow_types"
proof -
  have *: "py_strip ''DEPOSIT'' = ''DEPOSIT''" "py_strip ''WITHDRAW'' = ''WITHDRAW''"
    "py_upper ''DEPOSIT'' = ''DEPOSIT''" "py_upper ''WITHDRAW'' = ''WITHDRAW''" by code_simp+
  show "py_strip (expected_flow_type m) = expected_flow_type m" "py_upper (expected_flow_type m) = expected_flow_type m"
    "expected_flow_type m \<noteq> []" "expected_flow_type m \<in> set cash_flow_types"
    using * by (auto simp: expected_flow_type_def cash_flow_types_def)
qed

lemma dedup_key_of_expected: "dedup_key_of env m (expected_flow_type m) = Inr (expected_dedup_key env m)"
  by (simp add: dedup_key_of_def Let_def flow_type_upper expected_dedup_key_def)


lemma money_decimal_value: "cf_money x = Inr x \<Longrightarrow> number_of (money_decimal x) = Some x"
proof -
  assume "cf_money x = Inr x"
  then obtain n where x: "x = of_int n / 10 ^ 2" by (rule money_form)
  then have "half_up (x * 10 ^ 2) = n" by (intro half_up_near) simp
  then have "decimal_of_money x = \<lparr>dec_neg = n < 0, dec_coeff = nat \<bar>n\<bar>, dec_exp = -2\<rparr>" by (simp add: decimal_of_money_def)
  moreover have "(if n < 0 then -1 else 1) * of_nat (nat \<bar>n\<bar>) = (of_int n :: rat)" by simp
  ultimately have "dec_value (decimal_of_money x) = x" unfolding x by (simp only: dec_value_def decimal.simps) simp
  then show ?thesis by (simp add: number_of_def money_decimal_def)
qed

lemma one_decimal_value: "number_of one_decimal = Some 1"
  by (simp add: number_of_def one_decimal_def dec_value_def)

lemma finite_decimal_hit:
  assumes "raw_field k row = v" "number_of v = Some x" "v \<noteq> VNull" "v \<noteq> VStr []" "x \<noteq> 0 \<or> \<not> nz" "0 < x \<or> \<not> pos"
  shows "finite_decimal row k nz pos = Inr x"
  using assms by (auto simp: finite_decimal_def Let_def)

lemma required_text_hit: "raw_field k row = VStr t \<Longrightarrow> py_strip t \<noteq> [] \<Longrightarrow> required_text row k = Inr (py_strip t)"
  by (simp add: required_text_def)

lemma flow_type_hit: "raw_field ''flow_type'' row = VStr (expected_flow_type m) \<Longrightarrow> flow_type_of row m = Inr (expected_flow_type m)"
  by (simp add: flow_type_of_def flow_type_upper)

text \<open>A row whose fields hold consistent values is completed to exactly them.\<close>

lemma completed_hit:
  assumes "raw_field ''flow_type'' row = VStr (expected_flow_type m)"
    and "finite_decimal row ''exchange_rate'' False True = Inr r" "mf_currency m = ''CNY'' \<longrightarrow> r = 1"
    and "finite_decimal row ''cny_amount'' False False = Inr c" "cf_money c = Inr q" "cf_money (ctx (mf_amount m * r)) = Inr q"
    and "required_text row ''dedup_key'' = Inr (expected_dedup_key env m)" "required_text row ''source'' = Inr s"
  shows "completed_validate env row m = Inr \<lparr>cp_manual = m, cp_flow_type = expected_flow_type m, cp_cny_amount = q,
    cp_exchange_rate = r, cp_dedup_key = expected_dedup_key env m, cp_source = s,
    cp_updated_at = raw_field ''updated_at'' row, cp_replayed = False\<rparr>"
proof -
  have q: "quantized_cny row (Inr c) = Inr q" using assms(5) by (simp add: quantized_cny_def)
  have over: "\<not> product_overflows row m"
    using representable_no_overflow [OF assms(6)] by (simp add: product_overflows_def assms(2,4) q)
  have "completed_issues env row m = []"
    using assms(3) by (simp add: completed_issues_def Let_def flow_type_hit [OF assms(1)] assms(2,4,6-8) q
        cny_rate_issues_def product_issues_def dedup_issues_def)
  then show ?thesis
    using over by (simp add: completed_validate_def flow_type_hit [OF assms(1)] assms(2,4,7,8) q)
qed

lemma manual_hit:
  assumes "parse_flow_date env row = Inr (mf_flow_date m)" "raw_field ''account'' row = VStr (mf_account m)"
    "raw_field ''broker'' row = VStr (mf_broker m)" "finite_decimal row ''amount'' True False = Inr (mf_amount m)"
    "raw_field ''currency'' row = VStr (mf_currency m)" "optional_text (raw_field ''remark'' row) = mf_remark m" "wf_manual m"
  shows "manual_validate env row = Inr (m\<lparr>mf_record_id := rw_id row\<rparr>)"
proof -
  note wf = assms(7) [unfolded wf_manual_def]
  have "required_text row ''account'' = Inr (mf_account m)" "required_text row ''broker'' = Inr (mf_broker m)"
    using wf by (simp_all add: required_text_def assms(2,3))
  moreover have "supported_currency row = Inr (mf_currency m)"
    using wf currency_upper [of "mf_currency m"] by (simp add: supported_currency_def assms(5))
  moreover have "quantized_amount row (Inr (mf_amount m)) = Inr (mf_amount m)"
    using wf by (simp add: quantized_amount_def)
  ultimately show ?thesis by (simp add: manual_validate_def assms(1,4,6))
qed

lemma manual_validate_cong:
  assumes "\<And>k. k \<in> {''flow_date'', ''account'', ''broker'', ''amount'', ''currency'', ''remark''} \<Longrightarrow>
      raw_field k row = raw_field k row'" and "rw_id row = rw_id row'"
  shows "manual_validate env row = manual_validate env row'"
proof -
  note same = assms(1) [of "''flow_date''", simplified] assms(1) [of "''account''", simplified] assms(1) [of "''broker''", simplified]
    assms(1) [of "''amount''", simplified] assms(1) [of "''currency''", simplified] assms(1) [of "''remark''", simplified]
  then have i: "issue_of row ''flow_date'' = issue_of row' ''flow_date''" "issue_of row ''account'' = issue_of row' ''account''"
      "issue_of row ''broker'' = issue_of row' ''broker''" "issue_of row ''amount'' = issue_of row' ''amount''"
      "issue_of row ''currency'' = issue_of row' ''currency''"
    by (auto simp: issue_of_def assms(2))
  have f: "parse_flow_date env row = parse_flow_date env row'" "required_text row ''account'' = required_text row' ''account''"
      "required_text row ''broker'' = required_text row' ''broker''"
      "finite_decimal row ''amount'' True False = finite_decimal row' ''amount'' True False"
      "supported_currency row = supported_currency row'" "raw_field ''remark'' row = raw_field ''remark'' row'"
    by (simp_all only: parse_flow_date_def required_text_def finite_decimal_def supported_currency_def same i)
  have q: "quantized_amount row a = quantized_amount row' a" for a
    by (simp only: quantized_amount_def i)
  show ?thesis unfolding manual_validate_def manual_issues_def f q assms(2) by (rule refl)
qed

lemma expected_with_id [simp]: "expected_dedup_key env (m\<lparr>mf_record_id := i\<rparr>) = expected_dedup_key env m"
  "expected_flow_type (m\<lparr>mf_record_id := i\<rparr>) = expected_flow_type m"
  by (simp_all add: expected_dedup_key_def expected_flow_type_def dedup_text_def)

lemma double_text: "cents x \<Longrightarrow> number_of (VFloat (double x)) = Some x"
  by (simp add: number_of_def cents_facts)

lemma rate_text: "decimal_digits 15 r \<Longrightarrow> 10 powi (-290) \<le> r \<Longrightarrow> number_of (VFloat (double r)) = Some r"
  using repr_double [of r] by (simp add: number_of_def to_decimal_def)

text \<open>What \<open>to_fields\<close> writes is read back as the same facts.\<close>

lemma fields_read_back:
  assumes "wf_completed env f" and "\<bar>mf_amount (cp_manual f)\<bar> < 10 ^ 13" "\<bar>cp_cny_amount f\<bar> < 10 ^ 13"
    and "decimal_digits 15 (cp_exchange_rate f)" "10 powi (-290) \<le> cp_exchange_rate f"
  shows "validate_cash_row env (raw_row_of i (to_fields f)) = Inr ((with_record_id i False f)\<lparr>cp_updated_at := VNull\<rparr>)"
proof -
  define m where "m = cp_manual f"
  define row where "row = raw_row_of i (to_fields f)"
  note wf = assms(1) [unfolded wf_completed_def, folded m_def]
  then have a: "mf_amount m \<noteq> 0" "cf_money (mf_amount m) = Inr (mf_amount m)" by (simp_all add: wf_manual_def)
  have ca: "cents (mf_amount m)" using money_cents [OF a(2)] assms(2) by (simp add: m_def)
  have cc: "cents (cp_cny_amount f)" using wf assms(3) by (auto intro: money_cents)
  have fields: "raw_field ''account'' row = VStr (mf_account m)" "raw_field ''broker'' row = VStr (mf_broker m)"
      "raw_field ''amount'' row = VFloat (double (mf_amount m))" "raw_field ''currency'' row = VStr (mf_currency m)"
      "raw_field ''flow_date'' row = VDate (mf_flow_date m)" "raw_field ''remark'' row = text_value (mf_remark m)"
      "raw_field ''flow_type'' row = VStr (cp_flow_type f)" "raw_field ''exchange_rate'' row = VFloat (double (cp_exchange_rate f))"
      "raw_field ''cny_amount'' row = VFloat (double (cp_cny_amount f))" "raw_field ''dedup_key'' row = VStr (cp_dedup_key f)"
      "raw_field ''source'' row = VStr (cp_source f)" "raw_field ''updated_at'' row = VNull"
    by (simp_all add: row_def to_fields_def Let_def m_def)
  have "manual_validate env row = Inr (m\<lparr>mf_record_id := rw_id row\<rparr>)"
    using wf a by (intro manual_hit) (simp_all add: fields parse_flow_date_def date_of_value_def Let_def
        finite_decimal_def double_text [OF ca])
  moreover have "completed_validate env row (m\<lparr>mf_record_id := rw_id row\<rparr>) =
      Inr \<lparr>cp_manual = m\<lparr>mf_record_id := rw_id row\<rparr>, cp_flow_type = expected_flow_type m, cp_cny_amount = cp_cny_amount f,
        cp_exchange_rate = cp_exchange_rate f, cp_dedup_key = expected_dedup_key env m, cp_source = cp_source f,
        cp_updated_at = VNull, cp_replayed = False\<rparr>"
  proof -
    have "finite_decimal row ''exchange_rate'' False True = Inr (cp_exchange_rate f)"
      using wf by (intro finite_decimal_hit [OF fields(8) rate_text [OF assms(4,5)]]) simp_all
    moreover have "finite_decimal row ''cny_amount'' False False = Inr (cp_cny_amount f)"
      by (intro finite_decimal_hit [OF fields(9) double_text [OF cc]]) simp_all
    moreover have "required_text row ''dedup_key'' = Inr (expected_dedup_key env m)"
      using required_text_hit [OF fields(10)] wf by metis
    moreover have "required_text row ''source'' = Inr (cp_source f)"
      using required_text_hit [OF fields(11)] wf by simp
    moreover have "cf_money (cp_cny_amount f) = Inr (cp_cny_amount f)" using wf cf_money_idem by blast
    ultimately show ?thesis
      using completed_hit [of row "m\<lparr>mf_record_id := rw_id row\<rparr>" "cp_exchange_rate f" "cp_cny_amount f" "cp_cny_amount f" env]
        fields(7,12) wf by simp
  qed
  ultimately show ?thesis
    using wf unfolding row_def [symmetric] by (simp add: validate_cash_row_def manual_checked_def with_record_id_def row_def m_def)
qed


lemma wf_completed_amounts:
  assumes "wf_completed env f"
  shows "2 * \<bar>cp_cny_amount f - mf_amount (cp_manual f) * cp_exchange_rate f\<bar> \<le>
      1 / 100 + \<bar>mf_amount (cp_manual f) * cp_exchange_rate f\<bar> * 10 powi (-27)"
    and "mf_currency (cp_manual f) = ''CNY'' \<Longrightarrow> cp_cny_amount f = mf_amount (cp_manual f)"
proof -
  define x where "x = mf_amount (cp_manual f) * cp_exchange_rate f"
  have q: "cf_money (ctx x) = Inr (cp_cny_amount f)" using assms by (simp add: wf_completed_def x_def)
  obtain n where "2 * \<bar>cp_cny_amount f - ctx x\<bar> \<le> 1 / 10 ^ 2" using quantize_Inr [OF q [unfolded cf_money_def]] by metis
  moreover have "2 * \<bar>ctx x - x\<bar> \<le> \<bar>x\<bar> * 10 powi (-27)" by (rule ctx_error)
  moreover have "\<bar>cp_cny_amount f - x\<bar> \<le> \<bar>cp_cny_amount f - ctx x\<bar> + \<bar>ctx x - x\<bar>" by simp
  moreover define b where "b = \<bar>x\<bar> * 10 powi (-27)"
  ultimately show "2 * \<bar>cp_cny_amount f - mf_amount (cp_manual f) * cp_exchange_rate f\<bar> \<le>
      1 / 100 + \<bar>mf_amount (cp_manual f) * cp_exchange_rate f\<bar> * 10 powi (-27)"
    unfolding x_def [symmetric] b_def [symmetric] by simp
  have m: "cf_money (mf_amount (cp_manual f)) = Inr (mf_amount (cp_manual f))"
    using assms by (simp add: wf_completed_def wf_manual_def)
  assume "mf_currency (cp_manual f) = ''CNY''"
  then have "x = mf_amount (cp_manual f)" using assms by (simp add: wf_completed_def x_def)
  with q m show "cp_cny_amount f = mf_amount (cp_manual f)" by (simp add: money_ctx)
qed

text \<open>An operator's row of 100 yuan; the hash of the example is the text itself.\<close>

definition demo_env :: cf_env where
  "demo_env = \<lparr>ce_sha = (\<lambda>t. t), ce_datetime = (\<lambda>t. None)\<rparr>"

definition demo_day :: py_date where
  "demo_day = \<lparr>dt_year = 2024, dt_month = 3, dt_day = 15\<rparr>"

definition demo_request :: cf_request where
  "demo_request = \<lparr>cq_flow_date = demo_day, cq_account = ''lx-account'', cq_broker = ''broker-a'', cq_amount = VInt 100,
     cq_currency = ''CNY'', cq_cny_amount = VNull, cq_exchange_rate = VNull, cq_source = ''manual'', cq_remark = None,
     cq_record_id = ''rec1'', cq_updated_at = VNull\<rparr>"

definition demo_manual :: manual_facts where
  "demo_manual = \<lparr>mf_record_id = ''rec1'', mf_flow_date = demo_day, mf_account = ''lx-account'', mf_broker = ''broker-a'',
     mf_amount = 100, mf_currency = ''CNY'', mf_remark = None\<rparr>"

lemma demo_strip: "py_strip ''lx-account'' = ''lx-account''" "py_strip ''broker-a'' = ''broker-a''" "py_strip ''rec1'' = ''rec1''"
  "py_strip ''manual'' = ''manual''" "py_strip ''lx-account|broke'' = ''lx-account|broke''"
  by code_simp+

lemma cf_money_100: "cf_money 100 = Inr 100"
  unfolding cf_money_def using quantize_places [of 10000 2] by simp

lemma demo_manual_wf: "wf_manual demo_manual"
  by (simp add: wf_manual_def demo_manual_def demo_strip cf_money_100 cash_flow_currencies_def)

lemma demo_manual_valid: "manual_validate env (raw_row_of ''rec1'' (manual_fields demo_request)) = Inr demo_manual"
proof -
  have "demo_manual\<lparr>mf_record_id := ''rec1''\<rparr> = demo_manual" by (simp add: demo_manual_def)
  moreover have "manual_validate env (raw_row_of ''rec1'' (manual_fields demo_request)) = Inr (demo_manual\<lparr>mf_record_id :=
      rw_id (raw_row_of ''rec1'' (manual_fields demo_request))\<rparr>)"
    by (rule manual_hit) (rule demo_manual_wf | simp add: demo_manual_def demo_request_def manual_fields_def
        parse_flow_date_def date_of_value_def finite_decimal_def number_of_def text_value_def optional_text_def)+
  ultimately show ?thesis by (simp add: demo_strip)
qed

lemma demo_key: "expected_dedup_key demo_env demo_manual = ''lx-account|broke''"
  by (simp add: expected_dedup_key_def demo_env_def dedup_text_def demo_manual_def)


lemma demo_parts: "cq_record_id demo_request = ''rec1''" "mf_currency demo_manual = ''CNY''" "mf_amount demo_manual = 100"
  "cq_exchange_rate demo_request = VNull" "cq_cny_amount demo_request = VNull" "cq_source demo_request = ''manual''"
  "cq_updated_at demo_request = VNull" "expected_flow_type demo_manual = ''DEPOSIT''"
  by (simp_all add: demo_request_def demo_manual_def expected_flow_type_def)

definition demo_completed :: completed_facts where
  "demo_completed = \<lparr>cp_manual = demo_manual, cp_flow_type = ''DEPOSIT'', cp_cny_amount = 100, cp_exchange_rate = 1,
     cp_dedup_key = ''lx-account|broke'', cp_source = ''manual'', cp_updated_at = VNull, cp_replayed = False\<rparr>"

lemma one_digit: "decimal_digits 15 1" "(10::rat) powi (-290) \<le> 1"
proof -
  show "decimal_digits 15 1" using decimal_places [of 1 15 0] by simp
  have "(10::rat) powi (-290) \<le> 10 powi 0" by (intro power_int_increasing) simp_all
  then show "(10::rat) powi (-290) \<le> 1" by simp
qed

lemma demo_completed_wf: "wf_completed demo_env demo_completed"
  using money_ctx [OF cf_money_100]
  by (simp add: wf_completed_def demo_completed_def demo_manual_wf demo_parts demo_key demo_strip cf_money_100)

lemma demo_row_valid: "validate_cash_row demo_env (raw_row_of ''rec1'' (to_fields demo_completed)) = Inr demo_completed"
proof -
  have "(with_record_id ''rec1'' False demo_completed)\<lparr>cp_updated_at := VNull\<rparr> = demo_completed"
    by (simp add: with_record_id_def demo_completed_def demo_manual_def demo_strip)
  then show ?thesis
    using fields_read_back [OF demo_completed_wf, of "''rec1''"] one_digit by (simp add: demo_completed_def demo_parts)
qed

text \<open>The operator's row with a mistyped rate, for which validation raises.\<close>

definition overflow_row :: raw_row where
  "overflow_row = raw_row_of ''rec1'' (manual_fields demo_request @
     [(''flow_type'', VStr ''DEPOSIT''), (''cny_amount'', VInt 100), (''exchange_rate'', VStr ''1E+999999'')])"

lemma unit_value: "dec_value \<lparr>dec_neg = False, dec_coeff = 1, dec_exp = e\<rparr> = 10 powi e"
  by (simp add: dec_value_def)

lemma huge_rate: "number_of (VStr ''1E+999999'') = Some (10 powi 999999)"
proof -
  have "parse_decimal ''1E+999999'' = Some \<lparr>dec_neg = False, dec_coeff = 1, dec_exp = 999999\<rparr>"
  proof -
    have "py_strip ''1E+999999'' = ''1E+999999''" "is_digit (CHR ''1'')" "is_digit (CHR ''9'')" "\<not> is_digit (CHR ''E'')" by code_simp+
    then show ?thesis
      by (simp add: parse_decimal_def split_sign_def parse_unsigned_def parse_exponent_def digits_nat_def)
  qed
  then show ?thesis by (simp only: number_of_def value_text_def cf_value.case option.map unit_value)
qed

lemma huge_product: "decimal_limit \<le> \<bar>ctx (100 * 10 powi 999999)\<bar>"
proof -
  have shift: "(10::rat) powi (a + 1) \<le> \<bar>100 * 10 powi a\<bar>" for a :: int by (simp add: power_int_add)
  have "(999999::int) + 1 = 1000000" by simp
  with shift [of 999999] have "(10::rat) powi 1000000 \<le> \<bar>100 * 10 powi 999999\<bar>" by (simp only:)
  then show ?thesis unfolding decimal_limit_def by (rule ctx_power)
qed

lemma huge_rate_raises: "validate_cash_row env overflow_row = Inl (Raised DecimalOverflow)"
proof -
  define v where "v = (10::rat) powi 999999"
  have v: "0 < v" unfolding v_def by (rule zero_less_power_int) simp
  have "raw_field k overflow_row = raw_field k (raw_row_of ''rec1'' (manual_fields demo_request))"
    if "k \<in> {''flow_date'', ''account'', ''broker'', ''amount'', ''currency'', ''remark''}" for k
    using that by (auto simp: overflow_row_def manual_fields_def)
  then have "manual_validate env overflow_row = Inr demo_manual"
    unfolding demo_manual_valid [symmetric, of env] by (intro manual_validate_cong) (simp_all add: overflow_row_def)
  moreover have "raw_field ''exchange_rate'' overflow_row = VStr ''1E+999999''" "raw_field ''cny_amount'' overflow_row = VInt 100"
    by (simp_all add: overflow_row_def manual_fields_def)
  then have "finite_decimal overflow_row ''exchange_rate'' False True = Inr v"
      "finite_decimal overflow_row ''cny_amount'' False False = Inr 100"
    using v finite_decimal_hit [of "''exchange_rate''" overflow_row "VStr ''1E+999999''" v False True]
      finite_decimal_hit [of "''cny_amount''" overflow_row "VInt 100" 100 False False]
    by (simp_all add: huge_rate [folded v_def]) (simp add: number_of_def)
  moreover have "decimal_limit \<le> \<bar>ctx (mf_amount demo_manual * v)\<bar>" unfolding v_def demo_parts by (rule huge_product)
  ultimately have "product_overflows overflow_row demo_manual"
    by (simp add: product_overflows_def quantized_cny_def cf_money_100)
  with \<open>manual_validate env overflow_row = Inr demo_manual\<close> show ?thesis
    by (simp add: validate_cash_row_def manual_checked_def completed_validate_def)
qed

section \<open>Properties\<close>


text \<open>
  C17. What is written reads back: the fields of completed facts, whose numbers go out as floats, are
  validated to the same facts under any record identity, as long as amounts are below ten trillion
  and the exchange rate has at most 15 significant digits.
\<close>

theorem fields_round_trip:
  assumes "validate_cash_row env row = Inr f"
    and "\<bar>mf_amount (cp_manual f)\<bar> < 10 ^ 13" "\<bar>cp_cny_amount f\<bar> < 10 ^ 13"
    and "decimal_digits 15 (cp_exchange_rate f)" "10 powi (-290) \<le> cp_exchange_rate f"
  shows "validate_cash_row env (raw_row_of i (to_fields f)) = Inr ((with_record_id i False f)\<lparr>cp_updated_at := VNull\<rparr>)"
proof -
  have "wf_completed env f" using assms(1) by (cases env row rule: validate_cash_row_cases) simp_all
  then show ?thesis using assms(2-) by (rule fields_read_back)
qed

theorem fields_round_trip_witness:
  "validate_cash_row demo_env (raw_row_of ''rec2'' (to_fields demo_completed)) =
     Inr ((with_record_id ''rec2'' False demo_completed)\<lparr>cp_updated_at := VNull\<rparr>)"
  using fields_round_trip [OF demo_row_valid, of "''rec2''"] one_digit by (simp add: demo_completed_def demo_parts)

text \<open>
  C18. Building completed facts for a flow in yuan needs neither a rate nor a yuan amount: valid
  operator fields and a nonblank source always give facts with rate 1, the amount itself in yuan, the
  flow type of its sign and the computed key.
\<close>

theorem yuan_build_complete:
  assumes "manual_validate env (raw_row_of (cq_record_id q) (manual_fields q)) = Inr m" and "mf_currency m = ''CNY''"
    and "cq_exchange_rate q = VNull" "cq_cny_amount q = VNull" "py_strip (cq_source q) \<noteq> []"
    and "py_strip (expected_dedup_key env m) = expected_dedup_key env m" "expected_dedup_key env m \<noteq> []"
  shows "build_completed env q = Inr \<lparr>cp_manual = m, cp_flow_type = expected_flow_type m, cp_cny_amount = mf_amount m,
    cp_exchange_rate = 1, cp_dedup_key = expected_dedup_key env m, cp_source = py_strip (cq_source q),
    cp_updated_at = cq_updated_at q, cp_replayed = False\<rparr>"
proof -
  define row where "row = raw_row_of (cq_record_id q) (manual_fields q @
      [(''flow_type'', VStr (expected_flow_type m)), (''cny_amount'', money_decimal (mf_amount m)), (''exchange_rate'', one_decimal),
       (''dedup_key'', VStr (expected_dedup_key env m)), (''source'', VStr (cq_source q)), (''updated_at'', cq_updated_at q)])"
  have a: "cf_money (mf_amount m) = Inr (mf_amount m)" using manual_validate_Inr(1) [OF assms(1)] by (simp add: wf_manual_def)
  have fields: "raw_field ''exchange_rate'' row = one_decimal" "raw_field ''cny_amount'' row = money_decimal (mf_amount m)"
      "raw_field ''dedup_key'' row = VStr (expected_dedup_key env m)" "raw_field ''source'' row = VStr (cq_source q)"
      "raw_field ''flow_type'' row = VStr (expected_flow_type m)" "raw_field ''updated_at'' row = cq_updated_at q"
    by (simp_all add: row_def manual_fields_def)
  have "raw_field k row = raw_field k (raw_row_of (cq_record_id q) (manual_fields q))"
    if "k \<in> {''flow_date'', ''account'', ''broker'', ''amount'', ''currency'', ''remark''}" for k
    using that by (auto simp: row_def manual_fields_def)
  then have "manual_validate env row = manual_validate env (raw_row_of (cq_record_id q) (manual_fields q))"
    by (intro manual_validate_cong) (simp_all add: row_def)
  moreover have "completed_validate env row m = Inr \<lparr>cp_manual = m, cp_flow_type = expected_flow_type m,
      cp_cny_amount = mf_amount m, cp_exchange_rate = 1, cp_dedup_key = expected_dedup_key env m,
      cp_source = py_strip (cq_source q), cp_updated_at = cq_updated_at q, cp_replayed = False\<rparr>"
  proof -
    have "finite_decimal row ''exchange_rate'' False True = Inr 1"
      by (intro finite_decimal_hit [OF fields(1) one_decimal_value]) (simp_all add: one_decimal_def)
    moreover have "finite_decimal row ''cny_amount'' False False = Inr (mf_amount m)"
      by (intro finite_decimal_hit [OF fields(2) money_decimal_value [OF a]]) (simp_all add: money_decimal_def)
    moreover have "required_text row ''dedup_key'' = Inr (expected_dedup_key env m)"
      using required_text_hit [OF fields(3)] assms(6,7) by simp
    ultimately show ?thesis
      using completed_hit [of row m 1 "mf_amount m" "mf_amount m" env] required_text_hit [OF fields(4) assms(5)] a
      by (simp add: fields money_ctx)
  qed
  ultimately show ?thesis
    using assms(1-4) by (simp add: build_completed_def validate_cash_row_def manual_checked_def Let_def row_def)
qed

theorem yuan_build_complete_witness: "build_completed demo_env demo_request = Inr demo_completed"
  using yuan_build_complete [of demo_env demo_request demo_manual]
  by (simp add: demo_manual_valid demo_key demo_strip demo_parts demo_completed_def)

end
