(* ===== verification/Cash_Flow_Dataset.thy ===== *)
theory Cash_Flow_Dataset
  imports Cash_Flow_Facts Fx_Confirmations
begin

text \<open>
  The cash-flow dataset of one NAV run: the rows of an account become completed facts or blockers
  (\<open>domain/cash_flow_contracts.py\<close>), exchange rates of foreign rows are matched with their
  confirmations (\<open>app/cash_flow_fx_confirmation.py\<close>), amounts are summed per day, month and year, and
  the whole is checked again before a NAV may be written. The builder and the queries are those of
  \<open>app/cash_flow_summary_service.py\<close>. The tables of sums have dates, months and years as keys, where the
  code has their texts; messages of blockers are not modelled, and numbers keep exponents beyond
  those of the decimal context. The effect service, whose gate the builder asks last, is an argument,
  as is the clock.
\<close>

section \<open>The audit of manual facts\<close>

record dup_group =
  dg_key :: string
  dg_ids :: "string list"
  dg_account :: string
  dg_broker :: string
  dg_flow_date :: py_date
  dg_amount :: rat
  dg_currency :: string
  dg_flow_type :: string

definition valid_manuals :: "cf_env \<Rightarrow> raw_row list \<Rightarrow> manual_facts list" where
  "valid_manuals env rows = concat (map (\<lambda>r. case manual_validate env r of Inl is \<Rightarrow> [] | Inr m \<Rightarrow> [m]) rows)"

definition audit_issues :: "cf_env \<Rightarrow> raw_row list \<Rightarrow> cf_issue list" where
  "audit_issues env rows = concat (map (\<lambda>r. case manual_validate env r of Inl is \<Rightarrow> is | Inr m \<Rightarrow> []) rows)"

text \<open>The rows that share a key, when more than one record identity does.\<close>

definition group_of :: "cf_env \<Rightarrow> manual_facts list \<Rightarrow> string \<Rightarrow> dup_group option" where
  "group_of env ms key =
     (let g = filter (\<lambda>m. expected_dedup_key env m = key) ms; ids = sort (remdups (map mf_record_id g))
      in if length ids < 2 then None
         else Some \<lparr>dg_key = key, dg_ids = ids, dg_account = mf_account (hd g), dg_broker = mf_broker (hd g),
           dg_flow_date = mf_flow_date (hd g), dg_amount = mf_amount (hd g), dg_currency = mf_currency (hd g),
           dg_flow_type = expected_flow_type (hd g)\<rparr>)"

definition duplicate_groups :: "cf_env \<Rightarrow> manual_facts list \<Rightarrow> dup_group list" where
  "duplicate_groups env ms =
     concat (map (\<lambda>k. case group_of env ms k of None \<Rightarrow> [] | Some g \<Rightarrow> [g]) (sort (remdups (map (expected_dedup_key env) ms))))"

text \<open>\<open>valid_by_record_id\<close>: a later row replaces an earlier one.\<close>

definition manual_of :: "manual_facts list \<Rightarrow> string \<Rightarrow> manual_facts option" where
  "manual_of ms i = find (\<lambda>m. mf_record_id m = i) (rev ms)"

section \<open>The JSON values of raw fields\<close>

text \<open>
  \<open>_canonical_decimal_text\<close>: the number rounded to the context, in plain notation without trailing
  zeros. The places are searched up to the 28 digits a context number has.
\<close>

definition decimal_places_of :: "rat \<Rightarrow> nat" where
  "decimal_places_of x = (case find (\<lambda>k. x * 10 ^ k = of_int \<lfloor>x * 10 ^ k\<rfloor>) [0..<nat (29 - log_floor 10 \<bar>x\<bar>)] of
     None \<Rightarrow> 0 | Some k \<Rightarrow> k)"

definition canonical_decimal_text :: "rat \<Rightarrow> string" where
  "canonical_decimal_text x =
     (let y = ctx x; k = decimal_places_of y
      in if y = 0 then ''0'' else format_f \<lparr>dec_neg = y < 0, dec_coeff = nat \<lfloor>\<bar>y\<bar> * 10 ^ k\<rfloor>, dec_exp = - int k\<rparr>)"

text \<open>
  \<open>_json_value\<close>: lists and dictionaries are encoded item by item, the dictionary by its sorted keys, a
  date with a time in ISO notation. \<open>json.dumps\<close> has its own names for the floats that are no numbers;
  a decimal that is none goes out as its text.
\<close>

definition nonfinite_text :: "string \<Rightarrow> string" where
  "nonfinite_text t = (if t = ''nan'' then ''NaN'' else if t = ''inf'' then ''Infinity'' else if t = ''-inf'' then ''-Infinity'' else t)"

fun json_value :: "cf_value \<Rightarrow> json" where
  "json_value VNull = JNull"
| "json_value (VBool b) = JBool b"
| "json_value (VInt i) = JInt i"
| "json_value (VFloat f) = JFloat (float_text f)"
| "json_value (VDecimal d t) = JStr (canonical_decimal_text (dec_value d))"
| "json_value (VNonFinite t) = JFloat (nonfinite_text t)"
| "json_value (VDecimalNonFinite t) = JStr t"
| "json_value (VStr t) = JStr t"
| "json_value (VDate d) = JStr (date_text d)"
| "json_value (VDateTime d t) = JStr (take 10 t @ ''T'' @ drop 11 t)"
| "json_value (VList vs t) = JArr (map json_value vs)"
| "json_value (VDict kvs t) = JObj (sort_key fst (map (\<lambda>kv. (fst kv, json_value (snd kv))) kvs))"
| "json_value (VOther t) = JStr t"

definition field_state :: "cf_value option \<Rightarrow> json" where
  "field_state v = (case v of
      None \<Rightarrow> JObj [(''state'', JStr ''missing'')]
    | Some VNull \<Rightarrow> JObj [(''state'', JStr ''null'')]
    | Some x \<Rightarrow> JObj [(''state'', JStr ''value''), (''value'', json_value x)])"

section \<open>Blockers\<close>

datatype fx_verdict = FxValid | FxMissing | FxStale string

datatype blocker_details =
    NoDetails
  | RawValue json
  | Occurrences nat
  | Duplicates dup_group
  | Accounts string string
  | FxEvidence fx_verdict json
  | GateError string
  | GateValue dict
  | Fingerprints string "string option"

record blocker =
  bk_reason :: string
  bk_record :: string
  bk_field :: "string option"
  bk_details :: blocker_details

definition blocker_from_issue :: "cf_issue \<Rightarrow> blocker" where
  "blocker_from_issue i = \<lparr>bk_reason = ci_reason i, bk_record = ci_record i, bk_field = Some (ci_field i),
     bk_details = RawValue (json_value (ci_raw i))\<rparr>"

text \<open>
  \<open>as_dict\<close> of a blocker, without its message: what the check before a write compares. The evaluation of
  a confirmation repeats the record and the confirmation it looked at.
\<close>

definition group_json :: "dup_group \<Rightarrow> json" where
  "group_json g = JObj [(''expected_dedup_key'', JStr (dg_key g)), (''record_ids'', JArr (map JStr (dg_ids g))),
     (''record_count'', JInt (int (length (dg_ids g)))), (''account'', JStr (dg_account g)), (''broker'', JStr (dg_broker g)),
     (''flow_date'', JStr (date_text (dg_flow_date g))), (''amount'', JStr (amount_text (dg_amount g))),
     (''currency'', JStr (dg_currency g)), (''flow_type'', JStr (dg_flow_type g))]"

definition fx_reason :: "fx_verdict \<Rightarrow> string" where
  "fx_reason v = (case v of FxValid \<Rightarrow> ''fx_confirmation_valid'' | FxMissing \<Rightarrow> ''fx_confirmation_missing''
     | FxStale k \<Rightarrow> ''fx_confirmation_stale'')"

definition evaluation_json :: "fx_verdict \<Rightarrow> string \<Rightarrow> json \<Rightarrow> json" where
  "evaluation_json v i identity =
     (let c = py_strip (text_or_empty (dict_get ''confirmation_id'' (as_dict identity)))
      in JObj ([(''valid'', JBool (v = FxValid)), (''reason_code'', JStr (fx_reason v))] @
        (case v of FxStale k \<Rightarrow> [(''mismatch_field'', JStr k)] | _ \<Rightarrow> []) @
        [(''record_id'', JStr (py_strip i)), (''confirmation_id'', if c = [] then JNull else JStr c)]))"

definition details_json :: "string \<Rightarrow> blocker_details \<Rightarrow> dict" where
  "details_json i d = (case d of
      NoDetails \<Rightarrow> []
    | RawValue j \<Rightarrow> [(''raw_value'', j)]
    | Occurrences n \<Rightarrow> [(''occurrences'', JInt (int n))]
    | Duplicates g \<Rightarrow> as_dict (group_json g)
    | Accounts expected actual \<Rightarrow> [(''expected'', JStr expected), (''actual'', JStr actual)]
    | FxEvidence v identity \<Rightarrow> [(''evaluation'', evaluation_json v i identity), (''confirmation'', identity)]
    | GateError t \<Rightarrow> [(''error'', JStr t)]
    | GateValue g \<Rightarrow> [(''gate'', JObj g)]
    | Fingerprints expected actual \<Rightarrow> [(''expected'', JStr expected), (''actual'', jopt actual)])"

definition blocker_text :: "blocker \<Rightarrow> string" where
  "blocker_text b = canonical_text (JObj ([(''reason_code'', JStr (bk_reason b)), (''record_id'', JStr (py_strip (bk_record b))),
     (''field'', jopt (bk_field b))] @
     (let d = details_json (bk_record b) (bk_details b) in if d = [] then [] else [(''details'', JObj d)])))"

definition simple_blocker :: "string \<Rightarrow> blocker_details \<Rightarrow> blocker" where
  "simple_blocker reason d = \<lparr>bk_reason = reason, bk_record = [], bk_field = None, bk_details = d\<rparr>"

section \<open>Derivation of the completed rows\<close>

record derivation =
  dv_completed :: "completed_facts list"
  dv_blockers :: "blocker list"
  dv_groups :: "dup_group list"

definition repeated_ids :: "raw_row list \<Rightarrow> string list" where
  "repeated_ids rows = sort (remdups (filter (\<lambda>i. i \<noteq> [] \<and> 1 < count_list (map rw_id rows) i) (map rw_id rows)))"

definition repeated_blocker :: "raw_row list \<Rightarrow> string \<Rightarrow> blocker" where
  "repeated_blocker rows i = \<lparr>bk_reason = ''RECORD_ID_DUPLICATE'', bk_record = i, bk_field = None,
     bk_details = Occurrences (count_list (map rw_id rows) i)\<rparr>"

text \<open>One turn of the loop over the rows: the blockers it adds, and the facts; or validation raises.\<close>

definition row_outcome ::
    "cf_env \<Rightarrow> string \<Rightarrow> string list \<Rightarrow> manual_facts list \<Rightarrow> string list \<Rightarrow> raw_row \<Rightarrow>
      py_exn + blocker list \<times> completed_facts list" where
  "row_outcome env account repeated ms dups row =
     (if rw_id row = [] then Inr ([simple_blocker ''RECORD_ID_MISSING'' NoDetails], [])
      else if rw_id row \<in> set repeated then Inr ([], [])
      else case manual_of ms (rw_id row) of
          None \<Rightarrow> Inr ([], [])
        | Some m \<Rightarrow>
            if rw_id row \<in> set dups then Inr ([], [])
            else if mf_account m \<noteq> account
            then Inr ([\<lparr>bk_reason = ''ACCOUNT_SCOPE_MISMATCH'', bk_record = rw_id row, bk_field = Some ''account'',
              bk_details = Accounts account (mf_account m)\<rparr>], [])
            else case completed_validate env row m of
                Inl (Raised e) \<Rightarrow> Inl e
              | Inl (Issues is) \<Rightarrow> Inr (map blocker_from_issue is, [])
              | Inr f \<Rightarrow> Inr ([], [f]))"

definition derive_rows :: "cf_env \<Rightarrow> raw_row list \<Rightarrow> string \<Rightarrow> py_exn + derivation" where
  "derive_rows env rows account =
     (if py_strip account = [] then Inl (ValueError ''cash-flow dataset account is required'')
      else let ms = valid_manuals env rows; groups = duplicate_groups env ms; repeated = repeated_ids rows
        in bind_result (map_result (row_outcome env (py_strip account) repeated ms (concat (map dg_ids groups))) rows) (\<lambda>outcomes.
           Inr \<lparr>dv_completed = concat (map snd outcomes),
             dv_blockers = map blocker_from_issue (audit_issues env rows) @ map (repeated_blocker rows) repeated @
               map (\<lambda>g. simple_blocker ''EXPECTED_DEDUP_KEY_DUPLICATE'' (Duplicates g)) groups @ concat (map fst outcomes),
             dv_groups = groups\<rparr>))"

section \<open>Sums\<close>

definition add_amount :: "'k \<Rightarrow> rat \<Rightarrow> ('k \<times> rat) list \<Rightarrow> ('k \<times> rat) list" where
  "add_amount k a d = AList.update k (ctx ((case map_of d k of None \<Rightarrow> 0 | Some x \<Rightarrow> x) + a)) d"

record totals =
  tt_daily :: "(py_date \<times> rat) list"
  tt_monthly :: "((nat \<times> nat) \<times> rat) list"
  tt_yearly :: "(nat \<times> rat) list"
  tt_cumulative :: rat

definition in_window :: "py_date \<Rightarrow> py_date \<Rightarrow> completed_facts \<Rightarrow> bool" where
  "in_window first last_day f \<longleftrightarrow>
     date_le first (mf_flow_date (cp_manual f)) \<and> date_le (mf_flow_date (cp_manual f)) last_day"

definition add_flow :: "completed_facts \<Rightarrow> totals \<Rightarrow> totals" where
  "add_flow f t = (let d = mf_flow_date (cp_manual f); a = cp_cny_amount f in
     \<lparr>tt_daily = add_amount d a (tt_daily t), tt_monthly = add_amount (dt_year d, dt_month d) a (tt_monthly t),
      tt_yearly = add_amount (dt_year d) a (tt_yearly t), tt_cumulative = ctx (tt_cumulative t + a)\<rparr>)"

definition no_totals :: totals where
  "no_totals = \<lparr>tt_daily = [], tt_monthly = [], tt_yearly = [], tt_cumulative = 0\<rparr>"

definition aggregate_flows :: "py_date \<Rightarrow> py_date \<Rightarrow> completed_facts list \<Rightarrow> totals" where
  "aggregate_flows first last_day fs =
     foldl (\<lambda>t f. if in_window first last_day f then add_flow f t else t) no_totals fs"


section \<open>Fingerprints\<close>

definition financial_fields :: "string list" where
  "financial_fields = [''flow_date'', ''account'', ''broker'', ''amount'', ''currency'', ''flow_type'', ''cny_amount'',
     ''dedup_key'', ''exchange_rate'', ''source'']"

definition canonical_fields :: "string list" where
  "canonical_fields = financial_fields @ [''remark'', ''updated_at'']"

definition row_payload :: "bool \<Rightarrow> raw_row \<Rightarrow> json" where
  "row_payload financial row =
     (let fs = rw_fields row;
          base = [(''record_id'', field_state (Some (VStr (rw_id row)))),
            (''fields'', JObj (map (\<lambda>k. (k, field_state (map_of fs k))) (if financial then financial_fields else canonical_fields)))];
          extra = sort (remdups (filter (\<lambda>k. k \<notin> set canonical_fields) (map fst fs)))
      in JObj (if financial then base
        else base @ [(''extra_fields'', JObj (map (\<lambda>k. (k, field_state (map_of fs k))) extra))]))"

definition dataset_version :: string where
  "dataset_version = ''pm.cash_flow.dataset.v1''"

definition dataset_fingerprint :: "cf_env \<Rightarrow> bool \<Rightarrow> raw_row list \<Rightarrow> string" where
  "dataset_fingerprint env financial rows =
     ce_sha env (canonical_text (JObj [(''contract_version'', JStr dataset_version),
       (''scope'', JStr (if financial then ''financial'' else ''full'')),
       (''rows'', JArr (map snd (sort_key fst (map (\<lambda>r. ((rw_id r, canonical_text (row_payload financial r)), row_payload financial r)) rows))))]))"

definition fx_evidence_fingerprint :: "cf_env \<Rightarrow> json list \<Rightarrow> string" where
  "fx_evidence_fingerprint env ids =
     ce_sha env (canonical_text (JObj [(''contract_version'', JStr dataset_version),
       (''fx_confirmations'', JArr (sort_key canonical_text ids))]))"

section \<open>Evidence of exchange rates\<close>

text \<open>\<open>cash_flow_generated_fingerprint\<close>; completed facts pass the validation it repeats.\<close>

definition generated_fingerprint :: "cf_env \<Rightarrow> completed_facts \<Rightarrow> string" where
  "generated_fingerprint env f =
     ce_sha env (canonical_text (JObj [(''contract_version'', JStr ''pm.cash_flow.generated.v1''),
       (''flow_type'', JStr (cp_flow_type f)), (''exchange_rate'', JStr (canonical_decimal_text (cp_exchange_rate f))),
       (''cny_amount'', JStr (format_f (decimal_of_money (cp_cny_amount f)))), (''dedup_key'', JStr (cp_dedup_key f)),
       (''source'', JStr (py_strip (cp_source f)))]))"

definition ambiguous_rate_sources :: "string list" where
  "ambiguous_rate_sources = [''-'', ''manual'', ''n/a'', ''na'', ''none'', ''null'', ''placeholder'', ''tbd'', ''todo'', ''unknown'']"

definition normalize_rate_source :: "string \<Rightarrow> py_exn + string" where
  "normalize_rate_source raw =
     (if py_strip raw = [] \<or> py_lower (py_strip raw) \<in> set ambiguous_rate_sources
      then Inl (ValueError ''exchange_rate_source must be traceable text'') else Inr (py_strip raw))"

definition allowed_evidence_types :: "string list" where
  "allowed_evidence_types = [''provider'', ''manual_supplement'']"

text \<open>The numbers of a confirmation agree with those of the row: finite, positive rates, equal values.\<close>

definition fx_numbers_match :: "completed_facts \<Rightarrow> fx_confirmation \<Rightarrow> bool" where
  "fx_numbers_match f c = (case (parse_decimal (fx_exchange_rate c), parse_decimal (fx_cny_amount c)) of
      (Some r, Some a) \<Rightarrow> dec_value r > 0 \<and> cp_exchange_rate f > 0 \<and> dec_value r = cp_exchange_rate f \<and>
        dec_value a = cp_cny_amount f
    | _ \<Rightarrow> False)"

definition evaluate_fx_confirmation :: "cf_env \<Rightarrow> completed_facts \<Rightarrow> fx_confirmation option \<Rightarrow> fx_verdict" where
  "evaluate_fx_confirmation env f confirmation = (case confirmation of
      None \<Rightarrow> FxMissing
    | Some c \<Rightarrow>
        (let record_id = py_strip (mf_record_id (cp_manual f)); print = generated_fingerprint env f;
             day = date_text (mf_flow_date (cp_manual f))
         in if record_id = [] \<or> py_strip (fx_record_id c) \<noteq> record_id then FxStale ''record_id''
            else if print = [] \<or> fx_source_hash c \<noteq> print then FxStale ''generated_fingerprint''
            else if day = [] \<or> fx_exchange_rate_date c \<noteq> day then FxStale ''exchange_rate_date''
            else if \<not> fx_numbers_match f c then FxStale ''exchange_rate_or_cny_amount''
            else case normalize_rate_source (fx_exchange_rate_source c) of
                Inl e \<Rightarrow> FxStale ''evidence_authority''
              | Inr s \<Rightarrow> if py_strip (fx_evidence_type c) \<notin> set allowed_evidence_types then FxStale ''evidence_authority''
                  else FxValid))"

definition fx_identity :: "fx_confirmation option \<Rightarrow> json" where
  "fx_identity confirmation = (case confirmation of
      None \<Rightarrow> JObj [(''state'', JStr ''no_confirmation'')]
    | Some c \<Rightarrow> JObj [(''state'', JStr ''confirmation''), (''confirmation_id'', JStr (fx_confirmation_id c)),
        (''record_id'', JStr (fx_record_id c)), (''generated_fingerprint'', JStr (fx_source_hash c)),
        (''exchange_rate'', JStr (fx_exchange_rate c)), (''cny_amount'', JStr (fx_cny_amount c)),
        (''exchange_rate_date'', JStr (fx_exchange_rate_date c)), (''exchange_rate_source'', JStr (fx_exchange_rate_source c)),
        (''exchange_rate_evidence_type'', JStr (fx_evidence_type c))])"

text \<open>The turn of a foreign row: its evidence, and a blocker when the evidence does not hold.\<close>

definition fx_outcome :: "cf_env \<Rightarrow> op_store \<Rightarrow> completed_facts \<Rightarrow> json \<times> blocker list" where
  "fx_outcome env store f =
     (let c = latest_fx_confirmation (mf_record_id (cp_manual f)) store; v = evaluate_fx_confirmation env f c
      in (fx_identity c,
          if v = FxValid then []
          else [\<lparr>bk_reason = fx_reason v, bk_record = mf_record_id (cp_manual f), bk_field = Some ''exchange_rate'',
            bk_details = FxEvidence v (fx_identity c)\<rparr>]))"

section \<open>The dataset\<close>

record dataset =
  ds_account :: string
  ds_nav_date :: py_date
  ds_run_id :: string
  ds_window_start :: py_date
  ds_window_end :: py_date
  ds_raw_rows :: "raw_row list"
  ds_completed :: "completed_facts list"
  ds_blockers :: "blocker list"
  ds_groups :: "dup_group list"
  ds_audit_only :: "string list"
  ds_totals :: totals
  ds_financial :: string
  ds_full :: string
  ds_fx_identities :: "json list"
  ds_fx_fingerprint :: string
  ds_revision :: "string option"
  ds_gate :: dict
  ds_version :: string

text \<open>\<open>__post_init__\<close>: what every dataset object has to satisfy.\<close>

definition checked_dataset :: "dataset \<Rightarrow> py_exn + dataset" where
  "checked_dataset d =
     (if py_strip (ds_account d) = [] then Inl (ValueError ''cash-flow dataset account is required'')
      else if py_strip (ds_run_id d) = [] then Inl (ValueError ''cash-flow dataset run_id is required'')
      else if ds_window_end d \<noteq> ds_nav_date d then Inl (ValueError ''cash-flow dataset window_end must equal nav_date'')
      else if date_less (ds_window_end d) (ds_window_start d) then Inl (ValueError ''cash-flow dataset window is invalid'')
      else Inr (d\<lparr>ds_account := py_strip (ds_account d), ds_run_id := py_strip (ds_run_id d),
        ds_audit_only := sort (map py_strip (ds_audit_only d)),
        ds_revision := (case ds_revision d of None \<Rightarrow> None | Some r \<Rightarrow> (if py_strip r = [] then None else Some (py_strip r)))\<rparr>))"

definition dataset_complete :: "dataset \<Rightarrow> bool" where
  "dataset_complete d \<longleftrightarrow> ds_blockers d = [] \<and> dict_get ''success'' (ds_gate d) = Some (JBool True) \<and> ds_revision d \<noteq> None"

text \<open>\<open>summary\<close>; the sums leave it as floats.\<close>

record cash_summary =
  cs_daily :: rat
  cs_monthly :: rat
  cs_yearly :: "(nat \<times> rat) list"
  cs_cumulative :: rat
  cs_gap :: rat

definition amount_at :: "'k \<Rightarrow> ('k \<times> rat) list \<Rightarrow> rat" where
  "amount_at k d = (case map_of d k of None \<Rightarrow> 0 | Some x \<Rightarrow> x)"

definition in_gap :: "py_date option \<Rightarrow> py_date \<Rightarrow> py_date \<Rightarrow> bool" where
  "in_gap previous day d = (case previous of None \<Rightarrow> d = day | Some p \<Rightarrow> date_less p d \<and> date_le d day)"

definition gap_amount :: "py_date option \<Rightarrow> py_date \<Rightarrow> (py_date \<times> rat) list \<Rightarrow> rat" where
  "gap_amount previous day table = foldl (\<lambda>g (d, a). if in_gap previous day d then ctx (g + a) else g) 0 table"

definition dataset_summary :: "py_date option \<Rightarrow> dataset \<Rightarrow> cash_summary" where
  "dataset_summary previous d = (let day = ds_nav_date d; t = ds_totals d in
     \<lparr>cs_daily = double (amount_at day (tt_daily t)),
      cs_monthly = double (amount_at (dt_year day, dt_month day) (tt_monthly t)),
      cs_yearly = map (\<lambda>y. (y, double (amount_at y (tt_yearly t)))) [dt_year (ds_window_start d)..<Suc (dt_year day)],
      cs_cumulative = double (tt_cumulative t), cs_gap = double (gap_amount previous day (tt_daily t))\<rparr>)"


section \<open>The builder\<close>

text \<open>
  \<open>build_dataset\<close>: the rows are what the storage returned for the account, the operation store is the
  one after the import of older confirmations, and the gate is the effect service's answer, \<open>Inl\<close> for
  its exception; \<open>None\<close> when no such service is in use.
\<close>

definition audit_only_ids :: "py_date \<Rightarrow> py_date \<Rightarrow> completed_facts list \<Rightarrow> string list" where
  "audit_only_ids first last_day fs =
     map (\<lambda>f. mf_record_id (cp_manual f)) (filter (\<lambda>f. \<not> in_window first last_day f) fs)"

definition foreign_rows :: "py_date \<Rightarrow> py_date \<Rightarrow> completed_facts list \<Rightarrow> completed_facts list" where
  "foreign_rows first last_day fs = filter (\<lambda>f. in_window first last_day f \<and> mf_currency (cp_manual f) \<noteq> ''CNY'') fs"

definition year_start :: "int \<Rightarrow> py_exn + py_date" where
  "year_start y =
     (if 1 \<le> y \<and> y \<le> 9999 then Inr \<lparr>dt_year = nat y, dt_month = 1, dt_day = 1\<rparr>
      else Inl (ValueError ''year is out of range''))"

definition assembled_dataset ::
    "cf_env \<Rightarrow> op_store \<Rightarrow> raw_row list \<Rightarrow> string \<Rightarrow> py_date \<Rightarrow> string \<Rightarrow> py_date \<Rightarrow> derivation \<Rightarrow> dataset" where
  "assembled_dataset env store rows account day run_id first dv =
     (let evidence = map (fx_outcome env store) (foreign_rows first day (dv_completed dv))
      in \<lparr>ds_account = account, ds_nav_date = day, ds_run_id = run_id,
           ds_window_start = first, ds_window_end = day, ds_raw_rows = rows, ds_completed = dv_completed dv,
           ds_blockers = dv_blockers dv @ concat (map snd evidence), ds_groups = dv_groups dv,
           ds_audit_only = audit_only_ids first day (dv_completed dv),
           ds_totals = aggregate_flows first day (dv_completed dv),
           ds_financial = dataset_fingerprint env True rows, ds_full = dataset_fingerprint env False rows,
           ds_fx_identities = map fst evidence, ds_fx_fingerprint = fx_evidence_fingerprint env (map fst evidence),
           ds_revision = None,
           ds_gate = [(''success'', JBool False), (''status'', JStr ''not_evaluated''), (''effect_store_revision'', JNull)],
           ds_version = dataset_version\<rparr>)"

definition preliminary_dataset ::
    "cf_env \<Rightarrow> op_store \<Rightarrow> raw_row list \<Rightarrow> string \<Rightarrow> py_date \<Rightarrow> string \<Rightarrow> int \<Rightarrow> py_exn + dataset" where
  "preliminary_dataset env store rows account day run_id start_year =
     (if py_strip account = [] then Inl (ValueError ''cash-flow dataset account is required'')
      else if py_strip run_id = [] then Inl (ValueError ''cash-flow dataset run_id is required'')
      else bind_result (year_start start_year) (\<lambda>first.
        if date_less day first then Inl (ValueError ''cash-flow dataset start_year is after nav_date'')
        else bind_result (derive_rows env rows (py_strip account)) (\<lambda>dv.
          checked_dataset (assembled_dataset env store rows (py_strip account) day (py_strip run_id) first dv))))"

definition gate_revision :: "dict \<Rightarrow> string" where
  "gate_revision g = py_strip
     (if \<not> falsy (dict_get ''effect_store_revision'' g) then text_or_empty (dict_get ''effect_store_revision'' g)
      else text_or_empty (dict_get ''scan_run_id'' g))"

definition gate_blockers :: "dataset \<Rightarrow> string \<Rightarrow> dict \<Rightarrow> blocker list" where
  "gate_blockers d revision g =
     (let print = py_strip (text_or_empty (dict_get ''cash_flow_financial_fingerprint'' g)) in
      (if revision = [] then [simple_blocker ''EFFECT_REVISION_MISSING'' (GateValue g)] else []) @
      (if print \<noteq> ds_financial d
       then [simple_blocker ''EFFECT_SOURCE_FINGERPRINT_MISMATCH'' (Fingerprints (ds_financial d) (if print = [] then None else Some print))]
       else []) @
      (if dict_get ''success'' g \<noteq> Some (JBool True) then [simple_blocker ''EFFECT_GATE_BLOCKED'' (GateValue g)] else []))"

definition gated_dataset :: "(dataset \<Rightarrow> string + dict) option \<Rightarrow> dataset \<Rightarrow> py_exn + dataset" where
  "gated_dataset service d =
     (if ds_blockers d \<noteq> [] then Inr d
      else case service of
          None \<Rightarrow> checked_dataset (d\<lparr>ds_revision := Some ''not_activated'',
            ds_gate := [(''success'', JBool True), (''status'', JStr ''not_activated''),
              (''effect_store_revision'', JStr ''not_activated''), (''account'', JStr (ds_account d)),
              (''nav_date'', JStr (date_text (ds_nav_date d))), (''cash_flow_financial_fingerprint'', JStr (ds_financial d))]\<rparr>)
        | Some ask \<Rightarrow> (case ask d of
            Inl text \<Rightarrow> checked_dataset (d\<lparr>ds_blockers := ds_blockers d @ [simple_blocker ''EFFECT_GATE_FAILED'' (GateError text)],
              ds_gate := [(''success'', JBool False), (''status'', JStr ''failed''), (''error'', JStr text), (''effect_store_revision'', JNull)]\<rparr>)
          | Inr answer \<Rightarrow>
              (let r = gate_revision answer; g = dict_set ''effect_store_revision'' (if r = [] then JNull else JStr r) answer
               in checked_dataset (d\<lparr>ds_blockers := ds_blockers d @ gate_blockers d r g,
                 ds_revision := (if r = [] then None else Some r), ds_gate := g\<rparr>))))"

definition build_dataset ::
    "cf_env \<Rightarrow> op_store \<Rightarrow> (dataset \<Rightarrow> string + dict) option \<Rightarrow> raw_row list \<Rightarrow> string \<Rightarrow> py_date \<Rightarrow> string \<Rightarrow> int \<Rightarrow>
      py_exn + dataset" where
  "build_dataset env store service rows account day run_id start_year =
     bind_result (preliminary_dataset env store rows account day run_id start_year) (gated_dataset service)"

section \<open>The check before a write\<close>

datatype refusal =
    ScopeMismatch "string list"
  | DatasetBlocked "blocker list"
  | GateIncomplete "string option"
  | CheckRaised py_exn

definition mismatch :: "string \<Rightarrow> bool \<Rightarrow> string list" where
  "mismatch name ok = (if ok then [] else [name])"

text \<open>The claims of the dataset about itself, compared with what its raw rows give again.\<close>

definition scope_mismatches :: "cf_env \<Rightarrow> string \<Rightarrow> py_date \<Rightarrow> string \<Rightarrow> py_date \<Rightarrow> dataset \<Rightarrow> string list" where
  "scope_mismatches env account day run_id first d =
     mismatch ''contract_version'' (ds_version d = dataset_version) @ mismatch ''account'' (ds_account d = py_strip account) @
     mismatch ''nav_date'' (ds_nav_date d = day \<and> ds_window_end d = day) @ mismatch ''run_id'' (ds_run_id d = py_strip run_id) @
     mismatch ''window'' (ds_window_start d = first) @
     mismatch ''financial_fingerprint'' (dataset_fingerprint env True (ds_raw_rows d) = ds_financial d) @
     mismatch ''full_fingerprint'' (dataset_fingerprint env False (ds_raw_rows d) = ds_full d)"

definition source_mismatches :: "cf_env \<Rightarrow> derivation \<Rightarrow> dataset \<Rightarrow> string list" where
  "source_mismatches env dv d =
     mismatch ''completed_rows'' (ds_completed d = dv_completed dv) @ mismatch ''duplicate_groups'' (ds_groups d = dv_groups dv) @
     mismatch ''source_blockers'' (set (map blocker_text (dv_blockers dv)) \<subseteq> set (map blocker_text (ds_blockers d))) @
     mismatch ''audit_only_record_ids''
       (ds_audit_only d = sort (audit_only_ids (ds_window_start d) (ds_window_end d) (dv_completed dv))) @
     mismatch ''fx_confirmation_fingerprint'' (fx_evidence_fingerprint env (ds_fx_identities d) = ds_fx_fingerprint d)"

text \<open>Two dictionaries are equal when they have the same keys with the same values, in any order.\<close>

definition same_dict :: "('k \<times> 'v) list \<Rightarrow> ('k \<times> 'v) list \<Rightarrow> bool" where
  "same_dict d e \<longleftrightarrow> list_all (\<lambda>k. map_of d k = map_of e k) (map fst d @ map fst e)"

definition sum_mismatches :: "dataset \<Rightarrow> string list" where
  "sum_mismatches d = (let t = aggregate_flows (ds_window_start d) (ds_window_end d) (ds_completed d) in
     mismatch ''daily'' (same_dict (tt_daily (ds_totals d)) (tt_daily t)) @
     mismatch ''monthly'' (same_dict (tt_monthly (ds_totals d)) (tt_monthly t)) @
     mismatch ''yearly'' (same_dict (tt_yearly (ds_totals d)) (tt_yearly t)) @
     mismatch ''cumulative'' (tt_cumulative (ds_totals d) = tt_cumulative t))"

definition gate_mismatches :: "dataset \<Rightarrow> string list" where
  "gate_mismatches d =
     mismatch ''effect_store_revision''
       (gate_revision (ds_gate d) = (case ds_revision d of None \<Rightarrow> [] | Some r \<Rightarrow> r)) @
     (if dict_get ''success'' (ds_gate d) = Some (JBool True) then
        mismatch ''effect_gate_account'' (dict_get ''account'' (ds_gate d) = Some (JStr (ds_account d))) @
        mismatch ''effect_gate_nav_date'' (dict_get ''nav_date'' (ds_gate d) = Some (JStr (date_text (ds_nav_date d)))) @
        mismatch ''effect_gate_financial_fingerprint''
          (dict_get ''cash_flow_financial_fingerprint'' (ds_gate d) = Some (JStr (ds_financial d)))
      else [])"

definition assert_official_scope :: "cf_env \<Rightarrow> string \<Rightarrow> py_date \<Rightarrow> string \<Rightarrow> int \<Rightarrow> dataset \<Rightarrow> refusal + unit" where
  "assert_official_scope env account day run_id start_year d =
     (case year_start start_year of
        Inl e \<Rightarrow> Inl (CheckRaised e)
      | Inr first \<Rightarrow> (case derive_rows env (ds_raw_rows d) (ds_account d) of
          Inl e \<Rightarrow> Inl (CheckRaised e)
        | Inr dv \<Rightarrow>
            (let ms = scope_mismatches env account day run_id first d @ source_mismatches env dv d @ sum_mismatches d @ gate_mismatches d
             in if ms \<noteq> [] then Inl (ScopeMismatch (sort (remdups ms)))
                else if ds_blockers d \<noteq> [] then Inl (DatasetBlocked (ds_blockers d))
                else if \<not> dataset_complete d then Inl (GateIncomplete (ds_revision d))
                else Inr ())))"

section \<open>Queries\<close>

definition assert_queryable :: "dataset \<Rightarrow> py_exn + unit" where
  "assert_queryable d =
     (if ds_blockers d \<noteq> [] then Inl (ValueError ''cash-flow summary dataset is blocked'') else Inr ())"

definition nonofficial_dataset ::
    "cf_env \<Rightarrow> op_store \<Rightarrow> string \<Rightarrow> raw_row list \<Rightarrow> string \<Rightarrow> py_date \<Rightarrow> int \<Rightarrow> py_exn + dataset" where
  "nonofficial_dataset env store purpose rows account day start_year =
     build_dataset env store None rows account day
       (''nonofficial:'' @ purpose @ '':'' @ account @ '':'' @ date_text day) start_year"

definition summarize_flows :: "cf_env \<Rightarrow> op_store \<Rightarrow> raw_row list \<Rightarrow> string \<Rightarrow> py_date \<Rightarrow> int \<Rightarrow> py_date option \<Rightarrow> py_exn + cash_summary" where
  "summarize_flows env store rows account day start_year previous =
     bind_result (nonofficial_dataset env store ''summary'' rows account day start_year) (\<lambda>d.
     bind_result (assert_queryable d) (\<lambda>_. Inr (dataset_summary previous d)))"

definition period_flows :: "cf_env \<Rightarrow> op_store \<Rightarrow> raw_row list \<Rightarrow> string \<Rightarrow> py_date \<Rightarrow> py_date \<Rightarrow> py_exn + rat" where
  "period_flows env store rows account first last_day =
     bind_result (nonofficial_dataset env store ''period'' rows account last_day (int (dt_year first))) (\<lambda>d.
     bind_result (assert_queryable d) (\<lambda>_.
       Inr (double (foldl (\<lambda>g (k, a). if date_le first k \<and> date_le k last_day then ctx (g + a) else g) 0 (tt_daily (ds_totals d))))))"


definition daily_flow :: "cf_env \<Rightarrow> op_store \<Rightarrow> raw_row list \<Rightarrow> string \<Rightarrow> py_date \<Rightarrow> py_exn + rat" where
  "daily_flow env store rows account day =
     bind_result (nonofficial_dataset env store ''daily'' rows account day (int (dt_year day))) (\<lambda>d.
     bind_result (assert_queryable d) (\<lambda>_. Inr (double (amount_at day (tt_daily (ds_totals d))))))"

definition yearly_flow :: "cf_env \<Rightarrow> op_store \<Rightarrow> raw_row list \<Rightarrow> string \<Rightarrow> nat \<Rightarrow> py_exn + rat" where
  "yearly_flow env store rows account y =
     (if y < 1 \<or> 9999 < y then Inl (ValueError ''year is out of range'')
      else bind_result (nonofficial_dataset env store ''yearly'' rows account \<lparr>dt_year = y, dt_month = 12, dt_day = 31\<rparr> (int y)) (\<lambda>d.
        bind_result (assert_queryable d) (\<lambda>_. Inr (double (amount_at y (tt_yearly (ds_totals d)))))))"

text \<open>The end of a month is the day before the first day of the next one.\<close>

definition month_end :: "nat \<Rightarrow> nat \<Rightarrow> py_date option" where
  "month_end y m = (let next_year = y + m div 12 in
     if next_year < 1 \<or> 9999 < next_year then None
     else fromordinal (toordinal \<lparr>dt_year = next_year, dt_month = m mod 12 + 1, dt_day = 1\<rparr> - 1))"

definition monthly_flow :: "cf_env \<Rightarrow> op_store \<Rightarrow> raw_row list \<Rightarrow> string \<Rightarrow> nat \<Rightarrow> nat \<Rightarrow> py_exn + rat" where
  "monthly_flow env store rows account y m = (case month_end y m of
      None \<Rightarrow> Inl (ValueError ''year is out of range'')
    | Some day \<Rightarrow>
        bind_result (nonofficial_dataset env store ''monthly'' rows account day (int y)) (\<lambda>d.
        bind_result (assert_queryable d) (\<lambda>_. Inr (double (amount_at (y, m) (tt_monthly (ds_totals d)))))))"

end
