(* ===== verification/Cash_Flow_Properties.thy ===== *)
theory Cash_Flow_Properties
  imports Cash_Flow_Dataset
begin

text \<open>
  What Cash_Flow_Dataset guarantees: when a derivation is clear, that sums and gaps between NAV records
  are exact, what the check before a write establishes and that it accepts what the builder builds,
  and the evidence behind foreign flows. \<open>flow_sum\<close> is the exact sum over the flows that satisfy a
  condition, the specification the tables are compared with.
\<close>

section \<open>Lemmas: a derivation without blockers\<close>

definition manual_row :: "cf_env \<Rightarrow> raw_row \<Rightarrow> manual_facts" where
  "manual_row env r = (case manual_validate env r of Inl is \<Rightarrow> undefined | Inr m \<Rightarrow> m)"

lemma no_issues:
  assumes "audit_issues env rows = []" and "r \<in> set rows"
  shows "manual_validate env r = Inr (manual_row env r)"
proof (cases "manual_validate env r")
  case (Inl "is")
  then have "is = []" using assms by (force simp: audit_issues_def)
  then have "manual_issues env r = []" using manual_validate_Inl [OF Inl] by simp
  then show ?thesis using Inl manual_issues_Nil [of env r] by simp
qed (simp add: manual_row_def)

lemma no_issues_manuals:
  assumes "audit_issues env rows = []"
  shows "valid_manuals env rows = map (manual_row env) rows"
proof -
  have "map (\<lambda>r. case manual_validate env r of Inl is \<Rightarrow> [] | Inr m \<Rightarrow> [m]) rows = map (\<lambda>r. [manual_row env r]) rows"
    using no_issues [OF assms] by (intro map_cong) simp_all
  then show ?thesis unfolding valid_manuals_def by (simp only: concat_map_singleton)
qed

lemma manual_row_id: "audit_issues env rows = [] \<Longrightarrow> r \<in> set rows \<Longrightarrow> mf_record_id (manual_row env r) = rw_id r"
  using no_issues manual_validate_Inr(2) by blast

lemma no_repeats:
  assumes "repeated_ids rows = []" and "\<And>r. r \<in> set rows \<Longrightarrow> rw_id r \<noteq> []"
  shows "distinct (map rw_id rows)"
proof -
  have "count_list (map rw_id rows) i \<le> 1" for i
  proof (cases "i \<in> set (map rw_id rows)")
    case True
    then have "i \<noteq> []" using assms(2) by auto
    have "i \<notin> set (repeated_ids rows)" by (simp add: assms(1))
    then show ?thesis using True \<open>i \<noteq> []\<close> by (simp add: repeated_ids_def)
  next
    case False
    then have "count_list (map rw_id rows) i = 0" by (metis count_list_0_iff)
    then show ?thesis by simp
  qed
  then show ?thesis
  proof (induction rows)
    case (Cons r rows)
    have "rw_id r \<notin> set (map rw_id rows)"
      using Cons.prems [of "rw_id r"] count_list_0_iff [of "map rw_id rows" "rw_id r"] by simp
    moreover have "count_list (map rw_id rows) i \<le> 1" for i
      using Cons.prems [of i] by (simp split: if_splits)
    ultimately show ?case using Cons.IH by simp
  qed simp
qed

lemma find_Some: "find p xs = Some x \<Longrightarrow> x \<in> set xs \<and> p x"
  by (rule find_hit)

lemma manual_of_row:
  assumes "audit_issues env rows = []" "distinct (map rw_id rows)" "r \<in> set rows"
  shows "manual_of (valid_manuals env rows) (rw_id r) = Some (manual_row env r)"
proof -
  let ?ms = "valid_manuals env rows"
  have ms: "?ms = map (manual_row env) rows" by (rule no_issues_manuals [OF assms(1)])
  have ex: "\<exists>m \<in> set (rev ?ms). mf_record_id m = rw_id r" using assms(1,3) by (auto simp: ms manual_row_id)
  then obtain m where m: "manual_of ?ms (rw_id r) = Some m"
    unfolding manual_of_def by (cases "find (\<lambda>m. mf_record_id m = rw_id r) (rev ?ms)") (auto simp: find_None_iff)
  then have "m \<in> set ?ms" "mf_record_id m = rw_id r" using find_hit by (fastforce simp: manual_of_def)+
  then obtain r' where r': "r' \<in> set rows" "m = manual_row env r'" "rw_id r' = rw_id r"
    using assms(1) by (auto simp: ms manual_row_id)
  then have "r' = r" using assms(2,3) by (metis distinct_map inj_onD)
  with m r' show ?thesis by simp
qed

lemma no_groups_distinct:
  assumes "duplicate_groups env ms = []" and "distinct (map mf_record_id ms)"
  shows "distinct (map (expected_dedup_key env) ms)"
proof -
  have none: "group_of env ms (expected_dedup_key env m) = None" if "m \<in> set ms" for m
    using assms(1) that by (force simp: duplicate_groups_def split: option.splits)
  have "inj_on (expected_dedup_key env) (set ms)"
  proof (rule inj_onI)
    fix m m' assume m: "m \<in> set ms" "m' \<in> set ms" "expected_dedup_key env m = expected_dedup_key env m'"
    define ids where "ids = sort (remdups (map mf_record_id (filter (\<lambda>x. expected_dedup_key env x = expected_dedup_key env m) ms)))"
    have "length ids < 2" using none [OF m(1)] by (auto simp: group_of_def Let_def ids_def split: if_splits)
    moreover have "{mf_record_id m, mf_record_id m'} \<subseteq> set ids" using m by (auto simp: ids_def)
    then have "card {mf_record_id m, mf_record_id m'} \<le> card (set ids)" by (intro card_mono) simp_all
    then have "card {mf_record_id m, mf_record_id m'} \<le> length ids" using card_length [of ids] by simp
    ultimately have "mf_record_id m = mf_record_id m'" by (cases "mf_record_id m = mf_record_id m'") simp_all
    then show "m = m'" using assms(2) m(1,2) by (metis distinct_map inj_onD)
  qed
  then show ?thesis using assms(2) by (simp add: distinct_map)
qed

lemma row_outcome_clear:
  assumes "row_outcome env account repeated ms dups r = Inr y" "fst y = []" "repeated = []" "dups = []"
    "manual_of ms (rw_id r) = Some m" "manual_validate env r = Inr m"
  obtains f where "y = ([], [f])" "validate_cash_row env r = Inr f" "mf_account m = account" "cp_manual f = m"
proof (cases "completed_validate env r m")
  case (Inl e)
  then show ?thesis
    using assms completed_validate_Inl [OF Inl] by (auto simp: row_outcome_def split: if_splits)
next
  case (Inr f)
  moreover have "cp_manual f = m" using completed_validate_Inr(2) [OF Inr manual_validate_Inr(1) [OF assms(6)]] .
  ultimately show ?thesis
    using that [of f] assms by (auto simp: row_outcome_def validate_cash_row_def manual_checked_def split: if_splits)
qed

lemma derive_clear:
  assumes "derive_rows env rows account = Inr dv" and "dv_blockers dv = []"
  shows "list_all2 (\<lambda>r f. validate_cash_row env r = Inr f \<and> mf_account (cp_manual f) = py_strip account) rows (dv_completed dv)"
    and "dv_groups dv = []" and "distinct (map rw_id rows)" and "[] \<notin> set (map rw_id rows)"
    and "distinct (map (expected_dedup_key env) (map cp_manual (dv_completed dv)))"
    and "map cp_manual (dv_completed dv) = map (manual_row env) rows"
proof -
  define ms where "ms = valid_manuals env rows"
  define groups where "groups = duplicate_groups env ms"
  define out where "out = row_outcome env (py_strip account) (repeated_ids rows) ms (concat (map dg_ids groups))"
  obtain outs where outs: "map_result out rows = Inr outs"
    and dv: "dv_completed dv = concat (map snd outs)" "dv_groups dv = groups"
    and bl: "audit_issues env rows = []" "repeated_ids rows = []" "groups = []" "\<forall>y \<in> set outs. fst y = []"
    using assms by (auto simp: derive_rows_def Let_def ms_def groups_def out_def bind_result_Inr split: if_splits)
  show "dv_groups dv = []" by (simp add: dv bl)
  have each: "\<exists>y. out r = Inr y \<and> fst y = []" if "r \<in> set rows" for r
    using map_result_each [OF outs that] bl(4) by blast
  have id: "rw_id r \<noteq> []" if "r \<in> set rows" for r
    using each [OF that] by (auto simp: out_def row_outcome_def simple_blocker_def)
  then show "[] \<notin> set (map rw_id rows)" by (metis (no_types, lifting) imageE list.set_map)
  show dist: "distinct (map rw_id rows)" by (rule no_repeats [OF bl(2) id])
  have "\<exists>f. out r = Inr ([], [f]) \<and> validate_cash_row env r = Inr f \<and> mf_account (cp_manual f) = py_strip account \<and>
      cp_manual f = manual_row env r" if "r \<in> set rows" for r
  proof -
    obtain y where y: "out r = Inr y" "fst y = []" using each [OF \<open>r \<in> set rows\<close>] by blast
    have "manual_of ms (rw_id r) = Some (manual_row env r)" unfolding ms_def by (rule manual_of_row [OF bl(1) dist that])
    from y(1) [unfolded out_def] y(2) bl(2) _ this no_issues [OF bl(1) that]
    obtain f where "y = ([], [f])" "validate_cash_row env r = Inr f" "mf_account (manual_row env r) = py_strip account"
        "cp_manual f = manual_row env r"
      by (rule row_outcome_clear) (simp add: bl(3))
    then show ?thesis using y(1) by simp
  qed
  then obtain F where F: "\<And>r. r \<in> set rows \<Longrightarrow> out r = Inr ([], [F r]) \<and> validate_cash_row env r = Inr (F r) \<and>
      mf_account (cp_manual (F r)) = py_strip account \<and> cp_manual (F r) = manual_row env r" by metis
  have "map_result out rows = Inr (map (\<lambda>r. ([], [F r])) rows)" using F by (intro map_result_map) simp
  with outs have "outs = map (\<lambda>r. ([], [F r])) rows" by simp
  then have "map snd outs = map (\<lambda>r. [F r]) rows" by (simp add: comp_def)
  then have c: "dv_completed dv = map F rows" by (simp only: dv concat_map_singleton)
  show "list_all2 (\<lambda>r f. validate_cash_row env r = Inr f \<and> mf_account (cp_manual f) = py_strip account) rows (dv_completed dv)"
    unfolding c list.rel_map list_all2_same using F by blast
  show m: "map cp_manual (dv_completed dv) = map (manual_row env) rows" using F by (simp add: c)
  have "map mf_record_id ms = map rw_id rows"
    using manual_row_id [OF bl(1)] by (simp add: ms_def no_issues_manuals [OF bl(1)])
  then have "distinct (map (expected_dedup_key env) ms)" using bl(3) dist by (intro no_groups_distinct) (simp_all add: groups_def)
  then show "distinct (map (expected_dedup_key env) (map cp_manual (dv_completed dv)))"
    unfolding m by (simp add: ms_def no_issues_manuals [OF bl(1)])
qed


section \<open>Lemmas: exact sums\<close>

text \<open>Amounts in cents add up exactly as long as the sums stay below \<open>10^26\<close>.\<close>

definition in_cents :: "rat \<Rightarrow> bool" where
  "in_cents x \<longleftrightarrow> (\<exists>n. x = of_int n / 100)"

lemma in_cents_0 [simp]: "in_cents 0"
  unfolding in_cents_def by (intro exI [of _ 0]) simp

lemma in_cents_add [simp]: "in_cents x \<Longrightarrow> in_cents y \<Longrightarrow> in_cents (x + y)"
  unfolding in_cents_def by (metis add_divide_distrib of_int_add)

lemma ctx_cents:
  assumes "in_cents x" and "\<bar>x\<bar> < 10 ^ 26"
  shows "ctx x = x"
proof -
  obtain n where x: "x = of_int n / 100" using assms(1) by (auto simp: in_cents_def)
  then have "of_int \<bar>n\<bar> < (of_int (10 ^ 28) :: rat)" using assms(2) by simp
  then have "\<bar>n\<bar> < 10 ^ 28" by (simp only: of_int_less_iff)
  then have "ctx (of_int n / 10 ^ 2) = of_int n / 10 ^ 2" by (rule ctx_places)
  moreover have "x = of_int n / 10 ^ 2" by (simp add: x)
  ultimately show ?thesis by (simp only:)
qed

lemma wf_completed_cents: "wf_completed env f \<Longrightarrow> in_cents (cp_cny_amount f)"
proof -
  assume "wf_completed env f"
  then have "quantize 2 (ctx (mf_amount (cp_manual f) * cp_exchange_rate f)) = Inr (cp_cny_amount f)"
    by (simp add: wf_completed_def cf_money_def)
  then obtain n where "cp_cny_amount f = of_int n / 10 ^ 2" by (rule quantize_Inr)
  then show ?thesis by (auto simp: in_cents_def)
qed

text \<open>The exact sum of the flows that satisfy a condition, and the exact sum of a table.\<close>

definition flow_sum :: "(completed_facts \<Rightarrow> bool) \<Rightarrow> completed_facts list \<Rightarrow> rat" where
  "flow_sum p fs = sum_list (map cp_cny_amount (filter p fs))"

definition turnover :: "completed_facts list \<Rightarrow> rat" where
  "turnover fs = sum_list (map (\<lambda>f. \<bar>cp_cny_amount f\<bar>) fs)"

definition table_sum :: "('k \<Rightarrow> bool) \<Rightarrow> ('k \<times> rat) list \<Rightarrow> rat" where
  "table_sum p d = sum_list (map snd (filter (p \<circ> fst) d))"

lemma flow_sum_simps [simp]: "flow_sum p [] = 0" "flow_sum p (fs @ [f]) = flow_sum p fs + (if p f then cp_cny_amount f else 0)"
  by (simp_all add: flow_sum_def)

lemma turnover_simps [simp]: "turnover [] = 0" "turnover (fs @ [f]) = turnover fs + \<bar>cp_cny_amount f\<bar>"
  by (simp_all add: turnover_def)

lemma flow_sum_bound: "\<bar>flow_sum p fs\<bar> \<le> turnover fs"
proof (induction fs rule: rev_induct)
  case (snoc f fs)
  have "\<bar>flow_sum p fs + cp_cny_amount f\<bar> \<le> \<bar>flow_sum p fs\<bar> + \<bar>cp_cny_amount f\<bar>" by (rule abs_triangle_ineq)
  with snoc abs_ge_zero [of "cp_cny_amount f"] show ?case by (simp del: abs_ge_zero)
qed simp

lemma flow_sum_cents: "list_all (in_cents \<circ> cp_cny_amount) fs \<Longrightarrow> in_cents (flow_sum p fs)"
  by (induction fs rule: rev_induct) simp_all

lemma flow_sum_split: "(\<And>f. f \<in> set fs \<Longrightarrow> \<not> (p f \<and> q f)) \<Longrightarrow> flow_sum p fs + flow_sum q fs = flow_sum (\<lambda>f. p f \<or> q f) fs"
  by (induction fs rule: rev_induct) (auto simp: algebra_simps)

lemma flow_sum_cong: "(\<And>f. f \<in> set fs \<Longrightarrow> p f = q f) \<Longrightarrow> flow_sum p fs = flow_sum q fs"
  unfolding flow_sum_def by (metis filter_cong)

lemma table_sum_update:
  "distinct (map fst d) \<Longrightarrow> table_sum p (AList.update k v d) = table_sum p d + (if p k then v - amount_at k d else 0)"
proof (induction d)
  case (Cons e d)
  show ?case
  proof (cases "fst e = k")
    case True
    then have "AList.update k v (e # d) = (k, v) # d" by (cases e) simp
    then show ?thesis using True by (cases e) (simp add: table_sum_def amount_at_def)
  next
    case False
    then have "AList.update k v (e # d) = e # AList.update k v d" "amount_at k (e # d) = amount_at k d"
      by (cases e, simp add: amount_at_def)+
    then show ?thesis using Cons by (simp add: table_sum_def)
  qed
qed (simp add: table_sum_def amount_at_def)

lemma amount_at_add: "amount_at k (add_amount k' a d) = (if k = k' then ctx (amount_at k d + a) else amount_at k d)"
  by (simp add: amount_at_def add_amount_def update_conv)

text \<open>The totals after a list of flows are the exact sums, key by key, and so is any part of the days.\<close>

abbreviation flow_date :: "completed_facts \<Rightarrow> py_date" where
  "flow_date f \<equiv> mf_flow_date (cp_manual f)"

definition keyed_sums :: "(completed_facts \<Rightarrow> bool) \<Rightarrow> (completed_facts \<Rightarrow> 'k) \<Rightarrow> completed_facts list \<Rightarrow> ('k \<times> rat) list" where
  "keyed_sums w key fs = foldl (\<lambda>t f. if w f then add_amount (key f) (cp_cny_amount f) t else t) [] fs"

lemma keyed_sums_simps [simp]: "keyed_sums w key [] = []"
  "keyed_sums w key (fs @ [f]) = (if w f then add_amount (key f) (cp_cny_amount f) (keyed_sums w key fs) else keyed_sums w key fs)"
  by (simp_all add: keyed_sums_def)

lemma aggregate_keyed:
  "tt_daily (aggregate_flows first last_day fs) = keyed_sums (in_window first last_day) flow_date fs"
  "tt_monthly (aggregate_flows first last_day fs) =
    keyed_sums (in_window first last_day) (\<lambda>f. (dt_year (flow_date f), dt_month (flow_date f))) fs"
  "tt_yearly (aggregate_flows first last_day fs) = keyed_sums (in_window first last_day) (\<lambda>f. dt_year (flow_date f)) fs"
  by (induction fs rule: rev_induct) (simp_all add: aggregate_flows_def no_totals_def add_flow_def Let_def)

lemma sum_step:
  assumes "list_all (in_cents \<circ> cp_cny_amount) (fs @ [f])" "turnover (fs @ [f]) < 10 ^ 26"
  shows "ctx (flow_sum p fs + cp_cny_amount f) = flow_sum p fs + cp_cny_amount f"
proof (rule ctx_cents)
  show "in_cents (flow_sum p fs + cp_cny_amount f)" using assms(1) flow_sum_cents by simp
  have "\<bar>flow_sum p fs + cp_cny_amount f\<bar> \<le> \<bar>flow_sum p fs\<bar> + \<bar>cp_cny_amount f\<bar>" by (rule abs_triangle_ineq)
  also have "\<dots> \<le> turnover fs + \<bar>cp_cny_amount f\<bar>" using flow_sum_bound by simp
  finally show "\<bar>flow_sum p fs + cp_cny_amount f\<bar> < 10 ^ 26" using assms(2) by simp
qed

lemma turnover_snoc: "turnover (fs @ [f]) < b \<Longrightarrow> turnover fs < b"
  using abs_ge_zero [of "cp_cny_amount f"] by (simp del: abs_ge_zero)

lemma keyed_sums_exact:
  "list_all (in_cents \<circ> cp_cny_amount) fs \<Longrightarrow> turnover fs < 10 ^ 26 \<Longrightarrow>
   amount_at k (keyed_sums w key fs) = flow_sum (\<lambda>f. w f \<and> key f = k) fs"
proof (induction fs rule: rev_induct)
  case (snoc f fs)
  have IH: "amount_at k (keyed_sums w key fs) = flow_sum (\<lambda>f. w f \<and> key f = k) fs"
    using snoc turnover_snoc by simp
  show ?case using sum_step [OF snoc.prems, of "\<lambda>f. w f \<and> key f = k"] by (auto simp: IH amount_at_add)
qed (simp add: amount_at_def)

lemma cumulative_exact:
  "list_all (in_cents \<circ> cp_cny_amount) fs \<Longrightarrow> turnover fs < 10 ^ 26 \<Longrightarrow>
   tt_cumulative (aggregate_flows first last_day fs) = flow_sum (in_window first last_day) fs"
proof (induction fs rule: rev_induct)
  case (snoc f fs)
  have IH: "tt_cumulative (aggregate_flows first last_day fs) = flow_sum (in_window first last_day) fs"
    using snoc turnover_snoc by simp
  have "aggregate_flows first last_day (fs @ [f]) = (if in_window first last_day f
      then add_flow f (aggregate_flows first last_day fs) else aggregate_flows first last_day fs)"
    by (simp add: aggregate_flows_def)
  then show ?case using sum_step [OF snoc.prems, of "in_window first last_day"] by (simp add: add_flow_def Let_def IH)
qed (simp add: aggregate_flows_def no_totals_def)

text \<open>A part of the days of a table sums to the flows of those days.\<close>

lemma distinct_keyed_sums: "distinct (map fst (keyed_sums w key fs))"
  by (induction fs rule: rev_induct) (simp_all add: add_amount_def distinct_update)

lemma exact_add:
  assumes "list_all (in_cents \<circ> cp_cny_amount) fs" "turnover fs < 10 ^ 26" "list_all (in_cents \<circ> cp_cny_amount) (fs @ [f])"
    "turnover (fs @ [f]) < 10 ^ 26"
  shows "add_amount (key f) (cp_cny_amount f) (keyed_sums w key fs) =
      AList.update (key f) (amount_at (key f) (keyed_sums w key fs) + cp_cny_amount f) (keyed_sums w key fs)"
proof -
  have "ctx (amount_at (key f) (keyed_sums w key fs) + cp_cny_amount f) = amount_at (key f) (keyed_sums w key fs) + cp_cny_amount f"
    unfolding keyed_sums_exact [OF assms(1,2)] by (rule sum_step [OF assms(3,4)])
  then show ?thesis by (simp add: add_amount_def amount_at_def)
qed

lemma table_sum_keyed:
  "list_all (in_cents \<circ> cp_cny_amount) fs \<Longrightarrow> turnover fs < 10 ^ 26 \<Longrightarrow>
   table_sum p (keyed_sums w key fs) = flow_sum (\<lambda>f. w f \<and> p (key f)) fs"
proof (induction fs rule: rev_induct)
  case (snoc f fs)
  have fs: "list_all (in_cents \<circ> cp_cny_amount) fs" "turnover fs < 10 ^ 26"
    using snoc.prems turnover_snoc [OF snoc.prems(2)] by (simp_all add: list_all_iff)
  show ?case using snoc.IH [OF fs] exact_add [OF fs snoc.prems, of key w] by (simp add: table_sum_update [OF distinct_keyed_sums])
qed (simp add: table_sum_def)

definition table_turnover :: "('k \<times> rat) list \<Rightarrow> rat" where
  "table_turnover d = sum_list (map (\<lambda>e. \<bar>snd e\<bar>) d)"

lemma table_turnover_update:
  "distinct (map fst d) \<Longrightarrow> table_turnover (AList.update k v d) = table_turnover d + \<bar>v\<bar> - \<bar>amount_at k d\<bar>"
proof (induction d)
  case (Cons e d)
  show ?case
  proof (cases "fst e = k")
    case True
    then have "AList.update k v (e # d) = (k, v) # d" by (cases e) simp
    then show ?thesis using True by (cases e) (simp add: table_turnover_def amount_at_def)
  next
    case False
    then have "AList.update k v (e # d) = e # AList.update k v d" "amount_at k (e # d) = amount_at k d"
      by (cases e, simp add: amount_at_def)+
    then show ?thesis using Cons by (simp add: table_turnover_def)
  qed
qed (simp add: table_turnover_def amount_at_def)

lemma in_cents_update:
  "list_all (in_cents \<circ> snd) d \<Longrightarrow> in_cents v \<Longrightarrow> list_all (in_cents \<circ> snd) (AList.update k v d)"
  by (induction d) auto

lemma keyed_sums_table:
  "list_all (in_cents \<circ> cp_cny_amount) fs \<Longrightarrow> turnover fs < 10 ^ 26 \<Longrightarrow>
   list_all (in_cents \<circ> snd) (keyed_sums w key fs) \<and> table_turnover (keyed_sums w key fs) \<le> turnover fs"
proof (induction fs rule: rev_induct)
  case (snoc f fs)
  have fs: "list_all (in_cents \<circ> cp_cny_amount) fs" "turnover fs < 10 ^ 26"
    using snoc.prems turnover_snoc [OF snoc.prems(2)] by (simp_all add: list_all_iff)
  define x where "x = amount_at (key f) (keyed_sums w key fs)"
  have x: "in_cents x" unfolding x_def keyed_sums_exact [OF fs] by (rule flow_sum_cents [OF fs(1)])
  have upd: "add_amount (key f) (cp_cny_amount f) (keyed_sums w key fs) =
      AList.update (key f) (x + cp_cny_amount f) (keyed_sums w key fs)"
    unfolding x_def by (rule exact_add [OF fs snoc.prems])
  have "\<bar>x + cp_cny_amount f\<bar> \<le> \<bar>x\<bar> + \<bar>cp_cny_amount f\<bar>" by (rule abs_triangle_ineq)
  then have "table_turnover (AList.update (key f) (x + cp_cny_amount f) (keyed_sums w key fs)) \<le> turnover fs + \<bar>cp_cny_amount f\<bar>"
    using snoc.IH [OF fs] by (simp add: table_turnover_update [OF distinct_keyed_sums] x_def)
  moreover have "list_all (in_cents \<circ> snd) (AList.update (key f) (x + cp_cny_amount f) (keyed_sums w key fs))"
    using snoc.IH [OF fs] x snoc.prems(1) by (intro in_cents_update) (simp_all add: list_all_iff)
  moreover have "turnover fs \<le> turnover fs + \<bar>cp_cny_amount f\<bar>" by simp
  ultimately show ?case using snoc.IH [OF fs] by (auto simp: upd comp_def)
qed (simp add: table_turnover_def)

lemma table_fold_exact:
  "list_all (in_cents \<circ> snd) d \<Longrightarrow> table_turnover d < 10 ^ 26 \<Longrightarrow>
   foldl (\<lambda>g (k, a). if p k then ctx (g + a) else g) 0 d = table_sum p d \<and> in_cents (table_sum p d) \<and>
   \<bar>table_sum p d\<bar> \<le> table_turnover d"
proof (induction d rule: rev_induct)
  case (snoc e d)
  obtain k a where e: "e = (k, a)" by fastforce
  have t: "table_turnover (d @ [e]) = table_turnover d + \<bar>a\<bar>" by (simp add: table_turnover_def e)
  then have "table_turnover d < 10 ^ 26" using snoc.prems(2) abs_ge_zero [of a] by linarith
  then have IH: "foldl (\<lambda>g (k, a). if p k then ctx (g + a) else g) 0 d = table_sum p d" "in_cents (table_sum p d)"
      "\<bar>table_sum p d\<bar> \<le> table_turnover d" using snoc by (simp_all add: list_all_iff)
  have s: "table_sum p (d @ [e]) = table_sum p d + (if p k then a else 0)" by (simp add: table_sum_def e)
  have c: "in_cents (table_sum p d + a)" using IH(2) snoc.prems(1) by (simp add: e)
  have b: "\<bar>table_sum p d + a\<bar> \<le> table_turnover d + \<bar>a\<bar>" using IH(3) abs_triangle_ineq [of "table_sum p d" a] by linarith
  have "ctx (table_sum p d + a) = table_sum p d + a" by (rule ctx_cents [OF c]) (use b snoc.prems(2) t in linarith)
  then show ?case using IH c b abs_ge_zero [of a] by (simp add: s [unfolded e] t [unfolded e] e del: abs_ge_zero)
qed (simp add: table_sum_def table_turnover_def)

lemma gap_exact:
  assumes "list_all (in_cents \<circ> cp_cny_amount) fs" "turnover fs < 10 ^ 26"
  shows "gap_amount previous day (tt_daily (aggregate_flows first last_day fs)) =
    flow_sum (\<lambda>f. in_window first last_day f \<and> in_gap previous day (flow_date f)) fs"
proof -
  have t: "list_all (in_cents \<circ> snd) (keyed_sums (in_window first last_day) flow_date fs)"
      "table_turnover (keyed_sums (in_window first last_day) flow_date fs) < 10 ^ 26"
    using keyed_sums_table [OF assms, of "in_window first last_day" flow_date] assms(2) by auto
  show ?thesis
    unfolding gap_amount_def aggregate_keyed using table_fold_exact [OF t, of "in_gap previous day"]
    by (simp add: table_sum_keyed [OF assms])
qed


section \<open>Lemmas: when a derivation is clear\<close>

definition clear_row :: "cf_env \<Rightarrow> string \<Rightarrow> raw_row \<Rightarrow> bool" where
  "clear_row env account r \<longleftrightarrow> rw_id r \<noteq> [] \<and>
     (case validate_cash_row env r of Inl is \<Rightarrow> False | Inr f \<Rightarrow> mf_account (cp_manual f) = account)"

definition row_key :: "cf_env \<Rightarrow> raw_row \<Rightarrow> string" where
  "row_key env r = expected_dedup_key env (manual_row env r)"

lemma clear_row_cases:
  assumes "clear_row env account r"
  obtains f where "validate_cash_row env r = Inr f" "mf_account (cp_manual f) = account" "cp_manual f = manual_row env r"
    "manual_validate env r = Inr (manual_row env r)" "completed_validate env r (manual_row env r) = Inr f" "rw_id r \<noteq> []"
proof -
  obtain f where f: "validate_cash_row env r = Inr f" "mf_account (cp_manual f) = account" "rw_id r \<noteq> []"
    using assms by (auto simp: clear_row_def split: sum.splits)
  then obtain m where m: "manual_validate env r = Inr m"
    by (cases "manual_validate env r") (auto simp: validate_cash_row_def manual_checked_def)
  then have "completed_validate env r m = Inr f" "m = manual_row env r"
    using f(1) by (simp_all add: validate_cash_row_def manual_checked_def manual_row_def)
  then show ?thesis using that f m completed_validate_Inr(2) manual_validate_Inr(1) [OF m] by blast
qed

lemma distinct_count: "distinct xs \<Longrightarrow> count_list xs i \<le> 1"
  by (induction xs) (auto simp: count_list_0_iff)

lemma distinct_key_filter: "distinct (map f xs) \<Longrightarrow> length (filter (\<lambda>x. f x = k) xs) \<le> 1"
proof (induction xs)
  case (Cons x xs)
  then have "f x \<notin> f ` set xs" by simp
  then have "f y \<noteq> f x" if "y \<in> set xs" for y using that by (metis imageI)
  then have "filter (\<lambda>y. f y = f x) xs = []" by (simp add: filter_empty_conv)
  with Cons show ?case by (cases "f x = k") auto
qed simp

lemma clear_derivation:
  assumes "list_all (clear_row env (py_strip account)) rows" "distinct (map rw_id rows)" "distinct (map (row_key env) rows)"
    "py_strip account \<noteq> []"
  obtains dv where "derive_rows env rows account = Inr dv" "dv_blockers dv = []"
proof -
  define ms where "ms = valid_manuals env rows"
  have valid: "manual_validate env r = Inr (manual_row env r)" if "r \<in> set rows" for r
  proof -
    have "clear_row env (py_strip account) r" using assms(1) that by (simp add: list_all_iff)
    then show ?thesis by (rule clear_row_cases)
  qed
  then have issues: "audit_issues env rows = []" by (simp add: audit_issues_def)
  have rep: "repeated_ids rows = []"
    using distinct_count [OF assms(2)] by (simp add: repeated_ids_def filter_empty_conv not_less)
  have "duplicate_groups env ms = []"
  proof -
    have "group_of env ms k = None" for k
    proof -
      have "length (filter (\<lambda>m. expected_dedup_key env m = k) ms) \<le> 1"
        using assms(3) distinct_key_filter [of "expected_dedup_key env" ms k]
        by (simp add: ms_def no_issues_manuals [OF issues] comp_def row_key_def [abs_def])
      then have "length (sort (remdups (map mf_record_id (filter (\<lambda>m. expected_dedup_key env m = k) ms)))) \<le> 1"
        using length_remdups_leq [of "map mf_record_id (filter (\<lambda>m. expected_dedup_key env m = k) ms)"] by simp
      then show ?thesis by (simp add: group_of_def Let_def)
    qed
    then show ?thesis by (simp add: duplicate_groups_def)
  qed
  moreover have "\<exists>f. row_outcome env (py_strip account) [] ms [] r = Inr ([], [f])" if "r \<in> set rows" for r
  proof -
    have "clear_row env (py_strip account) r" using assms(1) that by (simp add: list_all_iff)
    then show ?thesis
      by (rule clear_row_cases) (simp add: row_outcome_def ms_def manual_of_row [OF issues assms(2) that])
  qed
  then obtain F where "\<And>r. r \<in> set rows \<Longrightarrow> row_outcome env (py_strip account) [] ms [] r = Inr ([], [F r])" by metis
  then have "map_result (row_outcome env (py_strip account) [] ms []) rows = Inr (map (\<lambda>r. ([], [F r])) rows)"
    by (intro map_result_map) simp
  ultimately show ?thesis
    using that [of "\<lparr>dv_completed = concat (map snd (map (\<lambda>r. ([], [F r])) rows)), dv_blockers = [], dv_groups = []\<rparr>"] assms(4)
    by (simp add: derive_rows_def Let_def issues rep comp_def flip: ms_def)
qed

lemma derive_clear_iff:
  assumes "derive_rows env rows account = Inr dv"
  shows "dv_blockers dv = [] \<longleftrightarrow> list_all (clear_row env (py_strip account)) rows \<and> distinct (map rw_id rows) \<and>
    distinct (map (row_key env) rows)"
proof
  assume b: "dv_blockers dv = []"
  note c = derive_clear [OF assms b]
  have "list_all (clear_row env (py_strip account)) rows"
    unfolding list_all_length
  proof (intro allI impI)
    fix n assume n: "n < length rows"
    have "validate_cash_row env (rows ! n) = Inr (dv_completed dv ! n) \<and> mf_account (cp_manual (dv_completed dv ! n)) = py_strip account"
      using c(1) n by (simp add: list_all2_conv_all_nth)
    moreover have "rw_id (rows ! n) \<noteq> []" using c(4) n by (metis length_map nth_map nth_mem)
    ultimately show "clear_row env (py_strip account) (rows ! n)" by (simp add: clear_row_def)
  qed
  moreover have "map (row_key env) rows = map (expected_dedup_key env) (map (manual_row env) rows)"
    by (simp only: map_map) (simp add: row_key_def comp_def)
  then have "distinct (map (row_key env) rows)" using c(5,6) by (simp only:)
  ultimately show "list_all (clear_row env (py_strip account)) rows \<and> distinct (map rw_id rows) \<and> distinct (map (row_key env) rows)"
    using c(3) by blast
next
  assume "list_all (clear_row env (py_strip account)) rows \<and> distinct (map rw_id rows) \<and> distinct (map (row_key env) rows)"
  moreover have "py_strip account \<noteq> []" using assms by (auto simp: derive_rows_def)
  ultimately obtain dv' where "derive_rows env rows account = Inr dv'" "dv_blockers dv' = []"
    using clear_derivation by blast
  then show "dv_blockers dv = []" using assms by simp
qed


section \<open>Lemmas: what the builder gives\<close>

lemma checked_dataset_Inr:
  assumes "checked_dataset d = Inr e"
  shows "e = d\<lparr>ds_account := py_strip (ds_account d), ds_run_id := py_strip (ds_run_id d),
      ds_audit_only := sort (map py_strip (ds_audit_only d)),
      ds_revision := (case ds_revision d of None \<Rightarrow> None | Some r \<Rightarrow> if py_strip r = [] then None else Some (py_strip r))\<rparr>"
    and "py_strip (ds_account d) \<noteq> []" "ds_window_end d = ds_nav_date d"
  using assms by (auto simp: checked_dataset_def split: if_splits)

lemma bind_result_InrE:
  assumes "bind_result r k = Inr y"
  obtains x where "r = Inr x" "k x = Inr y"
  using assms by (cases r) auto

text \<open>Nothing but the gate, its revision and its blockers is added to the preliminary dataset.\<close>

lemma strip_ids: "list_all (\<lambda>i. py_strip i = i) is \<Longrightarrow> map py_strip is = is"
  by (induction "is") simp_all

lemma map_fixed: "map f xs = xs \<Longrightarrow> x \<in> set xs \<Longrightarrow> f x = x"
  by (induction xs) auto

lemma derived_ids:
  assumes "derive_rows env rows account = Inr dv" "dv_blockers dv = []"
  shows "map (\<lambda>f. mf_record_id (cp_manual f)) (dv_completed dv) = map rw_id rows"
proof -
  note c = derive_clear [OF assms]
  have v: "r \<in> set rows \<Longrightarrow> mf_record_id (manual_row env r) = rw_id r" for r
  proof -
    assume "r \<in> set rows"
    then have "clear_row env (py_strip account) r" using assms derive_clear_iff by (simp add: list_all_iff)
    then show "mf_record_id (manual_row env r) = rw_id r" by (rule clear_row_cases) (simp add: manual_validate_Inr(2))
  qed
  have "map mf_record_id (map cp_manual (dv_completed dv)) = map mf_record_id (map (manual_row env) rows)" by (simp only: c(6))
  then show ?thesis using v by (simp add: comp_def)
qed

definition gate_binds :: "dataset \<Rightarrow> bool" where
  "gate_binds d \<longleftrightarrow> dict_get ''account'' (ds_gate d) = Some (JStr (ds_account d)) \<and>
     dict_get ''nav_date'' (ds_gate d) = Some (JStr (date_text (ds_nav_date d))) \<and>
     dict_get ''cash_flow_financial_fingerprint'' (ds_gate d) = Some (JStr (ds_financial d))"

lemma preliminary_Inr:
  assumes "preliminary_dataset env store rows account day run_id start_year = Inr d"
  obtains first dv where "year_start start_year = Inr first" "derive_rows env rows (py_strip account) = Inr dv"
    "checked_dataset (assembled_dataset env store rows (py_strip account) day (py_strip run_id) first dv) = Inr d"
proof -
  from assms obtain first where f: "year_start start_year = Inr first"
    by (auto simp: preliminary_dataset_def elim: bind_result_InrE split: if_splits)
  from assms f obtain dv where dv: "derive_rows env rows (py_strip account) = Inr dv"
    by (auto simp: preliminary_dataset_def elim: bind_result_InrE split: if_splits)
  show ?thesis using assms that [OF f dv] by (simp add: preliminary_dataset_def f dv split: if_splits)
qed

lemma revision_kept: "r \<noteq> [] \<Longrightarrow> py_strip r = r \<Longrightarrow> gate_revision (dict_set ''effect_store_revision'' (JStr r) g) = r"
  by (simp add: gate_revision_def dict_get_set falsy_def text_or_empty_def py_str_def)

lemma gated_clear:
  assumes "gated_dataset service p = Inr d" "ds_blockers d = []" "ds_audit_only p = sort (map py_strip (ds_audit_only p))"
    "py_strip (ds_account p) = ds_account p" "py_strip (ds_run_id p) = ds_run_id p" "service = None \<or> gate_binds d"
  obtains r g where "d = p\<lparr>ds_revision := Some r, ds_gate := g\<rparr>" "ds_blockers p = []" "gate_revision g = r"
    "dict_get ''success'' g = Some (JBool True)" "gate_binds d"
proof (cases service)
  case None
  have s: "py_strip ''not_activated'' = ''not_activated''" by code_simp
  have p: "ds_blockers p = []" using assms(1,2) by (auto simp: gated_dataset_def split: if_splits)
  have d: "d = p\<lparr>ds_revision := Some ''not_activated'',
      ds_gate := [(''success'', JBool True), (''status'', JStr ''not_activated''),
        (''effect_store_revision'', JStr ''not_activated''), (''account'', JStr (ds_account p)),
        (''nav_date'', JStr (date_text (ds_nav_date p))), (''cash_flow_financial_fingerprint'', JStr (ds_financial p))]\<rparr>"
    using assms(1) None p checked_dataset_Inr(1) assms(3-5) by (fastforce simp: gated_dataset_def s)
  show ?thesis
    by (rule that [OF d p]) (simp_all add: d gate_binds_def gate_revision_def dict_get_def falsy_def text_or_empty_def py_str_def s)
next
  case (Some ask)
  have p: "ds_blockers p = []" using assms(1,2) by (auto simp: gated_dataset_def split: if_splits)
  then obtain answer where "ask p = Inr answer"
    using assms(1,2) Some checked_dataset_Inr(1) by (fastforce simp: gated_dataset_def split: sum.splits)
  define r where "r = gate_revision answer"
  define g where "g = dict_set ''effect_store_revision'' (if r = [] then JNull else JStr r) answer"
  have e: "checked_dataset (p\<lparr>ds_blockers := ds_blockers p @ gate_blockers p r g,
      ds_revision := (if r = [] then None else Some r), ds_gate := g\<rparr>) = Inr d"
    using assms(1) Some p \<open>ask p = Inr answer\<close> by (cases "gate_revision answer = []") (simp_all add: gated_dataset_def Let_def r_def g_def)
  have "gate_blockers p r g = []" using checked_dataset_Inr(1) [OF e] assms(2) by simp
  then have r: "r \<noteq> []" and s: "dict_get ''success'' g = Some (JBool True)"
    by (auto simp: gate_blockers_def Let_def split: if_splits)
  have rs: "py_strip r = r" by (simp add: r_def gate_revision_def)
  have d: "d = p\<lparr>ds_revision := Some r, ds_gate := g\<rparr>"
    using checked_dataset_Inr(1) [OF e] p \<open>gate_blockers p r g = []\<close> r rs assms(3-5) by simp
  have "gate_revision g = r" using r rs by (simp add: g_def revision_kept)
  then show ?thesis using that [OF d p] s assms(6) Some by simp
qed


lemma same_dict_refl [simp]: "same_dict d d"
  by (simp add: same_dict_def list_all_iff)

lemma same_dict_map: "same_dict d e \<Longrightarrow> map_of d = map_of e"
proof (rule ext)
  fix k
  assume "same_dict d e"
  then have "map_of d k = map_of e k" if "k \<in> fst ` set d \<union> fst ` set e"
    using that by (auto simp: same_dict_def list_all_iff)
  moreover have "map_of d k = None" "map_of e k = None" if "k \<notin> fst ` set d \<union> fst ` set e"
    using that by (simp_all add: map_of_eq_None_iff)
  ultimately show "map_of d k = map_of e k" by (cases "k \<in> fst ` set d \<union> fst ` set e") simp_all
qed

lemma mismatch_Nil [simp]: "mismatch k ok = [] \<longleftrightarrow> ok"
  by (simp add: mismatch_def)

lemma built_facts:
  assumes "build_dataset env store service rows account day run_id start_year = Inr d" "ds_blockers d = []"
    and "list_all (\<lambda>r. py_strip (rw_id r) = rw_id r) rows" "service = None \<or> gate_binds d"
  obtains first dv r g where "year_start start_year = Inr first" "derive_rows env rows (py_strip account) = Inr dv"
    "dv_blockers dv = []"
    "d = (assembled_dataset env store rows (py_strip account) day (py_strip run_id) first dv)\<lparr>ds_blockers := [],
      ds_audit_only := sort (audit_only_ids first day (dv_completed dv)), ds_revision := Some r, ds_gate := g\<rparr>"
    "gate_revision g = r" "dict_get ''success'' g = Some (JBool True)" "gate_binds d"
    "list_all (\<lambda>f. snd (fx_outcome env store f) = []) (foreign_rows first day (dv_completed dv))"
proof -
  from assms(1) obtain p where p: "preliminary_dataset env store rows account day run_id start_year = Inr p"
      and g: "gated_dataset service p = Inr d"
    unfolding build_dataset_def by (rule bind_result_InrE)
  from p obtain first dv where y: "year_start start_year = Inr first" and dv: "derive_rows env rows (py_strip account) = Inr dv"
      and c: "checked_dataset (assembled_dataset env store rows (py_strip account) day (py_strip run_id) first dv) = Inr p"
    by (rule preliminary_Inr)
  define a where "a = assembled_dataset env store rows (py_strip account) day (py_strip run_id) first dv"
  have a: "ds_account a = py_strip account" "ds_run_id a = py_strip run_id" "ds_revision a = None"
      "ds_audit_only a = audit_only_ids first day (dv_completed dv)"
      "ds_blockers a = dv_blockers dv @ concat (map (snd \<circ> fx_outcome env store) (foreign_rows first day (dv_completed dv)))"
    by (simp_all add: a_def assembled_dataset_def Let_def)
  have pa: "p = a\<lparr>ds_audit_only := sort (map py_strip (audit_only_ids first day (dv_completed dv)))\<rparr>"
    using checked_dataset_Inr(1) [OF c, folded a_def] by (simp add: a)
  have "ds_blockers p = []"
    using g assms(2) checked_dataset_Inr(1) by (fastforce simp: gated_dataset_def split: if_splits)
  then have b: "dv_blockers dv = []" "ds_blockers a = []"
      "list_all (\<lambda>f. snd (fx_outcome env store f) = []) (foreign_rows first day (dv_completed dv))"
    by (simp_all add: pa a list_all_iff)
  have "set (audit_only_ids first day (dv_completed dv)) \<subseteq> set (map rw_id rows)"
    unfolding derived_ids [OF dv b(1), symmetric] by (auto simp: audit_only_ids_def)
  then have ids: "map py_strip (audit_only_ids first day (dv_completed dv)) = audit_only_ids first day (dv_completed dv)"
    using assms(3) by (intro strip_ids) (fastforce simp: list_all_iff)
  have "list_all (\<lambda>i. py_strip i = i) (sort (audit_only_ids first day (dv_completed dv)))"
    using map_fixed [OF ids] by (simp add: list_all_iff)
  then have sorted_ids: "ds_audit_only p = sort (map py_strip (ds_audit_only p))" by (simp add: pa ids strip_ids sorted_sort_id)
  obtain r gt where dp: "d = p\<lparr>ds_revision := Some r, ds_gate := gt\<rparr>" and gt: "gate_revision gt = r"
      "dict_get ''success'' gt = Some (JBool True)" and binds: "gate_binds d"
    by (rule gated_clear [OF g assms(2) sorted_ids _ _ assms(4)]) (simp_all add: pa a)
  have pe: "p = a\<lparr>ds_blockers := [], ds_audit_only := sort (audit_only_ids first day (dv_completed dv))\<rparr>"
    using b(2) by (simp add: pa ids)
  show ?thesis
    by (rule that [OF y dv b(1) _ gt binds b(3)]) (simp only: dp pe a_def)
qed

lemma built_accepted:
  assumes "build_dataset env store service rows account day run_id start_year = Inr d" "ds_blockers d = []"
    and "list_all (\<lambda>r. py_strip (rw_id r) = rw_id r) rows" "service = None \<or> gate_binds d"
  shows "assert_official_scope env account day run_id start_year d = Inr ()"
proof -
  obtain first dv r g where y: "year_start start_year = Inr first" and dv: "derive_rows env rows (py_strip account) = Inr dv"
      and b: "dv_blockers dv = []"
      and d: "d = (assembled_dataset env store rows (py_strip account) day (py_strip run_id) first dv)\<lparr>ds_blockers := [],
        ds_audit_only := sort (audit_only_ids first day (dv_completed dv)), ds_revision := Some r, ds_gate := g\<rparr>"
      and g: "gate_revision g = r" "dict_get ''success'' g = Some (JBool True)" and binds: "gate_binds d"
    by (rule built_facts [OF assms])
  have d': "ds_account d = py_strip account" "ds_raw_rows d = rows" "ds_blockers d = []" "ds_gate d = g" "ds_revision d = Some r"
    by (simp_all add: d assembled_dataset_def Let_def)
  have "scope_mismatches env account day run_id first d = []"
    by (simp add: scope_mismatches_def d assembled_dataset_def Let_def)
  moreover have "source_mismatches env dv d = []"
    by (simp add: source_mismatches_def d assembled_dataset_def Let_def b)
  moreover have "sum_mismatches d = []"
    by (simp add: sum_mismatches_def d assembled_dataset_def Let_def)
  moreover have "gate_mismatches d = []"
    using binds by (simp add: gate_mismatches_def gate_binds_def d'(4,5) g)
  moreover have "dataset_complete d" using g(2) by (simp add: dataset_complete_def d')
  ultimately show ?thesis by (simp add: assert_official_scope_def y d' dv Let_def)
qed


text \<open>A confirmation that is accepted agrees with the row in every respect.\<close>

lemma fx_valid:
  assumes "evaluate_fx_confirmation env f confirmation = FxValid"
  obtains c where "confirmation = Some c" "py_strip (fx_record_id c) = py_strip (mf_record_id (cp_manual f))"
    "fx_source_hash c = generated_fingerprint env f" "fx_exchange_rate_date c = date_text (flow_date f)" "fx_numbers_match f c"
    "py_strip (fx_evidence_type c) \<in> set allowed_evidence_types"
    "py_lower (py_strip (fx_exchange_rate_source c)) \<notin> set ambiguous_rate_sources"
  using assms
  by (auto simp: evaluate_fx_confirmation_def Let_def normalize_rate_source_def split: option.splits if_splits)

lemma fx_outcome_clear: "snd (fx_outcome env store f) = [] \<longleftrightarrow>
    evaluate_fx_confirmation env f (latest_fx_confirmation (mf_record_id (cp_manual f)) store) = FxValid"
  by (simp add: fx_outcome_def Let_def)

lemma checked_keeps:
  assumes "checked_dataset q = Inr d"
  shows "ds_completed d = ds_completed q" "ds_window_start d = ds_window_start q" "ds_window_end d = ds_window_end q"
  using checked_dataset_Inr(1) [OF assms] by simp_all

lemma gated_keeps:
  assumes "gated_dataset service p = Inr d" "ds_blockers d = []"
  shows "ds_completed d = ds_completed p" "ds_window_start d = ds_window_start p" "ds_window_end d = ds_window_end p"
    "ds_blockers p = []"
proof -
  show b: "ds_blockers p = []" using assms by (auto simp: gated_dataset_def split: if_splits)
  obtain q where q: "checked_dataset q = Inr d" "ds_completed q = ds_completed p" "ds_window_start q = ds_window_start p"
      "ds_window_end q = ds_window_end p"
  proof (cases service)
    case None
    from assms(1) b None show ?thesis by (simp add: gated_dataset_def) (erule that, simp_all)
  next
    case (Some ask)
    show ?thesis
    proof (cases "ask p")
      case (Inl msg)
      from assms(1) b Some Inl show ?thesis by (simp add: gated_dataset_def) (erule that, simp_all)
    next
      case (Inr answer)
      from assms(1) b Some Inr have "checked_dataset (p\<lparr>ds_blockers := ds_blockers p @
          gate_blockers p (gate_revision answer) (dict_set ''effect_store_revision''
            (if gate_revision answer = [] then JNull else JStr (gate_revision answer)) answer),
          ds_revision := (if gate_revision answer = [] then None else Some (gate_revision answer)),
          ds_gate := dict_set ''effect_store_revision''
            (if gate_revision answer = [] then JNull else JStr (gate_revision answer)) answer\<rparr>) = Inr d"
        by (cases "gate_revision answer = []") (simp_all add: gated_dataset_def Let_def)
      then show ?thesis by (rule that) simp_all
    qed
  qed
  from checked_keeps [OF q(1)] q(2-4) show "ds_completed d = ds_completed p" "ds_window_start d = ds_window_start p"
    "ds_window_end d = ds_window_end p" by simp_all
qed

lemma built_evidence:
  assumes "build_dataset env store service rows account day run_id start_year = Inr d" "ds_blockers d = []"
    and "f \<in> set (ds_completed d)" "in_window (ds_window_start d) (ds_window_end d) f" "mf_currency (cp_manual f) \<noteq> ''CNY''"
  shows "snd (fx_outcome env store f) = []"
proof -
  from assms(1) obtain p where p: "preliminary_dataset env store rows account day run_id start_year = Inr p"
      and g: "gated_dataset service p = Inr d"
    unfolding build_dataset_def by (rule bind_result_InrE)
  from p obtain first dv where
      c: "checked_dataset (assembled_dataset env store rows (py_strip account) day (py_strip run_id) first dv) = Inr p"
    by (rule preliminary_Inr)
  note k = gated_keeps [OF g assms(2)]
  have d: "ds_completed d = dv_completed dv" "ds_window_start d = first" "ds_window_end d = day"
      "concat (map (snd \<circ> fx_outcome env store) (foreign_rows first day (dv_completed dv))) = []"
    using k checked_dataset_Inr(1) [OF c] by (simp_all add: assembled_dataset_def Let_def)
  have "f \<in> set (foreign_rows first day (dv_completed dv))"
    using assms(3-5) by (simp add: foreign_rows_def d)
  then show ?thesis using d(4) by simp
qed

section \<open>An example\<close>

definition demo_row :: raw_row where
  "demo_row = raw_row_of ''rec1'' (to_fields demo_completed)"

lemma demo_row_facts: "validate_cash_row demo_env demo_row = Inr demo_completed" "rw_id demo_row = ''rec1''"
  by (simp_all add: demo_row_def demo_row_valid demo_strip)

lemma demo_row_clear: "clear_row demo_env ''lx-account'' demo_row"
  by (simp add: clear_row_def demo_row_facts demo_completed_def demo_manual_def)

definition demo_derivation :: derivation where
  "demo_derivation = \<lparr>dv_completed = [demo_completed], dv_blockers = [], dv_groups = []\<rparr>"

lemma clear_derivation_eq:
  assumes "list_all (clear_row env (py_strip account)) rows" "distinct (map rw_id rows)" "distinct (map (row_key env) rows)"
    "py_strip account \<noteq> []" "list_all2 (\<lambda>r f. validate_cash_row env r = Inr f) rows fs"
  shows "derive_rows env rows account = Inr \<lparr>dv_completed = fs, dv_blockers = [], dv_groups = []\<rparr>"
proof -
  obtain dv where dv: "derive_rows env rows account = Inr dv" and b: "dv_blockers dv = []"
    by (rule clear_derivation [OF assms(1-4)])
  note c = derive_clear [OF dv b]
  have "dv_completed dv = fs"
    using c(1) assms(5) by (intro nth_equalityI) (auto simp: list_all2_conv_all_nth)
  with b c(2) dv show ?thesis by (simp add: derivation.equality)
qed

lemma demo_derive: "derive_rows demo_env [demo_row] ''lx-account'' = Inr demo_derivation"
  unfolding demo_derivation_def
  by (rule clear_derivation_eq) (simp_all add: demo_strip demo_row_clear demo_row_facts)

definition demo_new_year :: py_date where
  "demo_new_year = \<lparr>dt_year = 2024, dt_month = 1, dt_day = 1\<rparr>"

lemma demo_order: "date_le demo_new_year demo_day" "date_le demo_day demo_day" "\<not> date_less demo_day demo_new_year"
  by (simp_all add: date_le_def demo_new_year_def demo_day_def less_eq_py_date_ext_def)

lemma demo_in_window: "in_window demo_new_year demo_day demo_completed"
  by (simp add: in_window_def demo_completed_def demo_manual_def demo_order)

definition demo_dataset :: dataset where
  "demo_dataset = (assembled_dataset demo_env empty_store [demo_row] ''lx-account'' demo_day ''run1'' demo_new_year demo_derivation)
     \<lparr>ds_revision := Some ''not_activated'',
      ds_gate := [(''success'', JBool True), (''status'', JStr ''not_activated''),
        (''effect_store_revision'', JStr ''not_activated''), (''account'', JStr ''lx-account''),
        (''nav_date'', JStr (date_text demo_day)),
        (''cash_flow_financial_fingerprint'', JStr (dataset_fingerprint demo_env True [demo_row]))]\<rparr>"

lemma demo_no_foreign: "foreign_rows demo_new_year demo_day [demo_completed] = []"
  by (simp add: foreign_rows_def demo_completed_def demo_parts)

lemma demo_audit_only: "audit_only_ids demo_new_year demo_day [demo_completed] = []"
  by (simp add: audit_only_ids_def demo_in_window)

lemma demo_run: "py_strip ''run1'' = ''run1''" "py_strip ''not_activated'' = ''not_activated''"
  by code_simp+

lemma demo_year: "year_start 2024 = Inr demo_new_year"
  by (simp add: year_start_def demo_new_year_def)

lemma demo_assembled: "checked_dataset (assembled_dataset demo_env empty_store [demo_row] ''lx-account'' demo_day ''run1'' demo_new_year demo_derivation) =
    Inr (assembled_dataset demo_env empty_store [demo_row] ''lx-account'' demo_day ''run1'' demo_new_year demo_derivation)"
  by (simp add: checked_dataset_def assembled_dataset_def Let_def demo_derivation_def demo_strip demo_run demo_audit_only
      demo_order(3))

lemma demo_dataset_built: "build_dataset demo_env empty_store None [demo_row] ''lx-account'' demo_day ''run1'' 2024 = Inr demo_dataset"
proof -
  have "preliminary_dataset demo_env empty_store [demo_row] ''lx-account'' demo_day ''run1'' 2024 =
      Inr (assembled_dataset demo_env empty_store [demo_row] ''lx-account'' demo_day ''run1'' demo_new_year demo_derivation)"
    using demo_order(3) by (simp add: preliminary_dataset_def demo_strip demo_run demo_year demo_derive demo_assembled)
  then show ?thesis
    by (simp add: build_dataset_def gated_dataset_def assembled_dataset_def Let_def demo_derivation_def demo_no_foreign
        checked_dataset_def demo_strip demo_run demo_audit_only demo_order(3) demo_dataset_def)
qed


text \<open>A flow of 100 dollars at 7 yuan, with the confirmation of its rate.\<close>

definition demo_usd :: completed_facts where
  "demo_usd = \<lparr>cp_manual = demo_manual\<lparr>mf_currency := ''USD''\<rparr>, cp_flow_type = ''DEPOSIT'', cp_cny_amount = 700,
     cp_exchange_rate = 7, cp_dedup_key = ''lx-account|broke'', cp_source = ''manual'', cp_updated_at = VNull, cp_replayed = False\<rparr>"

definition demo_usd_row :: raw_row where
  "demo_usd_row = raw_row_of ''rec1'' (to_fields demo_usd)"

definition demo_confirmation :: fx_confirmation where
  "demo_confirmation = \<lparr>fx_confirmation_id = ''c1'', fx_record_id = ''rec1'',
     fx_source_hash = generated_fingerprint demo_env demo_usd, fx_exchange_rate = ''7'',
     fx_exchange_rate_date = date_text demo_day, fx_exchange_rate_source = ''pbc'', fx_evidence_type = ''provider'',
     fx_cny_amount = ''700'', fx_confirmation_json = JNull, fx_confirmed_at = 0\<rparr>"

definition demo_fx_store :: op_store where
  "demo_fx_store = empty_store\<lparr>fx_confirmations := [demo_confirmation]\<rparr>"

lemma demo_usd_wf: "wf_completed demo_env demo_usd"
proof -
  have "cf_money 700 = Inr 700" unfolding cf_money_def using quantize_places [of 70000 2] by simp
  moreover from money_ctx [OF this] have "ctx 700 = 700" .
  ultimately show ?thesis
    by (simp add: wf_completed_def demo_usd_def wf_manual_def demo_manual_def demo_strip cf_money_100 cash_flow_currencies_def
        expected_dedup_key_def expected_flow_type_def dedup_text_def demo_env_def)
qed

lemma demo_usd_valid: "validate_cash_row demo_env demo_usd_row = Inr demo_usd" "rw_id demo_usd_row = ''rec1''"
proof -
  have d: "decimal_digits 15 7" using decimal_places [of 7 15 0] by simp
  have "(10::rat) powi (-290) \<le> 7" using one_digit(2) by simp
  moreover have "(with_record_id ''rec1'' False demo_usd)\<lparr>cp_updated_at := VNull\<rparr> = demo_usd"
    by (simp add: with_record_id_def demo_usd_def demo_manual_def demo_strip)
  ultimately show "validate_cash_row demo_env demo_usd_row = Inr demo_usd"
    using fields_read_back [OF demo_usd_wf, of "''rec1''"] d by (simp add: demo_usd_row_def demo_usd_def demo_manual_def)
  show "rw_id demo_usd_row = ''rec1''" by (simp add: demo_usd_row_def demo_strip)
qed

lemma demo_usd_derive: "derive_rows demo_env [demo_usd_row] ''lx-account'' =
    Inr \<lparr>dv_completed = [demo_usd], dv_blockers = [], dv_groups = []\<rparr>"
  by (rule clear_derivation_eq)
    (simp_all add: demo_strip demo_usd_valid clear_row_def demo_usd_def demo_manual_def)

lemma demo_numbers: "fx_numbers_match demo_usd demo_confirmation"
proof -
  have "parse_decimal ''7'' = Some \<lparr>dec_neg = False, dec_coeff = 7, dec_exp = 0\<rparr>"
    "parse_decimal ''700'' = Some \<lparr>dec_neg = False, dec_coeff = 700, dec_exp = 0\<rparr>" by code_simp+
  then show ?thesis by (simp add: fx_numbers_match_def demo_confirmation_def demo_usd_def dec_value_def)
qed

lemma demo_words: "py_strip ''pbc'' = ''pbc''" "py_lower ''pbc'' = ''pbc''" "py_strip ''provider'' = ''provider''"
  by code_simp+

lemma object_text: "canonical_text (JObj d) \<noteq> []"
  by (simp add: canonical_text_def)

lemma demo_fx_valid: "snd (fx_outcome demo_env demo_fx_store demo_usd) = []"
proof -
  have "latest_fx_confirmation ''rec1'' demo_fx_store = Some demo_confirmation"
    by (simp add: latest_fx_confirmation_def demo_fx_store_def demo_confirmation_def)
  moreover have "generated_fingerprint demo_env demo_usd \<noteq> []" by (simp add: generated_fingerprint_def demo_env_def object_text)
  moreover have "date_text demo_day \<noteq> []" by (simp add: date_text_def)
  moreover have "mf_record_id (cp_manual demo_usd) = ''rec1''" "flow_date demo_usd = demo_day"
    by (simp_all add: demo_usd_def demo_manual_def)
  ultimately show ?thesis
    using demo_numbers unfolding fx_outcome_clear evaluate_fx_confirmation_def
    by (simp add: Let_def demo_confirmation_def demo_strip normalize_rate_source_def demo_words ambiguous_rate_sources_def
        allowed_evidence_types_def)
qed


section \<open>Properties\<close>

text \<open>
  C9. The derivation of an account's rows raises no blocker exactly when every row has an identity and
  validates for that account, no two rows share an identity and no two share the key computed from
  the operator's fields. Then there is one completed row per source row, in their order: nothing is
  dropped and nothing is counted twice.
\<close>

theorem derivation_clear_exactly:
  assumes "derive_rows env rows account = Inr dv"
  shows "(dv_blockers dv = [] \<longleftrightarrow> list_all (clear_row env (py_strip account)) rows \<and> distinct (map rw_id rows) \<and>
      distinct (map (row_key env) rows)) \<and>
    (if dv_blockers dv = [] then list_all2 (\<lambda>r f. validate_cash_row env r = Inr f) rows (dv_completed dv) else True)"
proof -
  have "list_all2 (\<lambda>r f. validate_cash_row env r = Inr f) rows (dv_completed dv)" if "dv_blockers dv = []"
    using derive_clear(1) [OF assms that] by (rule list_all2_mono) simp
  then show ?thesis using derive_clear_iff [OF assms] by simp
qed

theorem derivation_clear_exactly_witness:
  "dv_blockers demo_derivation = [] \<and> clear_row demo_env ''lx-account'' demo_row \<and> dv_completed demo_derivation = [demo_completed]"
  using derivation_clear_exactly [OF demo_derive] demo_row_clear
  by (simp add: demo_derivation_def demo_strip)

text \<open>
  C12. The sums are exact: as long as the flows together stay below \<open>10^26\<close>, every day, month and year
  of the tables holds the exact sum of the yuan amounts of its flows in the window, and the cumulative
  amount is the sum of all of them, in spite of the rounding of every addition to 28 digits.
\<close>

theorem sums_exact:
  assumes "list_all (wf_completed env) fs" and "turnover fs < 10 ^ 26"
  shows "amount_at d (tt_daily (aggregate_flows first last_day fs)) =
      flow_sum (\<lambda>f. in_window first last_day f \<and> flow_date f = d) fs \<and>
    amount_at (y, m) (tt_monthly (aggregate_flows first last_day fs)) =
      flow_sum (\<lambda>f. in_window first last_day f \<and> (dt_year (flow_date f), dt_month (flow_date f)) = (y, m)) fs \<and>
    amount_at y (tt_yearly (aggregate_flows first last_day fs)) =
      flow_sum (\<lambda>f. in_window first last_day f \<and> dt_year (flow_date f) = y) fs \<and>
    tt_cumulative (aggregate_flows first last_day fs) = flow_sum (in_window first last_day) fs"
proof -
  have "list_all (in_cents \<circ> cp_cny_amount) fs" using assms(1) wf_completed_cents by (auto simp: list_all_iff)
  note exact = keyed_sums_exact [OF this assms(2)] cumulative_exact [OF this assms(2)]
  show ?thesis unfolding aggregate_keyed exact by (intro conjI refl)
qed

theorem sums_exact_witness: "amount_at demo_day (tt_daily (aggregate_flows demo_new_year demo_day [demo_completed])) = 100"
  using sums_exact [of demo_env "[demo_completed]" demo_day demo_new_year demo_day] demo_in_window demo_completed_wf
  by (simp add: turnover_def flow_sum_def demo_completed_def demo_manual_def)

text \<open>
  C10. Every flow enters exactly one gap between NAV records. The gap of a record is the exact sum of the
  flows after the previous record's day up to its own, and the gaps of two consecutive records add up
  to the gap over both, so no flow between them is lost or taken twice.
\<close>

theorem gaps_add_up:
  assumes "list_all (wf_completed env) fs" and "turnover fs < 10 ^ 26" and "date_le p d1" "date_le d1 d2"
  shows "gap_amount (Some p) d1 (tt_daily (aggregate_flows first d1 fs)) + gap_amount (Some d1) d2 (tt_daily (aggregate_flows first d2 fs)) =
      gap_amount (Some p) d2 (tt_daily (aggregate_flows first d2 fs)) \<and>
    gap_amount (Some p) d1 (tt_daily (aggregate_flows first d1 fs)) =
      flow_sum (\<lambda>f. date_le first (flow_date f) \<and> date_less p (flow_date f) \<and> date_le (flow_date f) d1) fs"
proof -
  have cents: "list_all (in_cents \<circ> cp_cny_amount) fs" using assms(1) wf_completed_cents by (auto simp: list_all_iff)
  have gap: "gap_amount (Some q) d (tt_daily (aggregate_flows first d fs)) =
      flow_sum (\<lambda>f. date_le first (flow_date f) \<and> date_less q (flow_date f) \<and> date_le (flow_date f) d) fs" for q d
    unfolding gap_exact [OF cents assms(2)] by (rule flow_sum_cong) (auto simp: in_window_def in_gap_def)
  note order = assms(3,4) [unfolded date_le_def]
  have "flow_sum (\<lambda>f. date_le first (flow_date f) \<and> date_less p (flow_date f) \<and> date_le (flow_date f) d1) fs +
      flow_sum (\<lambda>f. date_le first (flow_date f) \<and> date_less d1 (flow_date f) \<and> date_le (flow_date f) d2) fs =
    flow_sum (\<lambda>f. (date_le first (flow_date f) \<and> date_less p (flow_date f) \<and> date_le (flow_date f) d1) \<or>
      (date_le first (flow_date f) \<and> date_less d1 (flow_date f) \<and> date_le (flow_date f) d2)) fs"
    by (rule flow_sum_split) (auto simp: date_le_def date_less_def)
  also have "\<dots> = flow_sum (\<lambda>f. date_le first (flow_date f) \<and> date_less p (flow_date f) \<and> date_le (flow_date f) d2) fs"
  proof (rule flow_sum_cong)
    fix f
    have "flow_date f \<le> d1 \<or> d1 < flow_date f" "flow_date f \<le> d1 \<Longrightarrow> flow_date f \<le> d2" "d1 < flow_date f \<Longrightarrow> p < flow_date f"
      using order by (auto simp: not_le)
    then show "((date_le first (flow_date f) \<and> date_less p (flow_date f) \<and> date_le (flow_date f) d1) \<or>
        (date_le first (flow_date f) \<and> date_less d1 (flow_date f) \<and> date_le (flow_date f) d2)) =
      (date_le first (flow_date f) \<and> date_less p (flow_date f) \<and> date_le (flow_date f) d2)"
      unfolding date_le_def date_less_def by blast
  qed
  finally show ?thesis by (simp add: gap)
qed

theorem gaps_add_up_witness:
  "gap_amount (Some demo_new_year) demo_day (tt_daily (aggregate_flows demo_new_year demo_day [demo_completed])) +
     gap_amount (Some demo_day) demo_day (tt_daily (aggregate_flows demo_new_year demo_day [demo_completed])) =
   gap_amount (Some demo_new_year) demo_day (tt_daily (aggregate_flows demo_new_year demo_day [demo_completed]))"
  using gaps_add_up [of demo_env "[demo_completed]" demo_new_year demo_day demo_day demo_new_year] demo_order demo_completed_wf
  by (simp add: turnover_def demo_completed_def)

text \<open>
  C7. A dataset that passes the check before a NAV write is what it claims: it belongs to the account,
  day, run and window of the write, has no blockers, every raw row validates to the completed row in
  its place, with distinct keys and no duplicate group; its daily, monthly and yearly tables have
  exactly the entries of the sums of those rows, and its cumulative amount is theirs; the rows outside
  the window are listed; and a successful effect gate with a revision is bound to the account, the day
  and the fingerprint of these very rows.
\<close>

theorem official_scope_sound:
  assumes "assert_official_scope env account day run_id start_year d = Inr ()"
  shows "year_start start_year = Inr (ds_window_start d) \<and> ds_account d = py_strip account \<and> ds_nav_date d = day \<and>
      ds_window_end d = day \<and> ds_run_id d = py_strip run_id \<and> ds_version d = dataset_version \<and> ds_blockers d = [] \<and>
      list_all2 (\<lambda>r f. validate_cash_row env r = Inr f \<and> mf_account (cp_manual f) = ds_account d) (ds_raw_rows d) (ds_completed d) \<and>
      distinct (map (expected_dedup_key env) (map cp_manual (ds_completed d))) \<and>
      ds_groups d = [] \<and>
      map_of (tt_daily (ds_totals d)) = map_of (tt_daily (aggregate_flows (ds_window_start d) day (ds_completed d))) \<and>
      map_of (tt_monthly (ds_totals d)) = map_of (tt_monthly (aggregate_flows (ds_window_start d) day (ds_completed d))) \<and>
      map_of (tt_yearly (ds_totals d)) = map_of (tt_yearly (aggregate_flows (ds_window_start d) day (ds_completed d))) \<and>
      tt_cumulative (ds_totals d) = tt_cumulative (aggregate_flows (ds_window_start d) day (ds_completed d)) \<and>
      ds_audit_only d = sort (audit_only_ids (ds_window_start d) day (ds_completed d)) \<and>
      dict_get ''success'' (ds_gate d) = Some (JBool True) \<and> ds_revision d \<noteq> None \<and> gate_binds d \<and>
      ds_financial d = dataset_fingerprint env True (ds_raw_rows d) \<and> ds_full d = dataset_fingerprint env False (ds_raw_rows d)"
proof -
  obtain first where y: "year_start start_year = Inr first"
    using assms by (auto simp: assert_official_scope_def split: sum.splits)
  obtain dv where dv: "derive_rows env (ds_raw_rows d) (ds_account d) = Inr dv"
    using assms y by (auto simp: assert_official_scope_def split: sum.splits)
  have none: "scope_mismatches env account day run_id first d = []" "source_mismatches env dv d = []" "sum_mismatches d = []"
      "gate_mismatches d = []" and b: "ds_blockers d = []" and c: "dataset_complete d"
    using assms by (auto simp: assert_official_scope_def y dv Let_def split: if_splits)
  note scope = none(1) [unfolded scope_mismatches_def, simplified]
  note source = none(2) [unfolded source_mismatches_def, simplified]
  have "dv_blockers dv = []" using source b by (cases "dv_blockers dv") auto
  note clear = derive_clear [OF dv this]
  have strip: "py_strip (ds_account d) = ds_account d" using scope by simp
  have success: "dict_get ''success'' (ds_gate d) = Some (JBool True)" "ds_revision d \<noteq> None"
    using c by (simp_all add: dataset_complete_def)
  then have "gate_binds d" using none(4) by (simp add: gate_mismatches_def gate_binds_def)
  moreover define t where "t = aggregate_flows (ds_window_start d) day (ds_completed d)"
  then have "map_of (tt_daily (ds_totals d)) = map_of (tt_daily t)" "map_of (tt_monthly (ds_totals d)) = map_of (tt_monthly t)"
      "map_of (tt_yearly (ds_totals d)) = map_of (tt_yearly t)" "tt_cumulative (ds_totals d) = tt_cumulative t"
    using none(3) scope by (simp_all add: sum_mismatches_def Let_def same_dict_map)
  ultimately show ?thesis using y scope source b clear(1,2,5) success unfolding t_def by (simp add: strip)
qed

theorem official_scope_sound_witness:
  "ds_nav_date demo_dataset = demo_day \<and> gate_binds demo_dataset \<and> ds_blockers demo_dataset = []"
  using official_scope_sound [OF built_accepted [OF demo_dataset_built]]
  by (simp add: demo_row_facts demo_strip) (simp add: demo_dataset_def assembled_dataset_def Let_def demo_derivation_def demo_no_foreign)

text \<open>
  C8. The builder and the check fit together: a dataset built without blockers, with the effect service
  out of use or with its gate bound to the account, the day and the rows, always passes the check of
  the same run. A NAV is never refused because the two compute something differently.
\<close>

theorem built_dataset_accepted:
  assumes "build_dataset env store service rows account day run_id start_year = Inr d" "ds_blockers d = []"
    and "list_all (\<lambda>r. py_strip (rw_id r) = rw_id r) rows" "service = None \<or> gate_binds d"
  shows "assert_official_scope env account day run_id start_year d = Inr () \<and> dataset_complete d"
proof -
  have "assert_official_scope env account day run_id start_year d = Inr ()" by (rule built_accepted [OF assms])
  moreover from this have "dataset_complete d"
    by (auto simp: assert_official_scope_def Let_def split: sum.splits if_splits)
  ultimately show ?thesis ..
qed

theorem built_dataset_accepted_witness:
  "assert_official_scope demo_env ''lx-account'' demo_day ''run1'' 2024 demo_dataset = Inr () \<and> dataset_complete demo_dataset"
proof -
  have "ds_blockers demo_dataset = []"
    by (simp add: demo_dataset_def assembled_dataset_def Let_def demo_derivation_def demo_no_foreign)
  then show ?thesis
    using built_dataset_accepted [OF demo_dataset_built] by (simp add: demo_row_facts demo_strip)
qed


text \<open>
  C11. No dataset without blockers holds a foreign flow of its window on trust: the latest confirmation
  of the row's record in the operation store carries the fingerprint of exactly these generated
  fields, the day of the flow, the same rate and the same yuan amount, and its evidence is of an
  accepted type with a traceable source.
\<close>

theorem foreign_flows_evidenced:
  assumes "build_dataset env store service rows account day run_id start_year = Inr d" "ds_blockers d = []"
    and "f \<in> set (ds_completed d)" "in_window (ds_window_start d) (ds_window_end d) f" "mf_currency (cp_manual f) \<noteq> ''CNY''"
  shows "\<exists>c. latest_fx_confirmation (mf_record_id (cp_manual f)) store = Some c \<and>
    fx_source_hash c = generated_fingerprint env f \<and> fx_exchange_rate_date c = date_text (flow_date f) \<and>
    map_option dec_value (parse_decimal (fx_exchange_rate c)) = Some (cp_exchange_rate f) \<and>
    map_option dec_value (parse_decimal (fx_cny_amount c)) = Some (cp_cny_amount f) \<and>
    py_strip (fx_evidence_type c) \<in> set allowed_evidence_types \<and>
    py_lower (py_strip (fx_exchange_rate_source c)) \<notin> set ambiguous_rate_sources"
proof -
  have "evaluate_fx_confirmation env f (latest_fx_confirmation (mf_record_id (cp_manual f)) store) = FxValid"
    using built_evidence [OF assms] by (simp only: fx_outcome_clear)
  then show ?thesis
    by (rule fx_valid) (auto simp: fx_numbers_match_def split: option.splits)
qed

theorem foreign_flows_evidenced_witness:
  "\<exists>c. latest_fx_confirmation ''rec1'' demo_fx_store = Some c \<and> fx_source_hash c = generated_fingerprint demo_env demo_usd"
proof -
  have in_w: "in_window demo_new_year demo_day demo_usd"
    by (simp add: in_window_def demo_usd_def demo_manual_def demo_order)
  have foreign: "foreign_rows demo_new_year demo_day [demo_usd] = [demo_usd]" "audit_only_ids demo_new_year demo_day [demo_usd] = []"
    using in_w by (simp_all add: foreign_rows_def audit_only_ids_def demo_usd_def)
  obtain d where d: "build_dataset demo_env demo_fx_store None [demo_usd_row] ''lx-account'' demo_day ''run1'' 2024 = Inr d"
      "ds_blockers d = []" "ds_completed d = [demo_usd]" "ds_window_start d = demo_new_year" "ds_window_end d = demo_day"
    using demo_order(3)
    by (simp add: build_dataset_def preliminary_dataset_def demo_strip demo_run demo_year demo_usd_derive checked_dataset_def
        assembled_dataset_def Let_def foreign demo_fx_valid gated_dataset_def)
  have "mf_currency (cp_manual demo_usd) = ''USD''" "mf_record_id (cp_manual demo_usd) = ''rec1''"
    by (simp_all add: demo_usd_def demo_manual_def)
  then show ?thesis using foreign_flows_evidenced [OF d(1,2), of demo_usd] in_w by (auto simp: d)
qed

end
