(* ===== verification/Spec2Isabelle.thy ===== *)
theory Spec2Isabelle
  imports Op_Receipts Nav_Receipts Futu_Inbox Event_Inbox Holding_Monitor Case_Properties Agent_Names
    Fx_Confirmations Effect_Store Nav_Index Compensation Holding_Changes
    Receipt_Dispatch Snapshot_Set Nav_Values Cash_Flow_Properties
begin

text \<open>
  This library models the durable core of the portfolio manager: the two SQLite stores behind its
  workflows and the pure rules that decide what is written to them. The program keeps its business
  facts (holdings, cash flows, NAV history) in Feishu tables; what it owns itself is the state that
  makes work on those tables safe to repeat: inboxes of events, outboxes of receipts, cases that
  an operator or a policy decides, previews, confirmations and versioned effects.

  \<^bold>\<open>Reading the model.\<close> A table is a list of rows in insertion order, a row a record whose fields are
  the columns; an UPDATE with its WHERE clause is \<open>sql_update\<close>, the number of rows it hit
  \<open>rowcount\<close>, INSERT OR IGNORE \<open>insert_ignore\<close>, ORDER BY a stable sort, LIMIT \<open>sql_limit\<close>
  (theory Prelude). A transaction is a function from the state to an exception or a result with
  the new state; \<open>commit\<close> turns it into the operation: on an exception nothing has changed. A
  definition whose name ends in \<open>_tx\<close> is such a body, the one without the suffix is the public
  method. Clock readings, fresh identifiers and SHA-256 are arguments, in the order the code draws
  them, because they come from the outside; every theorem holds for all of their values. Times are
  whole microseconds. JSON columns hold the canonical value (theory Json), whose text is
  \<open>canonical_text\<close>.

  \<^bold>\<open>Theories and the code they model\<close> (paths under \<open>src/src/app\<close>).

  \<^item> \<open>Op_Schema\<close>: \<open>operation_state/_schema.py\<close>, one record per table and the store \<open>op_store\<close> of all
    of them; \<open>keys_ok\<close> states the primary keys.
  \<^item> \<open>Op_Receipts\<close>: \<open>operation_state/_receipt_tx.py\<close> and \<open>_operation_receipt_mixin.py\<close>, the outbox
    of operation receipts: enqueue, claim under a lease, start of the send, outcome, operator
    decision. The lease queue of Prelude is interpreted here, in Nav_Receipts and in Event_Inbox.
  \<^item> \<open>Nav_Receipts\<close>: \<open>operation_state/_nav_receipt_mixin.py\<close>.
  \<^item> \<open>Receipt_Dispatch\<close>: \<open>operation_receipt_outbox_service.py\<close> and \<open>nav_receipt_outbox_service.py\<close>,
    the delivery of the receipts of both outboxes; the senders are parameters.
  \<^item> \<open>Futu_Inbox\<close>: \<open>operation_state/_futu_refresh_mixin.py\<close>, the refresh requests of the broker
    and their settlement with its receipt.
  \<^item> \<open>Event_Inbox\<close>: \<open>operation_state/_cash_flow_event_mixin.py\<close> and \<open>_holding_event_mixin.py\<close>.
  \<^item> \<open>Case_Contract\<close>: \<open>holding_case_contract.py\<close>, preconditions and confirmation scopes.
  \<^item> \<open>Holding_Cases\<close>: \<open>operation_state/_holding_case_mixin.py\<close>, with \<open>Case_History\<close> (what one
    operation may do to cases and their history) and \<open>Case_Properties\<close> (its theorems).
  \<^item> \<open>Holding_Monitor\<close>: \<open>operation_state/_holding_monitor_mixin.py\<close> and the completion of a holding
    event, which materializes cases, closes absent ones and marks the event in one transaction.
  \<^item> \<open>Agent_Names\<close>: \<open>operation_state/_agent_name_mixin.py\<close> and the authorization and confirmation
    of \<open>agent_holding_name_service.py\<close>.
  \<^item> \<open>Fx_Confirmations\<close>: \<open>operation_state/_fx_confirmation_mixin.py\<close>.
  \<^item> \<open>Effect_Store\<close>: \<open>cash_flow_effect_store.py\<close>, with \<open>Dates\<close> for calendar dates.
  \<^item> \<open>Compensation\<close>: \<open>compensation_service.py\<close> and \<open>domain/compensation_contracts.py\<close>, the log of
    compensation tasks, its folding, their life cycle and the retry of their targets. The writer of
    one target, the mirror table and the check of a mutation are parameters.
  \<^item> \<open>Nav_Index\<close>: \<open>domain/nav_history_index.py\<close>, base rows of period returns.
  \<^item> \<open>Decimals\<close>, \<open>Holding_Values\<close>: decimal numbers, \<open>domain/holding_values.py\<close> and
    \<open>domain/holding_currencies.py\<close>; the classification of broker names, which tests for Chinese
    words, is a parameter.
  \<^item> \<open>Holding_Changes\<close>: \<open>domain/holding_changes.py\<close>, the comparison of two readings of the
    holdings.
  \<^item> \<open>Snapshot_Set\<close>: the exact-set plans and write authority of \<open>domain/snapshot_contracts.py\<close>,
    \<open>feishu/repositories/snapshots_repository.py\<close> with the batch calls of \<open>feishu_client.py\<close>, and
    \<open>apply_exact_set\<close> of \<open>snapshot_service.py\<close>. Which remote call fails, and how much of it was
    written, is an argument.
  \<^item> \<open>Floats\<close>, \<open>Quantize\<close>, \<open>Nav_Values\<close>: doubles and context decimals as rationals with their
    roundings, and on them \<open>domain/nav_calculator.py\<close> with the calculation of \<open>nav_record_service.py\<close>.
  \<^item> \<open>Calendar\<close>, \<open>Cash_Flow_Facts\<close>: dates of the calendar, and the row contract of
    \<open>domain/cash_flow_contracts.py\<close>: reading, manual and completed validation, building, written fields.
  \<^item> \<open>Cash_Flow_Dataset\<close>, with its theorems in \<open>Cash_Flow_Properties\<close>: the dataset of the same module,
    its derivation, sums, fingerprints and official check, \<open>cash_flow_summary_service.py\<close> and
    \<open>cash_flow_fx_confirmation.py\<close>. The effect service and the reader of dates are arguments.

  \<^bold>\<open>What the lemmas show.\<close> For each queue: its life cycle under every operation, that a claim takes
  exactly the due rows, that only the holder of the current claim can record an outcome, that work
  which was not finished is offered again, and that work which was finished or announced is not
  repeated. For the cases: that every operation keeps the history complete and the keys unique,
  that there is one live case per field, that an automatic write in flight is protected, and that a
  remote write is announced once per preparation. For the effects: that versions are contiguous and
  history only grows, and what a new version supersedes. For compensation: that a task only follows
  the allowed transitions and keeps its targets, and that a retry resolves it exactly when every
  target was written. For the pure rules: when the NAV index agrees with the scan it replaces, that
  canonical numbers are faithful, and that a row counts as deleted only after two readings. For the
  cash flows: what validation refuses and what it lets escape, that written fields read back, that a
  dataset which passes the check before a NAV write is derived from its rows and correctly summed, and
  that a clear dataset passes. For the snapshots: that no write touches a foreign change, and that a
  write which broke off anywhere is completed by the same call. For the net value: the error of every
  rounding it passes, that a first record is accepted, and one correct record that is refused.

  \<^bold>\<open>Not modelled.\<close> Opening, migrating and backing up database files, the Feishu and broker clients,
  HTTP, the command line, rendering of reports and of the messages of issues and blockers: they are
  input and output, or calls of packages that are not part of the repository. Of \<open>nav_calculator.py\<close> the
  yearly table, the growth rate, the finality entry and the fingerprints that the cash-flow basis copies
  from the dataset; of \<open>snapshot_service.py\<close> the local recovery file; the effect service that scans the
  remote rows. Loops recurse over lists, so no fuel is needed; the shortest decimal of a double is sought
  among 17 lengths, which always suffice.
\<close>

end
